(* ===== verification/Prelude.thy ===== *)
theory Prelude
  imports Main "HOL-Library.Word"
begin

text \<open>
  Shared ground of the remdb development: the outcome type of fallible Rust code, the
  error enumeration of \<^verbatim>\<open>src/src/types.rs\<close>, little-endian integers in byte buffers, linked
  lists threaded through an array (free lists, hash chains), and the generic list lemmas
  the components use.  Machine integers are \<open>'n word\<close>; \<open>usize\<close> counters and indices are
  \<open>nat\<close>, with an explicit \<open>Fault\<close> where the code would leave the range of the type.
\<close>

unbundle bit_operations_syntax

section \<open>Collections\<close>

named_theorems outcome_simps \<open>rewriting of the outcome monad\<close>
named_theorems table_defs \<open>definitions of the memory table operations\<close>
named_theorems index_defs \<open>definitions of the index operations\<close>

section \<open>Types of the model\<close>

type_synonym byte = "8 word"
type_synonym bytes = "byte list"
type_synonym u8 = "8 word"
type_synonym u16 = "16 word"
type_synonym u32 = "32 word"
type_synonym u64 = "64 word"

text \<open>
  \<open>RemDbError\<close> with the constructors of the source; payload strings are kept.
\<close>

datatype RemDbError =
    OutOfMemory | RecordNotFound | DuplicateKey | FieldNotFound | TypeMismatch
  | NotNullViolation | TransactionError | ConfigError | InvalidConfig string
  | CompressionError | NotAllowed | TwoMoreIndexNotSupported | UnsupportedOperation
  | FileIoError | DatabaseNotFound | DatabaseExists | DatabaseClosed
  | MaxDatabasesReached | SnapshotFormatError | Crc32Error | LogFormatError
  | LogRecordNotFound | LogChecksumError | LockConflict | LockTimeout | TableNotFound
  | InvalidRecordSize | InvalidSqlQuery | NoRecordsToOverwrite | InvalidArgument
  | InvalidState | InternalError | PlatformNotInitialized | LockError | InvalidPointer
  | InvalidData string | VariableSizeType | ProtocolError string | UnexpectedNone string

text \<open>
  The outcome of a fallible operation: the value, a \<open>RemDbError\<close>, or \<open>Fault\<close>, where the
  Rust code panics (index out of bounds, arithmetic overflow in a checked build) and, in an
  unchecked build, continues with a wrapped index into memory it does not own.
\<close>

datatype 'a outcome = Ok 'a | Err RemDbError | Fault

fun and_then :: "'a outcome \<Rightarrow> ('a \<Rightarrow> 'b outcome) \<Rightarrow> 'b outcome" where
  "and_then (Ok a) f = f a"
| "and_then (Err e) f = Err e"
| "and_then Fault f = Fault"

fun is_ok :: "'a outcome \<Rightarrow> bool" where
  "is_ok (Ok _) = True"
| "is_ok _ = False"

fun ok_value :: "'a outcome \<Rightarrow> 'a option" where
  "ok_value (Ok a) = Some a"
| "ok_value _ = None"

lemma ok_value_Some: "ok_value r = Some a \<longleftrightarrow> r = Ok a"
  by (cases r) auto

lemma and_then_Ok_iff [outcome_simps]:
  "and_then r f = Ok b \<longleftrightarrow> (\<exists>a. r = Ok a \<and> f a = Ok b)"
  by (cases r) auto

lemma and_then_Fault_iff [outcome_simps]:
  "and_then r f = Fault \<longleftrightarrow> r = Fault \<or> (\<exists>a. r = Ok a \<and> f a = Fault)"
  by (cases r) auto

lemma and_then_Err_iff [outcome_simps]:
  "and_then r f = Err e \<longleftrightarrow> r = Err e \<or> (\<exists>a. r = Ok a \<and> f a = Err e)"
  by (cases r) auto

lemma is_ok_iff [outcome_simps]: "is_ok r \<longleftrightarrow> (\<exists>a. r = Ok a)"
  by (cases r) auto

section \<open>Comparison results\<close>

datatype ordering = Less | Equal | Greater

definition cmp :: "'a::linorder \<Rightarrow> 'a \<Rightarrow> ordering" where
  "cmp a b = (if a < b then Less else if a = b then Equal else Greater)"

fun reverse_ordering :: "ordering \<Rightarrow> ordering" where
  "reverse_ordering Less = Greater"
| "reverse_ordering Equal = Equal"
| "reverse_ordering Greater = Less"

lemma cmp_Less [simp]: "cmp a b = Less \<longleftrightarrow> a < b"
  and cmp_Equal [simp]: "cmp a b = Equal \<longleftrightarrow> a = b"
  and cmp_Greater [simp]: "cmp a b = Greater \<longleftrightarrow> b < a"
  by (auto simp: cmp_def)

lemma cmp_refl [simp]: "cmp a a = Equal"
  by simp

lemma cmp_swap: "cmp b a = reverse_ordering (cmp a b)"
  by (auto simp: cmp_def)

text \<open>Lexicographic comparison of byte slices, as \<open>Ord\<close> for slices does it.\<close>

fun cmp_slice :: "'a::linorder list \<Rightarrow> 'a list \<Rightarrow> ordering" where
  "cmp_slice [] [] = Equal"
| "cmp_slice [] (y # ys) = Less"
| "cmp_slice (x # xs) [] = Greater"
| "cmp_slice (x # xs) (y # ys) =
     (if x < y then Less else if y < x then Greater else cmp_slice xs ys)"

lemma cmp_slice_Equal [simp]: "cmp_slice xs ys = Equal \<longleftrightarrow> xs = ys"
  by (induction xs ys rule: cmp_slice.induct) auto

lemma cmp_slice_refl [simp]: "cmp_slice xs xs = Equal"
  by simp

lemma cmp_slice_swap: "cmp_slice ys xs = reverse_ordering (cmp_slice xs ys)"
  by (induction xs ys rule: cmp_slice.induct) auto

lemma cmp_slice_trans:
  "cmp_slice xs ys = Less \<Longrightarrow> cmp_slice ys zs = Less \<Longrightarrow> cmp_slice xs zs = Less"
proof (induction xs ys arbitrary: zs rule: cmp_slice.induct)
  case (2 y ys)
  then show ?case by (cases zs) auto
next
  case (4 x xs y ys)
  then show ?case by (cases zs) (auto split: if_splits)
qed auto

section \<open>Little-endian integers in byte buffers\<close>

fun le_nat :: "bytes \<Rightarrow> nat" where
  "le_nat [] = 0"
| "le_nat (b # bs) = unat b + 256 * le_nat bs"

fun to_le :: "nat \<Rightarrow> nat \<Rightarrow> bytes" where
  "to_le 0 x = []"
| "to_le (Suc n) x = of_nat (x mod 256) # to_le n (x div 256)"

lemma length_to_le [simp]: "length (to_le n x) = n"
  by (induction n arbitrary: x) auto

lemma unat_of_nat_byte [simp]: "unat (of_nat (x mod 256) :: byte) = x mod 256"
  by (simp add: unat_of_nat)

lemma le_nat_to_le [simp]: "le_nat (to_le n x) = x mod 256 ^ n"
proof (induction n arbitrary: x)
  case 0
  then show ?case by simp
next
  case (Suc n)
  have "x mod 256 ^ Suc n = x mod 256 + 256 * (x div 256 mod 256 ^ n)"
    by (simp add: mod_mult2_eq)
  with Suc show ?case by simp
qed

lemma le_nat_bound: "le_nat bs < 256 ^ length bs"
proof (induction bs)
  case (Cons b bs)
  have "unat b < 256" using unsigned_less [of b] by simp
  with Cons show ?case by simp
qed simp

lemma to_le_le_nat [simp]: "to_le (length bs) (le_nat bs) = bs"
proof (induction bs)
  case (Cons b bs)
  have "unat b < 256" using unsigned_less [of b] by simp
  with Cons show ?case by simp
qed simp

lemma le_nat_inject: "length xs = length ys \<Longrightarrow> le_nat xs = le_nat ys \<longleftrightarrow> xs = ys"
  by (metis to_le_le_nat)

text \<open>
  Reading \<open>n\<close> bytes at an offset of a record buffer (\<^verbatim>\<open>read_unaligned(ptr.add(off))\<close>) and
  writing a slice there (\<^verbatim>\<open>memcpy\<close>).
\<close>

definition bytes_at :: "bytes \<Rightarrow> nat \<Rightarrow> nat \<Rightarrow> bytes" where
  "bytes_at bs off n = take n (drop off bs)"

definition bytes_put :: "bytes \<Rightarrow> nat \<Rightarrow> bytes \<Rightarrow> bytes" where
  "bytes_put bs off xs = take off bs @ xs @ drop (off + length xs) bs"

definition read_le :: "nat \<Rightarrow> bytes \<Rightarrow> nat \<Rightarrow> nat" where
  "read_le n bs off = le_nat (bytes_at bs off n)"

lemma length_bytes_at [simp]: "off + n \<le> length bs \<Longrightarrow> length (bytes_at bs off n) = n"
  by (simp add: bytes_at_def)

lemma length_bytes_put [simp]: "off + length xs \<le> length bs \<Longrightarrow> length (bytes_put bs off xs) = length bs"
  by (simp add: bytes_put_def)

lemma bytes_at_put_same [simp]:
  "off + length xs \<le> length bs \<Longrightarrow> bytes_at (bytes_put bs off xs) off (length xs) = xs"
  by (simp add: bytes_at_def bytes_put_def)

lemma bytes_at_put_other:
  assumes "off + length xs \<le> length bs" and "o2 + n \<le> off \<or> off + length xs \<le> o2"
    and "o2 + n \<le> length bs"
  shows "bytes_at (bytes_put bs off xs) o2 n = bytes_at bs o2 n"
proof (rule nth_equalityI)
  show "length (bytes_at (bytes_put bs off xs) o2 n) = length (bytes_at bs o2 n)"
    using assms by simp
next
  fix i
  assume "i < length (bytes_at (bytes_put bs off xs) o2 n)"
  with assms have "i < n" by simp
  with assms show "bytes_at (bytes_put bs off xs) o2 n ! i = bytes_at bs o2 n ! i"
    by (auto simp: bytes_at_def bytes_put_def nth_append)
qed

section \<open>Exclusive or\<close>

lemma xor_left_cancel_word [simp]:
  fixes a b c :: "'a::len word"
  shows "a XOR b = a XOR c \<longleftrightarrow> b = c"
proof
  assume "a XOR b = a XOR c"
  then have "a XOR (a XOR b) = a XOR (a XOR c)" by simp
  then show "b = c" by (simp flip: xor.assoc)
qed simp

lemma xor_right_cancel_word [simp]:
  fixes a b c :: "'a::len word"
  shows "b XOR a = c XOR a \<longleftrightarrow> b = c"
  by (simp add: xor.commute [of _ a])

section \<open>Lists threaded through an array\<close>

text \<open>
  \<open>chain nxt p xs\<close>: following \<open>nxt\<close> from the head pointer \<open>p\<close> visits exactly the cells \<open>xs\<close>
  and then ends.  It describes the free lists of the memory pools and of the index item
  pools, and the buckets of the hash index.
\<close>

fun chain :: "(nat \<Rightarrow> nat option) \<Rightarrow> nat option \<Rightarrow> nat list \<Rightarrow> bool" where
  "chain nxt p [] = (p = None)"
| "chain nxt p (x # xs) = (p = Some x \<and> chain nxt (nxt x) xs)"

lemma chain_None [simp]: "chain nxt None xs \<longleftrightarrow> xs = []"
  by (cases xs) auto

lemma chain_Some: "chain nxt (Some x) xs \<longleftrightarrow> (\<exists>ys. xs = x # ys \<and> chain nxt (nxt x) ys)"
  by (cases xs) auto

lemma chain_update [simp]:
  "x \<notin> set xs \<Longrightarrow> chain (nxt(x := v)) p xs = chain nxt p xs"
  by (induction xs arbitrary: p) auto

lemma chain_cong:
  "(\<And>x. x \<in> set xs \<Longrightarrow> nxt x = nxt' x) \<Longrightarrow> chain nxt p xs = chain nxt' p xs"
  by (induction xs arbitrary: p) auto

lemma chain_unique: "chain nxt p xs \<Longrightarrow> chain nxt p ys \<Longrightarrow> xs = ys"
  by (induction xs arbitrary: p ys) (auto simp: chain_Some elim: chain.elims)

section \<open>Lists\<close>

lemma take_Suc_update: "n < length xs \<Longrightarrow> take (Suc n) (xs[n := x]) = take n xs @ [x]"
  by (simp add: take_Suc_conv_app_nth)

lemma set_take_nth: "n \<le> length xs \<Longrightarrow> set (take n xs) = (\<lambda>i. xs ! i) ` {..<n}"
  by (auto simp: set_conv_nth image_iff) (metis lessThan_iff nth_take)

lemma sorted_wrt_insert_middle:
  "sorted_wrt R (xs @ ys) \<Longrightarrow> (\<And>x. x \<in> set xs \<Longrightarrow> R x a) \<Longrightarrow> (\<And>y. y \<in> set ys \<Longrightarrow> R a y)
    \<Longrightarrow> sorted_wrt R (xs @ a # ys)"
  by (auto simp: sorted_wrt_append)

lemma card_Collect_insert:
  "finite {i. P i} \<Longrightarrow> \<not> P k \<Longrightarrow> card {i. i = k \<or> P i} = Suc (card {i. P i})"
  by (simp add: Collect_disj_eq)

end
