(* ===== verification/Types.thy ===== *)
theory Types
  imports Prelude
begin

text \<open>
  The data model of \<^verbatim>\<open>src/src/types.rs\<close>: data types and their encodings, vector and JSON
  metadata, timestamps and intervals, IEEE comparison on float bit patterns, field and table
  definitions, record headers, time helpers and time zones.
\<close>

section \<open>Distance, vector index and vector metadata\<close>

datatype DistanceType = L2 | InnerProduct | Cosine

datatype VectorIndexType = HNSW | HNSW_SQ | HNSW_BQ | IVF | IVF_PQ

record VectorMetadata =
  dimension :: u16
  distance_type :: DistanceType
  vindex_type :: VectorIndexType
  compression_enabled :: bool
  compression_scheme :: u8
  compression_level :: u8
  hnsw_m :: u8
  hnsw_ef_construction :: u32
  hnsw_ef_search :: u32
  ivf_nlist :: u32
  ivf_nprobe :: u32

definition with_all_params ::
  "u16 \<Rightarrow> DistanceType \<Rightarrow> VectorIndexType \<Rightarrow> bool \<Rightarrow> u8 \<Rightarrow> u8 \<Rightarrow> u8 \<Rightarrow> u32 \<Rightarrow> u32 \<Rightarrow> u32 \<Rightarrow> u32
     \<Rightarrow> VectorMetadata" where
  "with_all_params d dt it ce cs cl m efc efs nl np =
     \<lparr>dimension = d, distance_type = dt, vindex_type = it, compression_enabled = ce,
      compression_scheme = cs, compression_level = cl, hnsw_m = m,
      hnsw_ef_construction = efc, hnsw_ef_search = efs, ivf_nlist = nl, ivf_nprobe = np\<rparr>"

definition with_compression ::
  "u16 \<Rightarrow> DistanceType \<Rightarrow> VectorIndexType \<Rightarrow> bool \<Rightarrow> u8 \<Rightarrow> u8 \<Rightarrow> VectorMetadata" where
  "with_compression d dt it ce cs cl =
     \<lparr>dimension = d, distance_type = dt, vindex_type = it, compression_enabled = ce,
      compression_scheme = cs, compression_level = cl, hnsw_m = 16,
      hnsw_ef_construction = 200, hnsw_ef_search = 128, ivf_nlist = 1024, ivf_nprobe = 16\<rparr>"

definition VectorMetadata_new :: "u16 \<Rightarrow> DistanceType \<Rightarrow> VectorIndexType \<Rightarrow> VectorMetadata" where
  "VectorMetadata_new d dt it =
     \<lparr>dimension = d, distance_type = dt, vindex_type = it, compression_enabled = False,
      compression_scheme = 0, compression_level = 3, hnsw_m = 16,
      hnsw_ef_construction = 200, hnsw_ef_search = 128, ivf_nlist = 1024, ivf_nprobe = 16\<rparr>"

section \<open>Index types and data types\<close>

datatype IndexType = Hash | SortedArray | BTree | TTree | VectorIndex | JsonIndex

definition index_type_from :: "u8 \<Rightarrow> IndexType" where
  "index_type_from v =
     (if v = 0 then Hash else if v = 1 then SortedArray else if v = 2 then BTree
      else if v = 3 then TTree else if v = 4 then VectorIndex else if v = 5 then JsonIndex
      else SortedArray)"

fun index_type_code :: "IndexType \<Rightarrow> u8" where
  "index_type_code Hash = 0"
| "index_type_code SortedArray = 1"
| "index_type_code BTree = 2"
| "index_type_code TTree = 3"
| "index_type_code VectorIndex = 4"
| "index_type_code JsonIndex = 5"

datatype DataType =
    UInt8 | UInt16 | UInt32 | UInt64 | Int8 | Int16 | Int32 | Int64 | Float32 | Float64
  | Bool | Timestamp | TimestampTZ | VarChar | Char | Text | Interval | Vector | Json

fun data_type_code :: "DataType \<Rightarrow> u8" where
  "data_type_code UInt8 = 0"
| "data_type_code UInt16 = 1"
| "data_type_code UInt32 = 2"
| "data_type_code UInt64 = 3"
| "data_type_code Int8 = 4"
| "data_type_code Int16 = 5"
| "data_type_code Int32 = 6"
| "data_type_code Int64 = 7"
| "data_type_code Float32 = 8"
| "data_type_code Float64 = 9"
| "data_type_code Bool = 10"
| "data_type_code Timestamp = 11"
| "data_type_code TimestampTZ = 12"
| "data_type_code VarChar = 13"
| "data_type_code Char = 14"
| "data_type_code Text = 15"
| "data_type_code Interval = 16"
| "data_type_code Vector = 17"
| "data_type_code Json = 18"

definition data_type_from :: "u8 \<Rightarrow> DataType" where
  "data_type_from v =
     (if v = 0 then UInt8 else if v = 1 then UInt16 else if v = 2 then UInt32
      else if v = 3 then UInt64 else if v = 4 then Int8 else if v = 5 then Int16
      else if v = 6 then Int32 else if v = 7 then Int64 else if v = 8 then Float32
      else if v = 9 then Float64 else if v = 10 then Bool else if v = 11 then Timestamp
      else if v = 12 then TimestampTZ else if v = 13 then VarChar else if v = 14 then Char
      else if v = 15 then Text else if v = 16 then Interval else if v = 17 then Vector
      else if v = 18 then Json else VarChar)"

text \<open>\<open>size_of::<db_timestamp>()\<close> and \<open>size_of::<db_interval>()\<close> are 16 under \<open>repr(C)\<close>.\<close>

fun data_type_size :: "DataType \<Rightarrow> nat option" where
  "data_type_size UInt8 = Some 1"
| "data_type_size UInt16 = Some 2"
| "data_type_size UInt32 = Some 4"
| "data_type_size UInt64 = Some 8"
| "data_type_size Int8 = Some 1"
| "data_type_size Int16 = Some 2"
| "data_type_size Int32 = Some 4"
| "data_type_size Int64 = Some 8"
| "data_type_size Float32 = Some 4"
| "data_type_size Float64 = Some 8"
| "data_type_size Bool = Some 1"
| "data_type_size Timestamp = Some 16"
| "data_type_size TimestampTZ = Some 16"
| "data_type_size Interval = Some 16"
| "data_type_size VarChar = None"
| "data_type_size Char = None"
| "data_type_size Text = None"
| "data_type_size Vector = None"
| "data_type_size Json = None"

definition size_unwrap :: "DataType \<Rightarrow> nat outcome" where
  "size_unwrap dt = (case data_type_size dt of Some s \<Rightarrow> Ok s | None \<Rightarrow> Fault)"

text \<open>The derived \<open>Ord\<close> of the enumeration compares discriminants.\<close>

definition data_type_cmp :: "DataType \<Rightarrow> DataType \<Rightarrow> ordering" where
  "data_type_cmp a b = cmp (data_type_code a) (data_type_code b)"

section \<open>JSON metadata\<close>

record JsonIndexConfig =
  jic_index_type :: IndexType
  path_index_enabled :: bool
  max_depth :: u8
  index_array_elements :: bool
  index_object_keys :: bool

definition JsonIndexConfig_default :: JsonIndexConfig where
  "JsonIndexConfig_default =
     \<lparr>jic_index_type = BTree, path_index_enabled = True, max_depth = 10,
      index_array_elements = True, index_object_keys = True\<rparr>"

record JsonMetadata =
  jm_path :: string
  value_type :: "DataType option"
  virtual_column :: bool
  virtual_column_name :: "string option"
  index_config :: JsonIndexConfig

definition JsonMetadata_new :: "string \<Rightarrow> JsonMetadata" where
  "JsonMetadata_new p =
     \<lparr>jm_path = p, value_type = None, virtual_column = False, virtual_column_name = None,
      index_config = JsonIndexConfig_default\<rparr>"

definition with_virtual_column :: "string \<Rightarrow> string \<Rightarrow> JsonMetadata" where
  "with_virtual_column p c =
     \<lparr>jm_path = p, value_type = None, virtual_column = True, virtual_column_name = Some c,
      index_config = JsonIndexConfig_default\<rparr>"

section \<open>Timestamps and intervals\<close>

text \<open>
  \<open>i64\<close> fields are kept as 64-bit words read by \<open>sint\<close>; addition and subtraction wrap as in a
  release build.
\<close>

record db_interval =
  iv_value :: u64
  iv_precision :: u8
  iv_flags :: u8

record db_timestamp =
  ts_value :: u64
  tz_offset :: u16
  ts_precision :: u8
  ts_flags :: u8

definition storage_size :: "u8 \<Rightarrow> nat" where
  "storage_size p = (if p \<le> 2 then 4 else if p \<le> 5 then 6 else if p \<le> 8 then 8
                     else if p = 9 then 10 else 8)"

definition ts_add :: "db_timestamp \<Rightarrow> db_interval \<Rightarrow> db_timestamp" where
  "ts_add t i =
     \<lparr>ts_value = ts_value t + iv_value i, tz_offset = tz_offset t,
      ts_precision = max (ts_precision t) (iv_precision i), ts_flags = ts_flags t\<rparr>"

definition ts_sub :: "db_timestamp \<Rightarrow> db_interval \<Rightarrow> db_timestamp" where
  "ts_sub t i =
     \<lparr>ts_value = ts_value t - iv_value i, tz_offset = tz_offset t,
      ts_precision = max (ts_precision t) (iv_precision i), ts_flags = ts_flags t\<rparr>"

definition ts_diff :: "db_timestamp \<Rightarrow> db_timestamp \<Rightarrow> db_interval" where
  "ts_diff a b =
     \<lparr>iv_value = ts_value a - ts_value b,
      iv_precision = max (ts_precision a) (ts_precision b), iv_flags = 0\<rparr>"

definition convert_timezone :: "db_timestamp \<Rightarrow> u16 \<Rightarrow> db_timestamp" where
  "convert_timezone t off =
     \<lparr>ts_value = ts_value t, tz_offset = off, ts_precision = ts_precision t,
      ts_flags = ts_flags t\<rparr>"

section \<open>Time zones\<close>

record TimeZone =
  tz_name :: string
  tz_off :: int
  uses_dst :: bool

definition TIME_ZONES :: "TimeZone list" where
  "TIME_ZONES =
     [\<lparr>tz_name = ''UTC'', tz_off = 0, uses_dst = False\<rparr>,
      \<lparr>tz_name = ''Asia/Shanghai'', tz_off = 8 * 3600, uses_dst = False\<rparr>,
      \<lparr>tz_name = ''America/New_York'', tz_off = - 5 * 3600, uses_dst = True\<rparr>,
      \<lparr>tz_name = ''Europe/London'', tz_off = 0, uses_dst = True\<rparr>,
      \<lparr>tz_name = ''Asia/Tokyo'', tz_off = 9 * 3600, uses_dst = False\<rparr>]"

text \<open>\<open>eq_ignore_ascii_case\<close> of the standard library: ASCII letters folded, others exact.\<close>

definition ascii_lower :: "char \<Rightarrow> char" where
  "ascii_lower c = (if 65 \<le> (of_char c :: nat) \<and> (of_char c :: nat) \<le> 90
                    then char_of ((of_char c :: nat) + 32) else c)"

definition eq_ignore_ascii_case :: "string \<Rightarrow> string \<Rightarrow> bool" where
  "eq_ignore_ascii_case a b \<longleftrightarrow> map ascii_lower a = map ascii_lower b"

definition find_timezone :: "string \<Rightarrow> TimeZone option" where
  "find_timezone name = List.find (\<lambda>tz. eq_ignore_ascii_case (tz_name tz) name) TIME_ZONES"

text \<open>\<open>tz.offset as i16\<close> truncates the \<open>i32\<close> offset to 16 bits.\<close>

definition get_timezone_offset :: "string \<Rightarrow> u16 option" where
  "get_timezone_offset name = map_option (\<lambda>tz. word_of_int (tz_off tz)) (find_timezone name)"

definition create_timezone_from_offset :: "u16 \<Rightarrow> TimeZone" where
  "create_timezone_from_offset off = \<lparr>tz_name = ''UTC'', tz_off = sint off, uses_dst = False\<rparr>"

section \<open>Time helpers\<close>

definition seconds_to_millis :: "u64 \<Rightarrow> u64" where "seconds_to_millis s = s * 1000"
definition millis_to_seconds :: "u64 \<Rightarrow> u64" where "millis_to_seconds m = m div 1000"
definition micros_to_millis :: "u64 \<Rightarrow> u64" where "micros_to_millis m = m div 1000"
definition millis_to_micros :: "u64 \<Rightarrow> u64" where "millis_to_micros m = m * 1000"
definition nanos_to_millis :: "u64 \<Rightarrow> u64" where "nanos_to_millis n = n div 1000000"
definition millis_to_nanos :: "u64 \<Rightarrow> u64" where "millis_to_nanos m = m * 1000000"

definition time_diff :: "u64 \<Rightarrow> u64 \<Rightarrow> u64" where
  "time_diff start end' = (if start \<le> end' then end' - start else start - end')"

definition is_in_time_range :: "u64 \<Rightarrow> u64 \<Rightarrow> u64 \<Rightarrow> bool" where
  "is_in_time_range t start end' \<longleftrightarrow> t \<ge> start \<and> t \<le> end'"

section \<open>IEEE 754 bit patterns\<close>

text \<open>
  A float is its bit pattern.  \<open>f32_key\<close>/\<open>f64_key\<close> order the non-NaN values as the IEEE
  comparison does: the magnitude with the sign, so that both zeros coincide.
\<close>

definition f32_is_nan :: "u32 \<Rightarrow> bool" where
  "f32_is_nan w \<longleftrightarrow> 0x7F800000 < w AND 0x7FFFFFFF"

definition f32_is_infinite :: "u32 \<Rightarrow> bool" where
  "f32_is_infinite w \<longleftrightarrow> w AND 0x7FFFFFFF = 0x7F800000"

definition f32_key :: "u32 \<Rightarrow> int" where
  "f32_key w = (if w AND 0x80000000 = 0 then uint (w AND 0x7FFFFFFF)
                else - uint (w AND 0x7FFFFFFF))"

definition f32_eq :: "u32 \<Rightarrow> u32 \<Rightarrow> bool" where
  "f32_eq a b \<longleftrightarrow> \<not> f32_is_nan a \<and> \<not> f32_is_nan b \<and> f32_key a = f32_key b"

definition f64_is_nan :: "u64 \<Rightarrow> bool" where
  "f64_is_nan w \<longleftrightarrow> 0x7FF0000000000000 < w AND 0x7FFFFFFFFFFFFFFF"

definition f64_is_infinite :: "u64 \<Rightarrow> bool" where
  "f64_is_infinite w \<longleftrightarrow> w AND 0x7FFFFFFFFFFFFFFF = 0x7FF0000000000000"

definition f64_key :: "u64 \<Rightarrow> int" where
  "f64_key w = (if w AND 0x8000000000000000 = 0 then uint (w AND 0x7FFFFFFFFFFFFFFF)
                else - uint (w AND 0x7FFFFFFFFFFFFFFF))"

definition f64_eq :: "u64 \<Rightarrow> u64 \<Rightarrow> bool" where
  "f64_eq a b \<longleftrightarrow> \<not> f64_is_nan a \<and> \<not> f64_is_nan b \<and> f64_key a = f64_key b"

lemma f32_eq_sym: "f32_eq a b = f32_eq b a"
  by (auto simp: f32_eq_def)

lemma f64_eq_sym: "f64_eq a b = f64_eq b a"
  by (auto simp: f64_eq_def)

section \<open>Reading integers at their width\<close>

definition read_u8 :: "bytes \<Rightarrow> nat \<Rightarrow> u8" where "read_u8 bs off = of_nat (read_le 1 bs off)"
definition read_u16 :: "bytes \<Rightarrow> nat \<Rightarrow> u16" where "read_u16 bs off = of_nat (read_le 2 bs off)"
definition read_u32 :: "bytes \<Rightarrow> nat \<Rightarrow> u32" where "read_u32 bs off = of_nat (read_le 4 bs off)"
definition read_u64 :: "bytes \<Rightarrow> nat \<Rightarrow> u64" where "read_u64 bs off = of_nat (read_le 8 bs off)"

definition read_timestamp :: "bytes \<Rightarrow> nat \<Rightarrow> db_timestamp" where
  "read_timestamp bs off =
     \<lparr>ts_value = read_u64 bs off, tz_offset = read_u16 bs (off + 8),
      ts_precision = read_u8 bs (off + 10), ts_flags = read_u8 bs (off + 11)\<rparr>"

definition read_interval :: "bytes \<Rightarrow> nat \<Rightarrow> db_interval" where
  "read_interval bs off =
     \<lparr>iv_value = read_u64 bs off, iv_precision = read_u8 bs (off + 8),
      iv_flags = read_u8 bs (off + 9)\<rparr>"

section \<open>Field and table definitions, record headers\<close>

definition MAX_STRING_LEN :: nat where "MAX_STRING_LEN = 64"

text \<open>The default value is the raw memory of the \<open>Value\<close> union.\<close>

record FieldDef =
  f_name :: string
  data_type :: DataType
  f_size :: nat
  string_length :: "nat option"
  offset :: nat
  f_primary_key :: bool
  not_null :: bool
  unique :: bool
  auto_increment :: bool
  default_value :: "bytes option"
  vector_metadata :: "VectorMetadata option"
  json_metadata :: "JsonMetadata option"

definition FieldDef_default :: FieldDef where
  "FieldDef_default =
     \<lparr>f_name = '''', data_type = Int32, f_size = 0, string_length = None, offset = 0,
      f_primary_key = False, not_null = False, unique = False, auto_increment = False,
      default_value = None, vector_metadata = None, json_metadata = None\<rparr>"

record TableDef =
  t_id :: u8
  t_name :: string
  t_fields :: "FieldDef list"
  primary_key :: "nat list"
  secondary_index :: "nat list option"
  secondary_index_type :: IndexType
  def_record_size :: nat
  max_records :: nat
  t_version :: u32
  created_at :: u64
  updated_at :: u64

datatype RecordStatus = Free | Used | Deleted

datatype LockType = LockNone | LockShared | LockExclusive

record RecordHeader =
  status :: RecordStatus
  version :: u16
  lock_type :: LockType
  lock_owner :: u32
  lock_count :: u8
  create_tx_id :: u32
  delete_tx_id :: u32
  next_version_ptr :: nat

section \<open>Lemmas\<close>

lemma data_type_from_code [simp]: "data_type_from (data_type_code d) = d"
  by (cases d) (simp_all add: data_type_from_def)

lemma data_type_code_inject: "data_type_code a = data_type_code b \<longleftrightarrow> a = b"
  by (metis data_type_from_code)

lemma index_type_from_code [simp]: "index_type_from (index_type_code i) = i"
  by (cases i) (simp_all add: index_type_from_def)

lemma ts_add_sub_value: "ts_value (ts_sub (ts_add t i) i) = ts_value t"
  by (simp add: ts_add_def ts_sub_def)

lemma read_le_1: "read_le 1 bs off < 256"
proof -
  have "le_nat (bytes_at bs off 1) < 256 ^ length (bytes_at bs off 1)" by (rule le_nat_bound)
  also have "\<dots> \<le> 256 ^ 1"
    by (rule power_increasing) (auto simp: bytes_at_def)
  finally show ?thesis by (simp add: read_le_def)
qed

end
