(* ===== verification/TxLog.thy ===== *)
theory TxLog
  imports Types
begin

text \<open>
  Transactions and their undo/redo log items, from \<^verbatim>\<open>src/src/transaction.rs\<close>: the log item
  format and its checksums, the transaction context with its bounded log buffer, MVCC
  visibility, and the begin and commit handlers of the transaction manager.  Spin locks are
  taken and released inside every handler; the model is sequential and leaves them out.  The
  clock is an argument.  The log manager is a type parameter \<open>'lm\<close>, and its write operation an
  argument, until theory \<open>Wal\<close> supplies it.
\<close>

section \<open>Data\<close>

datatype IsolationLevel = ReadUncommitted | ReadCommitted | RepeatableRead | Serializable

datatype TransactionType = ReadOnly | ReadWrite

datatype TransactionStatus = Active | Committed | RolledBack | Prepared

datatype LogOperation =
    Insert | Delete | Update | TimeSeriesInsert | CreateTable | Commit | Abort | Checkpoint
  | CreateIndex | EnterLowPowerMode | ExitLowPowerMode | AlterTable | DropTable
  | CreateDatabase

fun log_op_code :: "LogOperation \<Rightarrow> nat" where
  "log_op_code Insert = 0"
| "log_op_code Delete = 1"
| "log_op_code Update = 2"
| "log_op_code TimeSeriesInsert = 3"
| "log_op_code CreateTable = 4"
| "log_op_code Commit = 5"
| "log_op_code Abort = 6"
| "log_op_code Checkpoint = 7"
| "log_op_code CreateIndex = 8"
| "log_op_code EnterLowPowerMode = 9"
| "log_op_code ExitLowPowerMode = 10"
| "log_op_code AlterTable = 11"
| "log_op_code DropTable = 12"
| "log_op_code CreateDatabase = 13"

record LogItem =
  op_type :: LogOperation
  li_table_id :: u8
  record_id :: u16
  old_data_size :: u16
  new_data_size :: u16
  li_tx_id :: u32
  timestamp :: u64
  checksum :: u32

definition LogItem_default :: LogItem where
  "LogItem_default =
     \<lparr>op_type = Insert, li_table_id = 0, record_id = 0, old_data_size = 0, new_data_size = 0,
      li_tx_id = 0, timestamp = 0, checksum = 0\<rparr>"

record VariableSizeLogItem =
  header :: LogItem
  old_data :: bytes
  new_data :: bytes

record Transaction =
  tx_id :: u32
  tx_type :: TransactionType
  tx_status :: TransactionStatus
  isolation_level :: IsolationLevel
  start_time :: u64
  log_items :: "VariableSizeLogItem list"
  max_log_items :: nat
  log_item_count :: nat
  depth :: u8

definition Transaction_default :: Transaction where
  "Transaction_default =
     \<lparr>tx_id = 0, tx_type = ReadWrite, tx_status = Active, isolation_level = RepeatableRead,
      start_time = 0, log_items = [], max_log_items = 0, log_item_count = 0, depth = 1\<rparr>"

record 'lm TransactionManager =
  current_tx :: "Transaction option"
  tx_id_counter :: u32
  log_manager :: "'lm option"
  snapshot_version :: u32
  active_snapshots :: "u32 list"
  tm_low_power_mode :: bool

definition TransactionManager_new :: "'lm TransactionManager" where
  "TransactionManager_new =
     \<lparr>current_tx = None, tx_id_counter = 1, log_manager = None, snapshot_version = 0,
      active_snapshots = [], tm_low_power_mode = False\<rparr>"

section \<open>Checksums\<close>

definition calculate_log_item_checksum :: "LogItem \<Rightarrow> u32" where
  "calculate_log_item_checksum h =
     of_nat (log_op_code (op_type h)) XOR ucast (li_table_id h) XOR ucast (record_id h)
       XOR ucast (old_data_size h) XOR ucast (new_data_size h) XOR li_tx_id h
       XOR ucast (timestamp h)"

definition xor_bytes :: "bytes \<Rightarrow> u32 \<Rightarrow> u32" where
  "xor_bytes bs c = fold (\<lambda>b acc. acc XOR ucast b) bs c"

definition calculate_variable_size_log_item_checksum :: "VariableSizeLogItem \<Rightarrow> u32" where
  "calculate_variable_size_log_item_checksum v =
     xor_bytes (new_data v) (xor_bytes (old_data v) (calculate_log_item_checksum (header v)))"

text \<open>
  The block checksum of the log header and checkpoint: little-endian 32-bit words, then the
  remaining bytes one at a time.
\<close>

fun calculate_checksum_from :: "u32 \<Rightarrow> bytes \<Rightarrow> u32" where
  "calculate_checksum_from c (a # b # d # e # rest) =
     calculate_checksum_from (c XOR of_nat (le_nat [a, b, d, e])) rest"
| "calculate_checksum_from c (a # rest) = calculate_checksum_from (c XOR ucast a) rest"
| "calculate_checksum_from c [] = c"

definition calculate_checksum :: "bytes \<Rightarrow> u32" where
  "calculate_checksum bs = calculate_checksum_from 0 bs"

section \<open>Log items of a transaction\<close>

definition data_len :: "bytes option \<Rightarrow> u16" where
  "data_len d = (case d of None \<Rightarrow> 0 | Some b \<Rightarrow> of_nat (length b))"

definition data_vec :: "bytes option \<Rightarrow> bytes" where
  "data_vec d = (case d of None \<Rightarrow> [] | Some b \<Rightarrow> b)"

definition begin_variable_size_log_item ::
  "u64 \<Rightarrow> u32 \<Rightarrow> LogOperation \<Rightarrow> u8 \<Rightarrow> u16 \<Rightarrow> bytes option \<Rightarrow> bytes option
     \<Rightarrow> VariableSizeLogItem" where
  "begin_variable_size_log_item now tid op tbl rid old new =
     (let h = \<lparr>op_type = op, li_table_id = tbl, record_id = rid, old_data_size = data_len old,
               new_data_size = data_len new, li_tx_id = tid, timestamp = now, checksum = 0\<rparr>;
          v = \<lparr>header = h, old_data = data_vec old, new_data = data_vec new\<rparr>
      in v\<lparr>header := h\<lparr>checksum := calculate_variable_size_log_item_checksum v\<rparr>\<rparr>)"

text \<open>
  \<open>begin_log_item\<close> fills the next entry of the transaction's log buffer; with a full buffer it
  returns \<open>None\<close> and the callers go on without a log item.
\<close>

definition begin_log_item ::
  "u64 \<Rightarrow> u32 \<Rightarrow> LogOperation \<Rightarrow> u8 \<Rightarrow> u16 \<Rightarrow> u16 \<Rightarrow> bytes option \<Rightarrow> bytes option
     \<Rightarrow> Transaction \<Rightarrow> Transaction option" where
  "begin_log_item now tid op tbl rid data_size old new tx =
     (if log_item_count tx \<ge> max_log_items tx then None
      else
        let item = begin_variable_size_log_item now tid op tbl rid old new
        in Some (tx\<lparr>log_items := (log_items tx)[log_item_count tx := item],
                    log_item_count := log_item_count tx + 1\<rparr>))"

definition is_active :: "Transaction \<Rightarrow> bool" where
  "is_active tx \<longleftrightarrow> tx_status tx = Active"

definition is_read_only :: "Transaction \<Rightarrow> bool" where
  "is_read_only tx \<longleftrightarrow> tx_type tx = ReadOnly"

definition has_active_tx :: "'lm TransactionManager \<Rightarrow> bool" where
  "has_active_tx tm \<longleftrightarrow> current_tx tm \<noteq> None"

text \<open>
  The logging step shared by the table operations: if a transaction is current, append an item
  under its id, ignoring a full buffer.
\<close>

definition log_in_tx ::
  "u64 \<Rightarrow> LogOperation \<Rightarrow> u8 \<Rightarrow> u16 \<Rightarrow> u16 \<Rightarrow> bytes option \<Rightarrow> bytes option
     \<Rightarrow> 'lm TransactionManager \<Rightarrow> 'lm TransactionManager" where
  "log_in_tx now op tbl rid data_size old new tm =
     (case current_tx tm of
        None \<Rightarrow> tm
      | Some tx \<Rightarrow>
          (case begin_log_item now (tx_id tx) op tbl rid data_size old new tx of
             None \<Rightarrow> tm
           | Some tx' \<Rightarrow> tm\<lparr>current_tx := Some tx'\<rparr>))"

section \<open>Handlers of the transaction manager\<close>

text \<open>
  MVCC visibility, the three rules in the order of the code.
\<close>

definition is_visible :: "u32 \<Rightarrow> u32 \<Rightarrow> u32 \<Rightarrow> bool" where
  "is_visible create del cur =
     (if create = cur then True
      else if del > 0 \<and> del < cur then False
      else if create < cur then True
      else False)"

text \<open>
  \<open>begin\<close>: the buffers are given by the caller, \<open>None\<close> for a null pointer.  The identifier is
  taken before the transaction buffer is checked, so a null buffer still consumes one.  The
  counter is a \<open>u32\<close> and wraps in a release build.
\<close>

definition begin_tx ::
  "u64 \<Rightarrow> TransactionType \<Rightarrow> IsolationLevel \<Rightarrow> Transaction option
     \<Rightarrow> VariableSizeLogItem list option \<Rightarrow> nat \<Rightarrow> 'lm TransactionManager
     \<Rightarrow> Transaction outcome \<times> 'lm TransactionManager" where
  "begin_tx now ty isol tx_buffer log_buffer max_items tm =
     (if current_tx tm \<noteq> None then (Err TransactionError, tm)
      else
        let tid = tx_id_counter tm;
            tm1 = tm\<lparr>tx_id_counter := tid + 1\<rparr>
        in (case tx_buffer of
              None \<Rightarrow> (Err TransactionError, tm1)
            | Some _ \<Rightarrow>
                let tx = \<lparr>tx_id = tid, tx_type = ty, tx_status = Active, isolation_level = isol,
                          start_time = now,
                          log_items = (case log_buffer of None \<Rightarrow> [] | Some b \<Rightarrow> b),
                          max_log_items = (case log_buffer of None \<Rightarrow> 0 | Some _ \<Rightarrow> max_items),
                          log_item_count = 0, depth = 1\<rparr>
                in (Ok tx, tm1\<lparr>current_tx := Some tx\<rparr>)))"

text \<open>
  \<open>commit_log_item\<close> writes the items in order to the log manager, if there is one, and stops at
  the first failing write.
\<close>

fun write_all ::
  "(VariableSizeLogItem \<Rightarrow> 'lm \<Rightarrow> unit outcome \<times> 'lm) \<Rightarrow> VariableSizeLogItem list \<Rightarrow> 'lm
     \<Rightarrow> unit outcome \<times> 'lm" where
  "write_all w [] lm = (Ok (), lm)"
| "write_all w (v # vs) lm =
     (case w v lm of
        (Ok _, lm') \<Rightarrow> write_all w vs lm'
      | (Err e, lm') \<Rightarrow> (Err e, lm')
      | (Fault, lm') \<Rightarrow> (Fault, lm'))"

definition tx_log :: "Transaction \<Rightarrow> VariableSizeLogItem list" where
  "tx_log tx = take (log_item_count tx) (log_items tx)"

definition commit_log_item ::
  "(VariableSizeLogItem \<Rightarrow> 'lm \<Rightarrow> unit outcome \<times> 'lm) \<Rightarrow> Transaction \<Rightarrow> 'lm TransactionManager
     \<Rightarrow> unit outcome \<times> 'lm TransactionManager" where
  "commit_log_item w tx tm =
     (if tx_status tx \<noteq> Active then (Err TransactionError, tm)
      else if log_item_count tx = 0 then (Ok (), tm)
      else (case log_manager tm of
              None \<Rightarrow> (Ok (), tm)
            | Some lm \<Rightarrow> let (r, lm') = write_all w (tx_log tx) lm
                        in (r, tm\<lparr>log_manager := Some lm'\<rparr>)))"

definition commit ::
  "(VariableSizeLogItem \<Rightarrow> 'lm \<Rightarrow> unit outcome \<times> 'lm) \<Rightarrow> 'lm TransactionManager
     \<Rightarrow> Transaction outcome \<times> 'lm TransactionManager" where
  "commit w tm =
     (case current_tx tm of
        None \<Rightarrow> (Err TransactionError, tm)
      | Some tx \<Rightarrow>
          (case commit_log_item w tx (tm\<lparr>current_tx := None\<rparr>) of
             (Ok _, tm') \<Rightarrow> (Ok (tx\<lparr>tx_status := Committed\<rparr>), tm')
           | (Err e, tm') \<Rightarrow> (Err e, tm')
           | (Fault, tm') \<Rightarrow> (Fault, tm')))"

definition tm_reset :: "'lm TransactionManager \<Rightarrow> 'lm TransactionManager" where
  "tm_reset tm =
     tm\<lparr>current_tx := None, active_snapshots := [], tx_id_counter := 1, snapshot_version := 0\<rparr>"

section \<open>Well-formed transactions\<close>

definition wf_tx :: "Transaction \<Rightarrow> bool" where
  "wf_tx tx \<longleftrightarrow> length (log_items tx) = max_log_items tx \<and> log_item_count tx \<le> max_log_items tx"

definition room :: "'lm TransactionManager \<Rightarrow> bool" where
  "room tm \<longleftrightarrow> (\<forall>tx. current_tx tm = Some tx \<longrightarrow> log_item_count tx < max_log_items tx)"

lemma begin_log_item_Some:
  assumes "wf_tx tx" and "begin_log_item now tid op tbl rid ds old new tx = Some tx'"
  shows "wf_tx tx'"
    and "tx_log tx' = tx_log tx @ [begin_variable_size_log_item now tid op tbl rid old new]"
    and "tx_id tx' = tx_id tx" and "tx_status tx' = tx_status tx"
    and "max_log_items tx' = max_log_items tx"
  using assms
  by (auto simp: begin_log_item_def wf_tx_def tx_log_def Let_def take_Suc_update
      split: if_splits)

lemma begin_log_item_None_iff:
  "begin_log_item now tid op tbl rid ds old new tx = None \<longleftrightarrow> max_log_items tx \<le> log_item_count tx"
  by (auto simp: begin_log_item_def Let_def)

lemma log_in_tx_no_tx [simp]: "current_tx tm = None \<Longrightarrow> log_in_tx now op tbl rid ds old new tm = tm"
  by (simp add: log_in_tx_def)

lemma log_in_tx_frame [simp]:
  "tx_id_counter (log_in_tx now op tbl rid ds old new tm) = tx_id_counter tm"
  "log_manager (log_in_tx now op tbl rid ds old new tm) = log_manager tm"
  "(current_tx (log_in_tx now op tbl rid ds old new tm) = None) = (current_tx tm = None)"
  by (auto simp: log_in_tx_def split: option.splits)

lemma log_in_tx_Some:
  assumes "current_tx tm = Some tx" and "wf_tx tx" and "room tm"
  obtains tx' where "current_tx (log_in_tx now op tbl rid ds old new tm) = Some tx'"
    and "wf_tx tx'" and "tx_id tx' = tx_id tx" and "tx_status tx' = tx_status tx"
    and "max_log_items tx' = max_log_items tx"
    and "tx_log tx' =
           tx_log tx @ [begin_variable_size_log_item now (tx_id tx) op tbl rid old new]"
proof -
  from assms(1,3) have "log_item_count tx < max_log_items tx" by (simp add: room_def)
  then obtain tx' where b: "begin_log_item now (tx_id tx) op tbl rid ds old new tx = Some tx'"
    by (metis begin_log_item_None_iff leD not_None_eq)
  show thesis
  proof (rule that [of tx'])
    show "current_tx (log_in_tx now op tbl rid ds old new tm) = Some tx'"
      using assms(1) b by (simp add: log_in_tx_def)
  qed (use begin_log_item_Some [OF assms(2) b] in auto)
qed

lemma log_in_tx_full:
  "current_tx tm = Some tx \<Longrightarrow> \<not> log_item_count tx < max_log_items tx
    \<Longrightarrow> log_in_tx now op tbl rid ds old new tm = tm"
  by (simp add: log_in_tx_def begin_log_item_None_iff split: option.splits)
    (simp add: begin_log_item_def)

section \<open>Checksum lemmas\<close>

lemma xor_bytes_start: "xor_bytes bs c = c XOR xor_bytes bs 0"
proof -
  have "fold (\<lambda>b acc. acc XOR ucast b) bs (c XOR d) = c XOR fold (\<lambda>b acc. acc XOR ucast b) bs d"
    for d :: u32
    by (induction bs arbitrary: d) (auto simp: xor.assoc)
  from this [of 0] show ?thesis by (simp add: xor_bytes_def)
qed

lemma xor_bytes_append: "xor_bytes (xs @ ys) c = xor_bytes ys (xor_bytes xs c)"
  by (simp add: xor_bytes_def)

lemma ucast_byte_inject: "(ucast (a :: byte) :: u32) = ucast b \<longleftrightarrow> a = b"
proof
  assume "(ucast a :: u32) = ucast b"
  then have "uint (ucast a :: u32) = uint (ucast b :: u32)" by simp
  moreover have "uint (ucast x :: u32) = uint x" for x :: byte
    by (rule uint_up_ucast) (simp add: is_up)
  ultimately show "a = b" by (simp add: word_uint_eq_iff)
qed simp

lemma xor_bytes_update:
  assumes "i < length bs" and "b \<noteq> bs ! i"
  shows "xor_bytes (bs[i := b]) c \<noteq> xor_bytes bs c"
proof -
  let ?p = "xor_bytes (take i bs) c" and ?q = "xor_bytes (drop (Suc i) bs) 0"
  have step: "xor_bytes (x # xs) d = xor_bytes xs (d XOR ucast x)" for x xs d
    by (simp add: xor_bytes_def)
  have split: "xor_bytes (take i bs @ x # drop (Suc i) bs) c = ?p XOR ucast x XOR ?q" for x
    by (subst xor_bytes_append, subst step, subst xor_bytes_start) (simp add: xor.assoc)
  have old: "bs = take i bs @ bs ! i # drop (Suc i) bs"
    using assms(1) by (simp add: id_take_nth_drop)
  have new: "bs[i := b] = take i bs @ b # drop (Suc i) bs"
    using assms(1) by (simp add: upd_conv_take_nth_drop)
  have "?p XOR ucast b XOR ?q \<noteq> ?p XOR ucast (bs ! i) XOR ?q"
    using assms(2) by (simp add: ucast_byte_inject)
  then show ?thesis by (simp add: new split) (subst old, subst split, simp)
qed

end
