(* ===== verification/MemTable.thy ===== *)
theory MemTable
  imports TxLog
begin

text \<open>
  The memory table of \<^verbatim>\<open>src/src/table.rs\<close>: a fixed array of record slots with a header per
  slot, and a stack of free slot numbers.  Raw memory becomes lists: \<open>data\<close> holds one byte
  list per slot, \<open>status_array\<close> one header per slot, \<open>free_slots\<close> the stack array of which the
  first \<open>free_slot_count\<close> entries are live.  Releasing external text buffers and the metrics
  counters have no effect on this state and are left out.
\<close>

section \<open>State\<close>

record MemoryTable =
  tdef :: TableDef
  data :: "bytes list"
  status_array :: "RecordHeader list"
  record_count :: nat
  record_size :: nat
  free_slots :: "nat list"
  free_slot_count :: nat
  low_power_mode :: bool
  low_power_max_records :: "nat option"
  t_snapshot_version :: u32
  max_pk :: u64

abbreviation "cap t \<equiv> max_records (tdef t)"
abbreviation "slot_status t i \<equiv> status (status_array t ! i)"

text \<open>
  Construction.  The three allocations hand out raw memory, which is an argument; \<open>None\<close> is a
  failed allocation.  The loop that clears the headers leaves the transaction ids as they were
  in memory.
\<close>

definition init_header :: "RecordHeader \<Rightarrow> RecordHeader" where
  "init_header h = h\<lparr>status := Free, version := 0, lock_type := LockNone, lock_owner := 0,
                     lock_count := 0\<rparr>"

definition new_with_options ::
  "bytes list option \<Rightarrow> RecordHeader list option \<Rightarrow> nat list option \<Rightarrow> TableDef \<Rightarrow> bool
     \<Rightarrow> MemoryTable outcome" where
  "new_with_options raw_data raw_status raw_free d skip_status_init =
     (if max_records d = 0 then Err ConfigError
      else case raw_data of None \<Rightarrow> Err OutOfMemory | Some dat \<Rightarrow>
        (case raw_status of None \<Rightarrow> Err OutOfMemory | Some hs \<Rightarrow>
          (case raw_free of None \<Rightarrow> Err OutOfMemory | Some _ \<Rightarrow>
             Ok \<lparr>tdef = d, data = dat,
                 status_array = (if skip_status_init then hs else map init_header hs),
                 record_count = 0, record_size = def_record_size d,
                 free_slots = (if skip_status_init then replicate (max_records d) 0
                               else map (\<lambda>i. max_records d - 1 - i) [0..<max_records d]),
                 free_slot_count = (if skip_status_init then 0 else max_records d),
                 low_power_mode = False, low_power_max_records = None,
                 t_snapshot_version = 0, max_pk = 0\<rparr>)))"

section \<open>Constraint checking\<close>

definition is_null_field :: "bytes \<Rightarrow> FieldDef \<Rightarrow> bool" where
  "is_null_field rd f \<longleftrightarrow>
     (case data_type f of
        VarChar \<Rightarrow> list_all (\<lambda>b. b = 0) (bytes_at rd (offset f) (f_size f))
      | Char \<Rightarrow> list_all (\<lambda>b. b = 0) (bytes_at rd (offset f) (f_size f))
      | Text \<Rightarrow> list_all (\<lambda>b. b = 0) (bytes_at rd (offset f) (f_size f))
      | _ \<Rightarrow> False)"

definition check_field :: "bytes \<Rightarrow> FieldDef \<Rightarrow> unit outcome" where
  "check_field rd f =
     (if not_null f \<and> is_null_field rd f then Err NotNullViolation
      else case data_type f of
        Float32 \<Rightarrow> (let v = read_u32 rd (offset f)
                   in if f32_is_nan v \<or> f32_is_infinite v then Err TypeMismatch else Ok ())
      | Float64 \<Rightarrow> (let v = read_u64 rd (offset f)
                   in if f64_is_nan v \<or> f64_is_infinite v then Err TypeMismatch else Ok ())
      | _ \<Rightarrow> Ok ())"

fun check_fields :: "bytes \<Rightarrow> FieldDef list \<Rightarrow> unit outcome" where
  "check_fields rd [] = Ok ()"
| "check_fields rd (f # fs) = and_then (check_field rd f) (\<lambda>_. check_fields rd fs)"

text \<open>Equality of one field of the new record and a stored record, by data type.\<close>

definition field_equal :: "FieldDef \<Rightarrow> bytes \<Rightarrow> bytes \<Rightarrow> bool" where
  "field_equal f cur ex =
     (let off = offset f in
      case data_type f of
        UInt8 \<Rightarrow> read_u8 cur off = read_u8 ex off
      | UInt16 \<Rightarrow> read_u16 cur off = read_u16 ex off
      | UInt32 \<Rightarrow> read_u32 cur off = read_u32 ex off
      | UInt64 \<Rightarrow> read_u64 cur off = read_u64 ex off
      | Int8 \<Rightarrow> read_u8 cur off = read_u8 ex off
      | Int16 \<Rightarrow> read_u16 cur off = read_u16 ex off
      | Int32 \<Rightarrow> read_u32 cur off = read_u32 ex off
      | Int64 \<Rightarrow> read_u64 cur off = read_u64 ex off
      | Float32 \<Rightarrow> f32_eq (read_u32 cur off) (read_u32 ex off)
      | Float64 \<Rightarrow> f64_eq (read_u64 cur off) (read_u64 ex off)
      | Bool \<Rightarrow> read_u8 cur off = read_u8 ex off
      | Timestamp \<Rightarrow> ts_value (read_timestamp cur off) = ts_value (read_timestamp ex off)
      | TimestampTZ \<Rightarrow> ts_value (read_timestamp cur off) = ts_value (read_timestamp ex off)
                      \<and> tz_offset (read_timestamp cur off) = tz_offset (read_timestamp ex off)
      | VarChar \<Rightarrow> bytes_at cur off (f_size f) = bytes_at ex off (f_size f)
      | Char \<Rightarrow> bytes_at cur off (f_size f) = bytes_at ex off (f_size f)
      | Text \<Rightarrow> bytes_at cur off (f_size f) = bytes_at ex off (f_size f)
      | Interval \<Rightarrow> iv_value (read_interval cur off) = iv_value (read_interval ex off)
      | Vector \<Rightarrow> False
      | Json \<Rightarrow> False)"

text \<open>All key columns equal; \<open>&self.def.fields[idx]\<close> panics on an index out of range.\<close>

fun pk_equal :: "FieldDef list \<Rightarrow> nat list \<Rightarrow> bytes \<Rightarrow> bytes \<Rightarrow> bool outcome" where
  "pk_equal fs [] cur ex = Ok True"
| "pk_equal fs (i # is) cur ex =
     (if i \<ge> length fs then Fault
      else if field_equal (fs ! i) cur ex then pk_equal fs is cur ex
      else Ok False)"

definition slot_visible :: "MemoryTable \<Rightarrow> u32 \<Rightarrow> nat \<Rightarrow> bool" where
  "slot_visible t cur i \<longleftrightarrow>
     slot_status t i = Used
     \<and> is_visible (create_tx_id (status_array t ! i)) (delete_tx_id (status_array t ! i)) cur"

fun scan_duplicates ::
  "MemoryTable \<Rightarrow> u32 \<Rightarrow> nat option \<Rightarrow> (bytes \<Rightarrow> bool outcome) \<Rightarrow> nat list \<Rightarrow> unit outcome" where
  "scan_duplicates t cur ex dup [] = Ok ()"
| "scan_duplicates t cur ex dup (s # ss) =
     (if ex = Some s then scan_duplicates t cur ex dup ss
      else if slot_visible t cur s then
        and_then (dup (data t ! s))
          (\<lambda>d. if d then Err DuplicateKey else scan_duplicates t cur ex dup ss)
      else scan_duplicates t cur ex dup ss)"

fun check_unique_fields ::
  "MemoryTable \<Rightarrow> u32 \<Rightarrow> nat option \<Rightarrow> bytes \<Rightarrow> FieldDef list \<Rightarrow> unit outcome" where
  "check_unique_fields t cur ex rd [] = Ok ()"
| "check_unique_fields t cur ex rd (f # fs) =
     (if unique f \<and> \<not> f_primary_key f then
        and_then (scan_duplicates t cur ex (\<lambda>r. Ok (field_equal f rd r)) [0..<cap t])
          (\<lambda>_. check_unique_fields t cur ex rd fs)
      else check_unique_fields t cur ex rd fs)"

definition check_primary_key :: "MemoryTable \<Rightarrow> u32 \<Rightarrow> nat option \<Rightarrow> bytes \<Rightarrow> unit outcome" where
  "check_primary_key t cur ex rd =
     (if primary_key (tdef t) = [] then Ok ()
      else scan_duplicates t cur ex
             (\<lambda>r. pk_equal (t_fields (tdef t)) (primary_key (tdef t)) rd r) [0..<cap t])"

definition validate_constraints ::
  "MemoryTable \<Rightarrow> u32 \<Rightarrow> bytes \<Rightarrow> nat option \<Rightarrow> unit outcome" where
  "validate_constraints t cur rd ex =
     and_then (check_fields rd (t_fields (tdef t)))
       (\<lambda>_. and_then (check_primary_key t cur ex rd)
         (\<lambda>_. check_unique_fields t cur ex rd (t_fields (tdef t))))"

section \<open>Insert, update, delete, lookup\<close>

definition effective_max :: "MemoryTable \<Rightarrow> nat" where
  "effective_max t =
     (if low_power_mode t then
        (case low_power_max_records t of None \<Rightarrow> cap t | Some m \<Rightarrow> m)
      else cap t)"

text \<open>The low-power victim search: the first used slot of the least version below \<open>u16::MAX\<close>.\<close>

fun find_oldest :: "RecordHeader list \<Rightarrow> nat \<Rightarrow> nat option \<Rightarrow> u16 \<Rightarrow> nat option" where
  "find_oldest [] i best bv = best"
| "find_oldest (h # hs) i best bv =
     (if status h = Used \<and> version h < bv then find_oldest hs (Suc i) (Some i) (version h)
      else find_oldest hs (Suc i) best bv)"

definition pick_slot :: "MemoryTable \<Rightarrow> (nat \<times> bool \<times> MemoryTable) outcome" where
  "pick_slot t =
     (if record_count t \<ge> effective_max t then
        if low_power_mode t then
          (case find_oldest (status_array t) 0 None 0xFFFF of
             Some i \<Rightarrow> Ok (i, True, t)
           | None \<Rightarrow> Err NoRecordsToOverwrite)
        else Err OutOfMemory
      else if free_slot_count t = 0 then Err OutOfMemory
      else let n = free_slot_count t - 1
           in Ok (free_slots t ! n, False, t\<lparr>free_slot_count := n\<rparr>))"

definition set_status :: "RecordStatus \<Rightarrow> nat \<Rightarrow> MemoryTable \<Rightarrow> MemoryTable" where
  "set_status st i t =
     t\<lparr>status_array := (status_array t)
         [i := (status_array t ! i)\<lparr>status := st, version := version (status_array t ! i) + 1\<rparr>]\<rparr>"

definition set_data :: "nat \<Rightarrow> bytes \<Rightarrow> MemoryTable \<Rightarrow> MemoryTable" where
  "set_data i rd t = t\<lparr>data := (data t)[i := take (record_size t) rd]\<rparr>"

text \<open>Signed keys are sign-extended by \<open>as u64\<close>; other types give 0.\<close>

definition pk_value :: "FieldDef \<Rightarrow> bytes \<Rightarrow> u64" where
  "pk_value f rd =
     (let off = offset f in
      case data_type f of
        UInt8 \<Rightarrow> ucast (read_u8 rd off)
      | UInt16 \<Rightarrow> ucast (read_u16 rd off)
      | UInt32 \<Rightarrow> ucast (read_u32 rd off)
      | UInt64 \<Rightarrow> read_u64 rd off
      | Int8 \<Rightarrow> scast (read_u8 rd off)
      | Int16 \<Rightarrow> scast (read_u16 rd off)
      | Int32 \<Rightarrow> scast (read_u32 rd off)
      | Int64 \<Rightarrow> read_u64 rd off
      | _ \<Rightarrow> 0)"

definition update_max_pk :: "bytes \<Rightarrow> MemoryTable \<Rightarrow> MemoryTable" where
  "update_max_pk rd t =
     (if length (primary_key (tdef t)) = 1 \<and> primary_key (tdef t) ! 0 < length (t_fields (tdef t))
      then let v = pk_value (t_fields (tdef t) ! (primary_key (tdef t) ! 0)) rd
           in if v > max_pk t then t\<lparr>max_pk := v\<rparr> else t
      else t)"

definition table_insert ::
  "u64 \<Rightarrow> 'lm TransactionManager \<Rightarrow> MemoryTable \<Rightarrow> bytes
     \<Rightarrow> (nat \<times> 'lm TransactionManager \<times> MemoryTable) outcome" where
  "table_insert now tm t rd =
     and_then (validate_constraints t (tx_id_counter tm) rd None) (\<lambda>_.
     and_then (pick_slot t) (\<lambda>(slot, overwrite, t1).
       let tm1 = log_in_tx now Insert (t_id (tdef t)) (of_nat slot) (of_nat (record_size t))
                   None (Some (take (record_size t) rd)) tm;
           t2 = update_max_pk (take (record_size t) rd)
                  (set_status Used slot (set_data slot rd t1));
           t3 = (if overwrite then t2 else t2\<lparr>record_count := record_count t2 + 1\<rparr>)
       in Ok (slot, tm1, t3)))"

definition table_update ::
  "u64 \<Rightarrow> 'lm TransactionManager \<Rightarrow> MemoryTable \<Rightarrow> nat \<Rightarrow> bytes
     \<Rightarrow> ('lm TransactionManager \<times> MemoryTable) outcome" where
  "table_update now tm t i rd =
     (if i \<ge> cap t then Err RecordNotFound
      else if slot_status t i \<noteq> Used then Err RecordNotFound
      else and_then (validate_constraints t (tx_id_counter tm) rd (Some i)) (\<lambda>_.
        let tm1 = log_in_tx now Update (t_id (tdef t)) (of_nat i) (of_nat (record_size t))
                    (Some (data t ! i)) (Some (take (record_size t) rd)) tm
        in Ok (tm1, set_status Used i (set_data i rd t))))"

text \<open>The free-slot push shared by \<open>delete\<close> and the rollback of an insert.\<close>

definition push_free :: "nat \<Rightarrow> MemoryTable \<Rightarrow> MemoryTable" where
  "push_free i t =
     (if free_slot_count t < cap t
      then t\<lparr>free_slots := (free_slots t)[free_slot_count t := i],
             free_slot_count := free_slot_count t + 1\<rparr>
      else t)"

definition table_delete ::
  "u64 \<Rightarrow> 'lm TransactionManager \<Rightarrow> MemoryTable \<Rightarrow> nat
     \<Rightarrow> ('lm TransactionManager \<times> MemoryTable) outcome" where
  "table_delete now tm t i =
     (if i \<ge> cap t then Err RecordNotFound
      else if slot_status t i \<noteq> Used then Err RecordNotFound
      else
        let tm1 = log_in_tx now Delete (t_id (tdef t)) (of_nat i) (of_nat (record_size t))
                    (Some (data t ! i)) None tm;
            t1 = push_free i (set_data i (replicate (record_size t) 0) (set_status Free i t))
        in if record_count t1 = 0 then Fault
           else Ok (tm1, t1\<lparr>record_count := record_count t1 - 1\<rparr>))"

definition get_by_id :: "MemoryTable \<Rightarrow> nat \<Rightarrow> bytes outcome" where
  "get_by_id t i =
     (if i \<ge> cap t then Err RecordNotFound
      else if slot_status t i \<noteq> Used then Err RecordNotFound
      else Ok (data t ! i))"

definition get_by_id_ref :: "MemoryTable \<Rightarrow> nat \<Rightarrow> (nat \<times> bytes) option" where
  "get_by_id_ref t i =
     (if i \<ge> cap t then None
      else if slot_status t i \<noteq> Used then None
      else Some (i, data t ! i))"

definition is_full :: "MemoryTable \<Rightarrow> bool" where
  "is_full t \<longleftrightarrow> record_count t \<ge> cap t"

definition set_low_power_mode :: "bool \<Rightarrow> nat option \<Rightarrow> MemoryTable \<Rightarrow> MemoryTable" where
  "set_low_power_mode on m t = t\<lparr>low_power_mode := on, low_power_max_records := m\<rparr>"

end
