(* ===== verification/MemTable_Inv.thy ===== *)
theory MemTable_Inv
  imports MemTable
begin

text \<open>
  The representation invariant of the memory table and what each operation does to it and to
  the abstract contents, a partial map from slot numbers to records.
\<close>

section \<open>Invariant and abstraction\<close>

definition used_slots :: "MemoryTable \<Rightarrow> nat set" where
  "used_slots t = {i. i < cap t \<and> slot_status t i = Used}"

definition free_stack :: "MemoryTable \<Rightarrow> nat list" where
  "free_stack t = take (free_slot_count t) (free_slots t)"

definition wf_table :: "MemoryTable \<Rightarrow> bool" where
  "wf_table t \<longleftrightarrow>
     length (data t) = cap t \<and> length (status_array t) = cap t \<and> length (free_slots t) = cap t
     \<and> (\<forall>i<cap t. length (data t ! i) = record_size t)
     \<and> free_slot_count t \<le> cap t
     \<and> distinct (free_stack t) \<and> set (free_stack t) = {..<cap t} - used_slots t
     \<and> record_count t = card (used_slots t)"

definition contents :: "MemoryTable \<Rightarrow> nat \<Rightarrow> bytes option" where
  "contents t i = (if i \<in> used_slots t then Some (data t ! i) else None)"

lemma used_slots_subset: "used_slots t \<subseteq> {..<cap t}"
  by (auto simp: used_slots_def)

lemma finite_used_slots [simp]: "finite (used_slots t)"
  by (rule finite_subset [OF used_slots_subset]) simp

lemma dom_contents [simp]: "dom (contents t) = used_slots t"
  by (auto simp: contents_def split: if_splits)

lemma wf_lengths [dest]:
  assumes "wf_table t"
  shows "length (data t) = cap t" and "length (status_array t) = cap t"
    and "length (free_slots t) = cap t"
  using assms by (auto simp: wf_table_def)

lemma length_free_stack: "wf_table t \<Longrightarrow> length (free_stack t) = free_slot_count t"
  by (auto simp: wf_table_def free_stack_def)

text \<open>The two counters of the table always add up to its capacity.\<close>

lemma wf_counts:
  assumes "wf_table t"
  shows "record_count t + free_slot_count t = cap t"
proof -
  have "free_slot_count t = card (set (free_stack t))"
    using assms by (metis distinct_card length_free_stack wf_table_def)
  also have "\<dots> = cap t - card (used_slots t)"
    using assms used_slots_subset [of t] by (simp add: wf_table_def card_Diff_subset)
  finally show ?thesis
    using assms card_mono [OF _ used_slots_subset [of t]] by (simp add: wf_table_def)
qed

section \<open>Frame lemmas\<close>

lemma set_status_simps [simp]:
  "tdef (set_status st i t) = tdef t" "data (set_status st i t) = data t"
  "record_count (set_status st i t) = record_count t"
  "record_size (set_status st i t) = record_size t"
  "free_slots (set_status st i t) = free_slots t"
  "free_slot_count (set_status st i t) = free_slot_count t"
  "length (status_array (set_status st i t)) = length (status_array t)"
  "low_power_mode (set_status st i t) = low_power_mode t"
  "low_power_max_records (set_status st i t) = low_power_max_records t"
  by (simp_all add: set_status_def)

lemma set_data_simps [simp]:
  "tdef (set_data i rd t) = tdef t" "status_array (set_data i rd t) = status_array t"
  "record_count (set_data i rd t) = record_count t"
  "record_size (set_data i rd t) = record_size t"
  "free_slots (set_data i rd t) = free_slots t"
  "free_slot_count (set_data i rd t) = free_slot_count t"
  "length (data (set_data i rd t)) = length (data t)"
  "low_power_mode (set_data i rd t) = low_power_mode t"
  "low_power_max_records (set_data i rd t) = low_power_max_records t"
  by (simp_all add: set_data_def)

lemma update_max_pk_simps [simp]:
  "tdef (update_max_pk rd t) = tdef t" "data (update_max_pk rd t) = data t"
  "status_array (update_max_pk rd t) = status_array t"
  "record_count (update_max_pk rd t) = record_count t"
  "record_size (update_max_pk rd t) = record_size t"
  "free_slots (update_max_pk rd t) = free_slots t"
  "free_slot_count (update_max_pk rd t) = free_slot_count t"
  "low_power_mode (update_max_pk rd t) = low_power_mode t"
  "low_power_max_records (update_max_pk rd t) = low_power_max_records t"
  by (simp_all add: update_max_pk_def Let_def)

lemma push_free_simps [simp]:
  "tdef (push_free i t) = tdef t" "data (push_free i t) = data t"
  "status_array (push_free i t) = status_array t"
  "record_count (push_free i t) = record_count t"
  "record_size (push_free i t) = record_size t"
  "low_power_mode (push_free i t) = low_power_mode t"
  "low_power_max_records (push_free i t) = low_power_max_records t"
  by (simp_all add: push_free_def)

lemma slot_status_set_status:
  "i < length (status_array t) \<Longrightarrow>
     slot_status (set_status st i t) j = (if j = i then st else slot_status t j)"
  by (simp add: set_status_def)

lemma data_set_data:
  "i < length (data t) \<Longrightarrow>
     data (set_data i rd t) ! j = (if j = i then take (record_size t) rd else data t ! j)"
  by (simp add: set_data_def)

lemma used_slots_cong:
  "cap t = cap t' \<Longrightarrow> status_array t = status_array t' \<Longrightarrow> used_slots t = used_slots t'"
  by (simp add: used_slots_def)

lemma used_slots_set_status:
  assumes "i < cap t" and "length (status_array t) = cap t"
  shows "used_slots (set_status st i t) =
           (if st = Used then insert i (used_slots t) else used_slots t - {i})"
  using assms by (auto simp: used_slots_def slot_status_set_status)

section \<open>Reading\<close>

lemma get_by_id_contents: "get_by_id t i = (case contents t i of None \<Rightarrow> Err RecordNotFound | Some r \<Rightarrow> Ok r)"
  by (auto simp: get_by_id_def contents_def used_slots_def)

lemma get_by_id_ref_contents: "get_by_id_ref t i = map_option (Pair i) (contents t i)"
  by (auto simp: get_by_id_ref_def contents_def used_slots_def)

section \<open>Choosing a slot\<close>

lemma find_oldest_props:
  "find_oldest hs k best bv = Some i \<Longrightarrow>
     best = Some i \<or> (k \<le> i \<and> i < k + length hs \<and> status (hs ! (i - k)) = Used
       \<and> version (hs ! (i - k)) < bv)"
proof (induction hs arbitrary: k best bv)
  case (Cons h hs)
  show ?case
  proof (cases "status h = Used \<and> version h < bv")
    case True
    with Cons.prems have "find_oldest hs (Suc k) (Some k) (version h) = Some i" by simp
    from Cons.IH [OF this] True show ?thesis
      by (auto simp: nth_Cons' intro: less_trans)
  next
    case False
    with Cons.prems have "find_oldest hs (Suc k) best bv = Some i" by simp
    from Cons.IH [OF this] show ?thesis by (auto simp: nth_Cons')
  qed
qed simp

text \<open>The victim has the least version of all used slots.\<close>

lemma find_oldest_least:
  "find_oldest hs k best bv = Some i \<Longrightarrow> best \<noteq> Some i \<or> k > i \<Longrightarrow> k \<le> i \<or> best = Some i \<Longrightarrow>
     (\<forall>h\<in>set hs. status h = Used \<longrightarrow>
        (if best = Some i \<and> i < k then bv else version (hs ! (i - k))) \<le> version h)"
proof (induction hs arbitrary: k best bv)
  case (Cons h hs)
  show ?case
  proof (cases "status h = Used \<and> version h < bv")
    case True
    with Cons.prems(1) have e: "find_oldest hs (Suc k) (Some k) (version h) = Some i" by simp
    have "best \<noteq> Some i \<or> i < k" using Cons.prems by auto
    have ik: "\<not> (best = Some i \<and> i < k)"
      using find_oldest_props [OF e] True by auto
    have ki: "k \<le> i" using ik Cons.prems by auto
    have ih: "\<forall>h'\<in>set hs. status h' = Used \<longrightarrow>
        (if Some k = Some i \<and> i < Suc k then version h else version (hs ! (i - Suc k))) \<le> version h'"
      by (rule Cons.IH [OF e]) (use ki in auto)
    show ?thesis
    proof (cases "k = i")
      case True
      with ih ik show ?thesis by simp
    next
      case False
      with ki have lt: "k < i" by simp
      with find_oldest_props [OF e] have "version (hs ! (i - Suc k)) < version h" by auto
      with ih lt ik show ?thesis by (auto simp: nth_Cons')
    qed
  next
    case False
    with Cons.prems(1) have e: "find_oldest hs (Suc k) best bv = Some i" by simp
    have ih: "\<forall>h'\<in>set hs. status h' = Used \<longrightarrow>
        (if best = Some i \<and> i < Suc k then bv else version (hs ! (i - Suc k))) \<le> version h'"
      by (rule Cons.IH [OF e]) (use Cons.prems find_oldest_props [OF e] in auto)
    show ?thesis
    proof (cases "best = Some i \<and> i < k")
      case True
      with ih False show ?thesis by auto
    next
      case notbest: False
      with Cons.prems find_oldest_props [OF e] have "Suc k \<le> i" "best \<noteq> Some i" by auto
      with find_oldest_props [OF e] have "version (hs ! (i - Suc k)) < bv" by auto
      with ih False notbest \<open>Suc k \<le> i\<close> \<open>best \<noteq> Some i\<close> show ?thesis by (auto simp: nth_Cons')
    qed
  qed
qed simp

lemma find_oldest_least_used:
  assumes "find_oldest hs 0 None bv = Some i" and "h \<in> set hs" and "status h = Used"
  shows "version (hs ! i) \<le> version h"
  using find_oldest_least [OF assms(1)] assms(2,3) by simp

lemma pick_slot_overwrite:
  assumes "wf_table t" and "pick_slot t = Ok (i, True, t1)"
  shows "t1 = t" and "i \<in> used_slots t" and "low_power_mode t"
proof -
  from assms(2) have f: "find_oldest (status_array t) 0 None 0xFFFF = Some i"
    and "t1 = t" "low_power_mode t"
    by (auto simp: pick_slot_def Let_def split: if_splits option.splits)
  then show "t1 = t" "low_power_mode t" by auto
  from find_oldest_props [OF f] wf_lengths(2) [OF assms(1)] show "i \<in> used_slots t"
    by (auto simp: used_slots_def)
qed

lemma pick_slot_fresh:
  assumes "wf_table t" and "pick_slot t = Ok (i, False, t1)"
  shows "t1 = t\<lparr>free_slot_count := free_slot_count t - 1\<rparr>" and "0 < free_slot_count t"
    and "free_stack t = free_stack t1 @ [i]" and "i < cap t" and "i \<notin> used_slots t"
proof -
  from assms(2) show n: "0 < free_slot_count t"
    and t1: "t1 = t\<lparr>free_slot_count := free_slot_count t - 1\<rparr>"
    by (auto simp: pick_slot_def Let_def split: if_splits option.splits)
  have i: "i = free_slots t ! (free_slot_count t - 1)"
    using assms(2) by (auto simp: pick_slot_def Let_def split: if_splits option.splits)
  obtain m where m: "free_slot_count t = Suc m" using n by (cases "free_slot_count t") auto
  have "m < length (free_slots t)" using assms(1) m by (auto simp: wf_table_def)
  then show st: "free_stack t = free_stack t1 @ [i]"
    using m i t1 by (simp add: free_stack_def take_Suc_conv_app_nth)
  then have "i \<in> set (free_stack t)" by simp
  then show "i < cap t" "i \<notin> used_slots t" using assms(1) by (auto simp: wf_table_def)
qed

section \<open>Writing a record into a slot\<close>

lemma free_stack_cong:
  "free_slots t = free_slots t' \<Longrightarrow> free_slot_count t = free_slot_count t' \<Longrightarrow>
     free_stack t = free_stack t'"
  by (simp add: free_stack_def)

lemma record_length_set_data:
  assumes "wf_table t" and "length rd \<ge> record_size t" and "i < cap t" and "j < cap t"
  shows "length (data (set_data i rd t) ! j) = record_size t"
  using assms by (auto simp: wf_table_def data_set_data)

lemma contents_write:
  assumes "wf_table t" and "i < cap t"
  shows "contents (set_status Used i (set_data i rd t)) =
           (contents t)(i \<mapsto> take (record_size t) rd)"
  using assms
  by (intro ext) (auto simp: contents_def used_slots_set_status data_set_data wf_lengths
      used_slots_cong [of "set_data i rd t" t])

lemma contents_cong:
  "cap t = cap t' \<Longrightarrow> status_array t = status_array t' \<Longrightarrow> data t = data t' \<Longrightarrow>
     contents t = contents t'"
  by (intro ext) (simp add: contents_def used_slots_def)

text \<open>Overwriting a used slot keeps the invariant.\<close>

lemma wf_overwrite:
  assumes "wf_table t" and "i \<in> used_slots t" and "length rd \<ge> record_size t"
  shows "wf_table (set_status Used i (set_data i rd t))"
proof -
  let ?t = "set_status Used i (set_data i rd t)"
  have i: "i < cap t" using assms(2) by (simp add: used_slots_def)
  have u: "used_slots ?t = used_slots t"
    using assms(1,2) i
    by (simp add: used_slots_set_status wf_lengths insert_absorb
        used_slots_cong [of "set_data i rd t" t])
  have fs: "free_stack ?t = free_stack t" by (simp add: free_stack_def)
  show ?thesis
    using assms(1) record_length_set_data [OF assms(1,3) i] by (simp add: wf_table_def u fs)
qed

text \<open>Filling the slot popped from the free stack keeps the invariant.\<close>

lemma wf_fill:
  assumes "wf_table t" and "pick_slot t = Ok (i, False, t1)" and "length rd \<ge> record_size t"
  shows "wf_table ((set_status Used i (set_data i rd t1))\<lparr>record_count := record_count t + 1\<rparr>)"
    (is "wf_table ?t")
proof -
  note p = pick_slot_fresh [OF assms(1,2)]
  have lens: "length (data t) = cap t" "length (status_array t) = cap t"
    "length (free_slots t) = cap t" using assms(1) by auto
  have "used_slots ?t = used_slots (set_status Used i (set_data i rd t1))"
    by (rule used_slots_cong) auto
  also have "\<dots> = insert i (used_slots (set_data i rd t1))"
    using p(1,4) lens by (subst used_slots_set_status) auto
  also have "used_slots (set_data i rd t1) = used_slots t"
    using p(1) by (intro used_slots_cong) auto
  finally have u: "used_slots ?t = insert i (used_slots t)" .
  have fs: "free_stack ?t = free_stack t1" by (simp add: free_stack_def)
  have st: "distinct (free_stack t)" "set (free_stack t) = {..<cap t} - used_slots t"
    using assms(1) by (auto simp: wf_table_def)
  have rl: "length (data ?t ! j) = record_size t" if "j < cap t" for j
    using that p(1,4) lens assms(1,3) by (auto simp: data_set_data wf_table_def)
  have "set (free_stack t1) = {..<cap t} - insert i (used_slots t)"
    using st p(3) by auto
  moreover have "distinct (free_stack t1)" using st(1) p(3) by simp
  moreover have "card (used_slots ?t) = Suc (card (used_slots t))"
    unfolding u using p(5) by simp
  moreover have "record_count t = card (used_slots t)"
    using assms(1) by (simp add: wf_table_def)
  moreover have "length (data ?t) = cap ?t" "length (status_array ?t) = cap ?t"
    "length (free_slots ?t) = cap ?t" "free_slot_count ?t \<le> cap ?t" "cap ?t = cap t"
    "record_count ?t = record_count t + 1" "record_size ?t = record_size t"
    using wf_counts [OF assms(1)] p(1) lens by simp_all
  ultimately show ?thesis
    using rl unfolding wf_table_def [of ?t] fs u by simp
qed

section \<open>The operations\<close>

lemma table_insert_Ok_iff:
  "table_insert now tm t rd = Ok (i, tm', t') \<longleftrightarrow>
     validate_constraints t (tx_id_counter tm) rd None = Ok () \<and>
     (\<exists>ow t1. pick_slot t = Ok (i, ow, t1) \<and>
        tm' = log_in_tx now Insert (t_id (tdef t)) (of_nat i) (of_nat (record_size t))
                None (Some (take (record_size t) rd)) tm \<and>
        t' = (let t2 = update_max_pk (take (record_size t) rd)
                         (set_status Used i (set_data i rd t1))
              in if ow then t2 else t2\<lparr>record_count := record_count t2 + 1\<rparr>))"
  by (auto simp: table_insert_def outcome_simps Let_def)

lemma wf_table_irrelevant [simp]:
  "wf_table (t\<lparr>max_pk := v\<rparr>) = wf_table t"
  "wf_table (update_max_pk rd t) = wf_table t"
  "wf_table ((update_max_pk rd t)\<lparr>record_count := n\<rparr>) = wf_table (t\<lparr>record_count := n\<rparr>)"
  by (simp_all add: wf_table_def free_stack_def used_slots_def)

lemma contents_irrelevant [simp]:
  "contents (update_max_pk rd t) = contents t"
  "contents (t\<lparr>record_count := n\<rparr>) = contents t"
  "contents (t\<lparr>free_slot_count := m\<rparr>) = contents t"
  by (rule contents_cong; simp)+

lemma table_insert_effect:
  assumes "wf_table t" and "length rd = record_size t"
    and "table_insert now tm t rd = Ok (i, tm', t')"
  shows "wf_table t'" and "contents t' = (contents t)(i \<mapsto> rd)" and "i < cap t"
    and "tdef t' = tdef t" and "record_size t' = record_size t"
    and "low_power_mode t' = low_power_mode t"
    and "tm' = log_in_tx now Insert (t_id (tdef t)) (of_nat i) (of_nat (record_size t))
                 None (Some rd) tm"
    and "\<not> low_power_mode t \<Longrightarrow> i \<notin> used_slots t"
proof -
  obtain ow t1 where p: "pick_slot t = Ok (i, ow, t1)"
    and tm': "tm' = log_in_tx now Insert (t_id (tdef t)) (of_nat i) (of_nat (record_size t))
                 None (Some rd) tm"
    and t': "t' = (let t2 = update_max_pk rd (set_status Used i (set_data i rd t1))
              in if ow then t2 else t2\<lparr>record_count := record_count t2 + 1\<rparr>)"
    using assms(2,3) by (auto simp: table_insert_Ok_iff)
  show "tm' = log_in_tx now Insert (t_id (tdef t)) (of_nat i) (of_nat (record_size t))
                 None (Some rd) tm" by (rule tm')
  have len: "record_size t \<le> length rd" using assms(2) by simp
  have "wf_table t' \<and> contents t' = (contents t)(i \<mapsto> rd) \<and> i < cap t \<and> tdef t' = tdef t
    \<and> record_size t' = record_size t \<and> low_power_mode t' = low_power_mode t
    \<and> (\<not> low_power_mode t \<longrightarrow> i \<notin> used_slots t)"
  proof (cases ow)
    case True
    with p have p1: "pick_slot t = Ok (i, True, t1)" by simp
    note q = pick_slot_overwrite [OF assms(1) p1]
    then have i: "i < cap t" by (simp add: used_slots_def)
    with t' True q assms(1,2) wf_overwrite [OF assms(1) q(2) len] contents_write [OF assms(1) i]
    show ?thesis by simp
  next
    case False
    with p have p1: "pick_slot t = Ok (i, False, t1)" by simp
    note q = pick_slot_fresh [OF assms(1) p1]
    have "contents (set_status Used i (set_data i rd t1))
        = contents ((set_status Used i (set_data i rd t))\<lparr>free_slot_count := free_slot_count t - 1\<rparr>)"
      using q(1) by (intro contents_cong) (auto simp: set_status_def set_data_def)
    also have "\<dots> = (contents t)(i \<mapsto> rd)"
      using contents_write [OF assms(1) q(4)] assms(2) by simp
    finally have "contents (set_status Used i (set_data i rd t1)) = (contents t)(i \<mapsto> rd)" .
    with t' False q assms(2) wf_fill [OF assms(1) p1 len] show ?thesis
      by simp
  qed
  then show "wf_table t'" "contents t' = (contents t)(i \<mapsto> rd)" "i < cap t" "tdef t' = tdef t"
    "record_size t' = record_size t" "low_power_mode t' = low_power_mode t"
    "\<not> low_power_mode t \<Longrightarrow> i \<notin> used_slots t" by auto
qed

lemma table_update_effect:
  assumes "wf_table t" and "length rd = record_size t"
    and "table_update now tm t i rd = Ok (tm', t')"
  shows "wf_table t'" and "contents t' = (contents t)(i \<mapsto> rd)" and "i \<in> used_slots t"
    and "tdef t' = tdef t" and "record_size t' = record_size t"
    and "t' = set_status Used i (set_data i rd t)"
    and "tm' = log_in_tx now Update (t_id (tdef t)) (of_nat i) (of_nat (record_size t))
                 (Some (data t ! i)) (Some rd) tm"
proof -
  from assms(3) have u: "i \<in> used_slots t"
    by (auto simp: table_update_def used_slots_def split: if_splits)
  then have i: "i < cap t" by (simp add: used_slots_def)
  from assms(2,3) have t': "t' = set_status Used i (set_data i rd t)"
    and tm': "tm' = log_in_tx now Update (t_id (tdef t)) (of_nat i) (of_nat (record_size t))
                 (Some (data t ! i)) (Some rd) tm"
    by (auto simp: table_update_def outcome_simps Let_def split: if_splits)
  show "i \<in> used_slots t" by (rule u)
  show "wf_table t'" using wf_overwrite [OF assms(1) u] assms(2) t' by simp
  show "contents t' = (contents t)(i \<mapsto> rd)"
    using contents_write [OF assms(1) i] assms(2) t' by simp
  show "tdef t' = tdef t" "record_size t' = record_size t" using t' by auto
  show "t' = set_status Used i (set_data i rd t)" by (rule t')
  show "tm' = log_in_tx now Update (t_id (tdef t)) (of_nat i) (of_nat (record_size t))
                 (Some (data t ! i)) (Some rd) tm" by (rule tm')
qed

text \<open>
  Releasing a used slot (the state change of \<open>delete\<close>, and of the rollback of an insert).
\<close>

definition release_slot :: "nat \<Rightarrow> MemoryTable \<Rightarrow> MemoryTable" where
  "release_slot i t =
     (let t1 = push_free i (set_data i (replicate (record_size t) 0) (set_status Free i t))
      in t1\<lparr>record_count := record_count t1 - 1\<rparr>)"

lemma release_slot_effect:
  assumes "wf_table t" and "i \<in> used_slots t"
  shows "wf_table (release_slot i t)" and "contents (release_slot i t) = (contents t)(i := None)"
    and "0 < record_count t" and "free_slot_count t < cap t"
    and "tdef (release_slot i t) = tdef t" and "record_size (release_slot i t) = record_size t"
proof -
  have i: "i < cap t" using assms(2) by (simp add: used_slots_def)
  have lens: "length (data t) = cap t" "length (status_array t) = cap t"
    "length (free_slots t) = cap t" using assms(1) by auto
  have rc: "record_count t = card (used_slots t)" using assms(1) by (simp add: wf_table_def)
  then show pos: "0 < record_count t" using assms(2) by (auto simp: card_gt_0_iff)
  then show lt: "free_slot_count t < cap t" using wf_counts [OF assms(1)] by simp
  let ?t = "release_slot i t"
  have t: "?t = (set_data i (replicate (record_size t) 0) (set_status Free i t))
      \<lparr>free_slots := (free_slots t)[free_slot_count t := i],
       free_slot_count := free_slot_count t + 1, record_count := record_count t - 1\<rparr>"
    using lt by (simp add: release_slot_def push_free_def)
  then show "tdef ?t = tdef t" "record_size ?t = record_size t" by auto
  have "used_slots ?t = used_slots (set_status Free i t)"
    using t by (intro used_slots_cong) auto
  then have u: "used_slots ?t = used_slots t - {i}"
    using i lens by (simp add: used_slots_set_status)
  have fs: "free_stack ?t = free_stack t @ [i]"
    using lt lens t by (simp add: free_stack_def take_Suc_update)
  have d: "data ?t ! j = (if j = i then replicate (record_size t) 0 else data t ! j)" for j
    using t i lens by (simp add: data_set_data)
  show "contents ?t = (contents t)(i := None)"
    by (intro ext) (auto simp: contents_def u d)
  have "i \<notin> set (free_stack t)" using assms by (auto simp: wf_table_def)
  moreover have "{..<cap t} - (used_slots t - {i}) = insert i ({..<cap t} - used_slots t)"
    using i by auto
  moreover have "record_count t - 1 = card (used_slots t - {i})"
    using assms(2) rc by simp
  moreover have "length (data ?t) = cap ?t" "length (status_array ?t) = cap ?t"
    "length (free_slots ?t) = cap ?t" "free_slot_count ?t \<le> cap ?t"
    "record_count ?t = record_count t - 1" "cap ?t = cap t" "record_size ?t = record_size t"
    using lens lt by (simp_all add: t)
  moreover have "length (data ?t ! j) = record_size t" if "j < cap t" for j
    using that assms(1) by (simp add: d wf_table_def)
  ultimately show "wf_table ?t"
    using assms(1) unfolding wf_table_def [of ?t] u fs by (simp add: wf_table_def)
qed

lemma table_delete_effect:
  assumes "wf_table t"
  shows "table_delete now tm t i =
    (if i \<in> used_slots t
     then Ok (log_in_tx now Delete (t_id (tdef t)) (of_nat i) (of_nat (record_size t))
                (Some (data t ! i)) None tm, release_slot i t)
     else Err RecordNotFound)"
proof (cases "i \<in> used_slots t")
  case True
  then show ?thesis using release_slot_effect(3) [OF assms True]
    by (simp add: table_delete_def release_slot_def used_slots_def Let_def)
next
  case False
  then show ?thesis by (auto simp: table_delete_def used_slots_def)
qed

section \<open>A new table\<close>

lemma wf_table_new:
  assumes "0 < max_records d" and "length dat = max_records d" and "length hs = max_records d"
    and "\<forall>r\<in>set dat. length r = def_record_size d"
    and "new_with_options (Some dat) (Some hs) (Some fs) d False = Ok t"
  shows "wf_table t \<and> contents t = Map.empty \<and> tdef t = d \<and> record_size t = def_record_size d
    \<and> \<not> low_power_mode t \<and> status_array t = map init_header hs"
proof -
  let ?n = "max_records d"
  have t: "tdef t = d" "data t = dat" "status_array t = map init_header hs" "record_count t = 0"
    "record_size t = def_record_size d" "free_slot_count t = ?n" "\<not> low_power_mode t"
    "free_slots t = map (\<lambda>i. ?n - 1 - i) [0..<?n]"
    using assms(1,5) by (auto simp: new_with_options_def)
  have u: "used_slots t = {}"
    using t assms(3) by (auto simp: used_slots_def init_header_def)
  have fs: "free_stack t = map (\<lambda>i. ?n - 1 - i) [0..<?n]" by (simp add: free_stack_def t)
  have "(\<lambda>i. ?n - 1 - i) ` {0..<?n} = {..<?n}"
  proof (intro equalityI subsetI)
    fix x assume "x \<in> {..<?n}"
    then have "x = ?n - 1 - (?n - 1 - x)" "?n - 1 - x \<in> {0..<?n}" by auto
    then show "x \<in> (\<lambda>i. ?n - 1 - i) ` {0..<?n}" by blast
  qed auto
  moreover have "inj_on (\<lambda>i. ?n - 1 - i) {0..<?n}" by (auto simp: inj_on_def)
  moreover have "length (data t ! j) = record_size t" if "j < ?n" for j
    using that assms(2,4) t by simp
  ultimately have "wf_table t"
    using assms(2,3) by (simp add: wf_table_def fs u t distinct_map)
  then show ?thesis using t by (auto simp: contents_def u)
qed

end
