(* ===== verification/Store.thy ===== *)
theory Store
  imports Prelude
begin

text \<open>
  The contract of a record store: a finite map from record identifiers to records behind
  insert, update, delete and lookup.  The contract is a locale over the four operations; what
  a client may conclude from it about whole sequences of requests is proved once here.  The
  memory table is the instance (theory \<open>MemTable_Store\<close>).
\<close>

section \<open>Requests, replies and the specification\<close>

datatype 'r request = ReqInsert 'r | ReqUpdate nat 'r | ReqDelete nat | ReqGet nat

datatype 'r reply = RId nat | RDone | RRecord 'r | RError RemDbError | RPanic

text \<open>
  One step of the specification.  The flag \<open>ow\<close> says whether an insert may land on an occupied
  identifier (the low-power mode of the tables); a failing request leaves the map alone.
\<close>

inductive spec_step ::
  "bool \<Rightarrow> (nat \<rightharpoonup> 'r) \<Rightarrow> 'r request \<Rightarrow> 'r reply \<Rightarrow> (nat \<rightharpoonup> 'r) \<Rightarrow> bool" where
  insert_ok: "m i = None \<or> ow \<Longrightarrow> spec_step ow m (ReqInsert r) (RId i) (m(i \<mapsto> r))"
| insert_err: "spec_step ow m (ReqInsert r) (RError e) m"
| update_ok: "m i = Some r0 \<Longrightarrow> spec_step ow m (ReqUpdate i r) RDone (m(i \<mapsto> r))"
| update_err: "spec_step ow m (ReqUpdate i r) (RError e) m"
| delete_ok: "m i = Some r0 \<Longrightarrow> spec_step ow m (ReqDelete i) RDone (m(i := None))"
| delete_missing: "m i = None \<Longrightarrow> spec_step ow m (ReqDelete i) (RError RecordNotFound) m"
| get_ok: "m i = Some r \<Longrightarrow> spec_step ow m (ReqGet i) (RRecord r) m"
| get_missing: "m i = None \<Longrightarrow> spec_step ow m (ReqGet i) (RError RecordNotFound) m"

inductive_cases spec_step_getE: "spec_step ow m (ReqGet i) rep m'"
inductive_cases spec_step_deleteE: "spec_step ow m (ReqDelete i) rep m'"

inductive spec_run ::
  "bool \<Rightarrow> (nat \<rightharpoonup> 'r) \<Rightarrow> 'r request list \<Rightarrow> 'r reply list \<Rightarrow> (nat \<rightharpoonup> 'r) \<Rightarrow> bool" where
  nil: "spec_run ow m [] [] m"
| step: "spec_step ow m q rep m1 \<Longrightarrow> spec_run ow m1 qs reps m2
          \<Longrightarrow> spec_run ow m (q # qs) (rep # reps) m2"

text \<open>Dispatching a request to a store given by its four operations.\<close>

fun dispatch ::
  "('s \<Rightarrow> 'r \<Rightarrow> (nat \<times> 's) outcome) \<Rightarrow> ('s \<Rightarrow> nat \<Rightarrow> 'r \<Rightarrow> 's outcome) \<Rightarrow> ('s \<Rightarrow> nat \<Rightarrow> 's outcome)
     \<Rightarrow> ('s \<Rightarrow> nat \<Rightarrow> 'r outcome) \<Rightarrow> 's \<Rightarrow> 'r request \<Rightarrow> 'r reply \<times> 's" where
  "dispatch ins upd del get s (ReqInsert r) =
     (case ins s r of Ok (i, s') \<Rightarrow> (RId i, s') | Err e \<Rightarrow> (RError e, s) | Fault \<Rightarrow> (RPanic, s))"
| "dispatch ins upd del get s (ReqUpdate i r) =
     (case upd s i r of Ok s' \<Rightarrow> (RDone, s') | Err e \<Rightarrow> (RError e, s) | Fault \<Rightarrow> (RPanic, s))"
| "dispatch ins upd del get s (ReqDelete i) =
     (case del s i of Ok s' \<Rightarrow> (RDone, s') | Err e \<Rightarrow> (RError e, s) | Fault \<Rightarrow> (RPanic, s))"
| "dispatch ins upd del get s (ReqGet i) =
     (case get s i of Ok r \<Rightarrow> (RRecord r, s) | Err e \<Rightarrow> (RError e, s) | Fault \<Rightarrow> (RPanic, s))"

fun serve ::
  "('s \<Rightarrow> 'r request \<Rightarrow> 'r reply \<times> 's) \<Rightarrow> 's \<Rightarrow> 'r request list \<Rightarrow> 'r reply list \<times> 's" where
  "serve f s [] = ([], s)"
| "serve f s (q # qs) =
     (let (rep, s1) = f s q; (reps, s2) = serve f s1 qs in (rep # reps, s2))"

fun req_ok :: "('r \<Rightarrow> bool) \<Rightarrow> 'r request \<Rightarrow> bool" where
  "req_ok ok (ReqInsert r) = ok r"
| "req_ok ok (ReqUpdate i r) = ok r"
| "req_ok ok (ReqDelete i) = True"
| "req_ok ok (ReqGet i) = True"

section \<open>The interface\<close>

locale record_store =
  fixes inv :: "'s \<Rightarrow> bool"
    and contents :: "'s \<Rightarrow> nat \<rightharpoonup> 'r"
    and overwrites :: "'s \<Rightarrow> bool"
    and fits :: "'s \<Rightarrow> 'r \<Rightarrow> bool"
    and ins :: "'s \<Rightarrow> 'r \<Rightarrow> (nat \<times> 's) outcome"
    and upd :: "'s \<Rightarrow> nat \<Rightarrow> 'r \<Rightarrow> 's outcome"
    and del :: "'s \<Rightarrow> nat \<Rightarrow> 's outcome"
    and get :: "'s \<Rightarrow> nat \<Rightarrow> 'r outcome"
  assumes ins_total: "inv s \<Longrightarrow> fits s r \<Longrightarrow> ins s r \<noteq> Fault"
    and ins_ok: "inv s \<Longrightarrow> fits s r \<Longrightarrow> ins s r = Ok (i, s') \<Longrightarrow>
          inv s' \<and> contents s' = (contents s)(i \<mapsto> r) \<and> (contents s i = None \<or> overwrites s)
          \<and> overwrites s' = overwrites s \<and> fits s' = fits s"
    and upd_total: "inv s \<Longrightarrow> fits s r \<Longrightarrow> upd s i r \<noteq> Fault"
    and upd_ok: "inv s \<Longrightarrow> fits s r \<Longrightarrow> upd s i r = Ok s' \<Longrightarrow>
          inv s' \<and> contents s' = (contents s)(i \<mapsto> r) \<and> contents s i \<noteq> None
          \<and> overwrites s' = overwrites s \<and> fits s' = fits s"
    and del_some: "inv s \<Longrightarrow> contents s i = Some r \<Longrightarrow> \<exists>s'. del s i = Ok s'"
    and del_none: "inv s \<Longrightarrow> contents s i = None \<Longrightarrow> del s i = Err RecordNotFound"
    and del_ok: "inv s \<Longrightarrow> del s i = Ok s' \<Longrightarrow>
          inv s' \<and> contents s' = (contents s)(i := None)
          \<and> overwrites s' = overwrites s \<and> fits s' = fits s"
    and get_spec: "inv s \<Longrightarrow>
          get s i = (case contents s i of None \<Rightarrow> Err RecordNotFound | Some r \<Rightarrow> Ok r)"
begin

lemma get_after_ins:
  "inv s \<Longrightarrow> fits s r \<Longrightarrow> ins s r = Ok (i, s') \<Longrightarrow>
     get s' j = (if j = i then Ok r else get s j)"
  using ins_ok [of s r i s'] by (simp add: get_spec)

lemma get_after_upd:
  "inv s \<Longrightarrow> fits s r \<Longrightarrow> upd s i r = Ok s' \<Longrightarrow>
     get s' j = (if j = i then Ok r else get s j)"
  using upd_ok [of s r i s'] by (simp add: get_spec)

lemma get_after_del:
  "inv s \<Longrightarrow> del s i = Ok s' \<Longrightarrow>
     get s' j = (if j = i then Err RecordNotFound else get s j)"
  using del_ok [of s i s'] by (simp add: get_spec)

lemma del_cases:
  assumes "inv s"
  obtains s' r where "contents s i = Some r" "del s i = Ok s'"
  | "contents s i = None" "del s i = Err RecordNotFound"
  using assms del_some del_none by (cases "contents s i") blast+

lemma dispatch_step:
  assumes "inv s" and "req_ok (fits s) q" and "dispatch ins upd del get s q = (rep, s')"
  shows "inv s' \<and> spec_step (overwrites s) (contents s) q rep (contents s')
         \<and> overwrites s' = overwrites s \<and> fits s' = fits s"
proof (cases q)
  case (ReqInsert r)
  with assms(2) have f: "fits s r" by simp
  show ?thesis
  proof (cases "ins s r")
    case (Ok x)
    then obtain i s1 where o: "ins s r = Ok (i, s1)" by (cases x) auto
    with ReqInsert assms(3) have "rep = RId i" "s' = s1" by auto
    then show ?thesis using ins_ok [OF assms(1) f o] ReqInsert spec_step.insert_ok by metis
  next
    case (Err e)
    with ReqInsert assms(1,3) show ?thesis by (auto intro: spec_step.insert_err)
  qed (use ins_total [OF assms(1) f] in simp)
next
  case (ReqUpdate i r)
  with assms(2) have f: "fits s r" by simp
  show ?thesis
  proof (cases "upd s i r")
    case (Ok s1)
    with ReqUpdate assms(3) have "rep = RDone" "s' = s1" by auto
    then show ?thesis using upd_ok [OF assms(1) f Ok] ReqUpdate spec_step.update_ok
      by (metis not_None_eq)
  next
    case (Err e)
    with ReqUpdate assms(1,3) show ?thesis by (auto intro: spec_step.update_err)
  qed (use upd_total [OF assms(1) f] in simp)
next
  case (ReqDelete i)
  from \<open>inv s\<close> show ?thesis
  proof (cases rule: del_cases [where i = i])
    case (1 s1 r)
    with assms(3) ReqDelete have "rep = RDone" "s' = s1" by auto
    then show ?thesis
      using del_ok [OF assms(1) 1(2)] 1(1) ReqDelete spec_step.delete_ok by metis
  next
    case 2
    with assms ReqDelete show ?thesis by (auto intro: spec_step.delete_missing)
  qed
next
  case (ReqGet i)
  with assms show ?thesis
    by (cases "contents s i")
      (auto simp: get_spec intro: spec_step.get_ok spec_step.get_missing)
qed

text \<open>Every sequence of requests behaves as the specification allows.\<close>

lemma serve_refines:
  "inv s \<Longrightarrow> \<forall>q\<in>set qs. req_ok (fits s) q
    \<Longrightarrow> serve (dispatch ins upd del get) s qs = (reps, s')
    \<Longrightarrow> inv s' \<and> spec_run (overwrites s) (contents s) qs reps (contents s')"
proof (induction qs arbitrary: s reps)
  case Nil
  then show ?case by (auto intro: spec_run.intros)
next
  case (Cons q qs)
  obtain rep s1 where d: "dispatch ins upd del get s q = (rep, s1)" by fastforce
  obtain reps' where r: "reps = rep # reps'" and sv: "serve (dispatch ins upd del get) s1 qs = (reps', s')"
    using Cons.prems(3) d by (auto split: prod.splits)
  have st: "inv s1 \<and> spec_step (overwrites s) (contents s) q rep (contents s1)
      \<and> overwrites s1 = overwrites s \<and> fits s1 = fits s"
    using dispatch_step [OF Cons.prems(1) _ d] Cons.prems(2) by simp
  with Cons.IH [OF _ _ sv] Cons.prems(2) show ?case
    by (auto simp: r intro: spec_run.intros)
qed

end

section \<open>Consequences of the specification\<close>

lemma spec_step_no_panic: "spec_step ow m q rep m' \<Longrightarrow> rep \<noteq> RPanic"
  by (cases rule: spec_step.cases) auto

lemma spec_run_no_panic: "spec_run ow m qs reps m' \<Longrightarrow> RPanic \<notin> set reps"
  by (induction rule: spec_run.induct) (auto dest: spec_step_no_panic)

lemma spec_run_length: "spec_run ow m qs reps m' \<Longrightarrow> length reps = length qs"
  by (induction rule: spec_run.induct) auto

end
