(* ===== verification/MemTable_Store.thy ===== *)
theory MemTable_Store
  imports MemTable_Inv Store
begin

text \<open>
  The memory table as an instance of the record store contract, with the full invariant of a
  table in service: well-formed slots, key columns that exist, headers of visible records, and
  distinct primary keys.
\<close>

section \<open>Constraint checking never panics and finds every duplicate\<close>

definition pk_in_range :: "TableDef \<Rightarrow> bool" where
  "pk_in_range d \<longleftrightarrow> (\<forall>i\<in>set (primary_key d). i < length (t_fields d))"

lemma pk_equal_total:
  "\<forall>i\<in>set is. i < length fs \<Longrightarrow> \<exists>b. pk_equal fs is a c = Ok b"
  by (induction "is") auto

lemma field_equal_sym: "field_equal f a b = field_equal f b a"
  by (cases "data_type f") (auto simp: field_equal_def Let_def f32_eq_sym f64_eq_sym)

lemma pk_equal_sym: "pk_equal fs is a b = pk_equal fs is b a"
  by (induction "is") (auto simp: field_equal_sym)

lemma scan_duplicates_no_Fault:
  "(\<And>r. dup r \<noteq> Fault) \<Longrightarrow> scan_duplicates t cur ex dup ss \<noteq> Fault"
  by (induction ss) (auto simp: outcome_simps)

lemma scan_duplicates_Ok:
  assumes "scan_duplicates t cur ex dup ss = Ok ()" and "s \<in> set ss" and "ex \<noteq> Some s"
    and "slot_visible t cur s"
  shows "dup (data t ! s) = Ok False"
  using assms by (induction ss) (auto simp: outcome_simps split: if_splits)

lemma check_fields_no_Fault: "check_fields rd fs \<noteq> Fault"
proof (induction fs)
  case (Cons f fs)
  have "check_field rd f \<noteq> Fault"
    by (auto simp: check_field_def Let_def split: DataType.splits)
  with Cons show ?case by (simp add: outcome_simps)
qed simp

lemma check_unique_fields_no_Fault: "check_unique_fields t cur ex rd fs \<noteq> Fault"
  by (induction fs) (auto simp: outcome_simps scan_duplicates_no_Fault)

lemma validate_constraints_no_Fault:
  assumes "pk_in_range (tdef t)"
  shows "validate_constraints t cur rd ex \<noteq> Fault"
proof -
  have "pk_equal (t_fields (tdef t)) (primary_key (tdef t)) rd r \<noteq> Fault" for r
    using pk_equal_total [of "primary_key (tdef t)" "t_fields (tdef t)" rd r] assms
    by (auto simp: pk_in_range_def)
  then have "check_primary_key t cur ex rd \<noteq> Fault"
    by (simp add: check_primary_key_def scan_duplicates_no_Fault)
  then show ?thesis
    by (simp add: validate_constraints_def outcome_simps check_fields_no_Fault
        check_unique_fields_no_Fault)
qed

lemma pick_slot_no_Fault: "pick_slot t \<noteq> Fault"
  by (auto simp: pick_slot_def Let_def split: option.splits)

section \<open>Distinct primary keys\<close>

definition pk_unique :: "MemoryTable \<Rightarrow> bool" where
  "pk_unique t \<longleftrightarrow>
     (\<forall>i\<in>used_slots t. \<forall>j\<in>used_slots t. i \<noteq> j \<longrightarrow>
        pk_equal (t_fields (tdef t)) (primary_key (tdef t)) (data t ! i) (data t ! j) = Ok False)"

text \<open>
  Headers whose creating transaction is not newer than \<open>cur\<close> and that no transaction has
  deleted: the records of such slots are visible to \<open>cur\<close>.
\<close>

definition headers_ok :: "u32 \<Rightarrow> MemoryTable \<Rightarrow> bool" where
  "headers_ok cur t \<longleftrightarrow>
     (\<forall>h\<in>set (status_array t). create_tx_id h \<le> cur \<and> delete_tx_id h = 0)"

lemma headers_ok_visible:
  assumes "headers_ok cur t" and "wf_table t" and "i \<in> used_slots t"
  shows "slot_visible t cur i"
proof -
  have i: "i < length (status_array t)" "slot_status t i = Used"
    using assms(2,3) wf_lengths(2) by (auto simp: used_slots_def)
  then have "status_array t ! i \<in> set (status_array t)" by simp
  with assms(1) have "create_tx_id (status_array t ! i) \<le> cur"
    "delete_tx_id (status_array t ! i) = 0" by (auto simp: headers_ok_def)
  with i show ?thesis by (auto simp: slot_visible_def is_visible_def)
qed

lemma headers_ok_set_status [simp]:
  assumes "i < length (status_array t)" and "headers_ok cur t"
  shows "headers_ok cur (set_status st i t)"
proof -
  have "status_array t ! i \<in> set (status_array t)" using assms(1) by simp
  then show ?thesis
    using assms set_update_subset_insert [of "status_array t"]
    by (fastforce simp: headers_ok_def set_status_def)
qed

lemma headers_ok_cong: "status_array t = status_array t' \<Longrightarrow> headers_ok cur t = headers_ok cur t'"
  by (simp add: headers_ok_def)

definition pk_clash :: "MemoryTable \<Rightarrow> bytes \<Rightarrow> nat \<Rightarrow> bool" where
  "pk_clash t rd j \<longleftrightarrow>
     pk_equal (t_fields (tdef t)) (primary_key (tdef t)) rd (data t ! j) \<noteq> Ok False"

lemma validated_no_clash:
  assumes "validate_constraints t cur rd ex = Ok ()" and "primary_key (tdef t) \<noteq> []"
    and "headers_ok cur t" and "wf_table t" and "j \<in> used_slots t" and "ex \<noteq> Some j"
  shows "\<not> pk_clash t rd j"
proof -
  have "check_primary_key t cur ex rd = Ok ()"
    using assms(1) by (auto simp: validate_constraints_def outcome_simps)
  moreover have "j \<in> set [0..<cap t]" using assms(5) by (simp add: used_slots_def)
  ultimately show ?thesis
    using scan_duplicates_Ok headers_ok_visible [OF assms(3-5)] assms(2,6)
    by (fastforce simp: check_primary_key_def pk_clash_def)
qed

text \<open>Storing a record that clashes with no other used slot keeps the keys distinct.\<close>

lemma pk_unique_store:
  assumes "pk_unique t" and "\<And>j. j \<in> used_slots t \<Longrightarrow> j \<noteq> i \<Longrightarrow> \<not> pk_clash t rd j"
    and "contents t' = (contents t)(i \<mapsto> rd)" and "tdef t' = tdef t"
  shows "pk_unique t'"
proof -
  have c: "data t' ! j = (if j = i then rd else data t ! j)" and d: "j = i \<or> j \<in> used_slots t"
    if "j \<in> used_slots t'" for j
    using that fun_cong [OF assms(3), of j] by (auto simp: contents_def split: if_splits)
  show ?thesis unfolding pk_unique_def assms(4)
  proof (intro ballI impI)
    fix j k
    assume j: "j \<in> used_slots t'" and k: "k \<in> used_slots t'" and n: "j \<noteq> k"
    have *: "pk_equal (t_fields (tdef t)) (primary_key (tdef t)) rd (data t ! l) = Ok False"
      if "l \<in> used_slots t" "l \<noteq> i" for l
      using assms(2) [OF that] by (simp add: pk_clash_def)
    show "pk_equal (t_fields (tdef t)) (primary_key (tdef t)) (data t' ! j) (data t' ! k) = Ok False"
      using c [OF j] c [OF k] d [OF j] d [OF k] n * assms(1)
      by (auto simp: pk_unique_def pk_equal_sym [of _ _ _ rd])
  qed
qed

lemma pk_unique_release:
  assumes "pk_unique t" and "contents t' = (contents t)(i := None)" and "tdef t' = tdef t"
  shows "pk_unique t'"
proof -
  have "data t' ! j = data t ! j" "j \<in> used_slots t" if "j \<in> used_slots t'" for j
    using that fun_cong [OF assms(2), of j] by (auto simp: contents_def split: if_splits)
  with assms(1) show ?thesis by (auto simp: pk_unique_def assms(3))
qed

section \<open>The service invariant\<close>

type_synonym 'lm table_state = "'lm TransactionManager \<times> MemoryTable"

definition in_service :: "'lm table_state \<Rightarrow> bool" where
  "in_service s \<longleftrightarrow>
     wf_table (snd s) \<and> pk_in_range (tdef (snd s)) \<and> primary_key (tdef (snd s)) \<noteq> []
     \<and> headers_ok (tx_id_counter (fst s)) (snd s) \<and> pk_unique (snd s)"

definition store_insert ::
  "u64 \<Rightarrow> 'lm table_state \<Rightarrow> bytes \<Rightarrow> (nat \<times> 'lm table_state) outcome" where
  "store_insert now s rd =
     and_then (table_insert now (fst s) (snd s) rd) (\<lambda>(i, tm, t). Ok (i, tm, t))"

definition store_update ::
  "u64 \<Rightarrow> 'lm table_state \<Rightarrow> nat \<Rightarrow> bytes \<Rightarrow> 'lm table_state outcome" where
  "store_update now s i rd = table_update now (fst s) (snd s) i rd"

definition store_delete :: "u64 \<Rightarrow> 'lm table_state \<Rightarrow> nat \<Rightarrow> 'lm table_state outcome" where
  "store_delete now s i = table_delete now (fst s) (snd s) i"

definition store_get :: "'lm table_state \<Rightarrow> nat \<Rightarrow> bytes outcome" where
  "store_get s i = get_by_id (snd s) i"

definition record_fits :: "'lm table_state \<Rightarrow> bytes \<Rightarrow> bool" where
  "record_fits s rd \<longleftrightarrow> length rd = record_size (snd s)"

lemma insert_in_service:
  assumes "in_service s" and "record_fits s rd" and "store_insert now s rd = Ok (i, s')"
  shows "in_service s' \<and> contents (snd s') = (contents (snd s))(i \<mapsto> rd)
         \<and> (contents (snd s) i = None \<or> low_power_mode (snd s))
         \<and> low_power_mode (snd s') = low_power_mode (snd s) \<and> record_fits s' = record_fits s"
proof -
  obtain tm t where s: "s = (tm, t)" by (cases s)
  obtain tm' t' where s': "s' = (tm', t')" by (cases s')
  have ins: "table_insert now tm t rd = Ok (i, tm', t')"
    using assms(3) by (auto simp: store_insert_def s s' outcome_simps split: prod.splits)
  have wf: "wf_table t" and len: "length rd = record_size t"
    using assms(1,2) by (auto simp: in_service_def record_fits_def s)
  note e = table_insert_effect [OF wf len ins]
  have "headers_ok (tx_id_counter tm) t'"
  proof -
    obtain ow t1 where "pick_slot t = Ok (i, ow, t1)"
      and t': "t' = (let t2 = update_max_pk rd (set_status Used i (set_data i rd t1))
              in if ow then t2 else t2\<lparr>record_count := record_count t2 + 1\<rparr>)"
      using ins len by (auto simp: table_insert_Ok_iff)
    then have "status_array t1 = status_array t"
      by (auto simp: pick_slot_def Let_def split: if_splits option.splits)
    then have "status_array t' = status_array (set_status Used i t)"
      using t' by (simp add: Let_def set_status_def)
    moreover have "headers_ok (tx_id_counter tm) (set_status Used i t)"
      using assms(1) e(3) wf_lengths(2) [OF wf] by (simp add: in_service_def s)
    ultimately show ?thesis using headers_ok_cong by blast
  qed
  moreover have "pk_unique t'"
  proof (rule pk_unique_store)
    show "pk_unique t" using assms(1) by (simp add: in_service_def s)
    show "\<not> pk_clash t rd j" if "j \<in> used_slots t" "j \<noteq> i" for j
      using validated_no_clash [of t "tx_id_counter tm" rd None j] assms(1) ins that
      by (auto simp: in_service_def s table_insert_Ok_iff)
  qed (use e in auto)
  moreover have "contents t i = None \<or> low_power_mode t"
    using e(8) by (auto simp: contents_def)
  ultimately show ?thesis
    using assms(1) e by (auto simp: in_service_def s s' record_fits_def)
qed

lemma update_in_service:
  assumes "in_service s" and "record_fits s rd" and "store_update now s i rd = Ok s'"
  shows "in_service s' \<and> contents (snd s') = (contents (snd s))(i \<mapsto> rd)
         \<and> contents (snd s) i \<noteq> None
         \<and> low_power_mode (snd s') = low_power_mode (snd s) \<and> record_fits s' = record_fits s"
proof -
  obtain tm t where s: "s = (tm, t)" by (cases s)
  obtain tm' t' where s': "s' = (tm', t')" by (cases s')
  have upd: "table_update now tm t i rd = Ok (tm', t')"
    using assms(3) by (simp add: store_update_def s s')
  have wf: "wf_table t" and len: "length rd = record_size t"
    using assms(1,2) by (auto simp: in_service_def record_fits_def s)
  note e = table_update_effect [OF wf len upd]
  have v: "validate_constraints t (tx_id_counter tm) rd (Some i) = Ok ()"
    using upd by (auto simp: table_update_def outcome_simps split: if_splits)
  have "headers_ok (tx_id_counter tm) (set_status Used i t)"
    using assms(1) e(3) wf_lengths(2) [OF wf] by (simp add: in_service_def s used_slots_def)
  then have h: "headers_ok (tx_id_counter tm) t'"
    unfolding e(6) by (simp add: headers_ok_def set_status_def)
  have "pk_unique t'"
  proof (rule pk_unique_store)
    show "pk_unique t" using assms(1) by (simp add: in_service_def s)
    show "\<not> pk_clash t rd j" if "j \<in> used_slots t" "j \<noteq> i" for j
      using validated_no_clash [OF v] assms(1) that by (auto simp: in_service_def s)
  qed (use e in auto)
  then show ?thesis
    using assms(1) e(1-5,7) h by (auto simp: in_service_def s s' record_fits_def e(6) contents_def)
qed

lemma delete_in_service:
  assumes "in_service s" and "store_delete now s i = Ok s'"
  shows "in_service s' \<and> contents (snd s') = (contents (snd s))(i := None)
         \<and> low_power_mode (snd s') = low_power_mode (snd s) \<and> record_fits s' = record_fits s"
proof -
  obtain tm t where s: "s = (tm, t)" by (cases s)
  have wf: "wf_table t" using assms(1) by (simp add: in_service_def s)
  have u: "i \<in> used_slots t"
    and s': "s' = (log_in_tx now Delete (t_id (tdef t)) (of_nat i) (of_nat (record_size t))
                (Some (data t ! i)) None tm, release_slot i t)"
    using assms(2) by (auto simp: store_delete_def s table_delete_effect [OF wf] split: if_splits)
  note e = release_slot_effect [OF wf u]
  have "headers_ok (tx_id_counter tm) (set_status Free i t)"
    using assms(1) u wf_lengths(2) [OF wf] by (simp add: in_service_def s used_slots_def)
  then have "headers_ok (tx_id_counter tm) (release_slot i t)"
    by (simp add: headers_ok_def release_slot_def set_status_def Let_def)
  moreover have "pk_unique (release_slot i t)"
    using pk_unique_release [OF _ e(2,5)] assms(1) by (simp add: in_service_def s)
  moreover have "low_power_mode (release_slot i t) = low_power_mode t"
    by (simp add: release_slot_def Let_def)
  ultimately show ?thesis
    using assms(1) e by (auto simp: in_service_def s s' record_fits_def)
qed

section \<open>The interpretation\<close>

interpretation table_store: record_store
  in_service "\<lambda>s. contents (snd s)" "\<lambda>s. low_power_mode (snd s)" record_fits
  "store_insert now" "store_update now" "store_delete now" store_get for now
proof unfold_locales
  fix s :: "'lm table_state" and r i s'
  assume inv: "in_service s"
  then have wf: "wf_table (snd s)" and pk: "pk_in_range (tdef (snd s))"
    by (auto simp: in_service_def)
  show "store_insert now s r \<noteq> Fault"
    using validate_constraints_no_Fault [OF pk] pick_slot_no_Fault
    by (auto simp: store_insert_def table_insert_def outcome_simps Let_def split: prod.splits)
  show "store_update now s i r \<noteq> Fault"
    using validate_constraints_no_Fault [OF pk]
    by (auto simp: store_update_def table_update_def outcome_simps Let_def)
  show "\<exists>s'. store_delete now s i = Ok s'" if "contents (snd s) i = Some r"
    using that by (auto simp: store_delete_def table_delete_effect [OF wf] contents_def
        split: if_splits)
  show "store_delete now s i = Err RecordNotFound" if "contents (snd s) i = None"
    using that by (auto simp: store_delete_def table_delete_effect [OF wf] contents_def
        split: if_splits)
  show "store_get s i = (case contents (snd s) i of None \<Rightarrow> Err RecordNotFound | Some r \<Rightarrow> Ok r)"
    by (simp add: store_get_def get_by_id_contents)
qed (rule insert_in_service update_in_service delete_in_service; assumption)+

end
