(* ===== verification/TextVal.thy ===== *)
theory TextVal
  imports Types
begin

text \<open>
  \<open>TextStorage\<close> of \<^verbatim>\<open>src/src/types.rs\<close>: a tag and a 256-byte union, holding a text inline, a
  pointer to an external buffer, or nothing.  External memory is an argument \<open>mem\<close> that gives
  the bytes at an address.
\<close>

section \<open>Representation\<close>

datatype TextStorageTag = TInline | TExternal | TNull

record ExternalTextData =
  data_ptr :: u64
  x_length :: u32
  x_capacity :: u32

record TextStorage =
  tag :: TextStorageTag
  raw :: bytes

text \<open>The union under \<open>repr(C)\<close>: the external view reads its fields at offsets 0, 8 and 12.\<close>

definition external_view :: "bytes \<Rightarrow> ExternalTextData" where
  "external_view bs = \<lparr>data_ptr = read_u64 bs 0, x_length = read_u32 bs 8, x_capacity = read_u32 bs 12\<rparr>"

definition external_bytes :: "ExternalTextData \<Rightarrow> bytes" where
  "external_bytes x =
     to_le 8 (unat (data_ptr x)) @ to_le 4 (unat (x_length x)) @ to_le 4 (unat (x_capacity x))"

definition new_inline :: "bytes \<Rightarrow> TextStorage" where
  "new_inline d = \<lparr>tag = TInline, raw = d\<rparr>"

text \<open>The bytes of the union behind the external fields are whatever memory held (\<open>rest\<close>).\<close>

definition new_external :: "bytes \<Rightarrow> u64 \<Rightarrow> u32 \<Rightarrow> u32 \<Rightarrow> TextStorage" where
  "new_external rest p len c =
     \<lparr>tag = TExternal,
      raw = external_bytes \<lparr>data_ptr = p, x_length = len, x_capacity = c\<rparr> @ rest\<rparr>"

definition new_null :: TextStorage where
  "new_null = \<lparr>tag = TNull, raw = replicate 256 0\<rparr>"

definition is_inline :: "TextStorage \<Rightarrow> bool" where "is_inline t \<longleftrightarrow> tag t = TInline"
definition is_external :: "TextStorage \<Rightarrow> bool" where "is_external t \<longleftrightarrow> tag t = TExternal"
definition is_null :: "TextStorage \<Rightarrow> bool" where "is_null t \<longleftrightarrow> tag t = TNull"

definition as_inline :: "TextStorage \<Rightarrow> bytes option" where
  "as_inline t = (if tag t = TInline then Some (raw t) else None)"

definition as_external :: "TextStorage \<Rightarrow> ExternalTextData option" where
  "as_external t = (if tag t = TExternal then Some (external_view (raw t)) else None)"

text \<open>\<open>iter().position(|b| b == 0).unwrap_or(len)\<close>.\<close>

definition zero_pos :: "bytes \<Rightarrow> nat" where
  "zero_pos bs = length (takeWhile (\<lambda>b. b \<noteq> 0) bs)"

definition extract_bytes :: "(u64 \<Rightarrow> nat \<Rightarrow> bytes) \<Rightarrow> TextStorage \<Rightarrow> bytes" where
  "extract_bytes mem t =
     (case tag t of
        TInline \<Rightarrow> take (zero_pos (raw t)) (raw t)
      | TExternal \<Rightarrow> (let x = external_view (raw t)
                     in if data_ptr x \<noteq> 0 then mem (data_ptr x) (unat (x_length x)) else [])
      | TNull \<Rightarrow> [])"

definition text_cmp :: "(u64 \<Rightarrow> nat \<Rightarrow> bytes) \<Rightarrow> TextStorage \<Rightarrow> TextStorage \<Rightarrow> ordering" where
  "text_cmp mem a b = cmp_slice (extract_bytes mem a) (extract_bytes mem b)"

definition text_eq :: "TextStorage \<Rightarrow> TextStorage \<Rightarrow> bool" where
  "text_eq a b \<longleftrightarrow> tag a = tag b \<and> raw a = raw b"

text \<open>
  A \<open>TextStorage\<close> read from a record: the tag at the offset of the field, the union 8 bytes
  further (its alignment).  A tag byte other than 0 and 1 is read as \<open>Null\<close>.
\<close>

definition read_text :: "bytes \<Rightarrow> nat \<Rightarrow> TextStorage" where
  "read_text bs off =
     \<lparr>tag = (if read_u8 bs off = 0 then TInline else if read_u8 bs off = 1 then TExternal
             else TNull),
      raw = bytes_at bs (off + 8) 256\<rparr>"

section \<open>Lemmas\<close>

lemma take_zero_pos: "take (zero_pos bs) bs = takeWhile (\<lambda>b. b \<noteq> 0) bs"
  unfolding zero_pos_def by (rule takeWhile_eq_take [symmetric])

lemma external_view_bytes [simp]: "external_view (external_bytes x @ rest) = x"
proof -
  have b: "unat (w :: u64) < 256 ^ 8" "unat (v :: u32) < 256 ^ 4" for w v
    using unsigned_less [of w] unsigned_less [of v] by simp_all
  show ?thesis
    by (simp add: external_view_def external_bytes_def read_u64_def read_u32_def read_le_def
        bytes_at_def b [simplified])
qed

lemma extract_bytes_external:
  "p \<noteq> 0 \<Longrightarrow> extract_bytes mem (new_external rest p len c) = mem p (unat len)"
  by (simp add: extract_bytes_def new_external_def)

lemma extract_bytes_inline:
  "extract_bytes mem (new_inline d) = takeWhile (\<lambda>b. b \<noteq> 0) d"
  by (simp add: extract_bytes_def new_inline_def take_zero_pos)

lemma extract_bytes_null: "extract_bytes mem new_null = []"
  by (simp add: extract_bytes_def new_null_def)

text \<open>A text without NUL bytes that fits inline is read back as it was stored.\<close>

lemma extract_inline_padded:
  "0 \<notin> set s \<Longrightarrow> extract_bytes mem (new_inline (s @ replicate n 0)) = s"
  by (cases n) (auto simp: extract_bytes_inline takeWhile_append)

lemma text_cmp_swap: "text_cmp mem b a = reverse_ordering (text_cmp mem a b)"
  by (simp add: text_cmp_def cmp_slice_swap [of "extract_bytes mem b"])

lemma text_cmp_trans:
  "text_cmp mem a b = Less \<Longrightarrow> text_cmp mem b c = Less \<Longrightarrow> text_cmp mem a c = Less"
  unfolding text_cmp_def by (rule cmp_slice_trans)

lemma text_eq_cmp: "text_eq a b \<Longrightarrow> text_cmp mem a b = Equal"
  by (cases "tag b") (auto simp: text_eq_def text_cmp_def extract_bytes_def)

end
