(* ===== verification/PrimaryIdx.thy ===== *)
theory PrimaryIdx
  imports TextVal
begin

text \<open>
  The primary-key hash index of \<^verbatim>\<open>src/src/index.rs\<close>: composite key encoding, the hash
  function, and a hash table whose buckets are linked lists through an item pool, with the
  free items linked the same way.  A pointer to an item is its position in the pool.
\<close>

section \<open>Composite keys\<close>

definition encode_text_key :: "(u64 \<Rightarrow> nat \<Rightarrow> bytes) \<Rightarrow> TextStorage \<Rightarrow> bytes" where
  "encode_text_key mem ts =
     (if is_inline ts then
        (case as_inline ts of
           Some d \<Rightarrow> (let n = min (zero_pos d) 255 in of_nat n # take n d)
         | None \<Rightarrow> [0])
      else if is_external ts then
        (case as_external ts of
           Some x \<Rightarrow> (if data_ptr x \<noteq> 0
                     then let n = min (unat (x_length x)) 255 in of_nat n # mem (data_ptr x) n
                     else [0])
         | None \<Rightarrow> [0])
      else [0])"

text \<open>
  One key column.  \<open>str_len as u8\<close> truncates; a timestamp contributes its value only; types
  without a branch in the code contribute nothing.
\<close>

definition encode_field :: "(u64 \<Rightarrow> nat \<Rightarrow> bytes) \<Rightarrow> bytes \<Rightarrow> FieldDef \<Rightarrow> bytes" where
  "encode_field mem rd f =
     (let off = offset f in
      case data_type f of
        UInt8 \<Rightarrow> to_le 1 (unat (read_u8 rd off))
      | UInt16 \<Rightarrow> to_le 2 (unat (read_u16 rd off))
      | UInt32 \<Rightarrow> to_le 4 (unat (read_u32 rd off))
      | UInt64 \<Rightarrow> to_le 8 (unat (read_u64 rd off))
      | Int8 \<Rightarrow> to_le 1 (unat (read_u8 rd off))
      | Int16 \<Rightarrow> to_le 2 (unat (read_u16 rd off))
      | Int32 \<Rightarrow> to_le 4 (unat (read_u32 rd off))
      | Int64 \<Rightarrow> to_le 8 (unat (read_u64 rd off))
      | Float32 \<Rightarrow> to_le 4 (unat (read_u32 rd off))
      | Float64 \<Rightarrow> to_le 8 (unat (read_u64 rd off))
      | Bool \<Rightarrow> [read_u8 rd off]
      | Timestamp \<Rightarrow> to_le 8 (unat (ts_value (read_timestamp rd off)))
      | VarChar \<Rightarrow> (let s = bytes_at rd off (f_size f); n = zero_pos s
                   in of_nat n # take n s)
      | Char \<Rightarrow> (let s = bytes_at rd off (f_size f); n = zero_pos s
                in of_nat n # take n s)
      | Text \<Rightarrow> encode_text_key mem (read_text rd off)
      | _ \<Rightarrow> [])"

definition encode_composite_key :: "(u64 \<Rightarrow> nat \<Rightarrow> bytes) \<Rightarrow> bytes \<Rightarrow> FieldDef list \<Rightarrow> bytes" where
  "encode_composite_key mem rd fs = concat (map (encode_field mem rd) fs)"

section \<open>State\<close>

record PrimaryIndexItem =
  next_item :: "nat option"
  item_record_id :: u16
  key_size :: u8
  key_data :: bytes

record PrimaryIndex =
  pi_def :: TableDef
  hash_table :: "nat option list"
  hash_table_size :: nat
  items :: "PrimaryIndexItem list"
  free_items :: "nat option"
  access_count :: nat
  hit_count :: nat
  stats_size :: nat
  item_count :: nat

text \<open>
  Construction over raw memory, of which only the sizes matter: the table is cleared and all
  items are linked in order as free.  A pointer slot takes 8 bytes, an item 144.
\<close>

definition PrimaryIndex_new :: "TableDef \<Rightarrow> nat \<Rightarrow> nat \<Rightarrow> PrimaryIndex" where
  "PrimaryIndex_new d hsize max_items =
     \<lparr>pi_def = d, hash_table = replicate hsize None, hash_table_size = hsize,
      items = map (\<lambda>i. \<lparr>next_item = (if Suc i < max_items then Some (Suc i) else None),
                        item_record_id = 0, key_size = 0, key_data = replicate 128 0\<rparr>)
                  [0..<max_items],
      free_items = (if max_items = 0 then None else Some 0),
      access_count = 0, hit_count = 0, stats_size = hsize * 8 + max_items * 144,
      item_count = 0\<rparr>"

definition calculate_memory_size :: "nat \<Rightarrow> nat \<Rightarrow> nat" where
  "calculate_memory_size hsize max_items = hsize * 8 + max_items * 144"

definition hash_step :: "byte \<Rightarrow> u64 \<Rightarrow> u64" where
  "hash_step b h = (let h1 = (h XOR ucast b) * 0x5bd1e995 in h1 XOR drop_bit 47 h1)"

definition hash_key :: "nat \<Rightarrow> bytes \<Rightarrow> nat" where
  "hash_key hsize key = unat (fold hash_step key 0) mod hsize"

section \<open>Operations\<close>

definition write_key :: "bytes \<Rightarrow> u16 \<Rightarrow> PrimaryIndexItem \<Rightarrow> PrimaryIndexItem" where
  "write_key key rid it =
     it\<lparr>item_record_id := rid, key_size := of_nat (length key),
        key_data := bytes_put (key_data it) 0 key\<rparr>"

text \<open>\<open>% self.hash_table_size\<close> panics on an empty table.\<close>

definition pi_insert :: "PrimaryIndex \<Rightarrow> bytes \<Rightarrow> u16 \<Rightarrow> PrimaryIndex outcome" where
  "pi_insert x key rid =
     (if length key > 128 then Err UnsupportedOperation
      else case free_items x of
        None \<Rightarrow> Err OutOfMemory
      | Some i \<Rightarrow>
          (if hash_table_size x = 0 then Fault
           else
             let h = hash_key (hash_table_size x) key;
                 it = (write_key key rid (items x ! i))\<lparr>next_item := hash_table x ! h\<rparr>
             in Ok (x\<lparr>free_items := next_item (items x ! i), items := (items x)[i := it],
                      hash_table := (hash_table x)[h := Some i],
                      item_count := item_count x + 1\<rparr>)))"

text \<open>
  The key comparison of \<open>find\<close> and \<open>delete\<close>: sizes as \<open>u8\<close>, then byte by byte; reading past
  the 128 bytes of \<open>key_data\<close> panics.
\<close>

fun bytes_match :: "bytes \<Rightarrow> bytes \<Rightarrow> bool outcome" where
  "bytes_match ds [] = Ok True"
| "bytes_match [] (k # ks) = Fault"
| "bytes_match (d # ds) (k # ks) = (if d \<noteq> k then Ok False else bytes_match ds ks)"

definition item_matches :: "PrimaryIndexItem \<Rightarrow> bytes \<Rightarrow> bool outcome" where
  "item_matches it key =
     (if key_size it = of_nat (length key) then bytes_match (key_data it) key else Ok False)"

text \<open>
  The walk along a bucket, remembering the previous item.  The fuel is one more than the
  number of items; only a cyclic bucket can use it up, which is then a \<open>Fault\<close>.
\<close>

fun bucket_walk ::
  "nat \<Rightarrow> PrimaryIndexItem list \<Rightarrow> bytes \<Rightarrow> nat option \<Rightarrow> nat option
     \<Rightarrow> (nat option \<times> nat) option outcome" where
  "bucket_walk 0 its key prev cur = Fault"
| "bucket_walk (Suc n) its key prev None = Ok None"
| "bucket_walk (Suc n) its key prev (Some i) =
     (if i \<ge> length its then Fault
      else case item_matches (its ! i) key of
        Ok True \<Rightarrow> Ok (Some (prev, i))
      | Ok False \<Rightarrow> bucket_walk n its key (Some i) (next_item (its ! i))
      | Err e \<Rightarrow> Err e
      | Fault \<Rightarrow> Fault)"

definition pi_find :: "PrimaryIndex \<Rightarrow> bytes \<Rightarrow> u16 outcome \<times> PrimaryIndex" where
  "pi_find x key =
     (let x1 = x\<lparr>access_count := access_count x + 1\<rparr> in
      if hash_table_size x = 0 then (Fault, x1)
      else case bucket_walk (Suc (length (items x))) (items x) key None
                  (hash_table x ! hash_key (hash_table_size x) key) of
        Ok (Some (_, i)) \<Rightarrow> (Ok (item_record_id (items x ! i)), x1\<lparr>hit_count := hit_count x + 1\<rparr>)
      | Ok None \<Rightarrow> (Err RecordNotFound, x1)
      | Err e \<Rightarrow> (Err e, x1)
      | Fault \<Rightarrow> (Fault, x1))"

definition pi_delete :: "PrimaryIndex \<Rightarrow> bytes \<Rightarrow> PrimaryIndex outcome" where
  "pi_delete x key =
     (if hash_table_size x = 0 then Fault
      else
        let h = hash_key (hash_table_size x) key
        in case bucket_walk (Suc (length (items x))) (items x) key None (hash_table x ! h) of
             Ok (Some (prev, i)) \<Rightarrow>
               (let nxt = next_item (items x ! i);
                    x1 = (case prev of
                            Some p \<Rightarrow> x\<lparr>items := (items x)[p := (items x ! p)\<lparr>next_item := nxt\<rparr>]\<rparr>
                          | None \<Rightarrow> x\<lparr>hash_table := (hash_table x)[h := nxt]\<rparr>);
                    x2 = x1\<lparr>items := (items x1)[i := (items x1 ! i)\<lparr>next_item := free_items x1\<rparr>],
                            free_items := Some i\<rparr>
                in if item_count x2 = 0 then Fault
                   else Ok (x2\<lparr>item_count := item_count x2 - 1\<rparr>))
           | Ok None \<Rightarrow> Err RecordNotFound
           | Err e \<Rightarrow> Err e
           | Fault \<Rightarrow> Fault)"

text \<open>The composite variants; \<open>&self.def.fields[idx]\<close> panics on an index out of range.\<close>

definition key_fields :: "TableDef \<Rightarrow> FieldDef list outcome" where
  "key_fields d =
     (if \<forall>i\<in>set (primary_key d). i < length (t_fields d)
      then Ok (map (\<lambda>i. t_fields d ! i) (primary_key d)) else Fault)"

definition record_key :: "(u64 \<Rightarrow> nat \<Rightarrow> bytes) \<Rightarrow> TableDef \<Rightarrow> bytes \<Rightarrow> bytes outcome" where
  "record_key mem d rd = and_then (key_fields d) (\<lambda>fs. Ok (encode_composite_key mem rd fs))"

definition insert_composite ::
  "(u64 \<Rightarrow> nat \<Rightarrow> bytes) \<Rightarrow> PrimaryIndex \<Rightarrow> bytes \<Rightarrow> u16 \<Rightarrow> PrimaryIndex outcome" where
  "insert_composite mem x rd rid =
     and_then (record_key mem (pi_def x) rd) (\<lambda>key. pi_insert x key rid)"

definition find_composite ::
  "(u64 \<Rightarrow> nat \<Rightarrow> bytes) \<Rightarrow> PrimaryIndex \<Rightarrow> bytes \<Rightarrow> u16 outcome \<times> PrimaryIndex" where
  "find_composite mem x rd =
     (case record_key mem (pi_def x) rd of
        Ok key \<Rightarrow> pi_find x key
      | Err e \<Rightarrow> (Err e, x)
      | Fault \<Rightarrow> (Fault, x))"

definition delete_composite ::
  "(u64 \<Rightarrow> nat \<Rightarrow> bytes) \<Rightarrow> PrimaryIndex \<Rightarrow> bytes \<Rightarrow> PrimaryIndex outcome" where
  "delete_composite mem x rd =
     and_then (record_key mem (pi_def x) rd) (\<lambda>key. pi_delete x key)"

definition reset_stats :: "PrimaryIndex \<Rightarrow> PrimaryIndex" where
  "reset_stats x = x\<lparr>access_count := 0, hit_count := 0\<rparr>"

end
