(* ===== verification/KeyIndex.thy ===== *)
theory KeyIndex
  imports Prelude
begin

text \<open>
  The contract of a bounded key index: every key has a stack of values; insert pushes and
  takes one unit of room, delete pops and gives it back, lookup reads the top.  The primary
  hash index is the instance (theory \<open>PrimaryIdx_Inv\<close>).
\<close>

text \<open>Bulk loading of an index, stopping at the first failure.\<close>

fun insert_all :: "('x \<Rightarrow> 'k \<Rightarrow> 'v \<Rightarrow> 'x outcome) \<Rightarrow> ('k \<times> 'v) list \<Rightarrow> 'x \<Rightarrow> 'x outcome" where
  "insert_all ins [] x = Ok x"
| "insert_all ins ((k, v) # kvs) x = and_then (ins x k v) (insert_all ins kvs)"

locale key_index =
  fixes inv :: "'x \<Rightarrow> bool"
    and entries :: "'x \<Rightarrow> 'k \<Rightarrow> 'v list"
    and room :: "'x \<Rightarrow> nat"
    and key_ok :: "'k \<Rightarrow> bool"
    and ins :: "'x \<Rightarrow> 'k \<Rightarrow> 'v \<Rightarrow> 'x outcome"
    and look :: "'x \<Rightarrow> 'k \<Rightarrow> 'v outcome"
    and del :: "'x \<Rightarrow> 'k \<Rightarrow> 'x outcome"
  assumes ins_law: "inv x \<Longrightarrow> key_ok k \<Longrightarrow> 0 < room x \<Longrightarrow>
      \<exists>x'. ins x k v = Ok x' \<and> inv x' \<and> entries x' = (entries x)(k := v # entries x k)
           \<and> Suc (room x') = room x"
    and ins_full: "inv x \<Longrightarrow> key_ok k \<Longrightarrow> room x = 0 \<Longrightarrow> ins x k v = Err OutOfMemory"
    and look_law: "inv x \<Longrightarrow> key_ok k \<Longrightarrow>
      look x k = (case entries x k of [] \<Rightarrow> Err RecordNotFound | v # vs \<Rightarrow> Ok v)"
    and del_law: "inv x \<Longrightarrow> key_ok k \<Longrightarrow> entries x k = v # vs \<Longrightarrow>
      \<exists>x'. del x k = Ok x' \<and> inv x' \<and> entries x' = (entries x)(k := vs)
           \<and> room x' = Suc (room x)"
    and del_none: "inv x \<Longrightarrow> key_ok k \<Longrightarrow> entries x k = [] \<Longrightarrow> del x k = Err RecordNotFound"
begin

lemma look_after_ins:
  assumes "inv x" and "key_ok k" and "key_ok k'" and "ins x k v = Ok x'"
  shows "look x' k' = (if k' = k then Ok v else look x k')"
proof -
  have "0 < room x" using assms ins_full by fastforce
  from ins_law [OF assms(1,2) this, of v] assms(4)
  have "inv x'" "entries x' = (entries x)(k := v # entries x k)" by auto
  with assms(1,3) show ?thesis by (simp add: look_law)
qed

text \<open>Delete undoes the latest insert of the key, and insert undoes a delete.\<close>

lemma del_after_ins:
  assumes "inv x" and "key_ok k" and "ins x k v = Ok x'"
  shows "\<exists>x''. del x' k = Ok x'' \<and> inv x'' \<and> entries x'' = entries x \<and> room x'' = room x"
proof -
  have "0 < room x" using assms ins_full by fastforce
  from ins_law [OF assms(1,2) this, of v] assms(3)
  have 1: "inv x'" "entries x' = (entries x)(k := v # entries x k)" "Suc (room x') = room x" by auto
  then have "entries x' k = v # entries x k" by simp
  from del_law [OF 1(1) assms(2) this] 1 show ?thesis by auto
qed

lemma ins_after_del:
  assumes "inv x" and "key_ok k" and "entries x k = v # vs" and "del x k = Ok x'"
  shows "\<exists>x''. ins x' k v = Ok x'' \<and> inv x'' \<and> entries x'' = entries x \<and> room x'' = room x"
proof -
  from del_law [OF assms(1-3)] assms(4)
  have 1: "inv x'" "entries x' = (entries x)(k := vs)" "room x' = Suc (room x)" by auto
  then have "0 < room x'" by simp
  from ins_law [OF 1(1) assms(2) this, of v] 1 assms(3) show ?thesis
    by (auto simp: fun_upd_idem)
qed

text \<open>
  Loading distinct new keys into an index with enough room succeeds, and afterwards every
  loaded key is found with its own value.
\<close>

lemma insert_all_entries:
  assumes "inv x" and "length kvs \<le> room x" and "\<forall>k\<in>set (map fst kvs). key_ok k"
    and "distinct (map fst kvs)"
  shows "\<exists>x'. insert_all ins kvs x = Ok x' \<and> inv x' \<and> room x' + length kvs = room x
    \<and> entries x' = (\<lambda>k. (case map_of kvs k of None \<Rightarrow> [] | Some v \<Rightarrow> [v]) @ entries x k)"
  using assms
proof (induction kvs arbitrary: x)
  case Nil
  then show ?case by simp
next
  case (Cons kv kvs)
  obtain k v where kv: "kv = (k, v)" by (cases kv)
  from ins_law [of x k v] Cons.prems kv obtain x1 where x1: "ins x k v = Ok x1" "inv x1"
    "entries x1 = (entries x)(k := v # entries x k)" "Suc (room x1) = room x" by auto
  have "\<exists>x'. insert_all ins kvs x1 = Ok x' \<and> inv x' \<and> room x' + length kvs = room x1
    \<and> entries x' = (\<lambda>k. (case map_of kvs k of None \<Rightarrow> [] | Some v \<Rightarrow> [v]) @ entries x1 k)"
    by (rule Cons.IH) (use Cons.prems x1 in auto)
  then obtain x' where x': "insert_all ins kvs x1 = Ok x'" "inv x'"
    "room x' + length kvs = room x1"
    "entries x' = (\<lambda>k. (case map_of kvs k of None \<Rightarrow> [] | Some v \<Rightarrow> [v]) @ entries x1 k)" by auto
  have "map_of kvs k = None" using Cons.prems(4) kv by (simp add: map_of_eq_None_iff)
  then have "entries x' = (\<lambda>k'. (case map_of (kv # kvs) k' of None \<Rightarrow> [] | Some v \<Rightarrow> [v]) @ entries x k')"
    using x'(4) x1(3) kv by (auto simp: fun_eq_iff)
  with x' x1 kv show ?case by (intro exI [of _ x']) auto
qed

lemma insert_all_look:
  assumes "inv x" and "length kvs \<le> room x" and "\<forall>k\<in>set (map fst kvs). key_ok k"
    and "distinct (map fst kvs)" and "(k, v) \<in> set kvs" and "insert_all ins kvs x = Ok x'"
  shows "look x' k = Ok v"
proof -
  have "key_ok k" using assms(3,5) by force
  moreover have "map_of kvs k = Some v" using assms(4,5) by (simp add: map_of_is_SomeI)
  ultimately show ?thesis
    using insert_all_entries [OF assms(1-4)] assms(6) by (auto simp: look_law)
qed

end

end
