(* ===== verification/PrimaryIdx_Inv.thy ===== *)
theory PrimaryIdx_Inv
  imports PrimaryIdx KeyIndex
begin

text \<open>
  The hash index refines a map from keys to stacks of record ids: \<open>insert\<close> pushes, \<open>find\<close>
  returns the top and \<open>delete\<close> pops.  The representation invariant says that the buckets and the
  free list are acyclic chains that share out the item pool.
\<close>

section \<open>Abstraction and invariant\<close>

abbreviation item_next :: "PrimaryIndexItem list \<Rightarrow> nat \<Rightarrow> nat option" where
  "item_next its \<equiv> (\<lambda>i. next_item (its ! i))"

definition item_key :: "PrimaryIndexItem \<Rightarrow> bytes" where
  "item_key it = take (unat (key_size it)) (key_data it)"

fun walk :: "nat \<Rightarrow> PrimaryIndexItem list \<Rightarrow> nat option \<Rightarrow> nat list" where
  "walk 0 its p = []"
| "walk (Suc n) its None = []"
| "walk (Suc n) its (Some i) = i # walk n its (next_item (its ! i))"

definition entries :: "PrimaryIndex \<Rightarrow> bytes \<Rightarrow> u16 list" where
  "entries x k =
     map (\<lambda>i. item_record_id (items x ! i))
       (filter (\<lambda>i. item_key (items x ! i) = k)
          (walk (length (items x)) (items x) (hash_table x ! hash_key (hash_table_size x) k)))"

definition pi_room :: "PrimaryIndex \<Rightarrow> nat" where
  "pi_room x = length (items x) - item_count x"

definition bucket_ok :: "PrimaryIndex \<Rightarrow> nat \<Rightarrow> nat \<Rightarrow> bool" where
  "bucket_ok x b i \<longleftrightarrow>
     i < length (items x) \<and> unat (key_size (items x ! i)) \<le> 128
     \<and> hash_key (hash_table_size x) (item_key (items x ! i)) = b"

definition pi_repr :: "PrimaryIndex \<Rightarrow> (nat \<Rightarrow> nat list) \<Rightarrow> nat list \<Rightarrow> bool" where
  "pi_repr x B F \<longleftrightarrow>
     0 < hash_table_size x \<and> length (hash_table x) = hash_table_size x
     \<and> (\<forall>b<hash_table_size x.
          chain (item_next (items x)) (hash_table x ! b) (B b) \<and> distinct (B b)
          \<and> (\<forall>i\<in>set (B b). bucket_ok x b i \<and> i \<notin> set F))
     \<and> chain (item_next (items x)) (free_items x) F \<and> distinct F
     \<and> (\<forall>i\<in>set F. i < length (items x))
     \<and> (\<forall>it\<in>set (items x). length (key_data it) = 128)
     \<and> item_count x + length F = length (items x)
     \<and> (\<forall>i<length (items x). i \<in> set F \<or> (\<exists>b<hash_table_size x. i \<in> set (B b)))"

definition wf_index :: "PrimaryIndex \<Rightarrow> bool" where
  "wf_index x \<longleftrightarrow> (\<exists>B F. pi_repr x B F)"

section \<open>Walks along chains\<close>

lemma item_next_update:
  "i < length its \<Longrightarrow> item_next (its[i := it]) = (item_next its)(i := next_item it)"
  by (rule ext) (simp add: nth_list_update)

lemma distinct_below_length: "distinct xs \<Longrightarrow> \<forall>i\<in>set xs. i < n \<Longrightarrow> length xs \<le> n"
  using card_mono [of "{..<n}" "set xs"] by (auto simp: distinct_card subset_iff)

lemma walk_chain: "chain (item_next its) p xs \<Longrightarrow> length xs \<le> n \<Longrightarrow> walk n its p = xs"
proof (induction xs arbitrary: n p)
  case Nil
  then show ?case by (cases n) auto
next
  case (Cons i xs)
  then show ?case by (cases n) auto
qed

lemma chain_unlink:
  "chain nx p (ys @ i # zs) \<Longrightarrow> ys \<noteq> [] \<Longrightarrow> distinct (ys @ i # zs)
    \<Longrightarrow> chain (nx(last ys := nx i)) p (ys @ zs)"
proof (induction ys arbitrary: p)
  case (Cons y ys)
  show ?case
  proof (cases "ys = []")
    case True
    with Cons.prems have "p = Some y" "chain nx (nx i) zs" "y \<notin> set zs" by auto
    with True show ?thesis by (simp del: fun_upd_apply) simp
  next
    case False
    with Cons.prems have "chain nx (nx y) (ys @ i # zs)" "p = Some y" "last ys \<noteq> y" by auto
    with Cons.IH [of "nx y"] Cons.prems False show ?thesis by simp
  qed
qed simp

lemma chain_head: "chain nx p (ys @ i # zs) \<Longrightarrow> ys = [] \<Longrightarrow> p = Some i \<and> chain nx (nx i) zs"
  by simp

lemma bytes_match_prefix:
  "length key \<le> length ds \<Longrightarrow> bytes_match ds key = Ok (take (length key) ds = key)"
  by (induction ds key rule: bytes_match.induct) auto

lemma unat_of_nat_small: "n \<le> 128 \<Longrightarrow> unat (of_nat n :: u8) = n"
  by (simp add: unat_of_nat)

lemma item_matches_key:
  assumes "length (key_data it) = 128" and "unat (key_size it) \<le> 128" and "length key \<le> 128"
  shows "item_matches it key = Ok (item_key it = key)"
proof (cases "key_size it = of_nat (length key)")
  case True
  with assms show ?thesis
    by (simp add: item_matches_def item_key_def bytes_match_prefix unat_of_nat_small)
next
  case False
  then have "unat (key_size it) \<noteq> length key"
    by (metis word_unat_eq_iff of_nat_unat ucast_id unsigned_of_nat word_of_nat_eq_iff)
  with assms have "item_key it \<noteq> key" by (auto simp: item_key_def)
  with False show ?thesis by (simp add: item_matches_def)
qed

lemma bucket_walk_none:
  assumes "chain (item_next its) p xs" and "length xs < n"
    and "\<And>i. i \<in> set xs \<Longrightarrow> i < length its \<and> item_matches (its ! i) key = Ok False"
  shows "bucket_walk n its key prev p = Ok None"
  using assms
proof (induction xs arbitrary: n p prev)
  case Nil
  then show ?case by (cases n) auto
next
  case (Cons i xs)
  then obtain m where n: "n = Suc m" "p = Some i" by (cases n) auto
  have "i < length its \<and> item_matches (its ! i) key = Ok False" by (rule Cons.prems) simp
  moreover have "bucket_walk m its key (Some i) (next_item (its ! i)) = Ok None"
    by (rule Cons.IH) (use Cons.prems n in auto)
  ultimately show ?case using n by simp
qed

lemma bucket_walk_some:
  assumes "chain (item_next its) p (ys @ i # zs)" and "length (ys @ i # zs) < n"
    and "\<And>j. j \<in> set ys \<Longrightarrow> j < length its \<and> item_matches (its ! j) key = Ok False"
    and "i < length its" and "item_matches (its ! i) key = Ok True"
  shows "bucket_walk n its key prev p = Ok (Some (if ys = [] then prev else Some (last ys), i))"
  using assms
proof (induction ys arbitrary: n p prev)
  case Nil
  then show ?case by (cases n) auto
next
  case (Cons j ys)
  from Cons.prems obtain m where n: "n = Suc m" and p: "p = Some j" by (cases n) auto
  have "bucket_walk m its key (Some j) (next_item (its ! j))
      = Ok (Some (if ys = [] then Some j else Some (last ys), i))"
    by (rule Cons.IH) (use Cons.prems n in auto)
  moreover have "j < length its \<and> item_matches (its ! j) key = Ok False"
    by (rule Cons.prems) simp
  ultimately show ?case using n p by simp
qed

section \<open>Reading through the invariant\<close>

lemma hash_key_less: "0 < n \<Longrightarrow> hash_key n key < n"
  by (simp add: hash_key_def)

lemma repr_bucket:
  assumes "pi_repr x B F" and "b < hash_table_size x"
  shows "chain (item_next (items x)) (hash_table x ! b) (B b)" and "distinct (B b)"
    and "\<And>i. i \<in> set (B b) \<Longrightarrow> bucket_ok x b i" and "\<And>i. i \<in> set (B b) \<Longrightarrow> i \<notin> set F"
    and "length (B b) \<le> length (items x)"
proof -
  show "chain (item_next (items x)) (hash_table x ! b) (B b)" and d: "distinct (B b)"
    and o: "\<And>i. i \<in> set (B b) \<Longrightarrow> bucket_ok x b i" and "\<And>i. i \<in> set (B b) \<Longrightarrow> i \<notin> set F"
    using assms by (auto simp: pi_repr_def)
  show "length (B b) \<le> length (items x)"
    using distinct_below_length [OF d] o by (auto simp: bucket_ok_def)
qed

lemma repr_room:
  assumes "pi_repr x B F"
  shows "pi_room x = length F"
proof -
  have "item_count x + length F = length (items x)" using assms by (simp add: pi_repr_def)
  then show ?thesis unfolding pi_room_def by linarith
qed

lemma entries_repr:
  assumes "pi_repr x B F"
  shows "entries x k = map (\<lambda>i. item_record_id (items x ! i))
           (filter (\<lambda>i. item_key (items x ! i) = k) (B (hash_key (hash_table_size x) k)))"
proof -
  have "hash_key (hash_table_size x) k < hash_table_size x"
    using assms by (intro hash_key_less) (auto simp: pi_repr_def)
  note b = repr_bucket [OF assms this]
  show ?thesis by (simp add: entries_def walk_chain [OF b(1,5)])
qed

lemma repr_matches:
  assumes "pi_repr x B F" and "b < hash_table_size x" and "i \<in> set (B b)" and "length key \<le> 128"
  shows "i < length (items x)" and "item_matches (items x ! i) key = Ok (item_key (items x ! i) = key)"
proof -
  have "bucket_ok x b i" using repr_bucket(3) [OF assms(1-3)] .
  then show i: "i < length (items x)" and "item_matches (items x ! i) key = Ok (item_key (items x ! i) = key)"
    using assms(1,4) by (auto simp: bucket_ok_def pi_repr_def intro!: item_matches_key)
qed

lemma filter_split_first:
  assumes "filter P xs = y # rest"
  obtains ys zs where "xs = ys @ y # zs" and "\<forall>j\<in>set ys. \<not> P j" and "P y" and "filter P zs = rest"
  using assms by (auto simp: filter_eq_Cons_iff)

text \<open>The outcome of the bucket walk from the head of the key's bucket.\<close>

lemma walk_result:
  assumes "pi_repr x B F" and "length key \<le> 128"
    and "h = hash_key (hash_table_size x) key"
  shows "entries x key = [] \<Longrightarrow>
      bucket_walk (Suc (length (items x))) (items x) key None (hash_table x ! h) = Ok None"
    and "entries x key = r # rs \<Longrightarrow> \<exists>ys i zs. B h = ys @ i # zs
      \<and> bucket_walk (Suc (length (items x))) (items x) key None (hash_table x ! h)
          = Ok (Some (if ys = [] then None else Some (last ys), i))
      \<and> item_record_id (items x ! i) = r \<and> item_key (items x ! i) = key
      \<and> (\<forall>j\<in>set ys. item_key (items x ! j) \<noteq> key)
      \<and> map (\<lambda>i. item_record_id (items x ! i)) (filter (\<lambda>i. item_key (items x ! i) = key) zs) = rs"
proof -
  have h: "h < hash_table_size x" using assms by (auto simp: pi_repr_def hash_key_less)
  note b = repr_bucket [OF assms(1) h] and m = repr_matches [OF assms(1) h _ assms(2)]
  have e: "entries x key = map (\<lambda>i. item_record_id (items x ! i))
      (filter (\<lambda>i. item_key (items x ! i) = key) (B h))"
    using entries_repr [OF assms(1)] assms(3) by simp
  show "bucket_walk (Suc (length (items x))) (items x) key None (hash_table x ! h) = Ok None"
    if "entries x key = []"
    using that b(5) m by (intro bucket_walk_none [OF b(1)]) (auto simp: e filter_empty_conv)
  assume "entries x key = r # rs"
  then obtain i fs where f: "filter (\<lambda>i. item_key (items x ! i) = key) (B h) = i # fs"
    and r: "item_record_id (items x ! i) = r" "map (\<lambda>i. item_record_id (items x ! i)) fs = rs"
    by (auto simp: e)
  from f obtain ys zs where B: "B h = ys @ i # zs" and ys: "\<forall>j\<in>set ys. item_key (items x ! j) \<noteq> key"
    and k: "item_key (items x ! i) = key" and zs: "filter (\<lambda>i. item_key (items x ! i) = key) zs = fs"
    by (rule filter_split_first)
  have "bucket_walk (Suc (length (items x))) (items x) key None (hash_table x ! h)
      = Ok (Some (if ys = [] then None else Some (last ys), i))"
    using b(1,5) m ys k B by (intro bucket_walk_some [where zs = zs]) auto
  with B r ys k zs show "\<exists>ys i zs. B h = ys @ i # zs
      \<and> bucket_walk (Suc (length (items x))) (items x) key None (hash_table x ! h)
          = Ok (Some (if ys = [] then None else Some (last ys), i))
      \<and> item_record_id (items x ! i) = r \<and> item_key (items x ! i) = key
      \<and> (\<forall>j\<in>set ys. item_key (items x ! j) \<noteq> key)
      \<and> map (\<lambda>i. item_record_id (items x ! i)) (filter (\<lambda>i. item_key (items x ! i) = key) zs) = rs"
    by blast
qed

lemma find_effect:
  assumes "wf_index x" and "length key \<le> 128"
  shows "fst (pi_find x key) =
    (case entries x key of [] \<Rightarrow> Err RecordNotFound | r # rs \<Rightarrow> Ok r)"
proof -
  obtain B F where R: "pi_repr x B F" using assms(1) by (auto simp: wf_index_def)
  then have "hash_table_size x \<noteq> 0" by (simp add: pi_repr_def)
  then show ?thesis
    using walk_result [OF R assms(2) refl]
    by (cases "entries x key") (fastforce simp: pi_find_def Let_def)+
qed

section \<open>Insert\<close>

lemma item_key_write [simp]:
  "length key \<le> 128 \<Longrightarrow> length (key_data it) = 128 \<Longrightarrow> item_key (write_key key rid it) = key"
  by (simp add: item_key_def write_key_def bytes_put_def unat_of_nat_small)

lemma item_key_next [simp]: "item_key (it\<lparr>next_item := n\<rparr>) = item_key it"
  by (simp add: item_key_def)

lemma map_filter_items_cong:
  assumes "\<And>j. j \<in> set xs \<Longrightarrow> item_key (its' ! j) = item_key (its ! j)
             \<and> item_record_id (its' ! j) = item_record_id (its ! j)"
  shows "map (\<lambda>i. item_record_id (its' ! i)) (filter (\<lambda>i. item_key (its' ! i) = k) xs)
       = map (\<lambda>i. item_record_id (its ! i)) (filter (\<lambda>i. item_key (its ! i) = k) xs)"
  using assms by (induction xs) auto

lemma repr_insert:
  assumes R: "pi_repr x B (i # F)" and "length key \<le> 128"
    and h: "h = hash_key (hash_table_size x) key"
    and it: "it = (write_key key rid (items x ! i))\<lparr>next_item := hash_table x ! h\<rparr>"
    and x': "x' = x\<lparr>free_items := next_item (items x ! i), items := (items x)[i := it],
                   hash_table := (hash_table x)[h := Some i], item_count := item_count x + 1\<rparr>"
  shows "pi_repr x' (B(h := i # B h)) F"
proof -
  have n: "0 < hash_table_size x" and len: "length (hash_table x) = hash_table_size x"
    and i: "i < length (items x)" and iF: "i \<notin> set F" "distinct F"
    and ch: "chain (item_next (items x)) (next_item (items x ! i)) F"
    and kd: "\<forall>it\<in>set (items x). length (key_data it) = 128"
    and cnt: "Suc (item_count x + length F) = length (items x)"
    and cov: "\<forall>j<length (items x). j = i \<or> j \<in> set F \<or> (\<exists>b<hash_table_size x. j \<in> set (B b))"
    and Fl: "\<forall>j\<in>set F. j < length (items x)"
    using R by (auto simp: pi_repr_def)
  have hn: "h < hash_table_size x" using n h by (simp add: hash_key_less)
  have nx: "item_next (items x') = (item_next (items x))(i := hash_table x ! h)"
    using i by (simp add: x' it item_next_update)
  have kdi: "length (key_data (items x ! i)) = 128" using kd i by simp
  have key: "item_key (items x' ! i) = key" "unat (key_size (items x' ! i)) \<le> 128"
    using i assms(2) kdi by (simp_all add: x' it) (simp add: write_key_def unat_of_nat_small)
  have other: "items x' ! j = items x ! j" if "j \<noteq> i" for j using that by (simp add: x')
  have notB: "i \<notin> set (B b)" if "b < hash_table_size x" for b
    using repr_bucket(4) [OF R that] by auto
  have hs: "hash_table_size x' = hash_table_size x" "length (items x') = length (items x)"
    by (simp_all add: x')
  have bucket: "chain (item_next (items x')) (hash_table x' ! b) ((B(h := i # B h)) b)
      \<and> distinct ((B(h := i # B h)) b)
      \<and> (\<forall>j\<in>set ((B(h := i # B h)) b). bucket_ok x' b j \<and> j \<notin> set F)"
    if b: "b < hash_table_size x" for b
  proof -
    note rb = repr_bucket [OF R b] and rh = repr_bucket [OF R hn]
    have "bucket_ok x' b j \<and> j \<notin> set F" if "j \<in> set (B b)" for j
    proof -
      have "j \<noteq> i" using that notB [OF b] by auto
      then show ?thesis using rb(3,4) [OF that] by (simp add: bucket_ok_def hs other)
    qed
    moreover have "bucket_ok x' h i" using i key h by (simp add: bucket_ok_def hs)
    ultimately show ?thesis
      using rb(1,2) rh(1,2) notB b hn iF len unfolding nx by (auto simp: x' nth_list_update)
  qed
  have "\<forall>it\<in>set (items x'). length (key_data it) = 128"
    using kd kdi assms(2) set_update_subset_insert [of "items x" i it]
    by (fastforce simp: x' it write_key_def)
  moreover have "chain (item_next (items x')) (free_items x') F"
    using ch iF(1) unfolding nx by (simp add: x')
  moreover have "j \<in> set F \<or> (\<exists>b<hash_table_size x. j \<in> set ((B(h := i # B h)) b))"
    if j: "j < length (items x)" for j
  proof -
    consider "j = i" | "j \<in> set F" | b where "b < hash_table_size x" "j \<in> set (B b)"
      using cov j by blast
    then show ?thesis
    proof cases
      case 1
      with hn show ?thesis by (intro disjI2 exI [of _ h]) simp
    next
      case (3 b)
      then show ?thesis by (intro disjI2 exI [of _ b]) auto
    qed simp
  qed
  ultimately show ?thesis
    using n len iF Fl cnt bucket unfolding pi_repr_def hs by (simp add: x')
qed

lemma insert_effect:
  assumes "wf_index x" and "length key \<le> 128" and "0 < pi_room x"
  shows "\<exists>x'. pi_insert x key rid = Ok x' \<and> wf_index x'
           \<and> entries x' = (entries x)(key := rid # entries x key)
           \<and> pi_room x' = pi_room x - 1 \<and> pi_def x' = pi_def x"
proof -
  obtain B F0 where R0: "pi_repr x B F0" using assms(1) by (auto simp: wf_index_def)
  then have "F0 \<noteq> []" using assms(3) by (auto simp: pi_repr_def pi_room_def)
  then obtain i F where "F0 = i # F" by (cases F0) auto
  with R0 have R: "pi_repr x B (i # F)" by simp
  define h where h: "h = hash_key (hash_table_size x) key"
  define it where it: "it = (write_key key rid (items x ! i))\<lparr>next_item := hash_table x ! h\<rparr>"
  define x' where x': "x' = x\<lparr>free_items := next_item (items x ! i), items := (items x)[i := it],
                   hash_table := (hash_table x)[h := Some i], item_count := item_count x + 1\<rparr>"
  have R': "pi_repr x' (B(h := i # B h)) F" by (rule repr_insert [OF R assms(2) h it x'])
  have f: "free_items x = Some i" and n: "hash_table_size x \<noteq> 0" and i: "i < length (items x)"
    and kd: "length (key_data (items x ! i)) = 128"
    using R by (auto simp: pi_repr_def)
  have "pi_insert x key rid = Ok x'"
    using assms(2) f n by (simp add: pi_insert_def x' it h Let_def)
  moreover have "entries x' k = ((entries x)(key := rid # entries x key)) k" for k
  proof -
    have notB: "i \<notin> set (B (hash_key (hash_table_size x) k'))" for k'
      using repr_bucket(4) [OF R hash_key_less, of _ k'] n by auto
    have it': "item_key (items x' ! i) = key" "item_record_id (items x' ! i) = rid"
      using i kd assms(2) by (simp_all add: x' it) (simp add: write_key_def)
    have "map (\<lambda>j. item_record_id (items x' ! j))
            (filter (\<lambda>j. item_key (items x' ! j) = k) (B (hash_key (hash_table_size x) k)))
        = entries x k"
      unfolding entries_repr [OF R]
    proof (rule map_filter_items_cong)
      fix j
      assume "j \<in> set (B (hash_key (hash_table_size x) k))"
      then have "j \<noteq> i" using notB [of k] by auto
      then show "item_key (items x' ! j) = item_key (items x ! j)
          \<and> item_record_id (items x' ! j) = item_record_id (items x ! j)" by (simp add: x')
    qed
    then show ?thesis
      using it' h unfolding entries_repr [OF R'] by (auto simp: x')
  qed
  moreover have "pi_room x' = pi_room x - 1" by (simp add: pi_room_def x')
  ultimately show ?thesis using R' by (intro exI [of _ x']) (auto simp: wf_index_def x')
qed

lemma insert_full:
  assumes "wf_index x" and "length key \<le> 128" and "pi_room x = 0"
  shows "pi_insert x key rid = Err OutOfMemory"
proof -
  obtain B F where R: "pi_repr x B F" using assms(1) by (auto simp: wf_index_def)
  then have "F = []" using assms(3) repr_room by fastforce
  with R have "free_items x = None" by (simp add: pi_repr_def)
  with assms(2) show ?thesis by (simp add: pi_insert_def)
qed

section \<open>Delete\<close>

text \<open>Moving item \<open>i\<close> from the middle of its bucket to the head of the free list.\<close>

lemma repr_delete:
  assumes R: "pi_repr x B F" and hn: "h < hash_table_size x" and B: "B h = ys @ i # zs"
    and nx: "item_next (items x') =
       (if ys = [] then item_next (items x)
        else (item_next (items x))(last ys := next_item (items x ! i)))(i := free_items x)"
    and same: "\<And>j. item_key (items x' ! j) = item_key (items x ! j)
       \<and> key_size (items x' ! j) = key_size (items x ! j)
       \<and> length (key_data (items x' ! j)) = length (key_data (items x ! j))"
    and len': "length (items x') = length (items x)"
    and ht: "hash_table x' = (if ys = [] then (hash_table x)[h := next_item (items x ! i)]
                              else hash_table x)"
    and rest: "free_items x' = Some i" "hash_table_size x' = hash_table_size x"
      "Suc (item_count x') = item_count x"
  shows "pi_repr x' (B(h := ys @ zs)) (i # F)"
proof -
  have len: "length (hash_table x) = hash_table_size x" and F: "distinct F"
    "\<forall>j\<in>set F. j < length (items x)" "chain (item_next (items x)) (free_items x) F"
    and kd: "\<forall>it\<in>set (items x). length (key_data it) = 128"
    and cnt: "item_count x + length F = length (items x)"
    and cov: "\<forall>j<length (items x). j \<in> set F \<or> (\<exists>b<hash_table_size x. j \<in> set (B b))"
    using R by (auto simp: pi_repr_def)
  note rh = repr_bucket [OF R hn, unfolded B]
  have ok: "bucket_ok x' b j = bucket_ok x b j" for b j
    using same [of j] by (simp add: bucket_ok_def rest len')
  have disj: "j \<notin> set (B h)" if "b < hash_table_size x" "b \<noteq> h" "j \<in> set (B b)" for b j
    using repr_bucket(3) [OF R that(1,3)] repr_bucket(3) [OF R hn, of j] that(2)
    by (auto simp: bucket_ok_def)
  have iF: "i \<notin> set F" "\<forall>j\<in>set F. j \<notin> set (ys @ i # zs)" using rh(4) by auto
  have i: "i < length (items x)" using rh(3) [of i] by (simp add: bucket_ok_def)
  have bucket: "chain (item_next (items x')) (hash_table x' ! b) ((B(h := ys @ zs)) b)
      \<and> distinct ((B(h := ys @ zs)) b)
      \<and> (\<forall>j\<in>set ((B(h := ys @ zs)) b). bucket_ok x' b j \<and> j \<notin> set (i # F))"
    if b: "b < hash_table_size x" for b
  proof (cases "b = h")
    case True
    have "chain (item_next (items x')) (hash_table x' ! h) (ys @ zs)"
      using chain_unlink [OF rh(1) _ rh(2)] chain_head [OF rh(1)] rh(2) hn len
      unfolding nx ht by (cases "ys = []") simp_all
    then show ?thesis using True rh(2-4) by (auto simp: ok)
  next
    case False
    note rb = repr_bucket [OF R b]
    have "i \<notin> set (B b)" "ys \<noteq> [] \<Longrightarrow> last ys \<notin> set (B b)"
      using disj [OF b False] B by (auto dest: last_in_set)
    then show ?thesis using False rb(1-4) unfolding nx ht by (auto simp: ok)
  qed
  have "chain (item_next (items x')) (free_items x') (i # F)"
  proof -
    have "ys \<noteq> [] \<Longrightarrow> last ys \<notin> set F" using iF(2) by (auto dest: last_in_set)
    then show ?thesis using F(3) iF(1) unfolding nx rest by auto
  qed
  moreover have "\<forall>it\<in>set (items x'). length (key_data it) = 128"
    using kd same len' by (metis in_set_conv_nth)
  moreover have "j \<in> set (i # F) \<or> (\<exists>b<hash_table_size x. j \<in> set ((B(h := ys @ zs)) b))"
    if j: "j < length (items x)" for j
  proof -
    consider "j \<in> set F" | b where "b < hash_table_size x" "j \<in> set (B b)" using cov j by blast
    then show ?thesis
    proof cases
      case (2 b)
      then show ?thesis
      proof (cases "j = i")
        case False
        with 2 B show ?thesis by (intro disjI2 exI [of _ b]) auto
      qed simp
    qed simp
  qed
  moreover have "0 < hash_table_size x" "length (hash_table x') = hash_table_size x"
    "distinct (i # F)" "\<forall>j\<in>set (i # F). j < length (items x)"
    "item_count x' + length (i # F) = length (items x)"
    using hn len F i iF(1) cnt rest ht by auto
  ultimately show ?thesis
    using bucket unfolding pi_repr_def rest(2) len' by blast
qed

lemma delete_state:
  assumes "pi_repr x B F" and "length key \<le> 128"
    and "h = hash_key (hash_table_size x) key" and "B h = ys @ i # zs"
    and "bucket_walk (Suc (length (items x))) (items x) key None (hash_table x ! h)
          = Ok (Some (if ys = [] then None else Some (last ys), i))"
  obtains x' where "pi_delete x key = Ok x'" and "pi_repr x' (B(h := ys @ zs)) (i # F)"
    and "\<forall>j. item_key (items x' ! j) = item_key (items x ! j)
              \<and> item_record_id (items x' ! j) = item_record_id (items x ! j)"
    and "pi_def x' = pi_def x" and "length (items x') = length (items x)"
    and "hash_table_size x' = hash_table_size x"
proof -
  have n: "0 < hash_table_size x" and cnt: "item_count x + length F = length (items x)"
    and Fd: "distinct F" "\<forall>j\<in>set F. j < length (items x)"
    using assms(1) by (auto simp: pi_repr_def)
  have hn: "h < hash_table_size x" using n assms(3) by (simp add: hash_key_less)
  note rh = repr_bucket [OF assms(1) hn, unfolded assms(4)]
  have i: "i < length (items x)" using rh(3) [of i] by (simp add: bucket_ok_def)
  have l: "last ys < length (items x)" "last ys \<noteq> i" if "ys \<noteq> []"
    using rh(3) [of "last ys"] rh(2) last_in_set [OF that] by (auto simp: bucket_ok_def)
  have "length (i # F) \<le> length (items x)"
    using rh(4) [of i] Fd i by (intro distinct_below_length) auto
  with cnt have c: "item_count x \<noteq> 0" by simp
  let ?nxt = "next_item (items x ! i)"
  let ?its = "if ys = [] then items x
              else (items x)[last ys := (items x ! last ys)\<lparr>next_item := ?nxt\<rparr>]"
  let ?x = "x\<lparr>items := ?its[i := (?its ! i)\<lparr>next_item := free_items x\<rparr>], free_items := Some i,
      hash_table := (if ys = [] then (hash_table x)[h := ?nxt] else hash_table x),
      item_count := item_count x - 1\<rparr>"
  have same: "item_key (items ?x ! j) = item_key (items x ! j)
       \<and> key_size (items ?x ! j) = key_size (items x ! j)
       \<and> length (key_data (items ?x ! j)) = length (key_data (items x ! j))
       \<and> item_record_id (items ?x ! j) = item_record_id (items x ! j)" for j
    using i l by (auto simp: nth_list_update)
  have d: "pi_delete x key = Ok ?x"
    using n c l assms(3,5) by (cases "ys = []") (simp_all add: pi_delete_def Let_def)
  have nx: "item_next (items ?x) =
       (if ys = [] then item_next (items x)
        else (item_next (items x))(last ys := ?nxt))(i := free_items x)"
    using i l by (cases "ys = []") (simp_all add: item_next_update)
  have r: "pi_repr ?x (B(h := ys @ zs)) (i # F)"
    by (rule repr_delete [OF assms(1) hn assms(4) nx]) (use same c in auto)
  show thesis
    by (rule that [OF d r]) (use same in auto)
qed

lemma delete_effect:
  assumes "wf_index x" and "length key \<le> 128" and "entries x key = r # rs"
  shows "\<exists>x'. pi_delete x key = Ok x' \<and> wf_index x' \<and> entries x' = (entries x)(key := rs)
           \<and> pi_room x' = pi_room x + 1 \<and> pi_def x' = pi_def x"
proof -
  obtain B F where R: "pi_repr x B F" using assms(1) by (auto simp: wf_index_def)
  define h where h: "h = hash_key (hash_table_size x) key"
  obtain ys i zs where B: "B h = ys @ i # zs"
    and w: "bucket_walk (Suc (length (items x))) (items x) key None (hash_table x ! h)
          = Ok (Some (if ys = [] then None else Some (last ys), i))"
    and k: "item_key (items x ! i) = key" "\<forall>j\<in>set ys. item_key (items x ! j) \<noteq> key"
    and rs: "map (\<lambda>i. item_record_id (items x ! i)) (filter (\<lambda>i. item_key (items x ! i) = key) zs) = rs"
    using walk_result(2) [OF R assms(2) h assms(3)] by blast
  obtain x' where d: "pi_delete x key = Ok x'" and R': "pi_repr x' (B(h := ys @ zs)) (i # F)"
    and same: "\<forall>j. item_key (items x' ! j) = item_key (items x ! j)
              \<and> item_record_id (items x' ! j) = item_record_id (items x ! j)"
    and frame: "pi_def x' = pi_def x" "length (items x') = length (items x)"
      "hash_table_size x' = hash_table_size x"
    by (rule delete_state [OF R assms(2) h B w])
  have "entries x' k' = ((entries x)(key := rs)) k'" for k'
  proof -
    have "entries x' k' = map (\<lambda>i. item_record_id (items x ! i))
        (filter (\<lambda>i. item_key (items x ! i) = k') ((B(h := ys @ zs)) (hash_key (hash_table_size x) k')))"
      unfolding entries_repr [OF R'] frame by (rule map_filter_items_cong) (use same in auto)
    also have "\<dots> = ((entries x)(key := rs)) k'"
      using k rs B h by (auto simp: entries_repr [OF R] filter_empty_conv)
    finally show ?thesis .
  qed
  moreover have "pi_room x' = pi_room x + 1"
    using repr_room [OF R] repr_room [OF R'] by simp
  ultimately show ?thesis using d R' frame by (intro exI [of _ x']) (auto simp: wf_index_def)
qed

lemma delete_missing:
  assumes "wf_index x" and "length key \<le> 128" and "entries x key = []"
  shows "pi_delete x key = Err RecordNotFound"
proof -
  obtain B F where R: "pi_repr x B F" using assms(1) by (auto simp: wf_index_def)
  then have "hash_table_size x \<noteq> 0" by (simp add: pi_repr_def)
  with walk_result(1) [OF R assms(2) refl assms(3)] show ?thesis
    by (simp add: pi_delete_def Let_def)
qed

section \<open>A new index\<close>

lemma chain_upt:
  "j \<le> n \<Longrightarrow> chain (\<lambda>i. if Suc i < n then Some (Suc i) else None)
     (if j < n then Some j else None) [j..<n]"
proof (induction "n - j" arbitrary: j)
  case (Suc m)
  then have "j < n" by simp
  moreover have "chain (\<lambda>i. if Suc i < n then Some (Suc i) else None)
     (if Suc j < n then Some (Suc j) else None) [Suc j..<n]"
    using Suc by simp
  ultimately show ?case by (simp add: upt_conv_Cons)
qed simp

lemma wf_index_new:
  assumes "0 < hsize"
  shows "wf_index (PrimaryIndex_new d hsize n)" and "entries (PrimaryIndex_new d hsize n) k = []"
    and "pi_room (PrimaryIndex_new d hsize n) = n"
proof -
  let ?x = "PrimaryIndex_new d hsize n"
  have "chain (item_next (items ?x)) (free_items ?x) [0..<n]"
    using chain_upt [of 0 n] chain_cong [of "[0..<n]" "item_next (items ?x)"
        "\<lambda>i. if Suc i < n then Some (Suc i) else None"]
    by (auto simp: PrimaryIndex_new_def split: if_splits)
  then have R: "pi_repr ?x (\<lambda>_. []) [0..<n]"
    using assms by (auto simp: pi_repr_def PrimaryIndex_new_def)
  then show "wf_index ?x" by (auto simp: wf_index_def)
  show "entries ?x k = []" by (simp add: entries_repr [OF R])
  show "pi_room ?x = n" by (simp add: pi_room_def PrimaryIndex_new_def)
qed

section \<open>The interpretation\<close>

definition small_key :: "bytes \<Rightarrow> bool" where
  "small_key k \<longleftrightarrow> length k \<le> 128"

interpretation hash_index: key_index
  wf_index entries pi_room small_key pi_insert "\<lambda>x k. fst (pi_find x k)" pi_delete
proof unfold_locales
  fix x k r rs
  assume "wf_index x" and "small_key k"
  then show "\<exists>x'. pi_insert x k r = Ok x' \<and> wf_index x'
      \<and> entries x' = (entries x)(k := r # entries x k) \<and> Suc (pi_room x') = pi_room x"
    if "0 < pi_room x"
    using insert_effect [of x k r] that by (auto simp: small_key_def)
  from \<open>wf_index x\<close> \<open>small_key k\<close> show "pi_insert x k r = Err OutOfMemory" if "pi_room x = 0"
    using insert_full that by (simp add: small_key_def)
  from \<open>wf_index x\<close> \<open>small_key k\<close> show "fst (pi_find x k) =
      (case entries x k of [] \<Rightarrow> Err RecordNotFound | r # rs \<Rightarrow> Ok r)"
    by (simp add: find_effect small_key_def)
  from \<open>wf_index x\<close> \<open>small_key k\<close> show "\<exists>x'. pi_delete x k = Ok x' \<and> wf_index x'
      \<and> entries x' = (entries x)(k := rs) \<and> pi_room x' = Suc (pi_room x)"
    if "entries x k = r # rs"
    using delete_effect [of x k r rs] that by (auto simp: small_key_def)
  from \<open>wf_index x\<close> \<open>small_key k\<close> show "pi_delete x k = Err RecordNotFound"
    if "entries x k = []"
    using delete_missing that by (simp add: small_key_def)
qed

end
