(* ===== verification/Database.thy ===== *)
theory Database
  imports MemTable_Store PrimaryIdx_Inv
begin

text \<open>
  The database level of \<^verbatim>\<open>src/src/lib.rs\<close>: tables with their primary indexes, reached by
  number, and the undo and redo of log items by \<open>TransactionManager::rollback\<close> and by log
  recovery in \<^verbatim>\<open>src/src/transaction.rs\<close>.  External text memory is the argument \<open>mem\<close>.
\<close>

section \<open>State and access\<close>

record Database =
  tables :: "MemoryTable option list"
  primary_indices :: "PrimaryIndex option list"

definition get_table :: "Database \<Rightarrow> nat \<Rightarrow> MemoryTable outcome" where
  "get_table db k =
     (if k \<ge> length (tables db) then Err RecordNotFound
      else case tables db ! k of Some t \<Rightarrow> Ok t | None \<Rightarrow> Err RecordNotFound)"

definition get_primary_index :: "Database \<Rightarrow> nat \<Rightarrow> PrimaryIndex outcome" where
  "get_primary_index db k =
     (if k \<ge> length (primary_indices db) then Err RecordNotFound
      else case primary_indices db ! k of Some x \<Rightarrow> Ok x | None \<Rightarrow> Err RecordNotFound)"

definition db_get_by_id_ref :: "Database \<Rightarrow> nat \<Rightarrow> nat \<Rightarrow> (nat \<times> bytes) option outcome" where
  "db_get_by_id_ref db k i = and_then (get_table db k) (\<lambda>t. Ok (get_by_id_ref t i))"

definition put_table :: "nat \<Rightarrow> MemoryTable \<Rightarrow> Database \<Rightarrow> Database" where
  "put_table k t db = db\<lparr>tables := (tables db)[k := Some t]\<rparr>"

definition put_index :: "nat \<Rightarrow> PrimaryIndex \<Rightarrow> Database \<Rightarrow> Database" where
  "put_index k x db = db\<lparr>primary_indices := (primary_indices db)[k := Some x]\<rparr>"

text \<open>
  \<open>if let Some(primary_index) = &mut db.primary_indices[k]\<close> around an index update whose result
  is dropped: a failed update leaves the index as it was.
\<close>

definition with_index ::
  "nat \<Rightarrow> (PrimaryIndex \<Rightarrow> PrimaryIndex outcome) \<Rightarrow> Database \<Rightarrow> Database outcome" where
  "with_index k f db =
     (if k \<ge> length (primary_indices db) then Fault
      else case primary_indices db ! k of
        None \<Rightarrow> Ok db
      | Some x \<Rightarrow> (case f x of Ok x' \<Rightarrow> Ok (put_index k x' db) | Err _ \<Rightarrow> Ok db | Fault \<Rightarrow> Fault))"

section \<open>Record operations of a session\<close>

datatype db_op = DInsert nat bytes | DUpdate nat nat bytes | DDelete nat nat

type_synonym 'lm db_state = "'lm TransactionManager \<times> Database"

text \<open>One operation at time \<open>now\<close>: look the table up, run the operation, store the table.\<close>

fun db_exec :: "u64 \<Rightarrow> db_op \<Rightarrow> 'lm db_state \<Rightarrow> 'lm db_state outcome" where
  "db_exec now (DInsert k rd) (tm, db) =
     and_then (get_table db k) (\<lambda>t. and_then (table_insert now tm t rd)
       (\<lambda>(i, tm', t'). Ok (tm', put_table k t' db)))"
| "db_exec now (DUpdate k i rd) (tm, db) =
     and_then (get_table db k) (\<lambda>t. and_then (table_update now tm t i rd)
       (\<lambda>(tm', t'). Ok (tm', put_table k t' db)))"
| "db_exec now (DDelete k i) (tm, db) =
     and_then (get_table db k) (\<lambda>t. and_then (table_delete now tm t i)
       (\<lambda>(tm', t'). Ok (tm', put_table k t' db)))"

text \<open>A session: operations in order, an operation that fails leaving the state alone.\<close>

fun db_run :: "(u64 \<times> db_op) list \<Rightarrow> 'lm db_state \<Rightarrow> 'lm db_state outcome" where
  "db_run [] s = Ok s"
| "db_run ((now, q) # qs) s =
     (case db_exec now q s of Ok s' \<Rightarrow> db_run qs s' | Err e \<Rightarrow> db_run qs s | Fault \<Rightarrow> Fault)"

section \<open>Undo\<close>

definition restore_data :: "nat \<Rightarrow> bytes \<Rightarrow> MemoryTable \<Rightarrow> MemoryTable" where
  "restore_data i d t =
     (let n = min (length d) (record_size t)
      in t\<lparr>data := (data t)[i := take n d @ drop n (data t ! i)]\<rparr>)"

definition mark_restored :: "u32 \<Rightarrow> nat \<Rightarrow> MemoryTable \<Rightarrow> MemoryTable" where
  "mark_restored tid i t =
     t\<lparr>status_array := (status_array t)[i := (status_array t ! i)\<lparr>status := Used,
         version := version (status_array t ! i) + 1, create_tx_id := tid, delete_tx_id := 0,
         next_version_ptr := 0\<rparr>]\<rparr>"

definition touch :: "u32 \<Rightarrow> nat \<Rightarrow> MemoryTable \<Rightarrow> MemoryTable" where
  "touch tid i t =
     t\<lparr>status_array := (status_array t)[i := (status_array t ! i)\<lparr>
         version := version (status_array t ! i) + 1, create_tx_id := tid\<rparr>]\<rparr>"

text \<open>Removing a slot from the free stack: the last entry moves into its place.\<close>

fun position :: "nat list \<Rightarrow> nat \<Rightarrow> nat option" where
  "position [] y = None"
| "position (x # xs) y = (if x = y then Some 0 else map_option Suc (position xs y))"

definition remove_free :: "nat \<Rightarrow> MemoryTable \<Rightarrow> MemoryTable" where
  "remove_free i t =
     (case position (take (free_slot_count t) (free_slots t)) i of
        None \<Rightarrow> t
      | Some j \<Rightarrow> t\<lparr>free_slots := (free_slots t)[j := free_slots t ! (free_slot_count t - 1)],
                    free_slot_count := free_slot_count t - 1\<rparr>)"

text \<open>Undoing an insert, which is also how recovery replays a delete.\<close>

definition undo_insert ::
  "(u64 \<Rightarrow> nat \<Rightarrow> bytes) \<Rightarrow> nat \<Rightarrow> nat \<Rightarrow> MemoryTable \<Rightarrow> Database \<Rightarrow> Database outcome" where
  "undo_insert mem k i t db =
     (if i \<ge> cap t then Fault
      else if slot_status t i = Used then
        and_then (with_index k (\<lambda>x. delete_composite mem x (data t ! i)) db) (\<lambda>db1.
          if record_count t = 0 then Fault else Ok (put_table k (release_slot i t) db1))
      else Ok db)"

definition undo_delete ::
  "(u64 \<Rightarrow> nat \<Rightarrow> bytes) \<Rightarrow> nat \<Rightarrow> VariableSizeLogItem \<Rightarrow> MemoryTable \<Rightarrow> Database
     \<Rightarrow> Database outcome" where
  "undo_delete mem k v t db =
     (let i = unat (record_id (header v)) in
      if i \<ge> cap t then Fault
      else if slot_status t i \<noteq> Used then
        let t1 = mark_restored (li_tx_id (header v)) i (restore_data i (old_data v) t);
            t2 = remove_free i (t1\<lparr>record_count := record_count t1 + 1\<rparr>)
        in with_index k (\<lambda>x. insert_composite mem x (data t2 ! i) (record_id (header v)))
             (put_table k t2 db)
      else Ok db)"

definition undo_update ::
  "(u64 \<Rightarrow> nat \<Rightarrow> bytes) \<Rightarrow> nat \<Rightarrow> VariableSizeLogItem \<Rightarrow> MemoryTable \<Rightarrow> Database
     \<Rightarrow> Database outcome" where
  "undo_update mem k v t db =
     (let i = unat (record_id (header v)) in
      if i \<ge> cap t then Fault
      else if slot_status t i = Used then
        and_then (with_index k (\<lambda>x. delete_composite mem x (data t ! i)) db) (\<lambda>db1.
          let t1 = touch (li_tx_id (header v)) i (restore_data i (old_data v) t)
          in with_index k (\<lambda>x. insert_composite mem x (data t1 ! i) (record_id (header v)))
               (put_table k t1 db1))
      else Ok db)"

text \<open>\<open>if table_id < db.tables.len() { if let Some(table) = &mut db.tables[table_id] ...\<close>\<close>

definition on_table ::
  "nat \<Rightarrow> (MemoryTable \<Rightarrow> Database \<Rightarrow> Database outcome) \<Rightarrow> Database \<Rightarrow> Database outcome" where
  "on_table k f db =
     (if k < length (tables db)
      then case tables db ! k of Some t \<Rightarrow> f t db | None \<Rightarrow> Ok db
      else Ok db)"

definition undo_item ::
  "(u64 \<Rightarrow> nat \<Rightarrow> bytes) \<Rightarrow> VariableSizeLogItem \<Rightarrow> Database \<Rightarrow> Database outcome" where
  "undo_item mem v db =
     (let k = unat (li_table_id (header v)) in
      case op_type (header v) of
        Insert \<Rightarrow> on_table k (undo_insert mem k (unat (record_id (header v)))) db
      | Delete \<Rightarrow> on_table k (undo_delete mem k v) db
      | Update \<Rightarrow> on_table k (undo_update mem k v) db
      | _ \<Rightarrow> Ok db)"

fun undo_all ::
  "(u64 \<Rightarrow> nat \<Rightarrow> bytes) \<Rightarrow> VariableSizeLogItem list \<Rightarrow> Database \<Rightarrow> Database outcome" where
  "undo_all mem [] db = Ok db"
| "undo_all mem (v # vs) db = and_then (undo_item mem v db) (undo_all mem vs)"

text \<open>
  \<open>rollback\<close>: the current transaction is taken off first, then its items are undone last to
  first.  \<open>db\<close> is the global database, \<open>None\<close> before it exists.
\<close>

definition rollback ::
  "(u64 \<Rightarrow> nat \<Rightarrow> bytes) \<Rightarrow> 'lm TransactionManager \<Rightarrow> Database option
     \<Rightarrow> (Transaction \<times> Database option) outcome \<times> 'lm TransactionManager" where
  "rollback mem tm db =
     (case current_tx tm of
        None \<Rightarrow> (Err TransactionError, tm)
      | Some tx \<Rightarrow>
          (let tm' = tm\<lparr>current_tx := None\<rparr>; tx' = tx\<lparr>tx_status := RolledBack\<rparr> in
           if tx_log tx = [] then (Ok (tx', db), tm')
           else case db of
             None \<Rightarrow> (Err InternalError, tm')
           | Some d \<Rightarrow> (and_then (undo_all mem (rev (tx_log tx)) d) (\<lambda>d'. Ok (tx', Some d')), tm')))"

section \<open>Redo\<close>

text \<open>Recovery of an insert; an unknown slot still shortens the free stack by one.\<close>

definition remove_free_redo :: "nat \<Rightarrow> MemoryTable \<Rightarrow> MemoryTable" where
  "remove_free_redo i t =
     (if free_slot_count t > 0 then
        (case position (take (free_slot_count t) (free_slots t)) i of
           None \<Rightarrow> t\<lparr>free_slot_count := free_slot_count t - 1\<rparr>
         | Some j \<Rightarrow> t\<lparr>free_slots := (free_slots t)[j := free_slots t ! (free_slot_count t - 1)],
                       free_slot_count := free_slot_count t - 1\<rparr>)
      else t)"

definition redo_max_pk :: "bytes \<Rightarrow> MemoryTable \<Rightarrow> MemoryTable outcome" where
  "redo_max_pk rd t =
     (case primary_key (tdef t) of
        [] \<Rightarrow> Ok t
      | c # _ \<Rightarrow> (if c \<ge> length (t_fields (tdef t)) then Fault
                 else let v = pk_value (t_fields (tdef t) ! c) rd
                      in Ok (if v > max_pk t then t\<lparr>max_pk := v\<rparr> else t)))"

definition redo_insert ::
  "(u64 \<Rightarrow> nat \<Rightarrow> bytes) \<Rightarrow> nat \<Rightarrow> VariableSizeLogItem \<Rightarrow> MemoryTable \<Rightarrow> Database
     \<Rightarrow> Database outcome" where
  "redo_insert mem k v t db =
     (let i = unat (record_id (header v)) in
      if i \<ge> cap t then Fault
      else
        let t1 = restore_data i (new_data v) t;
            t2 = (if slot_status t i \<noteq> Used
                  then remove_free_redo i
                    ((mark_restored (li_tx_id (header v)) i t1)\<lparr>record_count := record_count t1 + 1\<rparr>)
                  else touch (li_tx_id (header v)) i t1)
        in and_then (with_index k (\<lambda>x. delete_composite mem x (data t2 ! i)) db) (\<lambda>db1.
           and_then (with_index k (\<lambda>x. insert_composite mem x (data t2 ! i) (record_id (header v))) db1)
             (\<lambda>db2. and_then (redo_max_pk (data t2 ! i) t2) (\<lambda>t3. Ok (put_table k t3 db2)))))"

text \<open>
  Recovery of an update copies \<open>new_data_size\<close> bytes without looking at the record size; a
  longer image would run into the next slot.
\<close>

definition redo_update ::
  "(u64 \<Rightarrow> nat \<Rightarrow> bytes) \<Rightarrow> nat \<Rightarrow> VariableSizeLogItem \<Rightarrow> MemoryTable \<Rightarrow> Database
     \<Rightarrow> Database outcome" where
  "redo_update mem k v t db =
     (let i = unat (record_id (header v));
          n = min (unat (new_data_size (header v))) (length (new_data v)) in
      if i \<ge> cap t then Fault
      else if slot_status t i = Used then
        if n > record_size t then Fault
        else and_then (with_index k (\<lambda>x. delete_composite mem x (data t ! i)) db) (\<lambda>db1.
          let t1 = touch (li_tx_id (header v)) i
                     (t\<lparr>data := (data t)[i := take n (new_data v) @ drop n (data t ! i)]\<rparr>)
          in with_index k (\<lambda>x. insert_composite mem x (data t1 ! i) (record_id (header v)))
               (put_table k t1 db1))
      else Ok db)"

text \<open>
  The third phase of log recovery.  The arms for record operations are modelled; the other arms
  (time series, low-power mode) are the argument \<open>other\<close>.
\<close>

definition redo_item ::
  "(VariableSizeLogItem \<Rightarrow> Database \<Rightarrow> Database outcome) \<Rightarrow> (u64 \<Rightarrow> nat \<Rightarrow> bytes)
     \<Rightarrow> VariableSizeLogItem \<Rightarrow> Database \<Rightarrow> Database outcome" where
  "redo_item other mem v db =
     (let k = unat (li_table_id (header v)) in
      case op_type (header v) of
        Insert \<Rightarrow> on_table k (redo_insert mem k v) db
      | Delete \<Rightarrow> on_table k (undo_insert mem k (unat (record_id (header v)))) db
      | Update \<Rightarrow> on_table k (redo_update mem k v) db
      | _ \<Rightarrow> other v db)"

fun redo_all ::
  "(VariableSizeLogItem \<Rightarrow> Database \<Rightarrow> Database outcome) \<Rightarrow> (u64 \<Rightarrow> nat \<Rightarrow> bytes)
     \<Rightarrow> VariableSizeLogItem list \<Rightarrow> Database \<Rightarrow> Database outcome" where
  "redo_all other mem [] db = Ok db"
| "redo_all other mem (v # vs) db = and_then (redo_item other mem v db) (redo_all other mem vs)"

end
