(* ===== verification/Rollback.thy ===== *)
theory Rollback
  imports Database
begin

text \<open>
  Undo and redo of a session.  Every logged operation appends one item to the transaction log;
  undoing the items backwards leads back to the contents of all tables before the transaction,
  and replaying them forwards from those contents leads to the contents after it.
\<close>

section \<open>A database in service\<close>

definition table_ok :: "nat \<Rightarrow> MemoryTable \<Rightarrow> bool" where
  "table_ok k t \<longleftrightarrow>
     wf_table t \<and> cap t \<le> 65536 \<and> record_size t < 65536 \<and> k < 256 \<and> t_id (tdef t) = of_nat k
     \<and> \<not> low_power_mode t \<and> pk_in_range (tdef t)"

definition index_ok :: "(u64 \<Rightarrow> nat \<Rightarrow> bytes) \<Rightarrow> nat \<Rightarrow> PrimaryIndex \<Rightarrow> bool" where
  "index_ok mem n x \<longleftrightarrow>
     wf_index x \<and> (\<forall>rd. length rd = n \<longrightarrow>
        (\<exists>key. record_key mem (pi_def x) rd = Ok key \<and> length key \<le> 128))"

definition db_ok :: "(u64 \<Rightarrow> nat \<Rightarrow> bytes) \<Rightarrow> Database \<Rightarrow> bool" where
  "db_ok mem db \<longleftrightarrow>
     length (primary_indices db) = length (tables db)
     \<and> (\<forall>k<length (tables db). \<forall>t. tables db ! k = Some t \<longrightarrow>
          table_ok k t \<and> (\<forall>x. primary_indices db ! k = Some x \<longrightarrow> index_ok mem (record_size t) x))"

text \<open>What a client sees of the database: definition, record size and contents per table.\<close>

type_synonym table_view = "TableDef \<times> nat \<times> (nat \<rightharpoonup> bytes)"

definition view_table :: "MemoryTable \<Rightarrow> table_view" where
  "view_table t = (tdef t, record_size t, contents t)"

definition db_view :: "Database \<Rightarrow> table_view option list" where
  "db_view db = map (map_option view_table) (tables db)"

definition undoes ::
  "(u64 \<Rightarrow> nat \<Rightarrow> bytes) \<Rightarrow> VariableSizeLogItem \<Rightarrow> table_view option list \<Rightarrow> table_view option list \<Rightarrow> bool"
where
  "undoes mem v V V' \<longleftrightarrow>
     (\<forall>db. db_ok mem db \<and> db_view db = V' \<longrightarrow>
        (\<exists>db'. undo_item mem v db = Ok db' \<and> db_ok mem db' \<and> db_view db' = V))"

definition redoes ::
  "(VariableSizeLogItem \<Rightarrow> Database \<Rightarrow> Database outcome) \<Rightarrow> (u64 \<Rightarrow> nat \<Rightarrow> bytes) \<Rightarrow> VariableSizeLogItem \<Rightarrow> table_view option list \<Rightarrow> table_view option list \<Rightarrow> bool"
where
  "redoes other mem v V V' \<longleftrightarrow>
     (\<forall>db. db_ok mem db \<and> db_view db = V \<longrightarrow>
        (\<exists>db'. redo_item other mem v db = Ok db' \<and> db_ok mem db' \<and> db_view db' = V'))"

section \<open>Index updates during undo and redo\<close>

lemma delete_composite_ok:
  assumes "index_ok mem n x" and "length rd = n"
  shows "delete_composite mem x rd = Err RecordNotFound
    \<or> (\<exists>x'. delete_composite mem x rd = Ok x' \<and> index_ok mem n x')"
proof -
  obtain key where k: "record_key mem (pi_def x) rd = Ok key" "length key \<le> 128"
    and wf: "wf_index x" using assms by (auto simp: index_ok_def)
  show ?thesis
  proof (cases "entries x key")
    case Nil
    then show ?thesis using k delete_missing [OF wf k(2)] by (simp add: delete_composite_def)
  next
    case (Cons r rs)
    from delete_effect [OF wf k(2) this] k(1) assms(1) show ?thesis
      by (auto simp: delete_composite_def index_ok_def)
  qed
qed

lemma insert_composite_ok:
  assumes "index_ok mem n x" and "length rd = n"
  shows "insert_composite mem x rd rid = Err OutOfMemory
    \<or> (\<exists>x'. insert_composite mem x rd rid = Ok x' \<and> index_ok mem n x')"
proof -
  obtain key where k: "record_key mem (pi_def x) rd = Ok key" "length key \<le> 128"
    and wf: "wf_index x" using assms by (auto simp: index_ok_def)
  show ?thesis
  proof (cases "pi_room x = 0")
    case True
    then show ?thesis using k insert_full [OF wf k(2)] by (simp add: insert_composite_def)
  next
    case False
    then have "0 < pi_room x" by simp
    from insert_effect [OF wf k(2) this, of rid] k(1) assms(1) show ?thesis
      by (auto simp: insert_composite_def index_ok_def)
  qed
qed

lemma with_index_ok:
  assumes "db_ok mem db" and "k < length (tables db)" and "tables db ! k = Some t"
    and f: "\<And>x. index_ok mem (record_size t) x \<Longrightarrow>
        (\<exists>e. f x = Err e) \<or> (\<exists>x'. f x = Ok x' \<and> index_ok mem (record_size t) x')"
  shows "\<exists>db'. with_index k f db = Ok db' \<and> db_ok mem db' \<and> tables db' = tables db"
proof (cases "primary_indices db ! k")
  case None
  with assms(1,2) show ?thesis by (auto simp: with_index_def db_ok_def)
next
  case (Some x)
  have k: "k < length (primary_indices db)" using assms(1,2) by (simp add: db_ok_def)
  have x: "index_ok mem (record_size t) x" using assms(1-3) Some by (auto simp: db_ok_def)
  from f [OF x] show ?thesis
  proof (elim disjE exE conjE)
    fix e assume "f x = Err e"
    with Some k assms(1) show ?thesis by (simp add: with_index_def)
  next
    fix x' assume x': "f x = Ok x'" "index_ok mem (record_size t) x'"
    have "db_ok mem (put_index k x' db)"
      using assms(1,3) x'(2) k by (auto simp: db_ok_def put_index_def nth_list_update)
    with Some k x'(1) show ?thesis by (simp add: with_index_def put_index_def)
  qed
qed

lemmas with_delete_ok = with_index_ok [where f = "\<lambda>x. delete_composite mem x rd" for mem rd]
  and with_insert_ok = with_index_ok [where f = "\<lambda>x. insert_composite mem x rd rid" for mem rd rid]

section \<open>Storing a table back\<close>

lemma put_table_ok:
  assumes "db_ok mem db" and "k < length (tables db)" and "tables db ! k = Some t"
    and "table_ok k t'" and "record_size t' = record_size t"
  shows "db_ok mem (put_table k t' db)"
  using assms by (auto simp: db_ok_def put_table_def nth_list_update)

lemma view_put_table: "db_view (put_table k t db) = (db_view db)[k := Some (view_table t)]"
  by (simp add: db_view_def put_table_def map_update)

lemma put_table_simps [simp]:
  "length (tables (put_table k t db)) = length (tables db)"
  "k < length (tables db) \<Longrightarrow> tables (put_table k t db) ! k = Some t"
  by (simp_all add: put_table_def)

lemma db_view_tables: "tables db = tables db' \<Longrightarrow> db_view db = db_view db'"
  by (simp add: db_view_def)

lemma put_table_cong: "tables db = tables db' \<Longrightarrow> tables (put_table k t db) = tables (put_table k t db')"
  by (simp add: put_table_def)

section \<open>Removing a slot from the free stack\<close>

lemma position_Some: "position xs y = Some j \<Longrightarrow> j < length xs \<and> xs ! j = y"
  by (induction xs arbitrary: j) (auto split: if_splits)

lemma position_None: "position xs y = None \<longleftrightarrow> y \<notin> set xs"
  by (induction xs) auto

lemma swap_remove:
  assumes "distinct xs" and "j < length xs"
  shows "distinct (butlast (xs[j := last xs]))"
    and "set (butlast (xs[j := last xs])) = set xs - {xs ! j}"
proof -
  define ys zs where "ys = take j xs" and "zs = drop (Suc j) xs"
  then have xs: "xs = ys @ xs ! j # zs" and l: "length ys = j"
    using assms(2) by (simp_all add: id_take_nth_drop)
  let ?x = "xs ! j"
  have d: "distinct (ys @ ?x # zs)" using assms(1) xs by simp
  have u: "xs[j := last xs] = ys @ last xs # zs"
    using xs l by (metis list_update_length)
  have "distinct (butlast (xs[j := last xs]))
      \<and> set (butlast (xs[j := last xs])) = set xs - {?x}"
  proof (cases "zs = []")
    case True
    then have "butlast (xs[j := last xs]) = ys" using u by simp
    moreover have "set xs = insert ?x (set ys)" using xs True by (metis list.simps(15) set_append Un_insert_right empty_set sup_bot.right_neutral)
    ultimately show ?thesis using d by auto
  next
    case False
    then obtain ws z where zs: "zs = ws @ [z]" by (metis rev_exhaust)
    then have "last xs = z" using xs by (metis last_appendR last_snoc list.distinct(1) last_ConsR append_is_Nil_conv)
    then have b: "butlast (xs[j := last xs]) = ys @ z # ws" using u zs by (simp add: butlast_append)
    have "set xs = insert ?x (set ys \<union> insert z (set ws))"
      using xs zs by (metis Un_insert_right list.simps(15) set_append Un_insert_left sup_bot.right_neutral empty_set)
    with b d zs show ?thesis by auto
  qed
  then show "distinct (butlast (xs[j := last xs]))"
    and "set (butlast (xs[j := last xs])) = set xs - {?x}" by auto
qed

lemma remove_free_effect:
  assumes "wf_table t0" and "i < cap t0" and "i \<notin> used_slots t0"
    and "free_slots t = free_slots t0" and "free_slot_count t = free_slot_count t0"
  shows "distinct (free_stack (remove_free i t))"
    and "set (free_stack (remove_free i t)) = set (free_stack t0) - {i}"
    and "length (free_slots (remove_free i t)) = length (free_slots t0)"
    and "free_slot_count (remove_free i t) \<le> free_slot_count t0"
    and "remove_free_redo i t = remove_free i t"
    and "data (remove_free i t) = data t" and "status_array (remove_free i t) = status_array t"
    and "tdef (remove_free i t) = tdef t" and "record_size (remove_free i t) = record_size t"
    and "record_count (remove_free i t) = record_count t"
    and "low_power_mode (remove_free i t) = low_power_mode t"
proof -
  let ?xs = "free_stack t0" and ?n = "free_slot_count t0" and ?fs = "free_slots t0"
  have d: "distinct ?xs" and "i \<in> set ?xs" and n: "?n \<le> length ?fs"
    using assms(1-3) by (auto simp: wf_table_def)
  then obtain j where p: "position ?xs i = Some j" using position_None by blast
  have j: "j < length ?xs" "?xs ! j = i" using position_Some [OF p] by auto
  have l: "length ?xs = ?n" using length_free_stack [OF assms(1)] .
  have pos: "0 < ?n" using j l by simp
  have r: "remove_free i t = t\<lparr>free_slots := ?fs[j := ?fs ! (?n - 1)], free_slot_count := ?n - 1\<rparr>"
    using p assms(4,5) by (simp add: remove_free_def free_stack_def)
  have last: "?fs ! (?n - 1) = last ?xs"
    using pos n l by (subst last_conv_nth) (auto simp: free_stack_def min_absorb1)
  have "free_stack (remove_free i t) = take (?n - 1) (?fs[j := last ?xs])"
    unfolding r by (subst last [symmetric]) (simp add: free_stack_def)
  also have "\<dots> = butlast (take ?n (?fs[j := last ?xs]))"
    using n by (simp add: butlast_take)
  also have "\<dots> = butlast (?xs[j := last ?xs])"
    using j l by (simp add: free_stack_def take_update_swap)
  finally have fs: "free_stack (remove_free i t) = butlast (?xs[j := last ?xs])" .
  show "distinct (free_stack (remove_free i t))"
    and "set (free_stack (remove_free i t)) = set ?xs - {i}"
    unfolding fs using swap_remove [OF d j(1)] j(2) by auto
  show "remove_free_redo i t = remove_free i t"
    using p pos assms(4,5) by (simp add: remove_free_redo_def remove_free_def free_stack_def)
qed (simp_all add: remove_free_def assms(4,5) split: option.splits)

section \<open>Refilling and rewriting a slot\<close>

lemma record_length_update:
  "wf_table t \<Longrightarrow> length d = record_size t \<Longrightarrow> j < cap t
    \<Longrightarrow> length ((data t)[i := d] ! j) = record_size t"
  by (cases "i = j") (auto simp: wf_table_def)

lemma wf_refill:
  assumes "wf_table t" and "i < cap t" and "i \<notin> used_slots t" and "length d = record_size t"
    and "tdef t' = tdef t" "record_size t' = record_size t" "data t' = (data t)[i := d]"
    and "length (status_array t') = length (status_array t)"
    and "\<And>j. slot_status t' j = (if j = i then Used else slot_status t j)"
    and "distinct (free_stack t')" "set (free_stack t') = set (free_stack t) - {i}"
    and "length (free_slots t') = length (free_slots t)"
    and "free_slot_count t' \<le> free_slot_count t" "record_count t' = record_count t + 1"
  shows "wf_table t' \<and> contents t' = (contents t)(i \<mapsto> d)"
proof
  have u: "used_slots t' = insert i (used_slots t)"
    using assms(2,5,9) by (auto simp: used_slots_def)
  have "card (used_slots t') = Suc (card (used_slots t))" unfolding u using assms(3) by simp
  moreover have "set (free_stack t') = {..<cap t} - used_slots t'"
    using assms(1,11) by (auto simp: u wf_table_def)
  moreover have "length (data t' ! j) = record_size t" if "j < cap t" for j
    using that assms(1,4,7) by (simp add: record_length_update)
  ultimately show "wf_table t'"
    using assms(1,5-8,10,12-14) by (simp add: wf_table_def [of t']) (auto simp: wf_table_def)
  show "contents t' = (contents t)(i \<mapsto> d)"
    using assms(1,2,7) by (intro ext) (auto simp: contents_def u wf_table_def)
qed

lemma wf_rewrite:
  assumes "wf_table t" and "i \<in> used_slots t" and "length d = record_size t"
    and "t' = touch tid i (t\<lparr>data := (data t)[i := d]\<rparr>)"
  shows "wf_table t' \<and> contents t' = (contents t)(i \<mapsto> d) \<and> tdef t' = tdef t
    \<and> record_size t' = record_size t \<and> low_power_mode t' = low_power_mode t \<and> data t' ! i = d"
proof -
  have i: "i < cap t" using assms(2) by (simp add: used_slots_def)
  have lens: "length (data t) = cap t" "length (status_array t) = cap t" using assms(1) by auto
  have st: "slot_status t' j = slot_status t j" for j
    using i lens by (simp add: assms(4) touch_def nth_list_update)
  have u: "used_slots t' = used_slots t"
    by (simp add: used_slots_def st) (simp add: assms(4) touch_def)
  have "wf_table t'"
    using assms(1) u record_length_update [OF assms(1,3)]
    by (auto simp: wf_table_def assms(4) touch_def free_stack_def)
  moreover have "contents t' = (contents t)(i \<mapsto> d)"
  proof
    have "data t' = (data t)[i := d]" by (simp add: assms(4) touch_def)
    then show "contents t' j = ((contents t)(i \<mapsto> d)) j" for j
      using i lens assms(2) by (simp add: contents_def u)
  qed
  ultimately show ?thesis using i lens by (simp add: assms(4) touch_def)
qed

text \<open>The table state after a deleted record is put back.\<close>

definition refilled :: "u32 \<Rightarrow> nat \<Rightarrow> bytes \<Rightarrow> MemoryTable \<Rightarrow> MemoryTable" where
  "refilled tid i d t =
     (let t1 = mark_restored tid i (restore_data i d t)
      in remove_free i (t1\<lparr>record_count := record_count t1 + 1\<rparr>))"

lemma restore_data_full:
  "length d = record_size t \<Longrightarrow> length (data t ! i) = record_size t
    \<Longrightarrow> restore_data i d t = t\<lparr>data := (data t)[i := d]\<rparr>"
  by (simp add: restore_data_def)

lemma refilled_effect:
  assumes "wf_table t" and "i < cap t" and "i \<notin> used_slots t" and "length d = record_size t"
  shows "wf_table (refilled tid i d t) \<and> contents (refilled tid i d t) = (contents t)(i \<mapsto> d)
    \<and> tdef (refilled tid i d t) = tdef t \<and> record_size (refilled tid i d t) = record_size t
    \<and> low_power_mode (refilled tid i d t) = low_power_mode t \<and> data (refilled tid i d t) ! i = d"
proof -
  have lens: "length (data t) = cap t" "length (status_array t) = cap t" using assms(1) by auto
  have di: "length (data t ! i) = record_size t" using assms(1,2) by (simp add: wf_table_def)
  let ?t1 = "(mark_restored tid i (restore_data i d t))\<lparr>record_count := record_count t + 1\<rparr>"
  have r: "refilled tid i d t = remove_free i ?t1"
    by (simp add: refilled_def mark_restored_def restore_data_def Let_def)
  have e: "free_slots ?t1 = free_slots t" "free_slot_count ?t1 = free_slot_count t"
    "data ?t1 = (data t)[i := d]" "record_count ?t1 = record_count t + 1" "tdef ?t1 = tdef t"
    "record_size ?t1 = record_size t" "low_power_mode ?t1 = low_power_mode t"
    "length (status_array ?t1) = length (status_array t)"
    by (simp_all add: mark_restored_def restore_data_full [OF assms(4) di])
  have st: "slot_status ?t1 j = (if j = i then Used else slot_status t j)" for j
    using assms(2) lens by (simp add: mark_restored_def restore_data_def Let_def nth_list_update)
  note f = remove_free_effect [OF assms(1-3) e(1,2)]
  have "wf_table (refilled tid i d t) \<and> contents (refilled tid i d t) = (contents t)(i \<mapsto> d)"
    unfolding r by (rule wf_refill [OF assms]) (use f e st in simp_all)
  then show ?thesis using f e assms(2) lens by (simp add: r)
qed

section \<open>The effect of undo and redo on a database\<close>

lemma table_ok_step:
  "table_ok k t \<Longrightarrow> wf_table t' \<Longrightarrow> tdef t' = tdef t \<Longrightarrow> record_size t' = record_size t
    \<Longrightarrow> low_power_mode t' = low_power_mode t \<Longrightarrow> table_ok k t'"
  by (simp add: table_ok_def)

lemma used_iff: "i \<in> used_slots t \<longleftrightarrow> i < cap t \<and> slot_status t i = Used"
  by (simp add: used_slots_def)

lemma record_length: "wf_table t \<Longrightarrow> i < cap t \<Longrightarrow> length (data t ! i) = record_size t"
  by (simp add: wf_table_def)

text \<open>A table of the database after an update that keeps its definition.\<close>

lemma stored_view:
  assumes "db_ok mem db" and "k < length (tables db)" and "tables db ! k = Some t"
    and "wf_table t'" and "contents t' = m" and "tdef t' = tdef t"
    and "record_size t' = record_size t" and "low_power_mode t' = low_power_mode t"
  shows "db_ok mem (put_table k t' db)"
    and "db_view (put_table k t' db) = (db_view db)[k := Some (tdef t, record_size t, m)]"
proof -
  have "table_ok k t" using assms(1-3) by (auto simp: db_ok_def)
  then have "table_ok k t'" using assms(4-8) by (auto intro: table_ok_step)
  then show "db_ok mem (put_table k t' db)" using assms put_table_ok by blast
  show "db_view (put_table k t' db) = (db_view db)[k := Some (tdef t, record_size t, m)]"
    using assms(5-7) by (simp add: view_put_table view_table_def)
qed

lemma undo_insert_effect:
  assumes "db_ok mem db" and "k < length (tables db)" and "tables db ! k = Some t"
    and "i \<in> used_slots t"
  shows "\<exists>db'. undo_insert mem k i t db = Ok db' \<and> db_ok mem db'
    \<and> db_view db' = (db_view db)[k := Some (tdef t, record_size t, (contents t)(i := None))]"
proof -
  have wf: "wf_table t" using assms(1-3) by (auto simp: db_ok_def table_ok_def)
  have i: "i < cap t" "slot_status t i = Used" using assms(4) by (auto simp: used_iff)
  note e = release_slot_effect [OF wf assms(4)]
  obtain db1 where d1: "with_index k (\<lambda>x. delete_composite mem x (data t ! i)) db = Ok db1"
    "db_ok mem db1" "tables db1 = tables db"
    using with_delete_ok [OF assms(1-3), of mem "data t ! i"] delete_composite_ok
      record_length [OF wf i(1)] by blast
  have "low_power_mode (release_slot i t) = low_power_mode t"
    by (simp add: release_slot_def Let_def)
  note sv = stored_view [OF d1(2) _ _ e(1,2,5,6) this, of k, unfolded d1(3)]
  have "undo_insert mem k i t db = Ok (put_table k (release_slot i t) db1)"
    using i d1(1) e(3) by (simp add: undo_insert_def)
  then show ?thesis using sv [OF assms(2,3)] db_view_tables [OF d1(3)] by simp
qed

lemma undo_delete_effect:
  assumes "db_ok mem db" and "k < length (tables db)" and "tables db ! k = Some t"
    and "i = unat (record_id (header v))" and "i < cap t" and "i \<notin> used_slots t"
    and "length (old_data v) = record_size t"
  shows "\<exists>db'. undo_delete mem k v t db = Ok db' \<and> db_ok mem db'
    \<and> db_view db' = (db_view db)[k := Some (tdef t, record_size t, (contents t)(i \<mapsto> old_data v))]"
proof -
  have wf: "wf_table t" using assms(1-3) by (auto simp: db_ok_def table_ok_def)
  let ?t = "refilled (li_tx_id (header v)) i (old_data v) t"
  note e = refilled_effect [OF wf assms(5-7), of "li_tx_id (header v)"]
  have sv: "db_ok mem (put_table k ?t db)" "db_view (put_table k ?t db)
      = (db_view db)[k := Some (tdef t, record_size t, (contents t)(i \<mapsto> old_data v))]"
    using stored_view [OF assms(1-3)] e by auto
  have u: "undo_delete mem k v t db
      = with_index k (\<lambda>x. insert_composite mem x (data ?t ! i) (record_id (header v))) (put_table k ?t db)"
    using assms(4-6) by (simp add: undo_delete_def refilled_def used_iff Let_def)
  have "\<exists>db'. undo_delete mem k v t db = Ok db' \<and> db_ok mem db' \<and> tables db' = tables (put_table k ?t db)"
    unfolding u
  proof (rule with_index_ok [OF sv(1)])
    show "k < length (tables (put_table k ?t db))" "tables (put_table k ?t db) ! k = Some ?t"
      using assms(2) by simp_all
    show "(\<exists>ea. insert_composite mem x (data ?t ! i) (record_id (header v)) = Err ea) \<or>
        (\<exists>x'. insert_composite mem x (data ?t ! i) (record_id (header v)) = Ok x' \<and> index_ok mem (record_size ?t) x')"
      if "index_ok mem (record_size ?t) x" for x
      using insert_composite_ok [OF that] e assms(7) by metis
  qed
  then show ?thesis using sv(2) db_view_tables by metis
qed

text \<open>Rewriting a used slot between a delete and an insert of its key.\<close>

lemma rewrite_effect:
  assumes "db_ok mem db" and "k < length (tables db)" and "tables db ! k = Some t"
    and "i \<in> used_slots t" and "length d = record_size t"
    and "t' = touch tid i (t\<lparr>data := (data t)[i := d]\<rparr>)"
  shows "\<exists>db'. and_then (with_index k (\<lambda>x. delete_composite mem x (data t ! i)) db) (\<lambda>db1.
        with_index k (\<lambda>x. insert_composite mem x (data t' ! i) rid) (put_table k t' db1)) = Ok db'
      \<and> db_ok mem db'
      \<and> db_view db' = (db_view db)[k := Some (tdef t, record_size t, (contents t)(i \<mapsto> d))]"
proof -
  have wf: "wf_table t" using assms(1-3) by (auto simp: db_ok_def table_ok_def)
  have i: "i < cap t" using assms(4) by (simp add: used_iff)
  note e = wf_rewrite [OF wf assms(4-6)]
  obtain db1 where d1: "with_index k (\<lambda>x. delete_composite mem x (data t ! i)) db = Ok db1"
    "db_ok mem db1" "tables db1 = tables db"
    using with_delete_ok [OF assms(1-3), of mem "data t ! i"] delete_composite_ok
      record_length [OF wf i] by blast
  have k1: "k < length (tables db1)" "tables db1 ! k = Some t" using assms(2,3) d1(3) by auto
  have sv: "db_ok mem (put_table k t' db1)" "db_view (put_table k t' db1)
      = (db_view db1)[k := Some (tdef t, record_size t, (contents t)(i \<mapsto> d))]"
    using stored_view [OF d1(2) k1] e by auto
  have "\<exists>db'. with_index k (\<lambda>x. insert_composite mem x (data t' ! i) rid) (put_table k t' db1) = Ok db'
      \<and> db_ok mem db' \<and> tables db' = tables (put_table k t' db1)"
  proof (rule with_index_ok [OF sv(1)])
    show "k < length (tables (put_table k t' db1))" "tables (put_table k t' db1) ! k = Some t'"
      using k1 by simp_all
    show "(\<exists>ea. insert_composite mem x (data t' ! i) rid = Err ea) \<or>
        (\<exists>x'. insert_composite mem x (data t' ! i) rid = Ok x' \<and> index_ok mem (record_size t') x')"
      if "index_ok mem (record_size t') x" for x
      using insert_composite_ok [OF that] e assms(5) by metis
  qed
  then show ?thesis using sv(2) d1 db_view_tables [OF d1(3)] db_view_tables
    by (metis and_then.simps(1))
qed

lemma undo_update_effect:
  assumes "db_ok mem db" and "k < length (tables db)" and "tables db ! k = Some t"
    and "i = unat (record_id (header v))" and "i \<in> used_slots t"
    and "length (old_data v) = record_size t"
  shows "\<exists>db'. undo_update mem k v t db = Ok db' \<and> db_ok mem db'
    \<and> db_view db' = (db_view db)[k := Some (tdef t, record_size t, (contents t)(i \<mapsto> old_data v))]"
proof -
  have wf: "wf_table t" using assms(1-3) by (auto simp: db_ok_def table_ok_def)
  have i: "i < cap t" "slot_status t i = Used" using assms(5) by (auto simp: used_iff)
  show ?thesis
    using rewrite_effect [OF assms(1-3,5,6) refl, of "li_tx_id (header v)" "record_id (header v)"]
      i assms(4) restore_data_full [OF assms(6) record_length [OF wf i(1)]]
    by (simp add: undo_update_def Let_def)
qed

lemma redo_update_effect:
  assumes "db_ok mem db" and "k < length (tables db)" and "tables db ! k = Some t"
    and "i = unat (record_id (header v))" and "i \<in> used_slots t"
    and "length (new_data v) = record_size t"
    and "unat (new_data_size (header v)) = record_size t"
  shows "\<exists>db'. redo_update mem k v t db = Ok db' \<and> db_ok mem db'
    \<and> db_view db' = (db_view db)[k := Some (tdef t, record_size t, (contents t)(i \<mapsto> new_data v))]"
proof -
  have wf: "wf_table t" using assms(1-3) by (auto simp: db_ok_def table_ok_def)
  have i: "i < cap t" "slot_status t i = Used" using assms(5) by (auto simp: used_iff)
  show ?thesis
    using rewrite_effect [OF assms(1-3,5,6) refl, of "li_tx_id (header v)" "record_id (header v)"]
      i assms(4,6,7) record_length [OF wf i(1)]
    by (simp add: redo_update_def Let_def)
qed

lemma redo_max_pk_effect:
  assumes "pk_in_range (tdef t)"
  shows "\<exists>t'. redo_max_pk rd t = Ok t' \<and> tdef t' = tdef t \<and> record_size t' = record_size t
    \<and> low_power_mode t' = low_power_mode t \<and> wf_table t' = wf_table t \<and> contents t' = contents t"
  using assms
  by (auto simp: redo_max_pk_def pk_in_range_def Let_def contents_def used_slots_def fun_eq_iff
      split: list.splits)

lemma redo_insert_effect:
  assumes "db_ok mem db" and "k < length (tables db)" and "tables db ! k = Some t"
    and "i = unat (record_id (header v))" and "i < cap t" and "i \<notin> used_slots t"
    and "length (new_data v) = record_size t"
  shows "\<exists>db'. redo_insert mem k v t db = Ok db' \<and> db_ok mem db'
    \<and> db_view db' = (db_view db)[k := Some (tdef t, record_size t, (contents t)(i \<mapsto> new_data v))]"
proof -
  have wf: "wf_table t" and pk: "pk_in_range (tdef t)"
    using assms(1-3) by (auto simp: db_ok_def table_ok_def)
  let ?t = "refilled (li_tx_id (header v)) i (new_data v) t"
  note e = refilled_effect [OF wf assms(5-7), of "li_tx_id (header v)"]
  have di: "length (data ?t ! i) = record_size t" using e assms(7) by simp
  obtain db1 where d1: "with_index k (\<lambda>x. delete_composite mem x (data ?t ! i)) db = Ok db1"
    "db_ok mem db1" "tables db1 = tables db"
    using with_delete_ok [OF assms(1-3), of mem "data ?t ! i"] delete_composite_ok di by blast
  have k1: "k < length (tables db1)" "tables db1 ! k = Some t" using assms(2,3) d1(3) by auto
  obtain db2 where d2: "with_index k (\<lambda>x. insert_composite mem x (data ?t ! i) (record_id (header v))) db1 = Ok db2"
    "db_ok mem db2" "tables db2 = tables db"
    using with_insert_ok [OF d1(2) k1, of mem "data ?t ! i" "record_id (header v)"]
      insert_composite_ok di d1(3) by (metis (lifting))
  have pk': "pk_in_range (tdef ?t)" using pk e by simp
  obtain t3 where t3: "redo_max_pk (data ?t ! i) ?t = Ok t3" "tdef t3 = tdef t"
    "record_size t3 = record_size t" "low_power_mode t3 = low_power_mode t"
    "wf_table t3" "contents t3 = (contents t)(i \<mapsto> new_data v)"
    using redo_max_pk_effect [OF pk', of "data ?t ! i"] e by auto
  have st: "slot_status t i \<noteq> Used" using assms(5,6) by (simp add: used_iff)
  let ?t1 = "(mark_restored (li_tx_id (header v)) i (restore_data i (new_data v) t))
      \<lparr>record_count := record_count t + 1\<rparr>"
  have "remove_free_redo i ?t1 = ?t"
    using remove_free_effect(5) [OF wf assms(5,6), of ?t1]
    by (simp add: refilled_def mark_restored_def restore_data_def Let_def)
  then have "redo_insert mem k v t db = Ok (put_table k t3 db2)"
    using assms(4,5) st d1(1) d2(1) t3(1)
    by (simp add: redo_insert_def Let_def restore_data_def)
  moreover have k2: "k < length (tables db2)" "tables db2 ! k = Some t" using assms(2,3) d2(3) by auto
  ultimately show ?thesis
    using stored_view [OF d2(2) k2 t3(5,6,2,3,4)] db_view_tables [OF d2(3)] by simp
qed

section \<open>Every logged operation can be undone and redone\<close>

lemma db_view_nth:
  assumes "db_view db = V" and "k < length V" and "V ! k = Some (d, n, m)"
  obtains t where "k < length (tables db)" and "tables db ! k = Some t" and "tdef t = d"
    and "record_size t = n" and "contents t = m"
proof -
  have k: "k < length (tables db)" using assms(1,2) by (auto simp: db_view_def)
  then have "map_option view_table (tables db ! k) = Some (d, n, m)"
    using assms(1,3) by (auto simp: db_view_def)
  then obtain t where "tables db ! k = Some t" "view_table t = (d, n, m)" by auto
  with k show thesis by (intro that [of t]) (auto simp: view_table_def)
qed

text \<open>
  The three kinds of log items, seen from the contents of the table: \<open>m\<close> before the
  operation and \<open>m'\<close> after it.
\<close>

lemma item_undoes:
  assumes "unat (li_table_id (header v)) = k" and "k < length V" and "V ! k = Some (d, n, m)"
    and i: "i = unat (record_id (header v))" "i < max_records d"
    and cases: "op_type (header v) = Insert \<and> m i = None \<and> m' = m(i \<mapsto> new_data v)
      \<or> op_type (header v) = Update \<and> m i = Some (old_data v) \<and> m' = m(i \<mapsto> new_data v)
          \<and> length (old_data v) = n
      \<or> op_type (header v) = Delete \<and> m i = Some (old_data v) \<and> m' = m(i := None)
          \<and> length (old_data v) = n"
  shows "undoes mem v V (V[k := Some (d, n, m')])"
  unfolding undoes_def
proof (intro allI impI, elim conjE)
  fix db
  assume ok: "db_ok mem db" and vw: "db_view db = V[k := Some (d, n, m')]"
  obtain t where t: "k < length (tables db)" "tables db ! k = Some t" "tdef t = d"
    "record_size t = n" "contents t = m'"
    using db_view_nth [OF vw, of k d n m'] assms(2) by auto
  have ic: "i < cap t" using i(2) t(3) by simp
  have us: "i \<in> used_slots t \<longleftrightarrow> m' i \<noteq> None" using t(5) by (auto simp: contents_def split: if_splits)
  have restored: "(db_view db)[k := Some (d, n, m)] = V" using vw assms(2,3) by (metis list_update_id list_update_overwrite)
  from cases show "\<exists>db'. undo_item mem v db = Ok db' \<and> db_ok mem db' \<and> db_view db' = V"
  proof (elim disjE conjE)
    assume "op_type (header v) = Insert" "m i = None" "m' = m(i \<mapsto> new_data v)"
    moreover from this have "(contents t)(i := None) = m" using t(5) by auto
    ultimately show ?thesis
      using undo_insert_effect [OF ok t(1,2), of i] us t assms(1) i restored
      by (simp add: undo_item_def on_table_def)
  next
    assume "op_type (header v) = Update" "m i = Some (old_data v)" "m' = m(i \<mapsto> new_data v)"
      "length (old_data v) = n"
    moreover from this have "(contents t)(i \<mapsto> old_data v) = m" using t(5) by auto
    ultimately show ?thesis
      using undo_update_effect [OF ok t(1,2) i(1)] us t assms(1) restored
      by (simp add: undo_item_def on_table_def)
  next
    assume "op_type (header v) = Delete" "m i = Some (old_data v)" "m' = m(i := None)"
      "length (old_data v) = n"
    moreover from this have "(contents t)(i \<mapsto> old_data v) = m" using t(5) by auto
    ultimately show ?thesis
      using undo_delete_effect [OF ok t(1,2) i(1) ic] us t assms(1) restored
      by (simp add: undo_item_def on_table_def)
  qed
qed

lemma item_redoes:
  assumes "unat (li_table_id (header v)) = k" and "k < length V" and "V ! k = Some (d, n, m)"
    and i: "i = unat (record_id (header v))" "i < max_records d"
    and cases: "op_type (header v) = Insert \<and> m i = None \<and> m' = m(i \<mapsto> new_data v)
          \<and> length (new_data v) = n
      \<or> op_type (header v) = Update \<and> m i \<noteq> None \<and> m' = m(i \<mapsto> new_data v)
          \<and> length (new_data v) = n \<and> unat (new_data_size (header v)) = n
      \<or> op_type (header v) = Delete \<and> m i \<noteq> None \<and> m' = m(i := None)"
  shows "redoes other mem v V (V[k := Some (d, n, m')])"
  unfolding redoes_def
proof (intro allI impI, elim conjE)
  fix db
  assume ok: "db_ok mem db" and vw: "db_view db = V"
  obtain t where t: "k < length (tables db)" "tables db ! k = Some t" "tdef t = d"
    "record_size t = n" "contents t = m"
    using db_view_nth [OF vw assms(2,3)] .
  have ic: "i < cap t" using i(2) t(3) by simp
  have us: "i \<in> used_slots t \<longleftrightarrow> m i \<noteq> None" using t(5) by (auto simp: contents_def split: if_splits)
  from cases show "\<exists>db'. redo_item other mem v db = Ok db' \<and> db_ok mem db' \<and> db_view db' = V[k := Some (d, n, m')]"
  proof (elim disjE conjE)
    assume "op_type (header v) = Insert" "m i = None" "m' = m(i \<mapsto> new_data v)"
      "length (new_data v) = n"
    then show ?thesis
      using redo_insert_effect [OF ok t(1,2) i(1) ic] us t assms(1) vw
      by (simp add: redo_item_def on_table_def)
  next
    assume "op_type (header v) = Update" "m i \<noteq> None" "m' = m(i \<mapsto> new_data v)"
      "length (new_data v) = n" "unat (new_data_size (header v)) = n"
    then show ?thesis
      using redo_update_effect [OF ok t(1,2) i(1)] us t assms(1) vw
      by (simp add: redo_item_def on_table_def)
  next
    assume "op_type (header v) = Delete" "m i \<noteq> None" "m' = m(i := None)"
    then show ?thesis
      using undo_insert_effect [OF ok t(1,2), of i] us t assms(1) i vw
      by (simp add: redo_item_def on_table_def)
  qed
qed

section \<open>Operations and sessions\<close>

definition sizes :: "Database \<Rightarrow> nat option list" where
  "sizes db = map (map_option record_size) (tables db)"

fun op_fits :: "nat option list \<Rightarrow> db_op \<Rightarrow> bool" where
  "op_fits zs (DInsert k rd) = (\<forall>n. k < length zs \<and> zs ! k = Some n \<longrightarrow> length rd = n)"
| "op_fits zs (DUpdate k i rd) = (\<forall>n. k < length zs \<and> zs ! k = Some n \<longrightarrow> length rd = n)"
| "op_fits zs (DDelete k i) = True"

lemma get_table_Ok: "get_table db k = Ok t \<longleftrightarrow> k < length (tables db) \<and> tables db ! k = Some t"
  by (auto simp: get_table_def split: option.splits)

lemma unat_u16: "n < 65536 \<Longrightarrow> unat (of_nat n :: u16) = n"
  by (simp add: unat_of_nat)

lemma unat_u8: "n < 256 \<Longrightarrow> unat (of_nat n :: u8) = n"
  by (simp add: unat_of_nat)

lemma log_item_simps:
  "op_type (header (begin_variable_size_log_item now tid op tbl rid old new)) = op"
  "li_table_id (header (begin_variable_size_log_item now tid op tbl rid old new)) = tbl"
  "record_id (header (begin_variable_size_log_item now tid op tbl rid old new)) = rid"
  "new_data_size (header (begin_variable_size_log_item now tid op tbl rid old new)) = data_len new"
  "old_data (begin_variable_size_log_item now tid op tbl rid old new) = data_vec old"
  "new_data (begin_variable_size_log_item now tid op tbl rid old new) = data_vec new"
  by (simp_all add: begin_variable_size_log_item_def Let_def)

lemma length_tx_log: "wf_tx tx \<Longrightarrow> length (tx_log tx) = log_item_count tx"
  by (simp add: wf_tx_def tx_log_def)

text \<open>The steps common to the three operations: the new table, the log item and what it means.\<close>

lemma logged_step:
  assumes ok: "db_ok mem db" and k: "k < length (tables db)" "tables db ! k = Some t"
    and t': "wf_table t'" "contents t' = m'" "tdef t' = tdef t" "record_size t' = record_size t"
      "low_power_mode t' = low_power_mode t"
    and i: "i < cap t"
    and cases: "op = Insert \<and> contents t i = None \<and> m' = (contents t)(i \<mapsto> rd)
          \<and> new = Some rd \<and> length rd = record_size t
      \<or> op = Update \<and> contents t i = Some old \<and> m' = (contents t)(i \<mapsto> rd)
          \<and> oldo = Some old \<and> new = Some rd \<and> length rd = record_size t
      \<or> op = Delete \<and> contents t i = Some old \<and> m' = (contents t)(i := None) \<and> oldo = Some old"
    and v: "v = begin_variable_size_log_item now tid op (t_id (tdef t)) (of_nat i) oldo new"
    and db': "db' = put_table k t' db"
  shows "db_ok mem db'" and "sizes db' = sizes db"
    and "undoes mem v (db_view db) (db_view db')" and "redoes other mem v (db_view db) (db_view db')"
proof -
  note sv = stored_view [OF ok k t']
  show "db_ok mem db'" using sv db' by simp
  show "sizes db' = sizes db"
    using k t'(4) by (simp add: db' sizes_def put_table_def map_update list_update_same_conv)
  have tb: "wf_table t" "cap t \<le> 65536" "record_size t < 65536" "k < 256"
    "t_id (tdef t) = of_nat k" using ok k by (auto simp: db_ok_def table_ok_def)
  have ids: "unat (li_table_id (header v)) = k" "i = unat (record_id (header v))"
    using tb i by (simp_all add: v log_item_simps unat_u8 unat_u16)
  have V: "k < length (db_view db)" "db_view db ! k = Some (tdef t, record_size t, contents t)"
    using k by (simp_all add: db_view_def view_table_def)
  have len: "length old = record_size t" if "contents t i = Some old"
    using that record_length [OF tb(1) i] by (auto simp: contents_def split: if_splits)
  have ds: "unat (data_len (Some rd)) = record_size t" if "length rd = record_size t"
    using that tb(3) by (simp add: data_len_def unat_u16)
  show "undoes mem v (db_view db) (db_view db')"
    unfolding db' sv(2) using cases len
    by (intro item_undoes [OF ids(1) V ids(2) i]) (auto simp: v log_item_simps data_vec_def)
  show "redoes other mem v (db_view db) (db_view db')"
    unfolding db' sv(2) using cases ds
    by (intro item_redoes [OF ids(1) V ids(2) i]) (auto simp: v log_item_simps data_vec_def)
qed

lemma exec_logged:
  assumes ok: "db_ok mem db" and fits: "op_fits (sizes db) q"
    and ex: "db_exec now q (tm, db) = Ok (tm', db')"
    and tx: "current_tx tm = Some tx" "wf_tx tx" "room tm"
  obtains tx' v where "current_tx tm' = Some tx'" and "wf_tx tx'"
    and "tx_log tx' = tx_log tx @ [v]" and "max_log_items tx' = max_log_items tx"
    and "undoes mem v (db_view db) (db_view db')" and "redoes other mem v (db_view db) (db_view db')"
    and "db_ok mem db'" and "sizes db' = sizes db"
proof -
  have wf: "wf_table t \<and> \<not> low_power_mode t" if "k < length (tables db)" "tables db ! k = Some t" for k t
    using ok that by (auto simp: db_ok_def table_ok_def)
  have sz: "length rd = record_size t"
    if "k < length (tables db)" "tables db ! k = Some t" "op_fits (sizes db) (DInsert k rd)" for k t rd
    using that by (auto simp: sizes_def)
  note goal = that
  have fin: thesis
    if l: "tm' = log_in_tx now op tbl rid ds old new tm"
      and s: "\<And>v. v = begin_variable_size_log_item now (tx_id tx) op tbl rid old new \<Longrightarrow>
        db_ok mem db' \<and> sizes db' = sizes db \<and> undoes mem v (db_view db) (db_view db')
        \<and> redoes other mem v (db_view db) (db_view db')" for op tbl rid ds old new
    using log_in_tx_Some [OF tx, of now op tbl rid ds old new] l s [OF refl] goal by metis
  show thesis
  proof (cases q)
    case (DInsert k rd)
    with ex obtain t i t' where g: "k < length (tables db)" "tables db ! k = Some t"
      and ins: "table_insert now tm t rd = Ok (i, tm', t')" and db': "db' = put_table k t' db"
      by (auto simp: outcome_simps get_table_Ok)
    have len: "length rd = record_size t" using sz [OF g] fits DInsert by simp
    note e = table_insert_effect [OF wf [OF g, THEN conjunct1] len ins]
    have "contents t i = None" using e(8) wf [OF g] by (simp add: contents_def)
    then show thesis
      using e(3) len by (intro fin [OF e(7)] conjI; intro logged_step [OF ok g e(1,2,4,5,6)]) (auto simp: db')
  next
    case (DUpdate k i rd)
    with ex obtain t t' where g: "k < length (tables db)" "tables db ! k = Some t"
      and upd: "table_update now tm t i rd = Ok (tm', t')" and db': "db' = put_table k t' db"
      by (auto simp: outcome_simps get_table_Ok)
    have len: "length rd = record_size t" using sz [OF g] fits DUpdate by simp
    note e = table_update_effect [OF wf [OF g, THEN conjunct1] len upd]
    have lp: "low_power_mode t' = low_power_mode t" by (simp add: e(6))
    have "contents t i = Some (data t ! i)" "i < cap t" using e(3) by (auto simp: contents_def used_iff)
    then show thesis
      using len by (intro fin [OF e(7)] conjI; intro logged_step [OF ok g e(1,2,4,5) lp]) (auto simp: db')
  next
    case (DDelete k i)
    with ex obtain t t' where g: "k < length (tables db)" "tables db ! k = Some t"
      and del: "table_delete now tm t i = Ok (tm', t')" and db': "db' = put_table k t' db"
      by (auto simp: outcome_simps get_table_Ok)
    have w: "wf_table t" using wf [OF g] by simp
    have u: "i \<in> used_slots t" and t': "t' = release_slot i t"
      and l: "tm' = log_in_tx now Delete (t_id (tdef t)) (of_nat i) (of_nat (record_size t))
                (Some (data t ! i)) None tm"
      using del by (auto simp: table_delete_effect [OF w] split: if_splits)
    note e = release_slot_effect [OF w u]
    have lp: "low_power_mode t' = low_power_mode t" by (simp add: t' release_slot_def Let_def)
    have "contents t i = Some (data t ! i)" "i < cap t" using u by (auto simp: contents_def used_iff)
    then show thesis
      by (intro fin [OF l] conjI;
          intro logged_step [OF ok g e(1,2,5,6) lp [unfolded t']]) (auto simp: db' t')
  qed
qed

lemma exec_no_Fault:
  assumes "db_ok mem db"
  shows "db_exec now q (tm, db) \<noteq> Fault"
proof -
  have t: "pk_in_range (tdef t)" "wf_table t" if "get_table db k = Ok t" for k t
    using assms that by (auto simp: get_table_Ok db_ok_def table_ok_def)
  have g: "get_table db k \<noteq> Fault" for k by (auto simp: get_table_def split: option.splits)
  show ?thesis
  proof (cases q)
    case (DInsert k rd)
    have "table_insert now tm t rd \<noteq> Fault" if "get_table db k = Ok t" for t
      using validate_constraints_no_Fault [OF t(1) [OF that]] pick_slot_no_Fault
      by (auto simp: table_insert_def outcome_simps Let_def)
    with DInsert g show ?thesis by (auto simp: outcome_simps)
  next
    case (DUpdate k i rd)
    have "table_update now tm t i rd \<noteq> Fault" if "get_table db k = Ok t" for t
      using validate_constraints_no_Fault [OF t(1) [OF that]]
      by (auto simp: table_update_def outcome_simps Let_def)
    with DUpdate g show ?thesis by (auto simp: outcome_simps)
  next
    case (DDelete k i)
    have "table_delete now tm t i \<noteq> Fault" if "get_table db k = Ok t" for t
      by (simp add: table_delete_effect [OF t(2) [OF that]])
    with DDelete g show ?thesis by (auto simp: outcome_simps)
  qed
qed

lemma undo_all_append:
  "undo_all mem (xs @ ys) db = and_then (undo_all mem xs db) (undo_all mem ys)"
proof (induction xs arbitrary: db)
  case (Cons v xs)
  then show ?case by (cases "undo_item mem v db") simp_all
qed simp

text \<open>A session inside a transaction whose buffer holds all of its operations.\<close>

lemma run_logged:
  assumes "db_ok mem db" and "\<forall>(now, q)\<in>set qs. op_fits (sizes db) q"
    and "current_tx tm = Some tx" and "wf_tx tx"
    and "log_item_count tx + length qs \<le> max_log_items tx"
  shows "\<exists>tm' db' tx' vs. db_run qs (tm, db) = Ok (tm', db') \<and> db_ok mem db'
    \<and> current_tx tm' = Some tx' \<and> tx_log tx' = tx_log tx @ vs
    \<and> (\<forall>d. db_ok mem d \<and> db_view d = db_view db' \<longrightarrow>
          (\<exists>d'. undo_all mem (rev vs) d = Ok d' \<and> db_ok mem d' \<and> db_view d' = db_view db))
    \<and> (\<forall>d. db_ok mem d \<and> db_view d = db_view db \<longrightarrow>
          (\<exists>d'. redo_all other mem vs d = Ok d' \<and> db_ok mem d' \<and> db_view d' = db_view db'))"
  using assms
proof (induction qs arbitrary: tm db tx)
  case Nil
  then show ?case by (intro exI [of _ tm] exI [of _ db] exI [of _ tx] exI [of _ "[]"]) simp
next
  case (Cons nq qs)
  obtain now q where nq: "nq = (now, q)" by (cases nq)
  show ?case
  proof (cases "db_exec now q (tm, db)")
    case (Err e)
    have "log_item_count tx + length qs \<le> max_log_items tx" using Cons.prems(5) by simp
    from Cons.IH [OF Cons.prems(1) _ Cons.prems(3,4) this] Cons.prems(2)
    show ?thesis using nq Err by simp
  next
    case Fault
    then show ?thesis using exec_no_Fault [OF Cons.prems(1)] by blast
  next
    case (Ok s)
    then obtain tm1 db1 where ex: "db_exec now q (tm, db) = Ok (tm1, db1)" by (cases s) auto
    have fq: "op_fits (sizes db) q" using Cons.prems(2) nq by simp
    have rm: "room tm" using Cons.prems(3,5) by (simp add: room_def)
    obtain tx1 v where s1: "current_tx tm1 = Some tx1" "wf_tx tx1" "tx_log tx1 = tx_log tx @ [v]"
      "max_log_items tx1 = max_log_items tx" "undoes mem v (db_view db) (db_view db1)"
      "redoes other mem v (db_view db) (db_view db1)" "db_ok mem db1" "sizes db1 = sizes db"
      by (rule exec_logged [OF Cons.prems(1) fq ex Cons.prems(3,4) rm])
    have "log_item_count tx1 = Suc (log_item_count tx)"
      using arg_cong [OF s1(3), of length] length_tx_log s1(2) Cons.prems(4) by simp
    then have l1: "log_item_count tx1 + length qs \<le> max_log_items tx1"
      using Cons.prems(5) s1(4) by simp
    obtain tm' db' tx' vs where ih: "db_run qs (tm1, db1) = Ok (tm', db')" "db_ok mem db'"
      "current_tx tm' = Some tx'" "tx_log tx' = tx_log tx1 @ vs"
      "\<forall>d. db_ok mem d \<and> db_view d = db_view db' \<longrightarrow>
          (\<exists>d'. undo_all mem (rev vs) d = Ok d' \<and> db_ok mem d' \<and> db_view d' = db_view db1)"
      "\<forall>d. db_ok mem d \<and> db_view d = db_view db1 \<longrightarrow>
          (\<exists>d'. redo_all other mem vs d = Ok d' \<and> db_ok mem d' \<and> db_view d' = db_view db')"
      using Cons.IH [OF s1(7) _ s1(1,2) l1] Cons.prems(2) s1(8) by auto
    have "\<exists>d'. undo_all mem (rev (v # vs)) d = Ok d' \<and> db_ok mem d' \<and> db_view d' = db_view db"
      if d: "db_ok mem d" "db_view d = db_view db'" for d
    proof -
      obtain d1 where "undo_all mem (rev vs) d = Ok d1" "db_ok mem d1" "db_view d1 = db_view db1"
        using ih(5) d by blast
      moreover from this obtain d2 where "undo_item mem v d1 = Ok d2" "db_ok mem d2" "db_view d2 = db_view db"
        using s1(5) by (auto simp: undoes_def)
      ultimately show ?thesis by (simp add: undo_all_append)
    qed
    moreover have "\<exists>d'. redo_all other mem (v # vs) d = Ok d' \<and> db_ok mem d' \<and> db_view d' = db_view db'"
      if d: "db_ok mem d" "db_view d = db_view db" for d
    proof -
      obtain d1 where "redo_item other mem v d = Ok d1" "db_ok mem d1" "db_view d1 = db_view db1"
        using s1(6) d by (auto simp: redoes_def)
      then show ?thesis using ih(6) by simp
    qed
    ultimately show ?thesis
      using ih(1-4) nq ex s1(3)
      by (intro exI [of _ tm'] exI [of _ db'] exI [of _ tx'] exI [of _ "v # vs"]) auto
  qed
qed

end
