(* ===== verification/Demo.thy ===== *)
theory Demo
  imports Rollback
begin

text \<open>
  A small concrete database, used to show that the hypotheses of the properties can be met:
  one table of three records of eight bytes, keyed by a 32-bit column, with a hash index of
  four buckets over three items.
\<close>

definition demo_fields :: "FieldDef list" where
  "demo_fields =
     [FieldDef_default\<lparr>f_name := ''id'', data_type := UInt32, f_size := 4, offset := 0,
        f_primary_key := True, not_null := True\<rparr>,
      FieldDef_default\<lparr>f_name := ''v'', data_type := UInt32, f_size := 4, offset := 4\<rparr>]"

definition demo_def :: TableDef where
  "demo_def =
     \<lparr>t_id = 0, t_name = ''demo'', t_fields = demo_fields, primary_key = [0],
      secondary_index = None, secondary_index_type = SortedArray, def_record_size = 8,
      max_records = 3, t_version = 1, created_at = 0, updated_at = 0\<rparr>"

definition zero_header :: RecordHeader where
  "zero_header =
     \<lparr>status = Free, version = 0, lock_type = LockNone, lock_owner = 0, lock_count = 0,
      create_tx_id = 0, delete_tx_id = 0, next_version_ptr = 0\<rparr>"

definition demo_table :: MemoryTable where
  "demo_table =
     \<lparr>tdef = demo_def, data = replicate 3 (replicate 8 0),
      status_array = replicate 3 zero_header, record_count = 0, record_size = 8,
      free_slots = [2, 1, 0], free_slot_count = 3, low_power_mode = False,
      low_power_max_records = None, t_snapshot_version = 0, max_pk = 0\<rparr>"

definition demo_index :: PrimaryIndex where
  "demo_index = PrimaryIndex_new demo_def 4 3"

definition demo_db :: Database where
  "demo_db = \<lparr>tables = [Some demo_table], primary_indices = [Some demo_index]\<rparr>"

definition demo_mem :: "u64 \<Rightarrow> nat \<Rightarrow> bytes" where
  "demo_mem p n = replicate n 0"

definition demo_tx :: Transaction where
  "demo_tx = Transaction_default\<lparr>tx_id := 1, max_log_items := 4,
     log_items := replicate 4 \<lparr>header = LogItem_default, old_data = [], new_data = []\<rparr>\<rparr>"

definition demo_tm :: "unit TransactionManager" where
  "demo_tm = TransactionManager_new\<lparr>current_tx := Some demo_tx, tx_id_counter := 2\<rparr>"

text \<open>A record with key \<open>k\<close> and value \<open>v\<close>.\<close>

definition demo_record :: "byte \<Rightarrow> byte \<Rightarrow> bytes" where
  "demo_record k v = [k, 0, 0, 0, v, 0, 0, 0]"

definition demo_session :: "(u64 \<times> db_op) list" where
  "demo_session =
     [(10, DInsert 0 (demo_record 1 7)), (11, DUpdate 0 0 (demo_record 1 8)), (12, DDelete 0 0)]"

section \<open>The demo database is in service\<close>

lemma demo_new:
  "new_with_options (Some (replicate 3 (replicate 8 0))) (Some (replicate 3 zero_header)) (Some [])
     demo_def False = Ok demo_table"
  by (simp add: new_with_options_def demo_table_def demo_def_def init_header_def zero_header_def
      upt_rec numeral_3_eq_3)

lemma demo_table_facts:
  "wf_table demo_table" "contents demo_table = Map.empty" "tdef demo_table = demo_def"
  "record_size demo_table = 8" "\<not> low_power_mode demo_table"
  using wf_table_new [OF _ _ _ _ demo_new] by (simp_all add: demo_def_def demo_table_def)

lemma demo_pk: "pk_in_range demo_def"
  by (simp add: pk_in_range_def demo_def_def demo_fields_def)

lemma demo_key: "record_key mem demo_def rd = Ok (to_le 4 (unat (read_u32 rd 0)))"
  by (simp add: record_key_def key_fields_def encode_composite_key_def demo_def_def
      demo_fields_def encode_field_def FieldDef_default_def)

lemma demo_index_ok: "index_ok mem n demo_index"
  using wf_index_new [of 4 demo_def 3]
  by (auto simp: index_ok_def demo_index_def PrimaryIndex_new_def demo_key)

lemma demo_db_ok: "db_ok mem demo_db"
  using demo_table_facts demo_pk demo_index_ok
  by (auto simp: db_ok_def demo_db_def table_ok_def) (simp_all add: demo_def_def)

lemma demo_tx_ok: "current_tx demo_tm = Some demo_tx" "wf_tx demo_tx" "log_item_count demo_tx = 0"
  "max_log_items demo_tx = 4"
  by (simp_all add: demo_tm_def demo_tx_def wf_tx_def Transaction_default_def)

lemma demo_session_fits: "\<forall>(now, q)\<in>set demo_session. op_fits (sizes demo_db) q"
  by (simp add: demo_session_def sizes_def demo_db_def demo_table_def demo_record_def)

lemma demo_in_service: "in_service (demo_tm, demo_table)"
  using demo_table_facts demo_pk
  by (auto simp: in_service_def pk_unique_def headers_ok_def demo_tm_def TransactionManager_new_def
      used_slots_def demo_table_def zero_header_def demo_def_def)

end
