(* ===== verification/Core_Props.thy ===== *)
theory Core_Props
  imports Demo
begin

text \<open>
  The properties of the storage core: rollback and recovery, the memory table, the primary index
  and the transaction log, each with a witness on the demo database.
\<close>

section \<open>Transactions\<close>





section \<open>Tables\<close>

text \<open>
  (C3) The memory table is a map from slot numbers to records.  From a table in service, every
  sequence of insert, update, delete and lookup requests with records of the table's size is
  answered as the specification of a record store allows, no request panics, and the table
  stays in service.
\<close>

theorem table_refines_map:
  assumes "in_service s" and "\<forall>q\<in>set qs. req_ok (record_fits s) q"
    and "serve (dispatch (store_insert now) (store_update now) (store_delete now) store_get) s qs
           = (reps, s')"
  shows "in_service s' \<and> RPanic \<notin> set reps
    \<and> spec_run (low_power_mode (snd s)) (contents (snd s)) qs reps (contents (snd s'))"
  using table_store.serve_refines [OF assms] spec_run_no_panic by blast

definition demo_requests :: "bytes request list" where
  "demo_requests = [ReqInsert (demo_record 1 7), ReqInsert (demo_record 1 9), ReqGet 0, ReqDelete 0]"

theorem table_refines_map_witness:
  "in_service (snd (serve (dispatch (store_insert 5) (store_update 5) (store_delete 5) store_get)
      (demo_tm, demo_table) demo_requests))"
proof -
  have "\<forall>q\<in>set demo_requests. req_ok (record_fits (demo_tm, demo_table)) q"
    by (simp add: demo_requests_def record_fits_def demo_table_facts demo_record_def)
  from table_refines_map [OF demo_in_service this surjective_pairing, of 5] show ?thesis by simp
qed

text \<open>
  (C4) Primary keys stay unique.  After any such sequence of requests, two different used slots
  never hold records with equal primary keys.
\<close>

theorem table_keys_unique:
  assumes "in_service s" and "\<forall>q\<in>set qs. req_ok (record_fits s) q"
    and "serve (dispatch (store_insert now) (store_update now) (store_delete now) store_get) s qs
           = (reps, s')"
    and "contents (snd s') i = Some a" and "contents (snd s') j = Some b" and "i \<noteq> j"
  shows "pk_equal (t_fields (tdef (snd s'))) (primary_key (tdef (snd s'))) a b = Ok False"
proof -
  have "pk_unique (snd s')"
    using table_store.serve_refines [OF assms(1-3)] by (simp add: in_service_def)
  then show ?thesis
    using assms(4-6) by (auto simp: pk_unique_def contents_def split: if_splits)
qed

definition demo_after :: "unit table_state" where
  "demo_after =
     snd (serve (dispatch (store_insert 5) (store_update 5) (store_delete 5) store_get)
       (demo_tm, demo_table) [ReqInsert (demo_record 1 7), ReqInsert (demo_record 2 9)])"

lemma demo_after_get:
  "get_by_id (snd demo_after) 0 = Ok (demo_record 1 7)"
  "get_by_id (snd demo_after) 1 = Ok (demo_record 2 9)"
  by code_simp+

theorem table_keys_unique_witness:
  "pk_equal (t_fields (tdef (snd demo_after))) (primary_key (tdef (snd demo_after)))
     (demo_record 1 7) (demo_record 2 9) = Ok False"
proof (rule table_keys_unique [OF demo_in_service])
  show "\<forall>q\<in>set [ReqInsert (demo_record 1 7), ReqInsert (demo_record 2 9)].
      req_ok (record_fits (demo_tm, demo_table)) q"
    by (simp add: record_fits_def demo_table_facts demo_record_def)
  show "serve (dispatch (store_insert 5) (store_update 5) (store_delete 5) store_get)
      (demo_tm, demo_table) [ReqInsert (demo_record 1 7), ReqInsert (demo_record 2 9)]
      = (fst (serve (dispatch (store_insert 5) (store_update 5) (store_delete 5) store_get)
      (demo_tm, demo_table) [ReqInsert (demo_record 1 7), ReqInsert (demo_record 2 9)]), demo_after)"
    by (simp add: demo_after_def)
  show "contents (snd demo_after) 0 = Some (demo_record 1 7)"
    "contents (snd demo_after) 1 = Some (demo_record 2 9)"
    using demo_after_get by (auto simp: get_by_id_contents split: option.splits)
qed simp

text \<open>
  Low-power mode overwrites the oldest record.  When an insert into a well-formed table lands
  on an occupied slot, the table is in low-power mode, the slot has the least version of all
  used slots, the record count does not change, and exactly that slot is replaced.
\<close>

theorem low_power_overwrites_oldest:
  assumes "wf_table t" and "length rd = record_size t"
    and "table_insert now tm t rd = Ok (i, tm', t')" and "contents t i \<noteq> None"
  shows "low_power_mode t \<and> (\<forall>j. contents t j \<noteq> None \<longrightarrow>
           version (status_array t ! i) \<le> version (status_array t ! j))
         \<and> record_count t' = record_count t \<and> contents t' = (contents t)(i \<mapsto> rd)"
proof -
  note e = table_insert_effect [OF assms(1-3)]
  have u: "i \<in> used_slots t" using assms(4) by (auto simp: contents_def split: if_splits)
  obtain ow t1 where p: "pick_slot t = Ok (i, ow, t1)"
    using assms(3) by (auto simp: table_insert_Ok_iff)
  have "ow" using pick_slot_fresh(5) [OF assms(1)] p u by (cases ow) auto
  then have f: "find_oldest (status_array t) 0 None 0xFFFF = Some i"
    using p by (auto simp: pick_slot_def Let_def split: if_splits option.splits)
  have "version (status_array t ! i) \<le> version (status_array t ! j)" if "contents t j \<noteq> None" for j
  proof -
    have "j < length (status_array t)" "slot_status t j = Used"
      using that wf_lengths(2) [OF assms(1)] by (auto simp: contents_def used_slots_def split: if_splits)
    then show ?thesis using find_oldest_least_used [OF f, of "status_array t ! j"] by simp
  qed
  moreover have "used_slots t' = used_slots t"
    using arg_cong [OF e(2), of dom] u by (auto simp: insert_absorb)
  then have "record_count t' = record_count t" using e(1) assms(1) by (simp add: wf_table_def)
  ultimately show ?thesis using e(2,8) u by auto
qed

definition demo_low :: MemoryTable where
  "demo_low = set_low_power_mode True (Some 1) (snd demo_after)"

definition demo_low_insert :: "(nat \<times> unit TransactionManager \<times> MemoryTable) outcome" where
  "demo_low_insert = table_insert 6 demo_tm demo_low (demo_record 3 3)"

lemma demo_low_slot: "map_option fst (ok_value demo_low_insert) = Some 0"
  by code_simp

lemma demo_low_wf: "wf_table demo_low"
proof -
  have "in_service demo_after"
    using table_store.serve_refines [OF demo_in_service, of
        "[ReqInsert (demo_record 1 7), ReqInsert (demo_record 2 9)]" 5 _ demo_after]
    by (simp add: record_fits_def demo_table_facts demo_record_def demo_after_def prod_eq_iff)
  then show ?thesis
    by (simp add: in_service_def demo_low_def set_low_power_mode_def wf_table_def used_slots_def
        free_stack_def)
qed

theorem low_power_overwrites_oldest_witness:
  "\<exists>tm' t'. demo_low_insert = Ok (0, tm', t') \<and> low_power_mode demo_low
     \<and> contents t' = (contents demo_low)(0 \<mapsto> demo_record 3 3)"
proof -
  obtain tm' t' where i: "demo_low_insert = Ok (0, tm', t')"
    using demo_low_slot by (auto simp: ok_value_Some)
  have "record_size demo_low = 8" by code_simp
  then have l: "length (demo_record 3 3) = record_size demo_low" by (simp add: demo_record_def)
  have "get_by_id demo_low 0 = Ok (demo_record 1 7)" by code_simp
  then have "contents demo_low 0 \<noteq> None" by (auto simp: get_by_id_contents split: option.splits)
  from low_power_overwrites_oldest [OF demo_low_wf l i [unfolded demo_low_insert_def] this] i
  show ?thesis by blast
qed

text \<open>
  A new table is empty and in order.  A table made over raw memory of the right sizes has a
  consistent free stack covering all slots, no records, and is not in low-power mode.
\<close>

theorem new_table_empty:
  assumes "0 < max_records d" and "length dat = max_records d" and "length hs = max_records d"
    and "\<forall>r\<in>set dat. length r = def_record_size d"
  shows "\<exists>t. new_with_options (Some dat) (Some hs) (Some fs) d False = Ok t \<and> wf_table t
    \<and> (\<forall>i. get_by_id t i = Err RecordNotFound) \<and> free_slot_count t = max_records d"
proof -
  have "\<exists>t. new_with_options (Some dat) (Some hs) (Some fs) d False = Ok t"
    using assms(1) by (simp add: new_with_options_def)
  then obtain t where t: "new_with_options (Some dat) (Some hs) (Some fs) d False = Ok t" ..
  note w = wf_table_new [OF assms t]
  have "free_slot_count t = max_records d"
    using t assms(1) by (auto simp: new_with_options_def)
  with t w show ?thesis by (simp add: get_by_id_contents)
qed

theorem new_table_empty_witness:
  "\<exists>t. new_with_options (Some (replicate 3 (replicate 8 1))) (Some (replicate 3 zero_header))
     (Some []) demo_def False = Ok t \<and> wf_table t"
  using new_table_empty [of demo_def "replicate 3 (replicate 8 1)" "replicate 3 zero_header" "[]"]
  by (auto simp: demo_def_def)

section \<open>The primary index\<close>



text \<open>
  Bulk loading.  Loading distinct keys of at most 128 bytes into a new index with room for them
  succeeds, and afterwards every key is found with its own record id.
\<close>

theorem hash_index_bulk_load:
  assumes "0 < hsize" and "length kvs \<le> n" and "\<forall>k\<in>set (map fst kvs). length k \<le> 128"
    and "distinct (map fst kvs)"
  shows "\<exists>x. insert_all pi_insert kvs (PrimaryIndex_new d hsize n) = Ok x
           \<and> (\<forall>(k, v)\<in>set kvs. fst (pi_find x k) = Ok v)"
proof -
  let ?x = "PrimaryIndex_new d hsize n"
  note w = wf_index_new [OF assms(1)]
  have small: "\<forall>k\<in>set (map fst kvs). small_key k" using assms(3) by (simp add: small_key_def)
  have room: "length kvs \<le> pi_room ?x" using assms(2) w(3) by simp
  obtain x where x: "insert_all pi_insert kvs ?x = Ok x"
    using hash_index.insert_all_entries [OF w(1) room small assms(4)] by blast
  then show ?thesis
    using hash_index.insert_all_look [OF w(1) room small assms(4) _ x] by auto
qed

theorem hash_index_bulk_load_witness:
  "\<exists>x. insert_all pi_insert [([1], 10), ([2, 3], 11)] (PrimaryIndex_new demo_def 2 2) = Ok x
     \<and> fst (pi_find x [1]) = Ok 10 \<and> fst (pi_find x [2, 3]) = Ok 11"
  using hash_index_bulk_load [of 2 "[([1], 10), ([2, 3], 11)]" 2 demo_def] by auto

section \<open>The transaction log\<close>



text \<open>
  (C12) A full log buffer is ignored.  With a transaction whose buffer is full, a successful insert
  stores the record but appends no log item: the transaction manager is unchanged, so neither
  rollback nor commit will know of the record.
\<close>

theorem full_log_buffer_ignored:
  assumes "wf_table t" and "length rd = record_size t" and "current_tx tm = Some tx"
    and "max_log_items tx \<le> log_item_count tx"
    and "table_insert now tm t rd = Ok (i, tm', t')"
  shows "tm' = tm \<and> get_by_id t' i = Ok rd"
  using table_insert_effect [OF assms(1,2,5)] log_in_tx_full [OF assms(3)] assms(4)
  by (simp add: get_by_id_contents)

definition demo_full_tm :: "unit TransactionManager" where
  "demo_full_tm = demo_tm\<lparr>current_tx := Some Transaction_default\<rparr>"

definition demo_full_insert :: "(nat \<times> unit TransactionManager \<times> MemoryTable) outcome" where
  "demo_full_insert = table_insert 6 demo_full_tm demo_table (demo_record 3 3)"

lemma demo_full_slot: "map_option fst (ok_value demo_full_insert) = Some 0"
  by code_simp

theorem full_log_buffer_ignored_witness:
  "\<exists>t'. demo_full_insert = Ok (0, demo_full_tm, t') \<and> get_by_id t' 0 = Ok (demo_record 3 3)"
proof -
  obtain tm' t' where i: "demo_full_insert = Ok (0, tm', t')"
    using demo_full_slot by (auto simp: ok_value_Some)
  have "length (demo_record 3 3) = record_size demo_table"
    by (simp add: demo_table_facts demo_record_def)
  from full_log_buffer_ignored [OF demo_table_facts(1) this _ _ i [unfolded demo_full_insert_def],
      of Transaction_default] i
  show ?thesis by (auto simp: demo_full_tm_def Transaction_default_def)
qed

end
