(* ===== verification/Utf8.thy ===== *)
theory Utf8
  imports TextVal "HOL-Library.Sublist"
begin

text \<open>
  The UTF-8 processor of \<^verbatim>\<open>src/src/utf8.rs\<close>.  \<open>core::str::from_utf8\<close> of the standard library is
  modelled by the well-formedness table of the Unicode standard; strings compare bytewise.
\<close>

section \<open>Configuration\<close>

datatype Utf8ValidationLevel = VNone | VLenient | VStrict

datatype NormalizationForm = NFD | NFC | NFKD | NFKC

record Utf8Config =
  validation_level :: Utf8ValidationLevel
  normalization :: "NormalizationForm option"
  case_mapping :: bool
  grapheme_cluster :: bool

definition Utf8Config_default :: Utf8Config where
  "Utf8Config_default =
     \<lparr>validation_level = VStrict, normalization = None, case_mapping = False,
      grapheme_cluster = False\<rparr>"

section \<open>The standard library's validity check\<close>

definition cont :: "byte \<Rightarrow> bool" where
  "cont b \<longleftrightarrow> 0x80 \<le> b \<and> b \<le> 0xBF"

fun from_utf8_ok :: "bytes \<Rightarrow> bool" where
  "from_utf8_ok [] = True"
| "from_utf8_ok (a # r) =
     (if a < 0x80 then from_utf8_ok r
      else if 0xC2 \<le> a \<and> a \<le> 0xDF then
        (case r of b # r' \<Rightarrow> cont b \<and> from_utf8_ok r' | _ \<Rightarrow> False)
      else if 0xE0 \<le> a \<and> a \<le> 0xEF then
        (case r of b # c # r' \<Rightarrow>
             (if a = 0xE0 then 0xA0 \<le> b \<and> b \<le> 0xBF
              else if a = 0xED then 0x80 \<le> b \<and> b \<le> 0x9F else cont b)
             \<and> cont c \<and> from_utf8_ok r'
         | _ \<Rightarrow> False)
      else if 0xF0 \<le> a \<and> a \<le> 0xF4 then
        (case r of b # c # d # r' \<Rightarrow>
             (if a = 0xF0 then 0x90 \<le> b \<and> b \<le> 0xBF
              else if a = 0xF4 then 0x80 \<le> b \<and> b \<le> 0x8F else cont b)
             \<and> cont c \<and> cont d \<and> from_utf8_ok r'
         | _ \<Rightarrow> False)
      else False)"

section \<open>The processor\<close>

definition utf8_char_length :: "bytes \<Rightarrow> nat \<times> bool" where
  "utf8_char_length input =
     (case input of [] \<Rightarrow> (0, False)
      | first # rest \<Rightarrow>
          if first < 0x80 then (1, True)
          else if first < 0xC0 then (1, False)
          else if first < 0xE0 then
            (if length input \<ge> 2 \<and> input ! 1 AND 0xC0 = 0x80 then (2, True) else (1, False))
          else if first < 0xF0 then
            (if length input \<ge> 3 \<and> input ! 1 AND 0xC0 = 0x80 \<and> input ! 2 AND 0xC0 = 0x80
             then (3, True) else (1, False))
          else if first < 0xF8 then
            (if length input \<ge> 4 \<and> input ! 1 AND 0xC0 = 0x80 \<and> input ! 2 AND 0xC0 = 0x80
                \<and> input ! 3 AND 0xC0 = 0x80
             then (4, True) else (1, False))
          else (1, False))"

text \<open>\<open>i += if len > 0 { len } else { 1 }\<close>.\<close>

definition char_step :: "bytes \<Rightarrow> nat" where
  "char_step input = (let len = fst (utf8_char_length input) in if len > 0 then len else 1)"

lemma char_step_pos [simp]: "0 < char_step input"
  by (simp add: char_step_def Let_def)

function char_length :: "bytes \<Rightarrow> nat" where
  "char_length input =
     (if input = [] then 0
      else (if snd (utf8_char_length input) then 1 else 0) + char_length (drop (char_step input) input))"
  by auto
termination
  by (relation "measure length") (auto simp: neq_Nil_conv intro: diff_less)

declare char_length.simps [simp del]

text \<open>The lenient validation loop only walks over the input.\<close>

function lenient_walk :: "bytes \<Rightarrow> unit" where
  "lenient_walk input = (if input = [] then () else lenient_walk (drop (char_step input) input))"
  by auto
termination
  by (relation "measure length") (auto simp: neq_Nil_conv intro: diff_less)

declare lenient_walk.simps [simp del]

text \<open>\<open>ValidationError\<close> carries the position of the error in the code; the model keeps the fact.\<close>

datatype 'a Utf8Result = UOk 'a | UValidationError

definition validate :: "Utf8Config \<Rightarrow> bytes \<Rightarrow> unit Utf8Result" where
  "validate cfg input =
     (case validation_level cfg of
        VNone \<Rightarrow> UOk ()
      | VLenient \<Rightarrow> UOk (lenient_walk input)
      | VStrict \<Rightarrow> if from_utf8_ok input then UOk () else UValidationError)"

definition to_string :: "Utf8Config \<Rightarrow> bytes \<Rightarrow> bytes option" where
  "to_string cfg input =
     (case validation_level cfg of
        VStrict \<Rightarrow> if from_utf8_ok input then Some input else None
      | VLenient \<Rightarrow> if from_utf8_ok input then Some input else None
      | VNone \<Rightarrow> if from_utf8_ok input then Some input else None)"

definition compare :: "bytes \<Rightarrow> bytes \<Rightarrow> ordering" where
  "compare a b =
     (let a' = take (zero_pos a) a; b' = take (zero_pos b) b
      in if from_utf8_ok a' \<and> from_utf8_ok b' then cmp_slice a' b' else cmp_slice a' b')"

fun same_first :: "nat \<Rightarrow> bytes \<Rightarrow> bytes \<Rightarrow> bool" where
  "same_first 0 xs ys = True"
| "same_first (Suc n) (x # xs) (y # ys) = (x = y \<and> same_first n xs ys)"
| "same_first (Suc n) _ _ = False"

definition starts_with :: "bytes \<Rightarrow> bytes \<Rightarrow> bool" where
  "starts_with input pre =
     (let il = zero_pos input; pl = zero_pos pre
      in if pl > il then False else same_first pl input pre)"

text \<open>The search loop over the start positions \<open>0..=input_len - substring_len\<close>.\<close>

fun search_from :: "nat \<Rightarrow> nat \<Rightarrow> bytes \<Rightarrow> bytes \<Rightarrow> bool" where
  "search_from 0 n input sub = same_first n input sub"
| "search_from (Suc k) n input sub =
     (same_first n input sub \<or> search_from k n (tl input) sub)"

definition contains :: "bytes \<Rightarrow> bytes \<Rightarrow> bool" where
  "contains input sub =
     (let il = zero_pos input; sl = zero_pos sub
      in if sl = 0 then True
         else if sl > il then False
         else search_from (il - sl) sl input sub)"

section \<open>Encoding, for the specification\<close>

definition scalar :: "nat \<Rightarrow> bool" where
  "scalar c \<longleftrightarrow> c < 0x110000 \<and> \<not> (0xD800 \<le> c \<and> c \<le> 0xDFFF)"

definition utf8_encode :: "nat \<Rightarrow> bytes" where
  "utf8_encode c =
     (if c < 0x80 then [of_nat c]
      else if c < 0x800 then [of_nat (0xC0 + c div 64), of_nat (0x80 + c mod 64)]
      else if c < 0x10000 then
        [of_nat (0xE0 + c div 4096), of_nat (0x80 + c div 64 mod 64), of_nat (0x80 + c mod 64)]
      else
        [of_nat (0xF0 + c div 262144), of_nat (0x80 + c div 4096 mod 64),
         of_nat (0x80 + c div 64 mod 64), of_nat (0x80 + c mod 64)])"

definition encode_text :: "nat list \<Rightarrow> bytes" where
  "encode_text cs = concat (map utf8_encode cs)"

section \<open>Lemmas\<close>

lemma cont_mask_table:
  "list_all (\<lambda>n. ((of_nat n :: byte) AND 0xC0 = 0x80) = (128 \<le> n \<and> n < 192)) [0..<256]"
  by code_simp

lemma cont_mask: "n < 256 \<Longrightarrow> ((of_nat n :: byte) AND 0xC0 = 0x80) = (128 \<le> n \<and> n < 192)"
  using cont_mask_table by (simp add: list_all_iff)

lemma byte_less: "n < 256 \<Longrightarrow> m < 256 \<Longrightarrow> ((of_nat n :: byte) < of_nat m) = (n < m)"
  by (simp add: word_less_nat_alt unat_of_nat)

lemma byte_le: "n < 256 \<Longrightarrow> m < 256 \<Longrightarrow> ((of_nat n :: byte) \<le> of_nat m) = (n \<le> m)"
  by (simp add: word_le_nat_alt unat_of_nat)

lemma byte_eq: "n < 256 \<Longrightarrow> m < 256 \<Longrightarrow> ((of_nat n :: byte) = of_nat m) = (n = m)"
  by (simp add: word_unat_eq_iff unat_of_nat)

lemmas byte_less_num = byte_less [of _ "numeral m" for m, unfolded of_nat_numeral]
  and byte_le_num = byte_le [of _ "numeral m" for m, unfolded of_nat_numeral]
  and byte_ge_num = byte_le [of "numeral m" for m, unfolded of_nat_numeral]
  and byte_eq_num = byte_eq [of _ "numeral m" for m, unfolded of_nat_numeral]

lemma char_length_encode_one:
  assumes "scalar c"
  shows "utf8_char_length (utf8_encode c @ rest) = (length (utf8_encode c), True)"
proof -
  have b: "c < 1114112" using assms by (simp add: scalar_def)
  have d: "c div 64 < 32" if "c < 2048" using that by (simp add: div_less_iff_less_mult)
  have e: "c div 4096 < 16" if "c < 65536" using that by (simp add: div_less_iff_less_mult)
  have f: "c div 262144 < 5" using b by (simp add: div_less_iff_less_mult)
  have m: "x mod 64 < 64" for x :: nat by simp
  consider "c < 128" | "128 \<le> c" "c < 2048" | "2048 \<le> c" "c < 65536" | "65536 \<le> c" by linarith
  then show ?thesis
    using d e f m [of c] m [of "c div 64"] m [of "c div 4096"]
    by cases (simp_all add: utf8_encode_def utf8_char_length_def cont_mask byte_less_num del: of_nat_add)
qed

lemma char_length_encode: "\<forall>c\<in>set cs. scalar c \<Longrightarrow> char_length (encode_text cs) = length cs"
proof (induction cs)
  case Nil
  then show ?case by (simp add: encode_text_def char_length.simps)
next
  case (Cons c cs)
  let ?e = "utf8_encode c" and ?r = "encode_text cs"
  have s: "utf8_char_length (?e @ ?r) = (length ?e, True)"
    using Cons.prems by (intro char_length_encode_one) simp
  have ne: "?e \<noteq> []" by (simp add: utf8_encode_def)
  then have "char_step (?e @ ?r) = length ?e" by (simp add: char_step_def s)
  then have "char_length (?e @ ?r) = Suc (char_length ?r)"
    using ne s by (subst char_length.simps) simp
  with Cons show ?case by (simp add: encode_text_def)
qed

lemma from_utf8_encode_one:
  assumes "scalar c"
  shows "from_utf8_ok (utf8_encode c @ rest) = from_utf8_ok rest"
proof -
  have b: "c < 1114112" and sg: "\<not> (55296 \<le> c \<and> c \<le> 57343)" using assms by (auto simp: scalar_def)
  have m: "x mod 64 < 64" for x :: nat by simp
  have m': "x mod 64 \<le> 63" for x :: nat using m [of x] by linarith
  consider "c < 128" | "128 \<le> c" "c < 2048" | "2048 \<le> c" "c < 65536" | "65536 \<le> c" by linarith
  then show ?thesis
  proof cases
    case 1
    then show ?thesis by (simp add: utf8_encode_def byte_less_num)
  next
    case 2
    then have "2 \<le> c div 64" "c div 64 < 32"
      by (simp_all add: div_less_iff_less_mult less_eq_div_iff_mult_less_eq)
    with 2 m [of c] show ?thesis
      by (simp add: utf8_encode_def cont_def byte_less_num byte_le_num byte_ge_num m' del: of_nat_add)
  next
    case 3
    let ?h = "c div 4096" and ?n = "c div 64 mod 64"
    have h: "?h < 16" using 3 by (simp add: div_less_iff_less_mult)
    have c: "c = 4096 * ?h + 64 * ?n + c mod 64"
      using mult_div_mod_eq [of 64 "c div 64"] mult_div_mod_eq [of 64 c] div_mult2_eq [of c 64 64, simplified]
      by linarith
    have "?n \<ge> 32" if "?h = 0" using that 3 c m [of c] by linarith
    moreover have "c div 64 \<le> 63" if "?h = 0"
      using that mult_div_mod_eq [of 64 "c div 64"] div_mult2_eq [of c 64 64, simplified] m' [of "c div 64"]
      by linarith
    moreover have "?n \<le> 31" if "?h = 13" using that sg c m [of c] m [of "c div 64"] by linarith
    ultimately show ?thesis
      using 3 h m [of c] m [of "c div 64"]
      by (simp add: utf8_encode_def cont_def byte_less_num byte_le_num byte_ge_num byte_eq_num
          m' del: of_nat_add)
  next
    case 4
    let ?h = "c div 262144" and ?n = "c div 4096 mod 64"
    have h: "?h < 5" using b by (simp add: div_less_iff_less_mult)
    have c: "c = 262144 * ?h + 4096 * ?n + c mod 4096"
      using mult_div_mod_eq [of 64 "c div 4096"] mult_div_mod_eq [of 4096 c] div_mult2_eq [of c 4096 64, simplified]
      by linarith
    have l: "c mod 4096 < 4096" by simp
    have "?n \<ge> 16" if "?h = 0" using that 4 c l by linarith
    moreover have "c div 4096 \<le> 63" if "?h = 0"
      using that mult_div_mod_eq [of 64 "c div 4096"] div_mult2_eq [of c 4096 64, simplified] m' [of "c div 4096"]
      by linarith
    moreover have "?n \<le> 15" if "?h = 4" using that b c l by linarith
    ultimately show ?thesis
      using 4 h m [of c] m [of "c div 64"] m [of "c div 4096"]
      by (simp add: utf8_encode_def cont_def byte_less_num byte_le_num byte_ge_num byte_eq_num
          m' del: of_nat_add)
  qed
qed

lemma from_utf8_encode: "\<forall>c\<in>set cs. scalar c \<Longrightarrow> from_utf8_ok (encode_text cs)"
  by (induction cs) (simp_all add: encode_text_def from_utf8_encode_one)

section \<open>Decoding\<close>

text \<open>
  \<open>String::from_utf8_lossy\<close> of the standard library: every maximal part of an ill-formed sequence becomes
  the replacement character.
\<close>

definition second_ok :: "byte \<Rightarrow> byte \<Rightarrow> bool" where
  "second_ok a b \<longleftrightarrow>
     (if a = 0xE0 then 0xA0 \<le> b \<and> b \<le> 0xBF
      else if a = 0xED then 0x80 \<le> b \<and> b \<le> 0x9F
      else if a = 0xF0 then 0x90 \<le> b \<and> b \<le> 0xBF
      else if a = 0xF4 then 0x80 \<le> b \<and> b \<le> 0x8F
      else cont b)"

fun utf8_lossy :: "bytes \<Rightarrow> nat list" where
  "utf8_lossy [] = []"
| "utf8_lossy (a # r) =
     (if a < 0x80 then unat a # utf8_lossy r
      else if 0xC2 \<le> a \<and> a \<le> 0xDF then
        (case r of
           b # r' \<Rightarrow> if cont b then ((unat a - 0xC0) * 64 + (unat b - 0x80)) # utf8_lossy r'
                      else 0xFFFD # utf8_lossy r
         | [] \<Rightarrow> [0xFFFD])
      else if 0xE0 \<le> a \<and> a \<le> 0xEF then
        (case r of
           b # r1 \<Rightarrow>
             if second_ok a b then
               (case r1 of
                  c # r2 \<Rightarrow>
                    if cont c then
                      ((unat a - 0xE0) * 4096 + (unat b - 0x80) * 64 + (unat c - 0x80)) # utf8_lossy r2
                    else 0xFFFD # utf8_lossy r1
                | [] \<Rightarrow> [0xFFFD])
             else 0xFFFD # utf8_lossy r
         | [] \<Rightarrow> [0xFFFD])
      else if 0xF0 \<le> a \<and> a \<le> 0xF4 then
        (case r of
           b # r1 \<Rightarrow>
             if second_ok a b then
               (case r1 of
                  c # r2 \<Rightarrow>
                    if cont c then
                      (case r2 of
                         d # r3 \<Rightarrow>
                           if cont d then
                             ((unat a - 0xF0) * 262144 + (unat b - 0x80) * 4096 + (unat c - 0x80) * 64
                               + (unat d - 0x80)) # utf8_lossy r3
                           else 0xFFFD # utf8_lossy r2
                       | [] \<Rightarrow> [0xFFFD])
                    else 0xFFFD # utf8_lossy r1
                | [] \<Rightarrow> [0xFFFD])
             else 0xFFFD # utf8_lossy r
         | [] \<Rightarrow> [0xFFFD])
      else 0xFFFD # utf8_lossy r)"

lemma unat_byte: "n < 256 \<Longrightarrow> unat (of_nat n :: byte) = n"
  by (simp add: unat_of_nat)

lemma div_split: "(c :: nat) = 4096 * (c div 4096) + 64 * (c div 64 mod 64) + c mod 64"
  using mult_div_mod_eq [of 64 "c div 64"] mult_div_mod_eq [of 64 c] div_mult2_eq [of c 64 64, simplified]
  by linarith

lemma div_split': "(c :: nat) = 262144 * (c div 262144) + 4096 * (c div 4096 mod 64) + 64 * (c div 64 mod 64) + c mod 64"
  using div_split [of c] mult_div_mod_eq [of 64 "c div 4096"] div_mult2_eq [of c 4096 64, simplified]
  by linarith

lemma utf8_lossy_three:
  assumes "h < 16" "n < 64" "l < 64" "h = 0 \<longrightarrow> 32 \<le> n" "h = 13 \<longrightarrow> n \<le> 31"
  shows "utf8_lossy (of_nat (0xE0 + h) # of_nat (0x80 + n) # of_nat (0x80 + l) # rest)
    = (h * 4096 + n * 64 + l) # utf8_lossy rest"
  using assms
  by (simp add: byte_less_num byte_le_num byte_ge_num byte_eq_num unat_byte cont_def second_ok_def del: of_nat_add)

lemma utf8_lossy_four:
  assumes "h < 5" "n < 64" "k < 64" "l < 64" "h = 0 \<longrightarrow> 16 \<le> n" "h = 4 \<longrightarrow> n \<le> 15"
  shows "utf8_lossy (of_nat (0xF0 + h) # of_nat (0x80 + n) # of_nat (0x80 + k) # of_nat (0x80 + l) # rest)
    = (h * 262144 + n * 4096 + k * 64 + l) # utf8_lossy rest"
  using assms
  by (simp add: byte_less_num byte_le_num byte_ge_num byte_eq_num unat_byte cont_def second_ok_def del: of_nat_add)

lemma utf8_lossy_encode_one:
  assumes "scalar c"
  shows "utf8_lossy (utf8_encode c @ rest) = c # utf8_lossy rest"
proof -
  have b: "c < 1114112" and sg: "\<not> (55296 \<le> c \<and> c \<le> 57343)" using assms by (auto simp: scalar_def)
  have m: "x mod 64 < 64" for x :: nat by simp
  have m': "x mod 64 \<le> 63" for x :: nat using m [of x] by linarith
  consider "c < 128" | "128 \<le> c" "c < 2048" | "2048 \<le> c" "c < 65536" | "65536 \<le> c" by linarith
  then show ?thesis
  proof cases
    case 1
    then show ?thesis by (simp add: utf8_encode_def byte_less_num unat_byte)
  next
    case 2
    then have "2 \<le> c div 64" "c div 64 < 32"
      by (simp_all add: div_less_iff_less_mult less_eq_div_iff_mult_less_eq)
    with 2 m [of c] show ?thesis
      by (simp add: utf8_encode_def byte_less_num byte_le_num byte_ge_num unat_byte cont_def m' del: of_nat_add)
  next
    case 3
    let ?h = "c div 4096" and ?n = "c div 64 mod 64"
    have h: "?h < 16" using 3 by (simp add: div_less_iff_less_mult)
    have z: "?h = 0 \<longrightarrow> 32 \<le> ?n" using 3 div_split [of c] m [of c] by linarith
    have t: "?h = 13 \<longrightarrow> ?n \<le> 31" using sg div_split [of c] m [of c] m [of "c div 64"] by linarith
    have e: "?h * 4096 + ?n * 64 + c mod 64 = c" using div_split [of c] by linarith
    show ?thesis
      using utf8_lossy_three [OF h m [of "c div 64"] m [of c] z t, of rest, unfolded e] 3
      by (simp add: utf8_encode_def del: of_nat_add utf8_lossy.simps)
  next
    case 4
    let ?h = "c div 262144" and ?n = "c div 4096 mod 64"
    have h: "?h < 5" using b by (simp add: div_less_iff_less_mult)
    have z: "?h = 0 \<longrightarrow> 16 \<le> ?n" using 4 div_split' [of c] m [of c] m [of "c div 64"] by linarith
    have t: "?h = 4 \<longrightarrow> ?n \<le> 15" using b div_split' [of c] m [of c] m [of "c div 64"] by linarith
    have e: "?h * 262144 + ?n * 4096 + c div 64 mod 64 * 64 + c mod 64 = c" using div_split' [of c] by linarith
    show ?thesis
      using utf8_lossy_four [OF h m [of "c div 4096"] m [of "c div 64"] m [of c] z t, of rest, unfolded e] 4
      by (simp add: utf8_encode_def del: of_nat_add utf8_lossy.simps)
  qed
qed

lemma utf8_lossy_encode: "\<forall>c\<in>set cs. scalar c \<Longrightarrow> utf8_lossy (encode_text cs) = cs"
  by (induction cs) (simp_all add: encode_text_def utf8_lossy_encode_one)

lemma scalar_two:
  assumes "0xC2 \<le> a" "a \<le> (0xDF :: byte)" "cont b"
  shows "scalar ((unat a - 0xC0) * 64 + (unat b - 0x80))"
proof -
  have "unat a - 0xC0 \<le> 31" "unat b - 0x80 \<le> 63" using assms by (auto simp: cont_def word_le_nat_alt)
  then show ?thesis unfolding scalar_def by linarith
qed

lemma scalar_three:
  assumes "0xE0 \<le> a" "a \<le> 0xEF" "second_ok a b" "cont c"
  shows "scalar ((unat a - 0xE0) * 4096 + (unat b - 0x80) * 64 + (unat c - 0x80))"
proof -
  define h where "h = unat a - 0xE0"
  define n where "n = unat b - 0x80"
  define l where "l = unat c - 0x80"
  have u: "unat b < 192" "unat a = 0xED \<longrightarrow> unat b < 160"
    using assms(3) by (auto simp: second_ok_def cont_def word_le_nat_alt word_unat_eq_iff split: if_splits)
  have v: "224 \<le> unat a" "unat a \<le> 239" "unat c < 192" using assms by (simp_all add: cont_def word_le_nat_alt)
  have b: "h \<le> 15" "n \<le> 63" "l \<le> 63" "h = 13 \<longrightarrow> n \<le> 31" using u v unfolding h_def n_def l_def by linarith+
  consider "h \<le> 12" | "h = 13" | "14 \<le> h" by linarith
  then have "scalar (h * 4096 + n * 64 + l)" using b unfolding scalar_def by cases linarith+
  then show ?thesis unfolding h_def n_def l_def .
qed

lemma scalar_four:
  assumes "0xF0 \<le> a" "a \<le> 0xF4" "second_ok a b" "cont c" "cont d"
  shows "scalar ((unat a - 0xF0) * 262144 + (unat b - 0x80) * 4096 + (unat c - 0x80) * 64 + (unat d - 0x80))"
proof -
  define h where "h = unat a - 0xF0"
  define n where "n = unat b - 0x80"
  define k where "k = unat c - 0x80"
  define l where "l = unat d - 0x80"
  have u: "unat b < 192" "unat a = 0xF4 \<longrightarrow> unat b < 144" "unat a = 0xF0 \<longrightarrow> 144 \<le> unat b"
    using assms(3) by (auto simp: second_ok_def cont_def word_le_nat_alt word_unat_eq_iff split: if_splits)
  have v: "240 \<le> unat a" "unat a \<le> 244" "unat c < 192" "unat d < 192"
    using assms by (simp_all add: cont_def word_le_nat_alt)
  have b: "h \<le> 4" "n \<le> 63" "k \<le> 63" "l \<le> 63" "h = 4 \<longrightarrow> n \<le> 15" "h = 0 \<longrightarrow> 16 \<le> n"
    using u v unfolding h_def n_def k_def l_def by linarith+
  consider "h = 0" | "1 \<le> h" "h \<le> 3" | "h = 4" using b(1) by linarith
  then have "scalar (h * 262144 + n * 4096 + k * 64 + l)" using b unfolding scalar_def by cases linarith+
  then show ?thesis unfolding h_def n_def k_def l_def .
qed

lemma lossy_stepI:
  "utf8_lossy (a # r) = x # utf8_lossy r' \<Longrightarrow> scalar x \<Longrightarrow> length r' \<le> length r
   \<Longrightarrow> \<exists>x r'. scalar x \<and> utf8_lossy (a # r) = x # utf8_lossy r' \<and> length r' \<le> length r"
  by blast

lemma utf8_lossy_four_step:
  assumes c: "\<not> a < 0x80" "\<not> (0xC2 \<le> a \<and> a \<le> 0xDF)" "\<not> (0xE0 \<le> a \<and> a \<le> 0xEF)" "0xF0 \<le> a \<and> a \<le> 0xF4"
  shows "\<exists>x r'. scalar x \<and> utf8_lossy (a # r) = x # utf8_lossy r' \<and> length r' \<le> length r"
proof -
  have f: "scalar 0xFFFD" by (simp add: scalar_def)
  note sc = scalar_four [OF c(4) [THEN conjunct1] c(4) [THEN conjunct2]]
  note red = utf8_lossy.simps if_True if_False list.case c simp_thms
  consider "r = []" | b r1 where "r = b # r1" "\<not> second_ok a b" | b where "r = [b]" "second_ok a b"
    | b c r2 where "r = b # c # r2" "second_ok a b" "\<not> cont c" | b c where "r = [b, c]" "second_ok a b" "cont c"
    | b c d r3 where "r = b # c # d # r3" "second_ok a b" "cont c" "\<not> cont d"
    | b c d r3 where "r = b # c # d # r3" "second_ok a b" "cont c" "cont d"
    by (metis list.exhaust)
  then show ?thesis
  proof cases
    case 1
    have "utf8_lossy (a # r) = 0xFFFD # utf8_lossy []" by (simp only: 1 red)
    with f show ?thesis using 1 by blast
  next
    case (2 b r1)
    have "utf8_lossy (a # r) = 0xFFFD # utf8_lossy r" unfolding 2(1) by (simp only: 2(2) red)
    with f show ?thesis by blast
  next
    case (3 b)
    have "utf8_lossy (a # r) = 0xFFFD # utf8_lossy []" unfolding 3(1) by (simp only: 3(2) red)
    with f show ?thesis by (metis le0 list.size(3))
  next
    case (4 b c r2)
    have "utf8_lossy (a # r) = 0xFFFD # utf8_lossy (c # r2)" unfolding 4(1) by (simp only: 4(2-) red)
    from lossy_stepI [OF this f] show ?thesis using 4(1) by simp
  next
    case (5 b c)
    have "utf8_lossy (a # r) = 0xFFFD # utf8_lossy []" unfolding 5(1) by (simp only: 5(2-) red)
    with f show ?thesis by (metis le0 list.size(3))
  next
    case (6 b c d r3)
    have "utf8_lossy (a # r) = 0xFFFD # utf8_lossy (d # r3)" unfolding 6(1) by (simp only: 6(2-) red)
    from lossy_stepI [OF this f] show ?thesis using 6(1) by simp
  next
    case (7 b c d r3)
    have "utf8_lossy (a # r) = ((unat a - 0xF0) * 262144 + (unat b - 0x80) * 4096 + (unat c - 0x80) * 64
        + (unat d - 0x80)) # utf8_lossy r3" unfolding 7(1) by (simp only: 7(2-) red)
    from lossy_stepI [OF this sc [OF 7(2-)]] show ?thesis using 7(1) by simp
  qed
qed

lemma utf8_lossy_three_step:
  assumes c: "\<not> a < 0x80" "\<not> (0xC2 \<le> a \<and> a \<le> 0xDF)" "0xE0 \<le> a \<and> a \<le> 0xEF"
  shows "\<exists>x r'. scalar x \<and> utf8_lossy (a # r) = x # utf8_lossy r' \<and> length r' \<le> length r"
proof -
  have f: "scalar 0xFFFD" by (simp add: scalar_def)
  note sc = scalar_three [OF c(3) [THEN conjunct1] c(3) [THEN conjunct2]]
  note red = utf8_lossy.simps if_True if_False list.case c simp_thms
  consider "r = []" | b r1 where "r = b # r1" "\<not> second_ok a b" | b where "r = [b]" "second_ok a b"
    | b c r2 where "r = b # c # r2" "second_ok a b" "\<not> cont c" | b c r2 where "r = b # c # r2" "second_ok a b" "cont c"
    by (metis list.exhaust)
  then show ?thesis
  proof cases
    case 1
    have "utf8_lossy (a # r) = 0xFFFD # utf8_lossy []" by (simp only: 1 red)
    with f show ?thesis using 1 by blast
  next
    case (2 b r1)
    have "utf8_lossy (a # r) = 0xFFFD # utf8_lossy r" unfolding 2(1) by (simp only: 2(2) red)
    with f show ?thesis by blast
  next
    case (3 b)
    have "utf8_lossy (a # r) = 0xFFFD # utf8_lossy []" unfolding 3(1) by (simp only: 3(2) red)
    with f show ?thesis by (metis le0 list.size(3))
  next
    case (4 b c r2)
    have "utf8_lossy (a # r) = 0xFFFD # utf8_lossy (c # r2)" unfolding 4(1) by (simp only: 4(2-) red)
    from lossy_stepI [OF this f] show ?thesis using 4(1) by simp
  next
    case (5 b c r2)
    have "utf8_lossy (a # r) = ((unat a - 0xE0) * 4096 + (unat b - 0x80) * 64 + (unat c - 0x80)) # utf8_lossy r2"
      unfolding 5(1) by (simp only: 5(2-) red)
    from lossy_stepI [OF this sc [OF 5(2-)]] show ?thesis using 5(1) by simp
  qed
qed

lemma utf8_lossy_step: "\<exists>x r'. scalar x \<and> utf8_lossy (a # r) = x # utf8_lossy r' \<and> length r' \<le> length r"
proof -
  have f: "scalar 0xFFFD" by (simp add: scalar_def)
  consider "a < 0x80" | "\<not> a < 0x80" "0xC2 \<le> a \<and> a \<le> 0xDF"
    | "\<not> a < 0x80" "\<not> (0xC2 \<le> a \<and> a \<le> 0xDF)" "0xE0 \<le> a \<and> a \<le> 0xEF"
    | "\<not> a < 0x80" "\<not> (0xC2 \<le> a \<and> a \<le> 0xDF)" "\<not> (0xE0 \<le> a \<and> a \<le> 0xEF)" "0xF0 \<le> a \<and> a \<le> 0xF4"
    | "\<not> a < 0x80" "\<not> (0xC2 \<le> a \<and> a \<le> 0xDF)" "\<not> (0xE0 \<le> a \<and> a \<le> 0xEF)" "\<not> (0xF0 \<le> a \<and> a \<le> 0xF4)"
    by blast
  then show ?thesis
  proof cases
    case 1
    then have "scalar (unat a)" by (simp add: scalar_def word_less_nat_alt)
    then show ?thesis using 1 by (intro exI [of _ "unat a"] exI [of _ r]) simp
  next
    case c: 2
    note red = utf8_lossy.simps if_True if_False list.case c simp_thms
    consider "r = []" | b r1 where "r = b # r1" "\<not> cont b" | b r1 where "r = b # r1" "cont b" by (cases r) auto
    then show ?thesis
    proof cases
      case 1
      have "utf8_lossy (a # r) = 0xFFFD # utf8_lossy []" by (simp only: 1 red)
      with f show ?thesis using 1 by blast
    next
      case (2 b r1)
      have "utf8_lossy (a # r) = 0xFFFD # utf8_lossy r" unfolding 2(1) by (simp only: 2(2) red)
      with f show ?thesis by blast
    next
      case (3 b r1)
      have "utf8_lossy (a # r) = ((unat a - 0xC0) * 64 + (unat b - 0x80)) # utf8_lossy r1"
        unfolding 3(1) by (simp only: 3(2) red)
      from lossy_stepI [OF this scalar_two [OF c(2) [THEN conjunct1] c(2) [THEN conjunct2] 3(2)]] show ?thesis using 3(1) by simp
    qed
  next
    case 5
    then have "utf8_lossy (a # r) = 0xFFFD # utf8_lossy r" by (simp only: utf8_lossy.simps if_False simp_thms)
    with f show ?thesis by blast
  qed (use utf8_lossy_three_step utf8_lossy_four_step in blast)+
qed

lemma utf8_lossy_scalar: "\<forall>c\<in>set (utf8_lossy bs). scalar c"
proof (induction bs rule: length_induct)
  case (1 bs)
  show ?case
  proof (cases bs)
    case (Cons a r)
    obtain x r' where "scalar x" "utf8_lossy (a # r) = x # utf8_lossy r'" "length r' \<le> length r"
      using utf8_lossy_step by blast
    moreover from this(3) have "\<forall>c\<in>set (utf8_lossy r'). scalar c" using 1 [THEN spec, of r'] Cons by simp
    ultimately show ?thesis using Cons by (simp del: utf8_lossy.simps)
  qed simp
qed

section \<open>Comparison and search\<close>

abbreviation c_str :: "bytes \<Rightarrow> bytes" where
  "c_str bs \<equiv> takeWhile (\<lambda>b. b \<noteq> 0) bs"

lemma compare_c_str: "compare a b = cmp_slice (c_str a) (c_str b)"
  by (simp add: compare_def Let_def take_zero_pos)

lemma same_first_iff:
  "n \<le> length xs \<Longrightarrow> n \<le> length ys \<Longrightarrow> same_first n xs ys \<longleftrightarrow> take n xs = take n ys"
  by (induction n xs ys rule: same_first.induct) auto

lemma zero_pos_le: "zero_pos bs \<le> length bs"
  by (simp add: zero_pos_def length_takeWhile_le)

lemma take_c_str: "n \<le> zero_pos bs \<Longrightarrow> take n bs = take n (c_str bs)"
  by (metis min.absorb1 take_take take_zero_pos)

lemma starts_with_iff: "starts_with input p \<longleftrightarrow> prefix (c_str p) (c_str input)"
proof (cases "zero_pos p \<le> zero_pos input")
  case True
  then have "starts_with input p \<longleftrightarrow> take (zero_pos p) input = take (zero_pos p) p"
    using zero_pos_le [of p] zero_pos_le [of input]
    by (simp add: starts_with_def Let_def same_first_iff)
  also have "\<dots> \<longleftrightarrow> take (length (c_str p)) (c_str input) = c_str p"
    using take_c_str [OF True] take_zero_pos [of p] by (simp add: zero_pos_def)
  also have "\<dots> \<longleftrightarrow> prefix (c_str p) (c_str input)"
    by (metis append_take_drop_id prefix_def take_is_prefix append_eq_conv_conj)
  finally show ?thesis .
next
  case False
  then show ?thesis by (auto simp: starts_with_def Let_def zero_pos_def dest: prefix_length_le)
qed

lemma search_from_iff:
  "k + n \<le> length input \<Longrightarrow> n \<le> length sub \<Longrightarrow>
     search_from k n input sub \<longleftrightarrow> (\<exists>i\<le>k. take n (drop i input) = take n sub)"
proof (induction k arbitrary: input)
  case 0
  then show ?case by (simp add: same_first_iff)
next
  case (Suc k)
  then have "search_from k n (tl input) sub \<longleftrightarrow> (\<exists>i\<le>k. take n (drop (Suc i) input) = take n sub)"
    by (cases input) auto
  moreover have "same_first n input sub \<longleftrightarrow> take n input = take n sub"
    using Suc.prems by (simp add: same_first_iff)
  ultimately show ?case
    by (auto intro: exI [of _ 0]) (metis Suc_le_mono drop0 not0_implies_Suc)+
qed


lemma contains_iff: "contains input sub \<longleftrightarrow> sublist (c_str sub) (c_str input)"
proof (cases "zero_pos sub \<le> zero_pos input")
  case True
  let ?n = "zero_pos sub" and ?m = "zero_pos input"
  have "contains input sub \<longleftrightarrow> (\<exists>i\<le>?m - ?n. take ?n (drop i input) = c_str sub)"
  proof (cases "?n = 0")
    case True
    then show ?thesis by (auto simp: contains_def Let_def zero_pos_def)
  next
    case False
    with True zero_pos_le [of input] zero_pos_le [of sub] show ?thesis
      by (simp add: contains_def Let_def search_from_iff take_zero_pos)
  qed
  also have "\<dots> \<longleftrightarrow> (\<exists>i\<le>?m - ?n. take ?n (drop i (c_str input)) = c_str sub)"
  proof -
    have "take ?n (drop i input) = take ?n (drop i (c_str input))" if "i \<le> ?m - ?n" for i
      using take_c_str [of "i + ?n" input] that True by (simp add: take_drop add.commute)
    then show ?thesis by auto
  qed
  also have "\<dots> \<longleftrightarrow> sublist (c_str sub) (c_str input)"
  proof
    assume "\<exists>i\<le>?m - ?n. take ?n (drop i (c_str input)) = c_str sub"
    then obtain i where "take ?n (drop i (c_str input)) = c_str sub" by blast
    moreover have "sublist (take ?n (drop i (c_str input))) (c_str input)"
      using sublist_order.order.trans [OF sublist_take sublist_drop] .
    ultimately show "sublist (c_str sub) (c_str input)" by simp
  next
    assume "sublist (c_str sub) (c_str input)"
    then obtain ps ss where e: "c_str input = ps @ c_str sub @ ss" by (auto simp: sublist_def)
    then have "length ps \<le> ?m - ?n" by (simp add: zero_pos_def)
    with e show "\<exists>i\<le>?m - ?n. take ?n (drop i (c_str input)) = c_str sub"
      by (intro exI [of _ "length ps"]) (simp add: zero_pos_def)
  qed
  finally show ?thesis .
next
  case False
  then show ?thesis
    by (auto simp: contains_def Let_def zero_pos_def dest: sublist_length_le)
qed

section \<open>Properties\<close>

text \<open>
  The processor agrees with the encoding.  For the UTF-8 encoding of any sequence of Unicode
  scalar values, strict validation succeeds, \<open>to_string\<close> returns the text, and \<open>char_length\<close> counts
  the characters.
\<close>

theorem utf8_counts_characters:
  assumes "\<forall>c\<in>set cs. scalar c"
  shows "char_length (encode_text cs) = length cs
    \<and> validate Utf8Config_default (encode_text cs) = UOk ()
    \<and> to_string Utf8Config_default (encode_text cs) = Some (encode_text cs)"
  using char_length_encode [OF assms] from_utf8_encode [OF assms]
  by (simp add: validate_def to_string_def Utf8Config_default_def)

theorem utf8_counts_characters_witness:
  "char_length (encode_text [0x41, 0xE9, 0x8D85, 0x1F600]) = 4"
  using utf8_counts_characters [of "[0x41, 0xE9, 0x8D85, 0x1F600]"] by (simp add: scalar_def)

text \<open>
  (C18) Comparison and search on null-terminated buffers.  Comparison is the bytewise order of
  the texts in front of the first null byte, \<open>starts_with\<close> is the prefix relation and
  \<open>contains\<close> the substring relation of those texts; what lies behind the null byte is ignored.
\<close>

theorem utf8_search_correct:
  "compare a b = cmp_slice (c_str a) (c_str b)
   \<and> (starts_with a b \<longleftrightarrow> prefix (c_str b) (c_str a))
   \<and> (contains a b \<longleftrightarrow> sublist (c_str b) (c_str a))"
  using compare_c_str starts_with_iff contains_iff by blast

end
