(* ===== verification/SortedIdx.thy ===== *)
theory SortedIdx
  imports Utf8 "HOL-Library.Multiset"
begin

text \<open>
  The sorted secondary index of \<^verbatim>\<open>src/src/index.rs\<close>: an array of items kept in order, searched
  by bisection.  \<open>high = mid - 1\<close> on an unsigned \<open>mid\<close> of 0 is a \<open>Fault\<close>, as is reading a key past
  the 128 bytes of an item.  \<open>memcpy\<close> moves bytes in increasing order of address.
  The statistics keep the access and hit counters; their size and item count repeat the fields
  of the index.
\<close>

section \<open>State\<close>

record SecondaryIndexItem =
  si_key_size :: u8
  si_record_id :: u16
  si_key_data :: bytes

definition SecondaryIndexItem_default :: SecondaryIndexItem where
  "SecondaryIndexItem_default = \<lparr>si_key_size = 0, si_record_id = 0, si_key_data = replicate 128 0\<rparr>"

record SecondaryIndex =
  si_def :: TableDef
  si_items :: "SecondaryIndexItem list"
  si_item_count :: nat
  si_max_items :: nat
  si_access :: nat
  si_hit :: nat

definition SecondaryIndex_new ::
  "TableDef \<Rightarrow> SecondaryIndexItem list \<Rightarrow> nat \<Rightarrow> SecondaryIndex" where
  "SecondaryIndex_new d its n =
     \<lparr>si_def = d, si_items = its, si_item_count = 0, si_max_items = n, si_access = 0, si_hit = 0\<rparr>"

text \<open>An item as the code builds it from a key: the key in front of zeroes.\<close>

definition make_item :: "bytes \<Rightarrow> u16 \<Rightarrow> SecondaryIndexItem" where
  "make_item key rid =
     \<lparr>si_key_size = of_nat (length key), si_record_id = rid,
      si_key_data = bytes_put (replicate 128 0) 0 key\<rparr>"

section \<open>Comparison\<close>

definition string_index :: "TableDef \<Rightarrow> bool" where
  "string_index d \<longleftrightarrow>
     (case secondary_index d of
        Some (f # _) \<Rightarrow> f < length (t_fields d)
          \<and> (data_type (t_fields d ! f) = VarChar \<or> data_type (t_fields d ! f) = Char
             \<or> data_type (t_fields d ! f) = Text)
      | _ \<Rightarrow> False)"

fun loop_cmp :: "nat \<Rightarrow> bytes \<Rightarrow> bytes \<Rightarrow> ordering" where
  "loop_cmp (Suc n) (a # as) (b # bs) = (if a \<noteq> b then cmp a b else loop_cmp n as bs)"
| "loop_cmp n as bs = Equal"

definition compare_bytes :: "SecondaryIndexItem \<Rightarrow> SecondaryIndexItem \<Rightarrow> ordering" where
  "compare_bytes a b =
     (case loop_cmp (unat (si_key_size a)) (si_key_data a) (si_key_data b) of
        Equal \<Rightarrow> cmp (si_record_id a) (si_record_id b)
      | c \<Rightarrow> c)"

definition compare_items :: "TableDef \<Rightarrow> SecondaryIndexItem \<Rightarrow> SecondaryIndexItem \<Rightarrow> ordering" where
  "compare_items d a b =
     (if si_key_size a \<noteq> si_key_size b then cmp (si_key_size a) (si_key_size b)
      else if string_index d then
        (case (to_string Utf8Config_default (take (unat (si_key_size a)) (si_key_data a)),
               to_string Utf8Config_default (take (unat (si_key_size b)) (si_key_data b))) of
           (Some s1, Some s2) \<Rightarrow>
             (if cmp_slice s1 s2 \<noteq> Equal then cmp_slice s1 s2 else compare_bytes a b)
         | _ \<Rightarrow> compare_bytes a b)
      else compare_bytes a b)"

text \<open>The comparison of an item with a search key.\<close>

fun key_cmp :: "bytes \<Rightarrow> bytes \<Rightarrow> ordering outcome" where
  "key_cmp ds [] = Ok Equal"
| "key_cmp [] (k # ks) = Fault"
| "key_cmp (d # ds) (k # ks) = (if d \<noteq> k then Ok (cmp d k) else key_cmp ds ks)"

definition probe_cmp :: "SecondaryIndexItem \<Rightarrow> bytes \<Rightarrow> ordering outcome" where
  "probe_cmp it key =
     (if si_key_size it \<noteq> of_nat (length key) then Ok (cmp (si_key_size it) (of_nat (length key)))
      else key_cmp (si_key_data it) key)"

section \<open>The searches\<close>

function search_loop :: "(nat \<Rightarrow> ordering outcome) \<Rightarrow> nat \<Rightarrow> nat \<Rightarrow> nat outcome" where
  "search_loop c low high =
     (if low \<le> high then
        let mid = (low + high) div 2 in
        case c mid of
          Ok Equal \<Rightarrow> Ok mid
        | Ok Less \<Rightarrow> search_loop c (mid + 1) high
        | Ok Greater \<Rightarrow> if mid = 0 then Err RecordNotFound else search_loop c low (mid - 1)
        | Err e \<Rightarrow> Err e
        | Fault \<Rightarrow> Fault
      else Err RecordNotFound)"
  by pat_completeness auto
termination
  by (relation "measure (\<lambda>(c, low, high). Suc high - low)") auto

declare search_loop.simps [simp del]

definition binary_search :: "SecondaryIndex \<Rightarrow> bytes \<Rightarrow> nat outcome" where
  "binary_search x key =
     (if si_item_count x = 0 then Err RecordNotFound
      else search_loop (\<lambda>i. probe_cmp (si_items x ! i) key) 0 (si_item_count x - 1))"

function insert_loop :: "(nat \<Rightarrow> ordering) \<Rightarrow> nat \<Rightarrow> nat \<Rightarrow> nat \<Rightarrow> nat outcome" where
  "insert_loop c low high pos =
     (if low \<le> high then
        let mid = (low + high) div 2 in
        case c mid of
          Less \<Rightarrow> if mid = 0 then Fault else insert_loop c low (mid - 1) mid
        | Greater \<Rightarrow> insert_loop c (mid + 1) high pos
        | Equal \<Rightarrow> insert_loop c (mid + 1) high (mid + 1)
      else Ok pos)"
  by pat_completeness auto
termination
  by (relation "measure (\<lambda>(c, low, high, pos). Suc high - low)") auto

declare insert_loop.simps [simp del]

definition insert_pos :: "SecondaryIndex \<Rightarrow> SecondaryIndexItem \<Rightarrow> nat outcome" where
  "insert_pos x new =
     (if si_item_count x > 0
      then insert_loop (\<lambda>i. compare_items (si_def x) new (si_items x ! i)) 0
             (si_item_count x - 1) (si_item_count x)
      else Ok (si_item_count x))"

text \<open>Making room: items are copied one place up, from the last one down to \<open>pos\<close>.\<close>

definition shift_up :: "nat \<Rightarrow> nat \<Rightarrow> 'a list \<Rightarrow> 'a list" where
  "shift_up pos n xs = fold (\<lambda>i ys. ys[i + 1 := ys ! i]) (rev [pos..<n]) xs"

definition si_insert :: "SecondaryIndex \<Rightarrow> bytes \<Rightarrow> u16 \<Rightarrow> SecondaryIndex outcome" where
  "si_insert x key rid =
     (if si_item_count x \<ge> si_max_items x then Err OutOfMemory
      else if length key > 64 then Err UnsupportedOperation
      else and_then (insert_pos x (make_item key rid)) (\<lambda>pos.
        let its = (if pos < si_item_count x then shift_up pos (si_item_count x) (si_items x)
                   else si_items x)
        in Ok (x\<lparr>si_items := its[pos := make_item key rid], si_item_count := si_item_count x + 1\<rparr>)))"

definition si_find :: "SecondaryIndex \<Rightarrow> bytes \<Rightarrow> u16 outcome \<times> SecondaryIndex" where
  "si_find x key =
     (let x1 = x\<lparr>si_access := si_access x + 1\<rparr> in
      case binary_search x key of
        Ok i \<Rightarrow> (Ok (si_record_id (si_items x ! i)), x1\<lparr>si_hit := si_hit x + 1\<rparr>)
      | Err e \<Rightarrow> (Err e, x1)
      | Fault \<Rightarrow> (Fault, x1))"

definition zero_item :: SecondaryIndexItem where
  "zero_item = SecondaryIndexItem_default"

definition si_delete :: "SecondaryIndex \<Rightarrow> bytes \<Rightarrow> SecondaryIndex outcome" where
  "si_delete x key =
     and_then (binary_search x key) (\<lambda>i.
       let n = si_item_count x;
           its = (if i < n - 1
                  then take i (si_items x) @ take (n - i - 1) (drop (i + 1) (si_items x))
                         @ drop (n - 1) (si_items x)
                  else si_items x)
       in Ok (x\<lparr>si_items := its[n - 1 := zero_item], si_item_count := n - 1\<rparr>))"

section \<open>Range queries\<close>

function range_loop :: "(nat \<Rightarrow> ordering) \<Rightarrow> nat \<Rightarrow> nat \<Rightarrow> nat \<Rightarrow> nat outcome" where
  "range_loop c low high pos =
     (if low \<le> high then
        let mid = (low + high) div 2 in
        if c mid = Less then range_loop c (mid + 1) high (mid + 1)
        else if mid = 0 then Fault
        else range_loop c low (mid - 1) pos
      else Ok pos)"
  by pat_completeness auto
termination
  by (relation "measure (\<lambda>(c, low, high, pos). Suc high - low)") auto

declare range_loop.simps [simp del]

text \<open>The end test of one item: its key against the first bytes of the end key.\<close>

fun end_cmp :: "nat \<Rightarrow> bytes \<Rightarrow> bytes \<Rightarrow> ordering" where
  "end_cmp (Suc n) (d # ds) (e # es) =
     (if d < e then Less else if d > e then Greater else end_cmp n ds es)"
| "end_cmp n ds es = Equal"

definition le_end :: "SecondaryIndexItem \<Rightarrow> bytes \<Rightarrow> bool" where
  "le_end it ek =
     (case end_cmp (min (unat (si_key_size it)) (length ek)) (si_key_data it) ek of
        Less \<Rightarrow> True
      | Greater \<Rightarrow> False
      | Equal \<Rightarrow> unat (si_key_size it) = length ek)"

fun collect :: "SecondaryIndexItem list \<Rightarrow> bytes \<Rightarrow> nat \<Rightarrow> u16 list" where
  "collect [] ek m = []"
| "collect (it # its) ek 0 = []"
| "collect (it # its) ek (Suc m) =
     (if unat (si_key_size it) > length ek then []
      else if le_end it ek then si_record_id it # collect its ek m
      else [])"

definition range_start :: "SecondaryIndex \<Rightarrow> bytes \<Rightarrow> nat outcome" where
  "range_start x sk =
     (if si_item_count x = 0 then Fault
      else if length sk > 128 then Fault
      else range_loop (\<lambda>i. compare_items (si_def x) (si_items x ! i) (make_item sk 0)) 0
             (si_item_count x - 1) 0)"

definition find_range :: "SecondaryIndex \<Rightarrow> bytes \<Rightarrow> bytes \<Rightarrow> u16 outcome \<times> SecondaryIndex" where
  "find_range x sk ek =
     (let x1 = x\<lparr>si_access := si_access x + 1\<rparr> in
      case range_start x sk of
        Ok p \<Rightarrow> (case collect (drop p (take (si_item_count x) (si_items x))) ek 1 of
                  r # _ \<Rightarrow> (Ok r, x1\<lparr>si_hit := si_hit x + 1\<rparr>)
                | [] \<Rightarrow> (Err RecordNotFound, x1))
      | Err e \<Rightarrow> (Err e, x1)
      | Fault \<Rightarrow> (Fault, x1))"

text \<open>\<open>out\<close> says whether the output pointer is not null; the ids written are the result.\<close>

definition find_range_all ::
  "SecondaryIndex \<Rightarrow> bytes \<Rightarrow> bytes \<Rightarrow> bool \<Rightarrow> nat \<Rightarrow> u16 list outcome \<times> SecondaryIndex" where
  "find_range_all x sk ek out m =
     (let x1 = x\<lparr>si_access := si_access x + 1\<rparr> in
      if \<not> out then (Err UnsupportedOperation, x1)
      else if si_item_count x = 0 then (Ok [], x1)
      else case range_start x sk of
        Ok p \<Rightarrow> (let ids = collect (drop p (take (si_item_count x) (si_items x))) ek m
                in (Ok ids, x1\<lparr>si_hit := si_hit x + length ids\<rparr>))
      | Err e \<Rightarrow> (Err e, x1)
      | Fault \<Rightarrow> (Fault, x1))"

end
