(* ===== verification/SortedIdx_Inv.thy ===== *)
theory SortedIdx_Inv
  imports SortedIdx
begin

text \<open>
  The sorted index keeps its items in the order of (key size, key bytes, record id).  Bisection
  finds a key exactly when it is present; an insert puts the item at its place unless it would
  become the new first item of a non-empty index, where the code leaves the array.
\<close>

section \<open>The order of items\<close>

definition key_of :: "SecondaryIndexItem \<Rightarrow> bytes" where
  "key_of it = take (unat (si_key_size it)) (si_key_data it)"

definition wf_item :: "SecondaryIndexItem \<Rightarrow> bool" where
  "wf_item it \<longleftrightarrow> length (si_key_data it) = 128 \<and> unat (si_key_size it) \<le> 128"

text \<open>Shorter keys first, equal lengths bytewise.\<close>

definition cmp_key :: "bytes \<Rightarrow> bytes \<Rightarrow> ordering" where
  "cmp_key a b = (if length a \<noteq> length b then cmp (length a) (length b) else cmp_slice a b)"

definition item_cmp :: "SecondaryIndexItem \<Rightarrow> SecondaryIndexItem \<Rightarrow> ordering" where
  "item_cmp a b =
     (case cmp_key (key_of a) (key_of b) of
        Equal \<Rightarrow> cmp (si_record_id a) (si_record_id b)
      | c \<Rightarrow> c)"

lemma length_key_of [simp]: "wf_item it \<Longrightarrow> length (key_of it) = unat (si_key_size it)"
  by (simp add: wf_item_def key_of_def)

lemma loop_cmp_slice:
  "n \<le> length as \<Longrightarrow> n \<le> length bs \<Longrightarrow> loop_cmp n as bs = cmp_slice (take n as) (take n bs)"
  by (induction n as bs rule: loop_cmp.induct) (auto simp: cmp_def)

lemma cmp_unat: "cmp (unat a) (unat b) = cmp (a :: 'a::len word) b"
  by (simp add: cmp_def word_less_nat_alt word_unat_eq_iff)

text \<open>The detour over UTF-8 strings never changes the result of the comparison.\<close>

lemma compare_items_eq:
  assumes "wf_item a" and "wf_item b"
  shows "compare_items d a b = item_cmp a b"
proof (cases "si_key_size a = si_key_size b")
  case False
  then have "unat (si_key_size a) \<noteq> unat (si_key_size b)" by (simp add: word_unat_eq_iff)
  with False assms show ?thesis
    by (simp add: compare_items_def item_cmp_def cmp_key_def cmp_unat split: ordering.split)
next
  case True
  have l: "loop_cmp (unat (si_key_size a)) (si_key_data a) (si_key_data b)
      = cmp_slice (key_of a) (key_of b)"
    using assms True by (simp add: loop_cmp_slice key_of_def wf_item_def)
  have len: "length (key_of a) = length (key_of b)" using assms True by simp
  have cb: "compare_bytes a b = item_cmp a b"
    using l len by (simp add: compare_bytes_def item_cmp_def cmp_key_def)
  have "cmp_slice (key_of a) (key_of b) = item_cmp a b" if "cmp_slice (key_of a) (key_of b) \<noteq> Equal"
    using that len by (auto simp: item_cmp_def cmp_key_def split: ordering.split)
  then show ?thesis
    using True cb
    by (auto simp: compare_items_def to_string_def Utf8Config_default_def key_of_def
        split: if_splits option.splits)
qed

lemma cmp_key_Equal [simp]: "cmp_key a b = Equal \<longleftrightarrow> a = b"
  by (auto simp: cmp_key_def)

lemma cmp_key_refl [simp]: "cmp_key a a = Equal"
  by simp

lemma cmp_key_swap: "cmp_key b a = reverse_ordering (cmp_key a b)"
  using cmp_swap [of "length b" "length a"] cmp_slice_swap [of b a] by (auto simp: cmp_key_def)

lemma cmp_key_trans: "cmp_key a b = Less \<Longrightarrow> cmp_key b c = Less \<Longrightarrow> cmp_key a c = Less"
  by (auto simp: cmp_key_def intro: cmp_slice_trans split: if_splits)

lemma item_cmp_swap: "item_cmp b a = reverse_ordering (item_cmp a b)"
  using cmp_key_swap [of "key_of b" "key_of a"] cmp_swap [of "si_record_id b" "si_record_id a"]
  by (cases "cmp_key (key_of a) (key_of b)") (simp_all add: item_cmp_def)

lemma item_cmp_trans_Less:
  assumes "item_cmp a b = Less" and "item_cmp b c = Less"
  shows "item_cmp a c = Less"
  using assms cmp_key_trans [of "key_of a" "key_of b" "key_of c"]
  by (auto simp: item_cmp_def split: ordering.splits)

lemma item_cmp_Equal: "item_cmp a b = Equal \<longleftrightarrow> key_of a = key_of b \<and> si_record_id a = si_record_id b"
  by (auto simp: item_cmp_def split: ordering.splits)

lemma item_cmp_cong:
  "item_cmp a b = Equal \<Longrightarrow> item_cmp a c = item_cmp b c \<and> item_cmp c a = item_cmp c b"
  unfolding item_cmp_Equal by (metis item_cmp_def)

definition item_le :: "SecondaryIndexItem \<Rightarrow> SecondaryIndexItem \<Rightarrow> bool" where
  "item_le a b \<longleftrightarrow> item_cmp a b \<noteq> Greater"

lemma item_le_trans: "item_le a b \<Longrightarrow> item_le b c \<Longrightarrow> item_le a c"
  unfolding item_le_def
  by (metis item_cmp_cong item_cmp_trans_Less ordering.exhaust)

lemma item_le_linear: "item_le a b \<or> item_le b a"
  unfolding item_le_def by (metis item_cmp_swap ordering.distinct(3) reverse_ordering.simps(3))

lemma item_le_less_trans: "item_le a b \<Longrightarrow> item_cmp c a = Less \<Longrightarrow> item_cmp c b = Less"
  unfolding item_le_def by (metis item_cmp_cong item_cmp_trans_Less ordering.exhaust)

lemma item_less_le_trans: "item_le a b \<Longrightarrow> item_cmp b c = Less \<Longrightarrow> item_cmp a c = Less"
  unfolding item_le_def using item_cmp_cong [of a b c] item_cmp_trans_Less [of a b c]
  by (cases "item_cmp a b") auto

section \<open>The loops\<close>

text \<open>
  The insert search on a monotone comparison: it leaves the range below 0 exactly when the new
  item belongs in front of the first one, and else stops between the items that are not above
  it and those that are.
\<close>

lemma mid_bounds: "low \<le> high \<Longrightarrow> low \<le> (low + high) div 2 \<and> (low + high) div 2 \<le> (high :: nat)"
  by auto

lemma insert_loop_spec:
  assumes mono: "\<And>i j. i \<le> j \<Longrightarrow> j < n \<Longrightarrow> c i = Less \<Longrightarrow> c j = Less"
    and mono2: "\<And>i j. i \<le> j \<Longrightarrow> j < n \<Longrightarrow> c j = Greater \<Longrightarrow> c i = Greater"
    and first: "c 0 \<noteq> Less"
    and "low \<le> Suc high" and "high < n"
    and "\<forall>j<low. c j \<noteq> Less" and "\<forall>j. high < j \<and> j < n \<longrightarrow> c j = Less"
    and "pos = Suc high \<or> (pos = low \<and> (\<forall>j. low \<le> j \<and> j \<le> high \<longrightarrow> c j \<noteq> Greater))"
  shows "\<exists>p. insert_loop c low high pos = Ok p \<and> p \<le> n \<and> (\<forall>j<p. c j \<noteq> Less)
    \<and> (\<forall>j. p \<le> j \<and> j < n \<longrightarrow> c j = Less)"
  using assms(4-8)
proof (induction "Suc high - low" arbitrary: low high pos rule: less_induct)
  case less
  show ?case
  proof (cases "low \<le> high")
    case False
    then have e: "low = Suc high" using less.prems(1) by simp
    then have "pos = low" using less.prems(5) by auto
    then show ?thesis using less.prems e by (subst insert_loop.simps) auto
  next
    case True
    define mid where "mid = (low + high) div 2"
    note mb = mid_bounds [OF True, folded mid_def]
    have mn: "mid < n" using mb less.prems(2) by simp
    show ?thesis
    proof (cases "c mid")
      case Less
      have m0: "mid \<noteq> 0" using first Less by (metis)
      have "c j = Less" if "mid - 1 < j" "j < n" for j
        using mono [of mid j] that Less by simp
      then have "\<exists>p. insert_loop c low (mid - 1) mid = Ok p \<and> p \<le> n \<and> (\<forall>j<p. c j \<noteq> Less)
          \<and> (\<forall>j. p \<le> j \<and> j < n \<longrightarrow> c j = Less)"
        by (intro less.hyps) (use m0 mb less.prems in auto)
      then show ?thesis using True Less m0 by (subst insert_loop.simps) (simp add: mid_def [symmetric])
    next
      case Greater
      then have "pos = Suc high" using less.prems(5) mb by auto
      moreover have "\<forall>j<mid + 1. c j \<noteq> Less" using mono2 [OF _ mn Greater] by (auto simp: less_Suc_eq_le)
      ultimately have "\<exists>p. insert_loop c (mid + 1) high pos = Ok p \<and> p \<le> n \<and> (\<forall>j<p. c j \<noteq> Less)
          \<and> (\<forall>j. p \<le> j \<and> j < n \<longrightarrow> c j = Less)"
        by (intro less.hyps) (use mb less.prems in auto)
      then show ?thesis using True Greater by (subst insert_loop.simps) (simp add: mid_def [symmetric])
    next
      case Equal
      have "\<forall>j<mid + 1. c j \<noteq> Less" using mono [OF _ mn] Equal by (auto simp: less_Suc_eq_le)
      moreover have "\<forall>j. mid + 1 \<le> j \<and> j \<le> high \<longrightarrow> c j \<noteq> Greater"
        using mono2 [of mid] Equal less.prems(2) by fastforce
      ultimately have "\<exists>p. insert_loop c (mid + 1) high (mid + 1) = Ok p \<and> p \<le> n \<and> (\<forall>j<p. c j \<noteq> Less)
          \<and> (\<forall>j. p \<le> j \<and> j < n \<longrightarrow> c j = Less)"
        by (intro less.hyps) (use mb less.prems in auto)
      then show ?thesis using True Equal by (subst insert_loop.simps) (simp add: mid_def [symmetric])
    qed
  qed
qed

lemma insert_loop_fault:
  assumes "\<forall>j\<le>high. c j = Less"
  shows "insert_loop c 0 high pos = Fault"
  using assms
proof (induction high arbitrary: pos rule: less_induct)
  case (less high)
  have m: "high div 2 \<le> high" by simp
  show ?case
  proof (cases "high div 2 = 0")
    case True
    then show ?thesis using less.prems by (subst insert_loop.simps) simp
  next
    case False
    then have "insert_loop c 0 (high div 2 - 1) (high div 2) = Fault"
      by (intro less.IH) (use less.prems in auto)
    with False less.prems m show ?thesis by (subst insert_loop.simps) simp
  qed
qed

text \<open>Bisection for a key finds one if there is one.\<close>

lemma search_loop_spec:
  assumes c: "\<And>i. i < n \<Longrightarrow> c i = Ok (k i)"
    and mono: "\<And>i j. i \<le> j \<Longrightarrow> j < n \<Longrightarrow> k i = Greater \<Longrightarrow> k j = Greater"
    and mono2: "\<And>i j. i \<le> j \<Longrightarrow> j < n \<Longrightarrow> k j = Less \<Longrightarrow> k i = Less"
    and "high < n" and "\<forall>j<low. k j = Less" and "\<forall>j. high < j \<and> j < n \<longrightarrow> k j = Greater"
  shows "if \<exists>j<n. k j = Equal then \<exists>m<n. search_loop c low high = Ok m \<and> k m = Equal
         else search_loop c low high = Err RecordNotFound"
  using assms(4-6)
proof (induction "Suc high - low" arbitrary: low high rule: less_induct)
  case less
  show ?case
  proof (cases "low \<le> high")
    case False
    then have "k j \<noteq> Equal" if "j < n" for j
      using less.prems that by (cases "j < low") auto
    then show ?thesis using False by (subst (1 2) search_loop.simps) auto
  next
    case True
    define mid where "mid = (low + high) div 2"
    note mb = mid_bounds [OF True, folded mid_def]
    have mn: "mid < n" using mb less.prems(1) by simp
    show ?thesis
    proof (cases "k mid")
      case Equal
      then show ?thesis using True mn c [OF mn]
        by (subst (1 2) search_loop.simps) (auto simp: mid_def [symmetric])
    next
      case Less
      then have "\<forall>j<mid + 1. k j = Less" using mono2 [OF _ mn] by (auto simp: less_Suc_eq_le)
      then have "if \<exists>j<n. k j = Equal then \<exists>m<n. search_loop c (mid + 1) high = Ok m \<and> k m = Equal
         else search_loop c (mid + 1) high = Err RecordNotFound"
        by (intro less.hyps) (use mb less.prems in auto)
      moreover have "search_loop c low high = search_loop c (mid + 1) high"
        using True Less c [OF mn] by (subst search_loop.simps) (simp add: mid_def [symmetric])
      ultimately show ?thesis by (simp only:)
    next
      case Greater
      have gr: "\<forall>j. mid \<le> j \<and> j < n \<longrightarrow> k j = Greater" using mono [OF _ _ Greater] by blast
      show ?thesis
      proof (cases "mid = 0")
        case True
        then have "\<not> (\<exists>j<n. k j = Equal)" using gr by auto
        then show ?thesis using \<open>low \<le> high\<close> Greater c [OF mn] True
          by (subst (1 2) search_loop.simps) (simp add: mid_def [symmetric])
      next
        case False
        then have "if \<exists>j<n. k j = Equal then \<exists>m<n. search_loop c low (mid - 1) = Ok m \<and> k m = Equal
         else search_loop c low (mid - 1) = Err RecordNotFound"
          by (intro less.hyps) (use mb less.prems gr in auto)
        moreover have "search_loop c low high = search_loop c low (mid - 1)"
          using \<open>low \<le> high\<close> Greater c [OF mn] False
          by (subst search_loop.simps) (simp add: mid_def [symmetric])
        ultimately show ?thesis by (simp only:)
      qed
    qed
  qed
qed

text \<open>The range start: the first item that is not below the start key, or a \<open>Fault\<close>.\<close>

lemma range_loop_spec:
  assumes mono: "\<And>i j. i \<le> j \<Longrightarrow> j < n \<Longrightarrow> c j = Less \<Longrightarrow> c i = Less"
    and first: "c 0 = Less"
    and "low \<le> Suc high" and "high < n" and "\<forall>j<low. c j = Less"
    and "\<forall>j. high < j \<and> j < n \<longrightarrow> c j \<noteq> Less" and "pos = low"
  shows "\<exists>p. range_loop c low high pos = Ok p \<and> p \<le> n \<and> (\<forall>j<p. c j = Less)
    \<and> (\<forall>j. p \<le> j \<and> j < n \<longrightarrow> c j \<noteq> Less)"
  using assms(3-7)
proof (induction "Suc high - low" arbitrary: low high pos rule: less_induct)
  case less
  show ?case
  proof (cases "low \<le> high")
    case False
    then have "low = Suc high" using less.prems(1) by simp
    then show ?thesis using less.prems by (subst range_loop.simps) auto
  next
    case True
    define mid where "mid = (low + high) div 2"
    note mb = mid_bounds [OF True, folded mid_def]
    have mn: "mid < n" using mb less.prems(2) by simp
    show ?thesis
    proof (cases "c mid = Less")
      case ls: True
      then have "\<forall>j<mid + 1. c j = Less" using mono [OF _ mn] by (auto simp: less_Suc_eq_le)
      then have "\<exists>p. range_loop c (mid + 1) high (mid + 1) = Ok p \<and> p \<le> n \<and> (\<forall>j<p. c j = Less)
          \<and> (\<forall>j. p \<le> j \<and> j < n \<longrightarrow> c j \<noteq> Less)"
        by (intro less.hyps) (use mb less.prems in auto)
      then show ?thesis using True ls by (subst range_loop.simps) (simp add: mid_def [symmetric])
    next
      case nl: False
      have m0: "mid \<noteq> 0" using first nl by metis
      have "\<forall>j. mid \<le> j \<and> j < n \<longrightarrow> c j \<noteq> Less" using mono nl by blast
      then have "\<exists>p. range_loop c low (mid - 1) pos = Ok p \<and> p \<le> n \<and> (\<forall>j<p. c j = Less)
          \<and> (\<forall>j. p \<le> j \<and> j < n \<longrightarrow> c j \<noteq> Less)"
        by (intro less.hyps) (use m0 mb less.prems in auto)
      then show ?thesis using True nl m0 by (subst range_loop.simps) (simp add: mid_def [symmetric])
    qed
  qed
qed

section \<open>Invariant and abstraction\<close>

definition live :: "SecondaryIndex \<Rightarrow> SecondaryIndexItem list" where
  "live x = take (si_item_count x) (si_items x)"

definition wf_sorted :: "SecondaryIndex \<Rightarrow> bool" where
  "wf_sorted x \<longleftrightarrow>
     length (si_items x) = si_max_items x \<and> si_item_count x \<le> si_max_items x
     \<and> (\<forall>it\<in>set (live x). wf_item it) \<and> sorted_wrt item_le (live x)"

text \<open>The pairs of key and record id an index holds.\<close>

definition pairs :: "SecondaryIndex \<Rightarrow> (bytes \<times> u16) multiset" where
  "pairs x = mset (map (\<lambda>it. (key_of it, si_record_id it)) (live x))"

lemma live_nth: "i < si_item_count x \<Longrightarrow> live x ! i = si_items x ! i"
  by (simp add: live_def)

lemma length_live: "wf_sorted x \<Longrightarrow> length (live x) = si_item_count x"
  by (simp add: wf_sorted_def live_def)

lemma key_of_make [simp]: "length key \<le> 128 \<Longrightarrow> key_of (make_item key rid) = key"
  by (simp add: key_of_def make_item_def bytes_put_def unat_of_nat)

lemma wf_make [simp]: "length key \<le> 128 \<Longrightarrow> wf_item (make_item key rid)"
  by (simp add: wf_item_def make_item_def unat_of_nat)

lemma record_id_make [simp]: "si_record_id (make_item key rid) = rid"
  by (simp add: make_item_def)

lemma sorted_live_nth:
  "wf_sorted x \<Longrightarrow> i \<le> j \<Longrightarrow> j < si_item_count x \<Longrightarrow> i = j \<or> item_le (si_items x ! i) (si_items x ! j)"
  using length_live [of x]
  by (cases "i = j") (auto simp: wf_sorted_def sorted_wrt_iff_nth_less live_nth)

lemma live_item_wf: "wf_sorted x \<Longrightarrow> i < si_item_count x \<Longrightarrow> wf_item (si_items x ! i)"
  using length_live [of x] live_nth [of i x] by (metis nth_mem wf_sorted_def)

section \<open>Insert\<close>

lemma shift_up_spec:
  assumes "pos \<le> n" and "n < length xs"
  shows "shift_up pos n xs = take (Suc pos) xs @ take (n - pos) (drop pos xs) @ drop (Suc n) xs"
  using assms
proof (induction "n - pos" arbitrary: n xs)
  case 0
  then have "n = pos" by simp
  then show ?case by (simp add: shift_up_def)
next
  case (Suc k)
  then obtain m where n: "n = Suc m" "pos \<le> m" by (cases n) auto
  let ?ys = "xs[n := xs ! m]"
  have "shift_up pos n xs = shift_up pos m ?ys"
    using n by (simp add: shift_up_def)
  also have "\<dots> = take (Suc pos) ?ys @ take (m - pos) (drop pos ?ys) @ drop (Suc m) ?ys"
    using Suc n by (intro Suc.hyps) auto
  also have "\<dots> = take (Suc pos) xs @ take (m - pos) (drop pos xs) @ drop n ?ys"
  proof -
    have "take (m - pos) (drop pos ?ys) = take (m - pos) (drop pos xs)"
      using n by (simp add: drop_update_swap)
    then show ?thesis using n by simp
  qed
  also have "drop n ?ys = xs ! m # drop (Suc n) xs"
    using Suc.prems by (simp add: Cons_nth_drop_Suc [symmetric])
  also have "take (m - pos) (drop pos xs) @ xs ! m # drop (Suc n) xs
      = take (n - pos) (drop pos xs) @ drop (Suc n) xs"
    using n Suc.prems by (simp add: Suc_diff_le take_Suc_conv_app_nth)
  finally show ?case using n by simp
qed

lemma insert_live:
  assumes "pos \<le> si_item_count x" and "si_item_count x < length (si_items x)"
    and "its = (if pos < si_item_count x then shift_up pos (si_item_count x) (si_items x)
                else si_items x)"
  shows "take (Suc (si_item_count x)) (its[pos := new]) = take pos (live x) @ new # drop pos (live x)"
    and "length its = length (si_items x)"
proof -
  let ?n = "si_item_count x" and ?xs = "si_items x"
  let ?r = "take (?n - pos) (drop pos ?xs) @ drop (Suc ?n) ?xs"
  have its: "its = take (Suc pos) ?xs @ ?r"
  proof (cases "pos < ?n")
    case True
    then show ?thesis using assms shift_up_spec [of pos ?n ?xs] by simp
  next
    case False
    then have "pos = ?n" using assms(1) by simp
    then show ?thesis using assms(3) by simp
  qed
  then show "length its = length ?xs" using assms(1,2) by simp
  have l: "length (take pos ?xs) = pos" using assms(1,2) by simp
  have "take (Suc pos) ?xs = take pos ?xs @ [?xs ! pos]"
    using assms(1,2) by (simp add: take_Suc_conv_app_nth)
  then have "its[pos := new] = (take pos ?xs @ ?xs ! pos # ?r)[length (take pos ?xs) := new]"
    using its l by simp
  also have "\<dots> = take pos ?xs @ new # ?r" by (rule list_update_length)
  finally have u: "its[pos := new] = take pos ?xs @ new # ?r" .
  have "take (Suc ?n) (its[pos := new]) = take pos ?xs @ new # take (?n - pos) (drop pos ?xs)"
    unfolding u using assms(1,2) l by (simp add: Suc_diff_le)
  then show "take (Suc ?n) (its[pos := new]) = take pos (live x) @ new # drop pos (live x)"
    using assms(1) by (simp add: live_def drop_take min_absorb1)
qed

lemma sorted_wrt_insert_at:
  assumes "sorted_wrt R xs" and "\<And>j. j < p \<Longrightarrow> R (xs ! j) a"
    and "\<And>j. p \<le> j \<Longrightarrow> j < length xs \<Longrightarrow> R a (xs ! j)" and "p \<le> length xs"
  shows "sorted_wrt R (take p xs @ a # drop p xs)"
proof (rule sorted_wrt_insert_middle)
  show "sorted_wrt R (take p xs @ drop p xs)" using assms(1) by simp
  show "R x a" if "x \<in> set (take p xs)" for x
    using that assms(2,4) by (auto simp: set_take_nth)
  show "R a y" if "y \<in> set (drop p xs)" for y
    using that assms(3,4) by (auto simp: in_set_conv_nth)
qed

lemma insert_pos_cases:
  assumes "wf_sorted x" and "wf_item new"
  shows "insert_pos x new = Fault
       \<and> 0 < si_item_count x \<and> item_cmp new (si_items x ! 0) = Less
     \<or> (\<exists>p\<le> si_item_count x. insert_pos x new = Ok p
          \<and> (\<forall>j<p. item_cmp new (si_items x ! j) \<noteq> Less)
          \<and> (\<forall>j. p \<le> j \<and> j < si_item_count x \<longrightarrow> item_cmp new (si_items x ! j) = Less)
          \<and> (si_item_count x = 0 \<or> item_cmp new (si_items x ! 0) \<noteq> Less))"
proof (cases "si_item_count x")
  case 0
  then show ?thesis by (simp add: insert_pos_def)
next
  case (Suc m)
  let ?n = "si_item_count x" and ?c = "\<lambda>i. compare_items (si_def x) new (si_items x ! i)"
  have c: "?c i = item_cmp new (si_items x ! i)" if "i < ?n" for i
    using compare_items_eq [OF assms(2) live_item_wf [OF assms(1) that]] .
  have mono: "?c j = Less" if "i \<le> j" "j < ?n" "?c i = Less" for i j
    using sorted_live_nth [OF assms(1) that(1,2)] that c item_le_less_trans by auto
  have mono2: "?c i = Greater" if "i \<le> j" "j < ?n" "?c j = Greater" for i j
  proof -
    have "item_cmp (si_items x ! j) new = Less"
      using that c item_cmp_swap [of "si_items x ! j" new] by simp
    moreover have "i = j \<or> item_le (si_items x ! i) (si_items x ! j)"
      using sorted_live_nth [OF assms(1) that(1,2)] .
    ultimately have "item_cmp (si_items x ! i) new = Less"
      using item_less_le_trans by blast
    then show ?thesis using that c item_cmp_swap [of new "si_items x ! i"] by simp
  qed
  have ip: "insert_pos x new = insert_loop ?c 0 m (Suc m)" using Suc by (simp add: insert_pos_def)
  show ?thesis
  proof (cases "?c 0 = Less")
    case True
    then have "\<forall>j\<le>m. ?c j = Less" using mono [of 0] Suc by auto
    then have "insert_pos x new = Fault" unfolding ip by (rule insert_loop_fault)
    then show ?thesis using True c [of 0] Suc by simp
  next
    case False
    have "\<exists>p. insert_loop ?c 0 m (Suc m) = Ok p \<and> p \<le> ?n \<and> (\<forall>j<p. ?c j \<noteq> Less)
        \<and> (\<forall>j. p \<le> j \<and> j < ?n \<longrightarrow> ?c j = Less)"
      by (rule insert_loop_spec [where c = ?c and n = ?n, OF mono mono2 False]) (use Suc in auto)
    then obtain p where p: "insert_pos x new = Ok p" "p \<le> ?n" "\<forall>j<p. ?c j \<noteq> Less"
      "\<forall>j. p \<le> j \<and> j < ?n \<longrightarrow> ?c j = Less" using ip by auto
    then have "\<forall>j<p. item_cmp new (si_items x ! j) \<noteq> Less"
      "\<forall>j. p \<le> j \<and> j < ?n \<longrightarrow> item_cmp new (si_items x ! j) = Less" using c by auto
    then show ?thesis using p(1,2) c [of 0] Suc False by auto
  qed
qed

lemma si_insert_effect:
  assumes "wf_sorted x" and "length key \<le> 64" and "si_item_count x < si_max_items x"
  shows "if 0 < si_item_count x \<and> item_cmp (make_item key rid) (si_items x ! 0) = Less
    then si_insert x key rid = Fault
    else \<exists>x'. si_insert x key rid = Ok x' \<and> wf_sorted x' \<and> pairs x' = add_mset (key, rid) (pairs x)
           \<and> si_item_count x' = Suc (si_item_count x)"
proof -
  let ?new = "make_item key rid" and ?n = "si_item_count x"
  have w: "wf_item ?new" using assms(2) by simp
  note ic = insert_pos_cases [OF assms(1) w]
  show ?thesis
  proof (cases "0 < ?n \<and> item_cmp ?new (si_items x ! 0) = Less")
    case True
    with ic have "insert_pos x ?new = Fault" by (elim disjE exE conjE) simp_all
    with True show ?thesis using assms(2,3) by (simp add: si_insert_def)
  next
    case False
    with ic have "\<exists>p. p \<le> ?n \<and> insert_pos x ?new = Ok p
      \<and> (\<forall>j<p. item_cmp ?new (si_items x ! j) \<noteq> Less)
      \<and> (\<forall>j. p \<le> j \<and> j < ?n \<longrightarrow> item_cmp ?new (si_items x ! j) = Less)"
      by (elim disjE exE conjE) auto
    then obtain p where p: "p \<le> ?n" "insert_pos x ?new = Ok p"
      "\<forall>j<p. item_cmp ?new (si_items x ! j) \<noteq> Less"
      "\<forall>j. p \<le> j \<and> j < ?n \<longrightarrow> item_cmp ?new (si_items x ! j) = Less" by (elim exE conjE) rule
    define its where "its = (if p < ?n then shift_up p ?n (si_items x) else si_items x)"
    let ?x = "x\<lparr>si_items := its[p := ?new], si_item_count := Suc ?n\<rparr>"
    have len: "?n < length (si_items x)" using assms(1,3) by (simp add: wf_sorted_def)
    note il = insert_live(1) [OF p(1) len its_def, of ?new] insert_live(2) [OF p(1) len its_def]
    have lv: "live ?x = take p (live x) @ ?new # drop p (live x)"
      unfolding live_def [of ?x] using il(1) by simp
    have "sorted_wrt item_le (live ?x)"
      unfolding lv
    proof (rule sorted_wrt_insert_at)
      show "sorted_wrt item_le (live x)" using assms(1) by (simp add: wf_sorted_def)
      show "p \<le> length (live x)" using p(1) length_live [OF assms(1)] by simp
      show "item_le (live x ! j) ?new" if "j < p" for j
        using p(1,3) that live_nth [of j x] item_cmp_swap [of "live x ! j" ?new]
        by (cases "item_cmp ?new (live x ! j)") (auto simp: item_le_def)
      show "item_le ?new (live x ! j)" if "p \<le> j" "j < length (live x)" for j
        using p(4) that live_nth [of j x] length_live [OF assms(1)] by (simp add: item_le_def)
    qed
    moreover have "\<forall>it\<in>set (live ?x). wf_item it"
      using assms(1) w set_take_subset [of p "live x"] set_drop_subset [of p "live x"]
      by (auto simp: lv wf_sorted_def)
    ultimately have "wf_sorted ?x"
      using assms(1,3) il(2) by (simp add: wf_sorted_def)
    moreover have "pairs ?x = add_mset (key, rid) (pairs x)"
    proof -
      have "mset (live x) = mset (take p (live x)) + mset (drop p (live x))"
        by (metis append_take_drop_id mset_append)
      then show ?thesis unfolding pairs_def lv using assms(2) by simp
    qed
    moreover have "si_insert x key rid = Ok ?x"
      using assms(2,3) p(2) by (simp add: si_insert_def its_def Let_def)
    ultimately show ?thesis using False by auto
  qed
qed

section \<open>Find and delete\<close>

lemma key_cmp_slice: "length ks \<le> length ds \<Longrightarrow> key_cmp ds ks = Ok (cmp_slice (take (length ks) ds) ks)"
  by (induction ds ks rule: key_cmp.induct) (auto simp: cmp_def)

lemma probe_cmp_eq:
  assumes "wf_item it" and "length key \<le> 128"
  shows "probe_cmp it key = Ok (cmp_key (key_of it) key)"
proof (cases "si_key_size it = of_nat (length key)")
  case True
  then have "unat (si_key_size it) = length key" using assms(2) by (simp add: unat_of_nat)
  with True assms show ?thesis
    by (simp add: probe_cmp_def cmp_key_def key_cmp_slice wf_item_def) (simp add: key_of_def)
next
  case False
  have u: "unat (of_nat (length key) :: u8) = length key" using assms(2) by (simp add: unat_of_nat)
  then have "unat (si_key_size it) \<noteq> length key"
    using False by (metis word_unat_eq_iff)
  moreover have "cmp (si_key_size it) (of_nat (length key)) = cmp (unat (si_key_size it)) (length key)"
    using cmp_unat [of "si_key_size it" "of_nat (length key)"] u by simp
  ultimately show ?thesis using False assms by (simp add: probe_cmp_def cmp_key_def)
qed

lemma item_le_key: "item_le a b \<Longrightarrow> cmp_key (key_of a) (key_of b) \<noteq> Greater"
  by (auto simp: item_le_def item_cmp_def)

lemma cmp_key_mono:
  assumes "cmp_key a b \<noteq> Greater"
  shows "cmp_key a k = Greater \<Longrightarrow> cmp_key b k = Greater" and "cmp_key b k = Less \<Longrightarrow> cmp_key a k = Less"
proof -
  have ab: "a = b \<or> cmp_key a b = Less" using assms by (cases "cmp_key a b") auto
  show "cmp_key b k = Less \<Longrightarrow> cmp_key a k = Less" using ab cmp_key_trans by blast
  assume "cmp_key a k = Greater"
  then have "cmp_key k a = Less" using cmp_key_swap [of k a] by simp
  then have "cmp_key k b = Less" using ab cmp_key_trans by blast
  then show "cmp_key b k = Greater" using cmp_key_swap [of b k] by simp
qed

lemma binary_search_spec:
  assumes "wf_sorted x" and "length key \<le> 128"
  shows "if \<exists>j< si_item_count x. key_of (si_items x ! j) = key
    then \<exists>m< si_item_count x. binary_search x key = Ok m \<and> key_of (si_items x ! m) = key
    else binary_search x key = Err RecordNotFound"
proof (cases "si_item_count x")
  case 0
  then show ?thesis by (simp add: binary_search_def)
next
  case (Suc n)
  let ?k = "\<lambda>i. cmp_key (key_of (si_items x ! i)) key"
  have le: "cmp_key (key_of (si_items x ! i)) (key_of (si_items x ! j)) \<noteq> Greater"
    if "i \<le> j" "j < si_item_count x" for i j
    using sorted_live_nth [OF assms(1) that] item_le_key by auto
  have "if \<exists>j< si_item_count x. ?k j = Equal
    then \<exists>m< si_item_count x. search_loop (\<lambda>i. probe_cmp (si_items x ! i) key) 0 n = Ok m \<and> ?k m = Equal
    else search_loop (\<lambda>i. probe_cmp (si_items x ! i) key) 0 n = Err RecordNotFound"
  proof (rule search_loop_spec)
    show "probe_cmp (si_items x ! i) key = Ok (?k i)" if "i < si_item_count x" for i
      using probe_cmp_eq [OF live_item_wf [OF assms(1) that] assms(2)] .
    show "?k j = Greater" if "i \<le> j" "j < si_item_count x" "?k i = Greater" for i j
      using cmp_key_mono(1) [OF le [OF that(1,2)] that(3)] .
    show "?k i = Less" if "i \<le> j" "j < si_item_count x" "?k j = Less" for i j
      using cmp_key_mono(2) [OF le [OF that(1,2)] that(3)] .
  qed (use Suc in auto)
  moreover have "binary_search x key = search_loop (\<lambda>i. probe_cmp (si_items x ! i) key) 0 n"
    using Suc by (simp add: binary_search_def)
  ultimately show ?thesis by (simp only: cmp_key_Equal)
qed

lemma present_iff:
  assumes "wf_sorted x"
  shows "(\<exists>j< si_item_count x. key_of (si_items x ! j) = key) \<longleftrightarrow> (\<exists>rid. (key, rid) \<in># pairs x)"
proof
  assume "\<exists>j< si_item_count x. key_of (si_items x ! j) = key"
  then obtain j where j: "j < si_item_count x" "key_of (live x ! j) = key" using live_nth by metis
  then have "live x ! j \<in> set (live x)" using length_live [OF assms] by simp
  with j(2) show "\<exists>rid. (key, rid) \<in># pairs x" by (force simp: pairs_def)
next
  assume "\<exists>rid. (key, rid) \<in># pairs x"
  then obtain it where "it \<in> set (live x)" "key_of it = key" by (auto simp: pairs_def)
  then show "\<exists>j< si_item_count x. key_of (si_items x ! j) = key"
    using length_live [OF assms] live_nth by (metis in_set_conv_nth)
qed

lemma si_find_effect:
  assumes "wf_sorted x" and "length key \<le> 128"
  shows "if \<exists>rid. (key, rid) \<in># pairs x
    then \<exists>rid. fst (si_find x key) = Ok rid \<and> (key, rid) \<in># pairs x
    else fst (si_find x key) = Err RecordNotFound"
proof (cases "\<exists>rid. (key, rid) \<in># pairs x")
  case True
  then obtain m where m: "m < si_item_count x" "binary_search x key = Ok m" "key_of (si_items x ! m) = key"
    using binary_search_spec [OF assms] present_iff [OF assms(1), of key] by metis
  then have "live x ! m \<in> set (live x)" using length_live [OF assms(1)] by simp
  then have "(key, si_record_id (si_items x ! m)) \<in># pairs x"
    using m live_nth [of m x] by (force simp: pairs_def)
  with True m show ?thesis by (auto simp: si_find_def)
next
  case False
  then have "binary_search x key = Err RecordNotFound"
    using binary_search_spec [OF assms] present_iff [OF assms(1), of key] by metis
  with False show ?thesis by (simp add: si_find_def)
qed

lemma delete_live:
  assumes "i < n" and "n \<le> length xs"
    and "its = (if i < n - 1 then take i xs @ take (n - i - 1) (drop (i + 1) xs) @ drop (n - 1) xs
                else xs)"
  shows "take (n - 1) (its[n - 1 := z]) = take i (take n xs) @ drop (Suc i) (take n xs)"
    and "length its = length xs"
proof -
  show "length its = length xs" using assms by auto
  show "take (n - 1) (its[n - 1 := z]) = take i (take n xs) @ drop (Suc i) (take n xs)"
  proof (cases "i < n - 1")
    case True
    then have "take (n - 1) its = take i xs @ take (n - i - 1) (drop (Suc i) xs)"
      using assms by simp
    then show ?thesis using True by (simp add: drop_take)
  next
    case False
    then have "i = n - 1" using assms(1) by simp
    then show ?thesis using assms by simp
  qed
qed

lemma sorted_wrt_remove:
  assumes "sorted_wrt R xs"
  shows "sorted_wrt R (take i xs @ drop (Suc i) xs)"
proof -
  have s: "sorted_wrt R (take i xs @ drop i xs)" using assms by simp
  have sub: "set (drop (Suc i) xs) \<subseteq> set (drop i xs)" by (rule set_drop_subset_set_drop) simp
  show ?thesis
    using s sub sorted_wrt_drop [OF assms, of "Suc i"] unfolding sorted_wrt_append by blast
qed

lemma mset_map_remove:
  assumes "i < length xs"
  shows "mset (map f (take i xs @ drop (Suc i) xs)) = mset (map f xs) - {#f (xs ! i)#}"
proof -
  have "xs = take i xs @ xs ! i # drop (Suc i) xs" using assms by (rule id_take_nth_drop)
  then have "mset (map f xs) = add_mset (f (xs ! i)) (mset (map f (take i xs @ drop (Suc i) xs)))"
    by (metis (no_types, lifting) list.simps(9) map_append mset.simps(2) mset_append
        union_mset_add_mset_right)
  then show ?thesis by simp
qed

lemma si_delete_effect:
  assumes "wf_sorted x" and "length key \<le> 128"
  shows "if \<exists>rid. (key, rid) \<in># pairs x
    then \<exists>x' rid. si_delete x key = Ok x' \<and> wf_sorted x' \<and> (key, rid) \<in># pairs x
           \<and> pairs x' = pairs x - {#(key, rid)#} \<and> Suc (si_item_count x') = si_item_count x
    else si_delete x key = Err RecordNotFound"
proof (cases "\<exists>rid. (key, rid) \<in># pairs x")
  case True
  let ?n = "si_item_count x"
  obtain m where m: "m < ?n" "binary_search x key = Ok m" "key_of (si_items x ! m) = key"
    using True binary_search_spec [OF assms] present_iff [OF assms(1), of key] by metis
  have n: "?n \<le> length (si_items x)" using assms(1) by (simp add: wf_sorted_def)
  define its where "its = (if m < ?n - 1 then take m (si_items x)
      @ take (?n - m - 1) (drop (m + 1) (si_items x)) @ drop (?n - 1) (si_items x) else si_items x)"
  let ?x = "x\<lparr>si_items := its[?n - 1 := zero_item], si_item_count := ?n - 1\<rparr>"
  note dl = delete_live(1) [OF m(1) n its_def, of zero_item] delete_live(2) [OF m(1) n its_def]
  have lv: "live ?x = take m (live x) @ drop (Suc m) (live x)"
    unfolding live_def [of ?x] using dl(1) by (simp add: live_def)
  have ml: "m < length (live x)" using m(1) length_live [OF assms(1)] by simp
  have "wf_sorted ?x"
    using assms(1) dl(2) sorted_wrt_remove [of item_le "live x" m] m(1)
    unfolding wf_sorted_def [of ?x] lv
    by (auto simp: wf_sorted_def dest: in_set_takeD in_set_dropD)
  moreover have "pairs ?x = pairs x - {#(key, si_record_id (si_items x ! m))#}"
    using mset_map_remove [OF ml, of "\<lambda>it. (key_of it, si_record_id it)"] m(1,3)
    unfolding pairs_def lv by (simp add: live_nth)
  moreover have "(key, si_record_id (si_items x ! m)) \<in># pairs x"
    using nth_mem [OF ml] m live_nth [of m x] by (force simp: pairs_def)
  moreover have "si_delete x key = Ok ?x"
    using m(2) by (simp add: si_delete_def its_def Let_def)
  ultimately show ?thesis using True m(1) by auto
next
  case False
  then have "binary_search x key = Err RecordNotFound"
    using binary_search_spec [OF assms] present_iff [OF assms(1), of key] by metis
  with False show ?thesis by (simp add: si_delete_def)
qed

section \<open>Range queries over keys of one length\<close>

lemma end_cmp_slice:
  "n \<le> length ds \<Longrightarrow> n \<le> length es \<Longrightarrow> end_cmp n ds es = cmp_slice (take n ds) (take n es)"
  by (induction n ds es rule: end_cmp.induct) auto

lemma le_end_key:
  assumes "wf_item it" and "length (key_of it) = length ek"
  shows "le_end it ek \<longleftrightarrow> cmp_key (key_of it) ek \<noteq> Greater"
proof -
  have n: "unat (si_key_size it) = length ek" using assms by simp
  have "end_cmp (length ek) (si_key_data it) ek = cmp_slice (key_of it) ek"
    using assms(1) n end_cmp_slice [of "length ek" "si_key_data it" ek]
    by (simp add: wf_item_def key_of_def)
  then show ?thesis
    using n assms(2) by (simp add: le_end_def cmp_key_def split: ordering.split)
qed

lemma collect_takeWhile:
  assumes "\<forall>it\<in>set its. wf_item it \<and> length (key_of it) = length ek"
  shows "collect its ek m
    = map si_record_id (take m (takeWhile (\<lambda>it. cmp_key (key_of it) ek \<noteq> Greater) its))"
  using assms
proof (induction its ek m rule: collect.induct)
  case (3 it its ek m)
  then have w: "wf_item it" "length (key_of it) = length ek" by auto
  then have "unat (si_key_size it) = length ek" using length_key_of [of it] by simp
  moreover have "collect its ek m
      = map si_record_id (take m (takeWhile (\<lambda>it. cmp_key (key_of it) ek \<noteq> Greater) its))"
    if "le_end it ek"
    by (rule "3.IH") (use that "3.prems" calculation in auto)
  ultimately show ?case using le_end_key [OF w] by auto
qed simp_all

lemma takeWhile_filter_sorted:
  assumes "sorted_wrt R xs" and "\<And>a b. R a b \<Longrightarrow> P b \<Longrightarrow> P a"
  shows "takeWhile P xs = filter P xs"
  using assms(1)
proof (induction xs)
  case (Cons a xs)
  show ?case
  proof (cases "P a")
    case False
    then have "\<forall>b\<in>set xs. \<not> P b" using Cons.prems assms(2) by auto
    with False show ?thesis by (simp add: filter_empty_conv)
  qed (use Cons in simp)
qed simp

lemma sorted_key_less:
  assumes "wf_sorted x" and "i \<le> j" and "j < si_item_count x"
    and "cmp_key (key_of (si_items x ! j)) k = Less"
  shows "cmp_key (key_of (si_items x ! i)) k = Less"
  using sorted_live_nth [OF assms(1-3)] assms(4) cmp_key_mono(2) [OF item_le_key] by blast

lemma range_start_spec:
  assumes "wf_sorted x" and "length sk \<le> 128" and "0 < si_item_count x"
  shows "cmp_key (key_of (si_items x ! 0)) sk = Less \<Longrightarrow>
      \<exists>p\<le> si_item_count x. range_start x sk = Ok p
        \<and> (\<forall>j<p. cmp_key (key_of (si_items x ! j)) sk = Less)
        \<and> (\<forall>j. p \<le> j \<and> j < si_item_count x \<longrightarrow> cmp_key (key_of (si_items x ! j)) sk \<noteq> Less)"
proof -
  let ?n = "si_item_count x" and ?k = "\<lambda>i. cmp_key (key_of (si_items x ! i)) sk"
  let ?c = "\<lambda>i. compare_items (si_def x) (si_items x ! i) (make_item sk 0)"
  have c: "?c i = Less \<longleftrightarrow> ?k i = Less" if "i < ?n" for i
  proof -
    have "?c i = item_cmp (si_items x ! i) (make_item sk 0)"
      using compare_items_eq [OF live_item_wf [OF assms(1) that] wf_make [OF assms(2)]] .
    then show ?thesis using assms(2) by (simp add: item_cmp_def split: ordering.split)
  qed
  assume f: "cmp_key (key_of (si_items x ! 0)) sk = Less"
  have mono: "?c i = Less" if "i \<le> j" "j < ?n" "?c j = Less" for i j
    using sorted_key_less [OF assms(1) that(1,2)] that c by simp
  have first: "?c 0 = Less" using f c assms(3) by simp
  have "\<exists>p. range_loop ?c 0 (?n - 1) 0 = Ok p \<and> p \<le> ?n \<and> (\<forall>j<p. ?c j = Less)
      \<and> (\<forall>j. p \<le> j \<and> j < ?n \<longrightarrow> ?c j \<noteq> Less)"
    by (rule range_loop_spec [where c = ?c and n = ?n, OF mono first]) (use assms(3) in auto)
  then obtain p where p: "range_loop ?c 0 (?n - 1) 0 = Ok p" "p \<le> ?n" "\<forall>j<p. ?c j = Less"
    "\<forall>j. p \<le> j \<and> j < ?n \<longrightarrow> ?c j \<noteq> Less" by blast
  have "range_start x sk = Ok p" using p(1) assms(2,3) by (simp add: range_start_def)
  moreover have "\<forall>j<p. ?k j = Less" "\<forall>j. p \<le> j \<and> j < ?n \<longrightarrow> ?k j \<noteq> Less" using p c by auto
  ultimately show ?thesis using p(2) by blast
qed

definition in_range :: "bytes \<Rightarrow> bytes \<Rightarrow> SecondaryIndexItem \<Rightarrow> bool" where
  "in_range sk ek it \<longleftrightarrow> cmp_key (key_of it) sk \<noteq> Less \<and> cmp_key (key_of it) ek \<noteq> Greater"

lemma find_range_all_effect:
  assumes "wf_sorted x" and "\<forall>it\<in>set (live x). length (key_of it) = length sk"
    and "length ek = length sk" and "length sk \<le> 128"
    and "0 < si_item_count x" and "cmp_key (key_of (si_items x ! 0)) sk = Less"
  shows "fst (find_range_all x sk ek True m) =
    Ok (map si_record_id (take m (filter (in_range sk ek) (live x))))"
proof -
  obtain p where p: "p \<le> si_item_count x" "range_start x sk = Ok p"
    "\<forall>j<p. cmp_key (key_of (si_items x ! j)) sk = Less"
    "\<forall>j. p \<le> j \<and> j < si_item_count x \<longrightarrow> cmp_key (key_of (si_items x ! j)) sk \<noteq> Less"
    using range_start_spec [OF assms(1,4,5,6)] by blast
  let ?xs = "drop p (live x)"
  have len: "length (live x) = si_item_count x" using length_live [OF assms(1)] .
  have wfl: "\<forall>it\<in>set ?xs. wf_item it \<and> length (key_of it) = length ek"
    using assms(1-3) by (auto simp: wf_sorted_def dest: in_set_dropD)
  have "takeWhile (\<lambda>it. cmp_key (key_of it) ek \<noteq> Greater) ?xs
      = filter (\<lambda>it. cmp_key (key_of it) ek \<noteq> Greater) ?xs"
  proof (rule takeWhile_filter_sorted)
    show "sorted_wrt item_le ?xs" using assms(1) by (simp add: wf_sorted_def sorted_wrt_drop)
    show "cmp_key (key_of a) ek \<noteq> Greater" if "item_le a b" "cmp_key (key_of b) ek \<noteq> Greater" for a b
      using cmp_key_mono(1) [OF item_le_key [OF that(1)]] that(2) by blast
  qed
  also have "\<dots> = filter (in_range sk ek) ?xs"
  proof (rule filter_cong [OF refl])
    fix it assume "it \<in> set ?xs"
    then obtain j where "j < length ?xs" "it = ?xs ! j" by (auto simp: in_set_conv_nth)
    then have "it = si_items x ! (p + j)" "p + j < si_item_count x" using len live_nth by auto
    then show "(cmp_key (key_of it) ek \<noteq> Greater) = in_range sk ek it"
      using p(4) by (simp add: in_range_def)
  qed
  also have "\<dots> = filter (in_range sk ek) (live x)"
  proof -
    have "filter (in_range sk ek) (take p (live x)) = []"
      using p(1,3) len live_nth by (auto simp: filter_empty_conv set_take_nth in_range_def)
    then show ?thesis by (metis append_Nil append_take_drop_id filter_append)
  qed
  finally show ?thesis
    using assms(5) p(2) collect_takeWhile [OF wfl, of m]
    by (simp add: find_range_all_def Let_def live_def)
qed

lemma range_start_fault:
  assumes "wf_sorted x" and "length sk \<le> 128" and "0 < si_item_count x"
    and "cmp_key (key_of (si_items x ! 0)) sk \<noteq> Less"
  shows "range_start x sk = Fault"
proof -
  let ?n = "si_item_count x"
  let ?c = "\<lambda>i. compare_items (si_def x) (si_items x ! i) (make_item sk 0)"
  have nl: "?c i \<noteq> Less" if "i < ?n" for i
  proof -
    have "cmp_key (key_of (si_items x ! i)) sk \<noteq> Less"
      using sorted_key_less [OF assms(1) _ that, of 0] assms(4) by blast
    then show ?thesis
      using compare_items_eq [OF live_item_wf [OF assms(1) that] wf_make [OF assms(2)], of "si_def x" 0]
        assms(2) by (simp add: item_cmp_def split: ordering.split)
  qed
  have "range_loop ?c 0 high pos = Fault" if "high < ?n" for high pos
    using that
  proof (induction high arbitrary: pos rule: less_induct)
    case (less high)
    show ?case
    proof (cases "high div 2 = 0")
      case True
      then show ?thesis using nl [of 0] less.prems by (subst range_loop.simps) simp
    next
      case False
      then have "range_loop ?c 0 (high div 2 - 1) pos = Fault"
        by (intro less.IH) (use less.prems in auto)
      moreover have "high div 2 < ?n" using less.prems by simp
      ultimately show ?thesis using False nl by (subst range_loop.simps) simp
    qed
  qed
  then show ?thesis using assms(2,3) by (simp add: range_start_def)
qed

section \<open>Properties\<close>

text \<open>
  (C15) Inserting into the sorted index.  On a well-formed index, a key longer than 64 bytes is
  refused, a full index reports \<open>OutOfMemory\<close>, and otherwise the pair of key and record id is
  added, in order.  The exception is an item that sorts before the first one of a non-empty
  index: there the search computes \<open>mid - 1\<close> on \<open>mid = 0\<close>, which panics in a checked build and
  wraps around in an unchecked one.
\<close>

theorem sorted_insert_ordered:
  assumes "wf_sorted x"
  shows "if si_item_count x \<ge> si_max_items x then si_insert x key rid = Err OutOfMemory
    else if length key > 64 then si_insert x key rid = Err UnsupportedOperation
    else if 0 < si_item_count x \<and> item_cmp (make_item key rid) (si_items x ! 0) = Less
    then si_insert x key rid = Fault
    else \<exists>x'. si_insert x key rid = Ok x' \<and> wf_sorted x' \<and> pairs x' = add_mset (key, rid) (pairs x)
           \<and> si_item_count x' = Suc (si_item_count x)"
  using si_insert_effect [OF assms, of key rid] by (auto simp: si_insert_def)

definition demo_sorted :: SecondaryIndex where
  "demo_sorted =
     \<lparr>si_def = \<lparr>t_id = 0, t_name = ''t'', t_fields = [], primary_key = [], secondary_index = None,
        secondary_index_type = SortedArray, def_record_size = 8, max_records = 3, t_version = 1,
        created_at = 0, updated_at = 0\<rparr>,
      si_items = [make_item [5] 1, make_item [7] 2, SecondaryIndexItem_default], si_item_count = 2,
      si_max_items = 3, si_access = 0, si_hit = 0\<rparr>"

lemma demo_sorted_wf: "wf_sorted demo_sorted"
  by code_simp

theorem sorted_insert_ordered_witness:
  "(\<exists>x'. si_insert demo_sorted [6] 9 = Ok x' \<and> pairs x' = add_mset ([6], 9) (pairs demo_sorted))
   \<and> si_insert demo_sorted [4] 9 = Fault"
proof -
  have c: "si_item_count demo_sorted = 2" "si_max_items demo_sorted = 3"
    by (simp_all add: demo_sorted_def)
  have "item_cmp (make_item [6] 9) (si_items demo_sorted ! 0) = Greater"
    "item_cmp (make_item [4] 9) (si_items demo_sorted ! 0) = Less" by code_simp+
  with sorted_insert_ordered [OF demo_sorted_wf, of "[6]" 9]
    sorted_insert_ordered [OF demo_sorted_wf, of "[4]" 9] c
  show ?thesis by auto
qed





end
