(* ===== verification/RecRef.thy ===== *)
theory RecRef
  imports MemTable_Store Utf8
begin

text \<open>
  Typed column access and the cursors of \<^verbatim>\<open>src/src/table.rs\<close>.  A \<open>RecordRef\<close> is the table, the slot
  and the bytes of the record.  External text memory is the argument \<open>mem\<close>; JSON columns are not
  modelled.
\<close>

section \<open>Column access\<close>

record RecordRef =
  rr_table :: MemoryTable
  rr_id :: nat
  rr_bytes :: bytes

definition field_def :: "RecordRef \<Rightarrow> nat \<Rightarrow> FieldDef outcome" where
  "field_def r col =
     (if col < length (t_fields (tdef (rr_table r))) then Ok (t_fields (tdef (rr_table r)) ! col)
      else Err FieldNotFound)"

text \<open>The getters of one type: find the column, check its type, read at its offset.\<close>

definition get_typed :: "DataType \<Rightarrow> (bytes \<Rightarrow> nat \<Rightarrow> 'a) \<Rightarrow> RecordRef \<Rightarrow> nat \<Rightarrow> 'a outcome" where
  "get_typed dt rd r col =
     and_then (field_def r col) (\<lambda>f.
       if data_type f \<noteq> dt then Err TypeMismatch else Ok (rd (rr_bytes r) (offset f)))"

definition get_u8 :: "RecordRef \<Rightarrow> nat \<Rightarrow> u8 outcome" where "get_u8 = get_typed UInt8 read_u8"
definition get_u16 :: "RecordRef \<Rightarrow> nat \<Rightarrow> u16 outcome" where "get_u16 = get_typed UInt16 read_u16"
definition get_u32 :: "RecordRef \<Rightarrow> nat \<Rightarrow> u32 outcome" where "get_u32 = get_typed UInt32 read_u32"
definition get_u64 :: "RecordRef \<Rightarrow> nat \<Rightarrow> u64 outcome" where "get_u64 = get_typed UInt64 read_u64"
definition get_i8 :: "RecordRef \<Rightarrow> nat \<Rightarrow> u8 outcome" where "get_i8 = get_typed Int8 read_u8"
definition get_i16 :: "RecordRef \<Rightarrow> nat \<Rightarrow> u16 outcome" where "get_i16 = get_typed Int16 read_u16"
definition get_i32 :: "RecordRef \<Rightarrow> nat \<Rightarrow> u32 outcome" where "get_i32 = get_typed Int32 read_u32"
definition get_i64 :: "RecordRef \<Rightarrow> nat \<Rightarrow> u64 outcome" where "get_i64 = get_typed Int64 read_u64"
definition get_f32 :: "RecordRef \<Rightarrow> nat \<Rightarrow> u32 outcome" where "get_f32 = get_typed Float32 read_u32"
definition get_f64 :: "RecordRef \<Rightarrow> nat \<Rightarrow> u64 outcome" where "get_f64 = get_typed Float64 read_u64"

definition get_bool :: "RecordRef \<Rightarrow> nat \<Rightarrow> bool outcome" where
  "get_bool = get_typed Bool (\<lambda>bs off. read_u8 bs off \<noteq> 0)"

definition get_timestamp :: "RecordRef \<Rightarrow> nat \<Rightarrow> db_timestamp outcome" where
  "get_timestamp r col =
     and_then (field_def r col) (\<lambda>f.
       if data_type f \<noteq> Timestamp \<and> data_type f \<noteq> TimestampTZ then Err TypeMismatch
       else Ok (read_timestamp (rr_bytes r) (offset f)))"

definition get_interval :: "RecordRef \<Rightarrow> nat \<Rightarrow> db_interval outcome" where
  "get_interval = get_typed Interval read_interval"

text \<open>Text columns hold a \<open>TextStorage\<close>, the others their bytes up to the first null byte.\<close>

definition get_str :: "(u64 \<Rightarrow> nat \<Rightarrow> bytes) \<Rightarrow> RecordRef \<Rightarrow> nat \<Rightarrow> bytes outcome" where
  "get_str mem r col =
     and_then (field_def r col) (\<lambda>f.
       if data_type f \<noteq> VarChar \<and> data_type f \<noteq> Char \<and> data_type f \<noteq> Text then Err TypeMismatch
       else
         let bs = (if data_type f = Text then extract_bytes mem (read_text (rr_bytes r) (offset f))
                   else let fb = bytes_at (rr_bytes r) (offset f) (f_size f)
                        in take (zero_pos fb) fb)
         in if from_utf8_ok bs then Ok bs else Err TypeMismatch)"

definition get_bytes :: "RecordRef \<Rightarrow> nat \<Rightarrow> bytes outcome" where
  "get_bytes r col =
     and_then (field_def r col) (\<lambda>f. Ok (bytes_at (rr_bytes r) (offset f) (f_size f)))"

section \<open>Cursors\<close>

text \<open>What the cursor over the whole table yields, in order.\<close>

fun cursor_from :: "MemoryTable \<Rightarrow> nat list \<Rightarrow> RecordRef list" where
  "cursor_from t [] = []"
| "cursor_from t (i # is) =
     (if slot_status t i = Used
      then \<lparr>rr_table = t, rr_id = i, rr_bytes = data t ! i\<rparr> # cursor_from t is
      else cursor_from t is)"

definition scan_ref :: "MemoryTable \<Rightarrow> RecordRef list" where
  "scan_ref t = cursor_from t [0..<cap t]"

definition scan_ids_ref :: "MemoryTable \<Rightarrow> nat list \<Rightarrow> RecordRef list" where
  "scan_ids_ref t is = cursor_from t (filter (\<lambda>i. i < cap t) is)"

section \<open>Lemmas\<close>

lemma cursor_from_map:
  "\<forall>i\<in>set is. i < cap t \<Longrightarrow>
    cursor_from t is = map (\<lambda>i. \<lparr>rr_table = t, rr_id = i, rr_bytes = data t ! i\<rparr>)
      (filter (\<lambda>i. contents t i \<noteq> None) is)"
  by (induction "is") (auto simp: contents_def used_slots_def)

lemma scan_ref_bytes: "rr_bytes ` set (scan_ref t) = ran (contents t)"
proof -
  have "rr_bytes ` set (scan_ref t) = (\<lambda>i. data t ! i) ` {i. i < cap t \<and> contents t i \<noteq> None}"
    unfolding scan_ref_def by (subst cursor_from_map) (auto simp: image_image)
  also have "\<dots> = ran (contents t)"
    by (auto simp: contents_def ran_def used_slots_def image_iff split: if_splits)
  finally show ?thesis .
qed

lemma scan_ref_table: "r \<in> set (scan_ref t) \<Longrightarrow> rr_table r = t"
  unfolding scan_ref_def by (subst (asm) cursor_from_map) auto

end
