(* ===== verification/Rbac.thy ===== *)
theory Rbac
  imports Types "HOL-Library.AList"
begin

text \<open>
  Role-based access control, \<^verbatim>\<open>src/src/rbac/\<close>.  The two hash maps of the manager are
  association lists; their order stands for the unspecified iteration order.  A \<open>String\<close> is
  the list of its UTF-8 bytes, as characters.
\<close>

section \<open>Permissions\<close>

datatype Permission = PAdmin | PSelect | PInsert | PUpdate | PDelete | PCreate | PDrop

text \<open>
  \<open>str::to_uppercase\<close> on the characters whose uppercase form is one ASCII letter: a to z, the
  dotless i (U+0131) and the long s (U+017F).  Other characters stay as they are; their
  uppercase forms do not occur in the seven names.
\<close>

definition ascii_upper :: "char \<Rightarrow> char" where
  "ascii_upper c = (if 97 \<le> (of_char c :: nat) \<and> (of_char c :: nat) \<le> 122
                    then char_of ((of_char c :: nat) - 32) else c)"

fun to_uppercase :: "string \<Rightarrow> string" where
  "to_uppercase [] = []"
| "to_uppercase [c] = [ascii_upper c]"
| "to_uppercase (c # d # r) =
     (if c = CHR 0xC4 \<and> d = CHR 0xB1 then CHR ''I'' # to_uppercase r
      else if c = CHR 0xC5 \<and> d = CHR 0xBF then CHR ''S'' # to_uppercase r
      else ascii_upper c # to_uppercase (d # r))"

definition perm_from_str :: "string \<Rightarrow> Permission option" where
  "perm_from_str s =
     (let u = to_uppercase s in
      if u = ''ADMIN'' then Some PAdmin
      else if u = ''SELECT'' then Some PSelect
      else if u = ''INSERT'' then Some PInsert
      else if u = ''UPDATE'' then Some PUpdate
      else if u = ''DELETE'' then Some PDelete
      else if u = ''CREATE'' then Some PCreate
      else if u = ''DROP'' then Some PDrop
      else None)"

fun perm_to_string :: "Permission \<Rightarrow> string" where
  "perm_to_string PAdmin = ''ADMIN''"
| "perm_to_string PSelect = ''SELECT''"
| "perm_to_string PInsert = ''INSERT''"
| "perm_to_string PUpdate = ''UPDATE''"
| "perm_to_string PDelete = ''DELETE''"
| "perm_to_string PCreate = ''CREATE''"
| "perm_to_string PDrop = ''DROP''"

section \<open>Roles and users\<close>

type_synonym grant = "Permission \<times> string option \<times> string option"

record Role =
  role_name :: string
  permissions :: "grant list"

definition Role_new :: "string \<Rightarrow> Role" where
  "Role_new n = \<lparr>role_name = n, permissions = []\<rparr>"

definition add_permission :: "Permission \<Rightarrow> string option \<Rightarrow> string option \<Rightarrow> Role \<Rightarrow> Role" where
  "add_permission p t c r = r\<lparr>permissions := permissions r @ [(p, t, c)]\<rparr>"

definition remove_permission :: "Permission \<Rightarrow> string option \<Rightarrow> string option \<Rightarrow> Role \<Rightarrow> Role" where
  "remove_permission p t c r =
     r\<lparr>permissions := filter (\<lambda>(p', t', c'). p' \<noteq> p \<or> t' \<noteq> t \<or> c' \<noteq> c) (permissions r)\<rparr>"

definition grant_covers :: "grant \<Rightarrow> Permission \<Rightarrow> string option \<Rightarrow> string option \<Rightarrow> bool" where
  "grant_covers g p t c \<longleftrightarrow>
     (case g of (p', t', c') \<Rightarrow>
        p' = p \<and> (t' = None \<or> t = None \<or> t' = t) \<and> (c' = None \<or> c = None \<or> c' = c))"

definition has_permission :: "Permission \<Rightarrow> string option \<Rightarrow> string option \<Rightarrow> Role \<Rightarrow> bool" where
  "has_permission p t c r \<longleftrightarrow> list_ex (\<lambda>g. grant_covers g p t c) (permissions r)"

record User =
  user_name :: string
  user_roles :: "string list"

definition User_new :: "string \<Rightarrow> User" where
  "User_new n = \<lparr>user_name = n, user_roles = []\<rparr>"

definition add_role :: "string \<Rightarrow> User \<Rightarrow> User" where
  "add_role r u = (if r \<notin> set (user_roles u) then u\<lparr>user_roles := user_roles u @ [r]\<rparr> else u)"

definition remove_role :: "string \<Rightarrow> User \<Rightarrow> User" where
  "remove_role r u = u\<lparr>user_roles := filter (\<lambda>x. x \<noteq> r) (user_roles u)\<rparr>"

definition has_role :: "string \<Rightarrow> User \<Rightarrow> bool" where
  "has_role r u \<longleftrightarrow> r \<in> set (user_roles u)"

section \<open>The manager\<close>

record RbacManager =
  roles :: "(string \<times> Role) list"
  users :: "(string \<times> User) list"

datatype RbacError =
    RoleAlreadyExists string | RoleNotFound string | UserAlreadyExists string
  | UserNotFound string | PermissionNotFound

definition admin_role :: Role where
  "admin_role =
     fold (\<lambda>p. add_permission p None None)
       [PAdmin, PSelect, PInsert, PUpdate, PDelete, PCreate, PDrop] (Role_new ''admin'')"

definition RbacManager_new :: RbacManager where
  "RbacManager_new =
     \<lparr>roles = [(''admin'', admin_role)],
      users = [(''root'', add_role ''admin'' (User_new ''root''))]\<rparr>"

definition create_role :: "string \<Rightarrow> RbacManager \<Rightarrow> RbacError + RbacManager" where
  "create_role n m =
     (if map_of (roles m) n \<noteq> None then Inl (RoleAlreadyExists n)
      else Inr (m\<lparr>roles := AList.update n (Role_new n) (roles m)\<rparr>))"

definition drop_role :: "string \<Rightarrow> RbacManager \<Rightarrow> RbacError + RbacManager" where
  "drop_role n m =
     (if map_of (roles m) n = None then Inl (RoleNotFound n)
      else Inr (m\<lparr>users := map (\<lambda>(k, u). (k, remove_role n u)) (users m),
                 roles := AList.delete n (roles m)\<rparr>))"

definition grant_permission ::
  "string \<Rightarrow> Permission \<Rightarrow> string option \<Rightarrow> string option \<Rightarrow> RbacManager \<Rightarrow> RbacError + RbacManager" where
  "grant_permission n p t c m =
     (case map_of (roles m) n of
        None \<Rightarrow> Inl (RoleNotFound n)
      | Some r \<Rightarrow> Inr (m\<lparr>roles := AList.update n (add_permission p t c r) (roles m)\<rparr>))"

definition revoke_permission ::
  "string \<Rightarrow> Permission \<Rightarrow> string option \<Rightarrow> string option \<Rightarrow> RbacManager \<Rightarrow> RbacError + RbacManager" where
  "revoke_permission n p t c m =
     (case map_of (roles m) n of
        None \<Rightarrow> Inl (RoleNotFound n)
      | Some r \<Rightarrow> Inr (m\<lparr>roles := AList.update n (remove_permission p t c r) (roles m)\<rparr>))"

definition create_user :: "string \<Rightarrow> RbacManager \<Rightarrow> RbacError + RbacManager" where
  "create_user n m =
     (if map_of (users m) n \<noteq> None then Inl (UserAlreadyExists n)
      else Inr (m\<lparr>users := AList.update n (User_new n) (users m)\<rparr>))"

definition drop_user :: "string \<Rightarrow> RbacManager \<Rightarrow> RbacError + RbacManager" where
  "drop_user n m =
     (if map_of (users m) n = None then Inl (UserNotFound n)
      else Inr (m\<lparr>users := AList.delete n (users m)\<rparr>))"

definition grant_role :: "string \<Rightarrow> string \<Rightarrow> RbacManager \<Rightarrow> RbacError + RbacManager" where
  "grant_role u r m =
     (if map_of (roles m) r = None then Inl (RoleNotFound r)
      else case map_of (users m) u of
        None \<Rightarrow> Inl (UserNotFound u)
      | Some usr \<Rightarrow> Inr (m\<lparr>users := AList.update u (add_role r usr) (users m)\<rparr>))"

definition revoke_role :: "string \<Rightarrow> string \<Rightarrow> RbacManager \<Rightarrow> RbacError + RbacManager" where
  "revoke_role u r m =
     (case map_of (users m) u of
        None \<Rightarrow> Inl (UserNotFound u)
      | Some usr \<Rightarrow> Inr (m\<lparr>users := AList.update u (remove_role r usr) (users m)\<rparr>))"

definition check_permission ::
  "string \<Rightarrow> Permission \<Rightarrow> string option \<Rightarrow> string option \<Rightarrow> RbacManager \<Rightarrow> RbacError + bool" where
  "check_permission u p t c m =
     (case map_of (users m) u of
        None \<Rightarrow> Inl (UserNotFound u)
      | Some usr \<Rightarrow>
          Inr (list_ex (\<lambda>rn. case map_of (roles m) rn of
                               None \<Rightarrow> False | Some r \<Rightarrow> has_permission p t c r)
                 (user_roles usr)))"

section \<open>Operations as a state machine\<close>

datatype rbac_op =
    OpCreateRole string | OpDropRole string
  | OpGrant string Permission "string option" "string option"
  | OpRevoke string Permission "string option" "string option"
  | OpCreateUser string | OpDropUser string | OpGrantRole string string | OpRevokeRole string string

fun rbac_apply :: "rbac_op \<Rightarrow> RbacManager \<Rightarrow> RbacError + RbacManager" where
  "rbac_apply (OpCreateRole n) m = create_role n m"
| "rbac_apply (OpDropRole n) m = drop_role n m"
| "rbac_apply (OpGrant n p t c) m = grant_permission n p t c m"
| "rbac_apply (OpRevoke n p t c) m = revoke_permission n p t c m"
| "rbac_apply (OpCreateUser n) m = create_user n m"
| "rbac_apply (OpDropUser n) m = drop_user n m"
| "rbac_apply (OpGrantRole u r) m = grant_role u r m"
| "rbac_apply (OpRevokeRole u r) m = revoke_role u r m"

inductive reachable :: "RbacManager \<Rightarrow> bool" where
  start: "reachable RbacManager_new"
| step: "reachable m \<Longrightarrow> rbac_apply op m = Inr m' \<Longrightarrow> reachable m'"

section \<open>Invariant\<close>

definition wf_rbac :: "RbacManager \<Rightarrow> bool" where
  "wf_rbac m \<longleftrightarrow>
     distinct (map fst (roles m)) \<and> distinct (map fst (users m))
     \<and> (\<forall>(n, r)\<in>set (roles m). role_name r = n)
     \<and> (\<forall>(n, u)\<in>set (users m). user_name u = n \<and> distinct (user_roles u)
          \<and> set (user_roles u) \<subseteq> dom (map_of (roles m)))"

lemma map_of_map_snd: "map_of (map (\<lambda>(k, v). (k, f v)) xs) k = map_option f (map_of xs k)"
  by (induction xs) auto

lemma set_update: "(a, b) \<in> set (AList.update k v xs) \<Longrightarrow> a = k \<and> b = v \<or> (a, b) \<in> set xs"
  by (induction xs) (auto split: if_splits)

lemma set_delete: "(a, b) \<in> set (AList.delete k xs) \<Longrightarrow> (a, b) \<in> set xs \<and> a \<noteq> k"
  by (auto simp: AList.delete_eq)

lemma wf_rbac_update_role:
  assumes "wf_rbac m" and "role_name r = n"
  shows "wf_rbac (m\<lparr>roles := AList.update n r (roles m)\<rparr>)"
  using assms distinct_update [of "roles m" n r] unfolding wf_rbac_def
  by (auto simp: update_conv' dest!: set_update split: if_splits)

lemma wf_rbac_update_user:
  assumes "wf_rbac m" and "user_name u = n" and "distinct (user_roles u)"
    and "set (user_roles u) \<subseteq> dom (map_of (roles m))"
  shows "wf_rbac (m\<lparr>users := AList.update n u (users m)\<rparr>)"
  using assms distinct_update [of "users m" n u] unfolding wf_rbac_def
  by (auto dest!: set_update split: if_splits)

lemma wf_rbac_role: "wf_rbac m \<Longrightarrow> map_of (roles m) n = Some r \<Longrightarrow> role_name r = n"
  by (auto simp: wf_rbac_def dest: map_of_SomeD)

lemma wf_rbac_user:
  "wf_rbac m \<Longrightarrow> map_of (users m) n = Some u
    \<Longrightarrow> user_name u = n \<and> distinct (user_roles u) \<and> set (user_roles u) \<subseteq> dom (map_of (roles m))"
  by (auto simp: wf_rbac_def dest!: map_of_SomeD)

lemma wf_rbac_assigned:
  "wf_rbac m \<Longrightarrow> map_of (users m) n = Some u \<Longrightarrow> x \<in> set (user_roles u)
    \<Longrightarrow> \<exists>r. map_of (roles m) x = Some r"
  using wf_rbac_user [of m n u] by (auto simp: dom_def)

lemma wf_rbac_drop_role:
  assumes "wf_rbac m"
  shows "wf_rbac (m\<lparr>users := map (\<lambda>(k, u). (k, remove_role n u)) (users m),
                    roles := AList.delete n (roles m)\<rparr>)"
  using assms distinct_delete [of "roles m" n] unfolding wf_rbac_def
  by (auto simp: remove_role_def case_prod_beta comp_def delete_conv' dest!: set_delete split: if_splits)

section \<open>Every operation keeps the invariant\<close>

lemma wf_rbac_new: "wf_rbac RbacManager_new"
  by (simp add: wf_rbac_def RbacManager_new_def admin_role_def add_permission_def Role_new_def
      add_role_def User_new_def)

lemma wf_rbac_drop_user:
  "wf_rbac m \<Longrightarrow> wf_rbac (m\<lparr>users := AList.delete n (users m)\<rparr>)"
  using distinct_delete [of "users m" n] unfolding wf_rbac_def by (auto dest!: set_delete)

lemma rbac_apply_wf: "rbac_apply op m = Inr m' \<Longrightarrow> wf_rbac m \<Longrightarrow> wf_rbac m'"
proof (cases op)
  case (OpCreateRole n)
  moreover assume "rbac_apply op m = Inr m'" "wf_rbac m"
  ultimately show ?thesis
    by (auto simp: create_role_def Role_new_def intro: wf_rbac_update_role split: if_splits)
next
  case (OpDropRole n)
  moreover assume "rbac_apply op m = Inr m'" "wf_rbac m"
  ultimately show ?thesis
    by (auto simp: drop_role_def dest: wf_rbac_drop_role split: if_splits)
next
  case (OpGrant n p t c)
  moreover assume "rbac_apply op m = Inr m'" "wf_rbac m"
  ultimately show ?thesis
    by (auto simp: grant_permission_def add_permission_def dest: wf_rbac_role
        intro!: wf_rbac_update_role split: option.splits)
next
  case (OpRevoke n p t c)
  moreover assume "rbac_apply op m = Inr m'" "wf_rbac m"
  ultimately show ?thesis
    by (auto simp: revoke_permission_def remove_permission_def dest: wf_rbac_role
        intro!: wf_rbac_update_role split: option.splits)
next
  case (OpCreateUser n)
  moreover assume "rbac_apply op m = Inr m'" "wf_rbac m"
  ultimately show ?thesis
    by (auto simp: create_user_def User_new_def intro!: wf_rbac_update_user split: if_splits)
next
  case (OpDropUser n)
  moreover assume "rbac_apply op m = Inr m'" "wf_rbac m"
  ultimately show ?thesis
    by (auto simp: drop_user_def intro: wf_rbac_drop_user split: if_splits)
next
  case (OpGrantRole u r)
  moreover assume "rbac_apply op m = Inr m'" "wf_rbac m"
  ultimately show ?thesis
    by (auto simp: grant_role_def add_role_def dest: wf_rbac_user wf_rbac_assigned
        intro!: wf_rbac_update_user split: if_splits option.splits)
next
  case (OpRevokeRole u r)
  moreover assume "rbac_apply op m = Inr m'" "wf_rbac m"
  ultimately show ?thesis
    by (auto simp: revoke_role_def remove_role_def dest: wf_rbac_user wf_rbac_assigned
        intro!: wf_rbac_update_user split: option.splits)
qed

lemma reachable_wf: "reachable m \<Longrightarrow> wf_rbac m"
  by (induction rule: reachable.induct) (auto intro: wf_rbac_new rbac_apply_wf)

section \<open>The policy as two relations\<close>

text \<open>
  What the manager promises: a set of roles and a set of users, the grants of each role and
  the roles of each user.
\<close>

record policy =
  role_set :: "string set"
  user_set :: "string set"
  granted :: "(string \<times> grant) set"
  assigned :: "(string \<times> string) set"

definition policy_of :: "RbacManager \<Rightarrow> policy" where
  "policy_of m =
     \<lparr>role_set = dom (map_of (roles m)), user_set = dom (map_of (users m)),
      granted = {(n, g). \<exists>r. map_of (roles m) n = Some r \<and> g \<in> set (permissions r)},
      assigned = {(u, n). \<exists>x. map_of (users m) u = Some x \<and> n \<in> set (user_roles x)}\<rparr>"

fun policy_step :: "rbac_op \<Rightarrow> policy \<Rightarrow> RbacError + policy" where
  "policy_step (OpCreateRole n) s =
     (if n \<in> role_set s then Inl (RoleAlreadyExists n) else Inr (s\<lparr>role_set := insert n (role_set s)\<rparr>))"
| "policy_step (OpDropRole n) s =
     (if n \<notin> role_set s then Inl (RoleNotFound n)
      else Inr (s\<lparr>role_set := role_set s - {n}, granted := {(r, g) \<in> granted s. r \<noteq> n},
                 assigned := {(u, r) \<in> assigned s. r \<noteq> n}\<rparr>))"
| "policy_step (OpGrant n p t c) s =
     (if n \<notin> role_set s then Inl (RoleNotFound n)
      else Inr (s\<lparr>granted := insert (n, p, t, c) (granted s)\<rparr>))"
| "policy_step (OpRevoke n p t c) s =
     (if n \<notin> role_set s then Inl (RoleNotFound n)
      else Inr (s\<lparr>granted := granted s - {(n, p, t, c)}\<rparr>))"
| "policy_step (OpCreateUser u) s =
     (if u \<in> user_set s then Inl (UserAlreadyExists u) else Inr (s\<lparr>user_set := insert u (user_set s)\<rparr>))"
| "policy_step (OpDropUser u) s =
     (if u \<notin> user_set s then Inl (UserNotFound u)
      else Inr (s\<lparr>user_set := user_set s - {u}, assigned := {(v, r) \<in> assigned s. v \<noteq> u}\<rparr>))"
| "policy_step (OpGrantRole u r) s =
     (if r \<notin> role_set s then Inl (RoleNotFound r)
      else if u \<notin> user_set s then Inl (UserNotFound u)
      else Inr (s\<lparr>assigned := insert (u, r) (assigned s)\<rparr>))"
| "policy_step (OpRevokeRole u r) s =
     (if u \<notin> user_set s then Inl (UserNotFound u)
      else Inr (s\<lparr>assigned := assigned s - {(u, r)}\<rparr>))"

text \<open>A request is allowed when some role of the user has a grant that covers it.\<close>

definition allowed :: "policy \<Rightarrow> string \<Rightarrow> Permission \<Rightarrow> string option \<Rightarrow> string option \<Rightarrow> bool" where
  "allowed s u p t c \<longleftrightarrow>
     (\<exists>n g. (u, n) \<in> assigned s \<and> (n, g) \<in> granted s \<and> grant_covers g p t c)"

lemma granted_iff:
  "(n, g) \<in> granted (policy_of m) \<longleftrightarrow> (\<exists>r. map_of (roles m) n = Some r \<and> g \<in> set (permissions r))"
  by (simp add: policy_of_def)

lemma assigned_iff:
  "(u, n) \<in> assigned (policy_of m) \<longleftrightarrow> (\<exists>x. map_of (users m) u = Some x \<and> n \<in> set (user_roles x))"
  by (simp add: policy_of_def)

lemma check_permission_policy:
  "check_permission u p t c m =
     (if u \<in> user_set (policy_of m) then Inr (allowed (policy_of m) u p t c)
      else Inl (UserNotFound u))"
proof (cases "map_of (users m) u")
  case None
  then show ?thesis by (auto simp: check_permission_def policy_of_def)
next
  case (Some x)
  have "allowed (policy_of m) u p t c \<longleftrightarrow>
      (\<exists>n \<in> set (user_roles x). \<exists>r. map_of (roles m) n = Some r \<and> has_permission p t c r)"
    unfolding allowed_def granted_iff assigned_iff has_permission_def list_ex_iff
    using Some by (simp add: Bex_def) blast
  also have "\<dots> \<longleftrightarrow> list_ex (\<lambda>rn. case map_of (roles m) rn of
                 None \<Rightarrow> False | Some r \<Rightarrow> has_permission p t c r) (user_roles x)"
    by (auto simp: list_ex_iff Bex_def split: option.splits)
  finally have "check_permission u p t c m = Inr (allowed (policy_of m) u p t c)"
    unfolding check_permission_def Some by simp
  moreover have "u \<in> user_set (policy_of m)" using Some by (auto simp: policy_of_def)
  ultimately show ?thesis by simp
qed

lemmas rbac_op_defs = create_role_def drop_role_def grant_permission_def revoke_permission_def
  create_user_def drop_user_def grant_role_def revoke_role_def

lemmas rbac_data_defs = Role_new_def User_new_def add_permission_def remove_permission_def
  add_role_def remove_role_def

lemma policy_eqI:
  assumes "dom (map_of (roles m)) = role_set s" and "dom (map_of (users m)) = user_set s"
    and "\<And>n g. (n, g) \<in> granted (policy_of m) \<longleftrightarrow> (n, g) \<in> granted s"
    and "\<And>u n. (u, n) \<in> assigned (policy_of m) \<longleftrightarrow> (u, n) \<in> assigned s"
  shows "policy_of m = s"
  using assms by (intro policy.equality) (auto simp: policy_of_def)

lemma role_set_policy [simp]: "role_set (policy_of m) = dom (map_of (roles m))"
  and user_set_policy [simp]: "user_set (policy_of m) = dom (map_of (users m))"
  by (simp_all add: policy_of_def)

lemma rbac_apply_policy: "map_sum id policy_of (rbac_apply op m) = policy_step op (policy_of m)"
proof (cases op)
  case (OpCreateRole n)
  then show ?thesis
    by (auto simp: rbac_op_defs rbac_data_defs granted_iff assigned_iff update_conv'
        intro!: policy_eqI split: if_splits)
next
  case (OpDropRole n)
  then show ?thesis
    by (auto simp: rbac_op_defs rbac_data_defs granted_iff assigned_iff delete_conv' map_of_map_snd
        intro!: policy_eqI split: if_splits)
next
  case (OpGrant n p t c)
  then show ?thesis
    by (auto simp: rbac_op_defs rbac_data_defs granted_iff assigned_iff update_conv'
        intro!: policy_eqI split: if_splits option.splits)
next
  case (OpRevoke n p t c)
  then show ?thesis
    by (auto simp: rbac_op_defs rbac_data_defs granted_iff assigned_iff update_conv'
        intro!: policy_eqI split: if_splits option.splits)
next
  case (OpCreateUser n)
  then show ?thesis
    by (auto simp: rbac_op_defs rbac_data_defs granted_iff assigned_iff update_conv'
        intro!: policy_eqI split: if_splits)
next
  case (OpDropUser n)
  then show ?thesis
    by (auto simp: rbac_op_defs rbac_data_defs granted_iff assigned_iff delete_conv'
        intro!: policy_eqI split: if_splits)
next
  case (OpGrantRole u r)
  then show ?thesis
    by (auto simp: rbac_op_defs rbac_data_defs granted_iff assigned_iff update_conv'
        intro!: policy_eqI split: if_splits option.splits)
next
  case (OpRevokeRole u r)
  then show ?thesis
    by (auto simp: rbac_op_defs rbac_data_defs granted_iff assigned_iff update_conv'
        intro!: policy_eqI split: if_splits option.splits)
qed

section \<open>Properties\<close>

text \<open>A run of operations; a failing operation is reported and changes nothing.\<close>

fun rbac_run :: "rbac_op list \<Rightarrow> RbacManager \<Rightarrow> RbacManager" where
  "rbac_run [] m = m"
| "rbac_run (q # qs) m = (case rbac_apply q m of Inl e \<Rightarrow> rbac_run qs m | Inr m' \<Rightarrow> rbac_run qs m')"

fun policy_run :: "rbac_op list \<Rightarrow> policy \<Rightarrow> policy" where
  "policy_run [] s = s"
| "policy_run (q # qs) s = (case policy_step q s of Inl e \<Rightarrow> policy_run qs s | Inr s' \<Rightarrow> policy_run qs s')"

lemma rbac_run_policy: "policy_of (rbac_run qs m) = policy_run qs (policy_of m)"
proof (induction qs arbitrary: m)
  case (Cons q qs)
  have "map_sum id policy_of (rbac_apply q m) = policy_step q (policy_of m)"
    by (rule rbac_apply_policy)
  with Cons show ?case by (cases "rbac_apply q m") (auto split: sum.splits)
qed simp

text \<open>
  (C13) The access-control manager implements a policy of two relations, the grants of each role
  and the roles of each user.  Every operation has exactly the effect of the specification on
  them or reports the error the specification gives, for any sequence of operations; and a
  permission check says yes exactly when some role of the user has a grant that covers the
  request, and \<open>UserNotFound\<close> for an unknown user.
\<close>

theorem rbac_refines_policy:
  "map_sum id policy_of (rbac_apply q m) = policy_step q (policy_of m)
   \<and> policy_of (rbac_run qs m) = policy_run qs (policy_of m)
   \<and> check_permission u p t c m =
       (if u \<in> user_set (policy_of m) then Inr (allowed (policy_of m) u p t c)
        else Inl (UserNotFound u))"
  using rbac_apply_policy [of q m] rbac_run_policy [of qs m] check_permission_policy [of u p t c m]
  by blast



text \<open>
  Dropping a role leaves nothing behind.  After a role has been dropped and created again under
  the same name, the new role has no grants and no user has it, so that no user is allowed
  more than before the drop.
\<close>

theorem rbac_drop_create_clean:
  assumes "drop_role n m = Inr m1" and "create_role n m1 = Inr m2"
  shows "(\<forall>u. (u, n) \<notin> assigned (policy_of m2)) \<and> (\<forall>g. (n, g) \<notin> granted (policy_of m2))
    \<and> (allowed (policy_of m2) u p t c \<longrightarrow> allowed (policy_of m) u p t c)"
proof -
  have "Inr (policy_of m1) = policy_step (OpDropRole n) (policy_of m)"
    using rbac_apply_policy [of "OpDropRole n" m] assms(1) by simp
  moreover have "Inr (policy_of m2) = policy_step (OpCreateRole n) (policy_of m1)"
    using rbac_apply_policy [of "OpCreateRole n" m1] assms(2) by simp
  ultimately have "assigned (policy_of m2) = {(u, r) \<in> assigned (policy_of m). r \<noteq> n}"
    "granted (policy_of m2) = {(r, g) \<in> granted (policy_of m). r \<noteq> n}"
    by (auto split: if_splits)
  then show ?thesis by (auto simp: allowed_def)
qed

definition demo_dropped :: RbacManager where
  "demo_dropped = \<lparr>roles = [], users = [(''root'', User_new ''root'')]\<rparr>"

theorem rbac_drop_create_clean_witness:
  "drop_role ''admin'' RbacManager_new = Inr demo_dropped
    \<and> \<not> allowed (policy_of (demo_dropped\<lparr>roles := [(''admin'', Role_new ''admin'')]\<rparr>))
          ''root'' PSelect None None"
proof -
  have d: "drop_role ''admin'' RbacManager_new = Inr demo_dropped"
    by (simp add: demo_dropped_def drop_role_def RbacManager_new_def remove_role_def add_role_def
        User_new_def)
  have c: "create_role ''admin'' demo_dropped
      = Inr (demo_dropped\<lparr>roles := [(''admin'', Role_new ''admin'')]\<rparr>)"
    by (simp add: create_role_def demo_dropped_def)
  from rbac_drop_create_clean [OF d c, of "''root''" PSelect None None] d
  show ?thesis by (auto simp: allowed_def demo_dropped_def policy_of_def User_new_def)
qed

end
