(* ===== verification/SysTables.thy ===== *)
theory SysTables
  imports Database RecRef Rbac
begin

text \<open>
  The system tables of \<^verbatim>\<open>src/src/system_tables.rs\<close> (configuration, roles, grants, users and their
  roles) and the persistence of the access-control manager in them, \<^verbatim>\<open>src/src/rbac/manager.rs\<close>.
  Allocations of a new table are the argument \<open>mems\<close>; one operation reads the clock once (\<open>now\<close>).
\<close>

section \<open>Strings and record buffers\<close>

definition str_bytes :: "string \<Rightarrow> bytes" where
  "str_bytes s = map (\<lambda>c. of_nat (of_char c)) s"

definition bytes_str :: "bytes \<Rightarrow> string" where
  "bytes_str bs = map (\<lambda>b. char_of (unat b)) bs"

text \<open>
  \<open>memset(buf + off, 0, w)\<close> and \<open>memcpy(buf + off, text)\<close>.  The copy is not bounded by the width of the
  column: a text that leaves the buffer overwrites memory behind it.
\<close>

definition write_text :: "nat \<Rightarrow> nat \<Rightarrow> bytes \<Rightarrow> bytes \<Rightarrow> bytes outcome" where
  "write_text off w s rd =
     (if off + length s > length rd then Fault
      else Ok (bytes_put (bytes_put rd off (replicate w 0)) off s))"

definition write_time :: "nat \<Rightarrow> u64 \<Rightarrow> bytes \<Rightarrow> bytes" where
  "write_time off now rd = bytes_put rd off (to_le 8 (unat now))"

section \<open>Table definitions\<close>

definition SYSTEM_CONFIG_TABLE :: string where "SYSTEM_CONFIG_TABLE = ''__remdb_system_config''"
definition SYSTEM_ROLES_TABLE :: string where "SYSTEM_ROLES_TABLE = ''__remdb_system_roles''"
definition SYSTEM_ROLE_PERMISSIONS_TABLE :: string where
  "SYSTEM_ROLE_PERMISSIONS_TABLE = ''__remdb_system_role_permissions''"
definition SYSTEM_USERS_TABLE :: string where "SYSTEM_USERS_TABLE = ''__remdb_system_users''"
definition SYSTEM_USER_ROLES_TABLE :: string where
  "SYSTEM_USER_ROLES_TABLE = ''__remdb_system_user_roles''"

text \<open>The two kinds of columns the definitions use.\<close>

definition text_column :: "string \<Rightarrow> nat \<Rightarrow> nat \<Rightarrow> bool \<Rightarrow> bool \<Rightarrow> bool \<Rightarrow> FieldDef" where
  "text_column n w off pk nn un =
     \<lparr>f_name = n, data_type = VarChar, f_size = w, string_length = Some w, offset = off,
      f_primary_key = pk, not_null = nn, unique = un, auto_increment = False,
      default_value = None, vector_metadata = None, json_metadata = None\<rparr>"

definition time_column :: "string \<Rightarrow> nat \<Rightarrow> FieldDef" where
  "time_column n off =
     \<lparr>f_name = n, data_type = Timestamp, f_size = 8, string_length = None, offset = off,
      f_primary_key = False, not_null = False, unique = False, auto_increment = False,
      default_value = None, vector_metadata = None, json_metadata = None\<rparr>"

definition system_def :: "u64 \<Rightarrow> nat \<Rightarrow> string \<Rightarrow> FieldDef list \<Rightarrow> nat list \<Rightarrow> nat \<Rightarrow> TableDef" where
  "system_def now n nm fs pk sz =
     \<lparr>t_id = of_nat (n + 1), t_name = nm, t_fields = fs, primary_key = pk, secondary_index = None,
      secondary_index_type = SortedArray, def_record_size = sz, max_records = 512, t_version = 1,
      created_at = now, updated_at = now\<rparr>"

type_synonym table_memory = "bytes list option \<times> RecordHeader list option \<times> nat list option"

definition push_table :: "table_memory \<Rightarrow> TableDef \<Rightarrow> Database \<Rightarrow> Database outcome" where
  "push_table mems d db =
     (case mems of (dat, hs, fs) \<Rightarrow>
        and_then (new_with_options dat hs fs d False) (\<lambda>t.
          Ok (db\<lparr>tables := tables db @ [Some t], primary_indices := primary_indices db @ [None]\<rparr>)))"

definition create_system_config_table :: "u64 \<Rightarrow> table_memory \<Rightarrow> Database \<Rightarrow> Database outcome" where
  "create_system_config_table now mems db =
     push_table mems (system_def now (length (tables db)) SYSTEM_CONFIG_TABLE
       [text_column ''config_key'' 64 0 True True True,
        text_column ''config_value'' 256 64 False False False,
        text_column ''description'' 128 (64 + 256) False False False,
        time_column ''updated_at'' (64 + 256 + 128),
        time_column ''created_at'' (64 + 256 + 128 + 8)]
       [0] (64 + 256 + 128 + 8 + 8)) db"

definition system_roles_fields :: "FieldDef list" where
  "system_roles_fields =
     [text_column ''role_name'' 64 0 True True True,
      text_column ''description'' 256 64 False False False,
      time_column ''created_at'' (64 + 256),
      time_column ''updated_at'' (64 + 256 + 8)]"

definition create_system_roles_table :: "u64 \<Rightarrow> table_memory \<Rightarrow> Database \<Rightarrow> Database outcome" where
  "create_system_roles_table now mems db =
     push_table mems (system_def now (length (tables db)) SYSTEM_ROLES_TABLE
       system_roles_fields
       [0] (64 + 256 + 8 + 8)) db"

definition system_role_permissions_fields :: "FieldDef list" where
  "system_role_permissions_fields =
     [text_column ''role_name'' 64 0 True True False,
      text_column ''permission'' 64 64 True True False,
      text_column ''table_name'' 256 (64 + 64) False False False,
      time_column ''created_at'' (64 + 64 + 256)]"

definition create_system_role_permissions_table ::
  "u64 \<Rightarrow> table_memory \<Rightarrow> Database \<Rightarrow> Database outcome" where
  "create_system_role_permissions_table now mems db =
     push_table mems (system_def now (length (tables db)) SYSTEM_ROLE_PERMISSIONS_TABLE
       system_role_permissions_fields
       [0, 1] (64 + 64 + 256 + 8)) db"

definition system_users_fields :: "FieldDef list" where
  "system_users_fields =
     [text_column ''username'' 64 0 True True True,
      text_column ''description'' 256 64 False False False,
      time_column ''created_at'' (64 + 256),
      time_column ''updated_at'' (64 + 256 + 8)]"

definition create_system_users_table :: "u64 \<Rightarrow> table_memory \<Rightarrow> Database \<Rightarrow> Database outcome" where
  "create_system_users_table now mems db =
     push_table mems (system_def now (length (tables db)) SYSTEM_USERS_TABLE
       system_users_fields
       [0] (64 + 256 + 8 + 8)) db"

definition system_user_roles_fields :: "FieldDef list" where
  "system_user_roles_fields =
     [text_column ''username'' 64 0 True True False,
      text_column ''role_name'' 64 64 True True False,
      time_column ''created_at'' (64 + 64)]"

definition create_system_user_roles_table :: "u64 \<Rightarrow> table_memory \<Rightarrow> Database \<Rightarrow> Database outcome" where
  "create_system_user_roles_table now mems db =
     push_table mems (system_def now (length (tables db)) SYSTEM_USER_ROLES_TABLE
       system_user_roles_fields
       [0, 1] (64 + 64 + 8)) db"

text \<open>\<open>db.tables.iter().position(|t| t.def.name == name)\<close>.\<close>

fun position_name :: "string \<Rightarrow> MemoryTable option list \<Rightarrow> nat option" where
  "position_name nm [] = None"
| "position_name nm (x # xs) =
     (if (case x of Some t \<Rightarrow> t_name (tdef t) = nm | None \<Rightarrow> False) then Some 0
      else map_option Suc (position_name nm xs))"

section \<open>Rows\<close>

text \<open>A row of the tables of roles and of users: name, description, two times.\<close>

definition named_row :: "u64 \<Rightarrow> bytes \<Rightarrow> bytes \<Rightarrow> bytes outcome" where
  "named_row now nm desc =
     and_then (write_text 0 64 nm (replicate (64 + 256 + 8 + 8) 0)) (\<lambda>rd.
     and_then (write_text 64 256 desc rd) (\<lambda>rd.
     Ok (write_time (64 + 256 + 8) now (write_time (64 + 256) now rd))))"

definition permission_row :: "u64 \<Rightarrow> bytes \<Rightarrow> bytes \<Rightarrow> bytes \<Rightarrow> bytes outcome" where
  "permission_row now nm p tn =
     and_then (write_text 0 64 nm (replicate (64 + 64 + 256 + 8) 0)) (\<lambda>rd.
     and_then (write_text 64 64 p rd) (\<lambda>rd.
     and_then (write_text (64 + 64) 256 tn rd) (\<lambda>rd.
     Ok (write_time (64 + 64 + 256) now rd))))"

definition user_role_row :: "u64 \<Rightarrow> bytes \<Rightarrow> bytes \<Rightarrow> bytes outcome" where
  "user_role_row now u r =
     and_then (write_text 0 64 u (replicate (64 + 64 + 8) 0)) (\<lambda>rd.
     and_then (write_text 64 64 r rd) (\<lambda>rd.
     Ok (write_time (64 + 64) now rd)))"

definition config_row :: "u64 \<Rightarrow> bytes \<Rightarrow> bytes \<Rightarrow> bytes \<Rightarrow> bytes outcome" where
  "config_row now k v desc =
     and_then (write_text 0 64 k (replicate (64 + 256 + 128 + 8 + 8) 0)) (\<lambda>rd.
     and_then (write_text 64 256 v rd) (\<lambda>rd.
     and_then (write_text (64 + 256) 128 desc rd) (\<lambda>rd.
     Ok (write_time (64 + 256 + 128 + 8) now (write_time (64 + 256 + 128) now rd)))))"

section \<open>Defaults\<close>

text \<open>Inserts with \<open>?\<close>: the first error ends the operation.\<close>

fun insert_rows :: "u64 \<Rightarrow> nat \<Rightarrow> bytes outcome list \<Rightarrow> 'lm db_state \<Rightarrow> 'lm db_state outcome" where
  "insert_rows now k [] s = Ok s"
| "insert_rows now k (r # rs) s =
     and_then r (\<lambda>rd. and_then (db_exec now (DInsert k rd) s) (insert_rows now k rs))"

definition with_table ::
  "string \<Rightarrow> (nat \<Rightarrow> 'lm db_state \<Rightarrow> 'lm db_state outcome) \<Rightarrow> 'lm db_state \<Rightarrow> 'lm db_state outcome" where
  "with_table nm f s =
     (case position_name nm (tables (snd s)) of None \<Rightarrow> Err TableNotFound | Some k \<Rightarrow> f k s)"

text \<open>The descriptions are UTF-8 texts in the code; here they are given as bytes.\<close>

definition insert_default_configs ::
  "(string \<Rightarrow> bytes) \<Rightarrow> u64 \<Rightarrow> 'lm db_state \<Rightarrow> 'lm db_state outcome" where
  "insert_default_configs desc now =
     with_table SYSTEM_CONFIG_TABLE (\<lambda>k. insert_rows now k
       (map (\<lambda>(key, v). config_row now (str_bytes key) (str_bytes v) (desc key))
         [(''vector_compression_enabled'', ''false''), (''vector_compression_scheme'', ''none''),
          (''vector_compression_level'', ''3''), (''max_query_memory_mb'', ''512''),
          (''query_timeout_ms'', ''30000'')]))"

definition insert_default_rbac_data ::
  "(string \<Rightarrow> bytes) \<Rightarrow> u64 \<Rightarrow> 'lm db_state \<Rightarrow> 'lm db_state outcome" where
  "insert_default_rbac_data desc now s =
     and_then (with_table SYSTEM_ROLES_TABLE
       (\<lambda>k. insert_rows now k [named_row now (str_bytes ''admin'') (desc ''admin'')]) s) (\<lambda>s.
     and_then (with_table SYSTEM_ROLE_PERMISSIONS_TABLE
       (\<lambda>k. insert_rows now k
          (map (\<lambda>p. permission_row now (str_bytes ''admin'') (str_bytes p) [])
            [''ADMIN'', ''SELECT'', ''INSERT'', ''UPDATE'', ''DELETE'', ''CREATE'', ''DROP''])) s) (\<lambda>s.
     and_then (with_table SYSTEM_USERS_TABLE
       (\<lambda>k. insert_rows now k [named_row now (str_bytes ''root'') (desc ''root'')]) s) (\<lambda>s.
     with_table SYSTEM_USER_ROLES_TABLE
       (\<lambda>k. insert_rows now k [user_role_row now (str_bytes ''root'') (str_bytes ''admin'')]) s)))"

section \<open>Saving the access-control manager\<close>

text \<open>
  \<open>let _ = table.insert(..)\<close>: an error of the table (a duplicate key, a full table) is dropped and
  the next row is tried.
\<close>

fun try_rows :: "u64 \<Rightarrow> nat \<Rightarrow> bytes outcome list \<Rightarrow> 'lm db_state \<Rightarrow> 'lm db_state outcome" where
  "try_rows now k [] s = Ok s"
| "try_rows now k (r # rs) s =
     and_then r (\<lambda>rd.
       case db_exec now (DInsert k rd) s of
         Ok s' \<Rightarrow> try_rows now k rs s' | Err e \<Rightarrow> try_rows now k rs s | Fault \<Rightarrow> Fault)"

text \<open>A missing table is skipped.\<close>

definition save_rows :: "u64 \<Rightarrow> string \<Rightarrow> bytes outcome list \<Rightarrow> 'lm db_state \<Rightarrow> 'lm db_state outcome" where
  "save_rows now nm rs s =
     (case position_name nm (tables (snd s)) of
        None \<Rightarrow> Ok s
      | Some k \<Rightarrow> if is_ok (get_table (snd s) k) then try_rows now k rs s else Ok s)"

definition role_rows :: "u64 \<Rightarrow> RbacManager \<Rightarrow> bytes outcome list" where
  "role_rows now m = map (\<lambda>(n, r). named_row now (str_bytes (role_name r)) []) (roles m)"

definition permission_rows :: "u64 \<Rightarrow> RbacManager \<Rightarrow> bytes outcome list" where
  "permission_rows now m =
     concat (map (\<lambda>(n, r). map (\<lambda>(p, t, c).
         permission_row now (str_bytes (role_name r)) (str_bytes (perm_to_string p))
           (case t of Some x \<Rightarrow> str_bytes x | None \<Rightarrow> [])) (permissions r)) (roles m))"

definition user_rows :: "u64 \<Rightarrow> RbacManager \<Rightarrow> bytes outcome list" where
  "user_rows now m = map (\<lambda>(n, u). named_row now (str_bytes (user_name u)) []) (users m)"

definition user_role_rows :: "u64 \<Rightarrow> RbacManager \<Rightarrow> bytes outcome list" where
  "user_role_rows now m =
     concat (map (\<lambda>(n, u). map (\<lambda>r. user_role_row now (str_bytes (user_name u)) (str_bytes r))
        (user_roles u)) (users m))"

definition save_to_system_tables ::
  "u64 \<Rightarrow> RbacManager \<Rightarrow> 'lm db_state \<Rightarrow> 'lm db_state outcome" where
  "save_to_system_tables now m s =
     and_then (save_rows now SYSTEM_ROLES_TABLE (role_rows now m) s) (\<lambda>s.
     and_then (save_rows now SYSTEM_ROLE_PERMISSIONS_TABLE (permission_rows now m) s) (\<lambda>s.
     and_then (save_rows now SYSTEM_USERS_TABLE (user_rows now m) s) (\<lambda>s.
     save_rows now SYSTEM_USER_ROLES_TABLE (user_role_rows now m) s)))"

section \<open>Loading it\<close>

text \<open>\<open>record.get_str(col).unwrap_or("")\<close>.\<close>

definition str_col :: "RecordRef \<Rightarrow> nat \<Rightarrow> string" where
  "str_col r col =
     (case get_str (\<lambda>p n. []) r col of Ok bs \<Rightarrow> bytes_str bs | _ \<Rightarrow> '''')"

definition table_rows :: "string \<Rightarrow> Database \<Rightarrow> RecordRef list" where
  "table_rows nm db =
     (case position_name nm (tables db) of
        None \<Rightarrow> []
      | Some k \<Rightarrow> (case get_table db k of Ok t \<Rightarrow> scan_ref t | _ \<Rightarrow> []))"

definition load_role :: "RecordRef \<Rightarrow> (string \<times> Role) list \<Rightarrow> (string \<times> Role) list" where
  "load_role rec rs =
     (let n = str_col rec 0 in if n \<noteq> '''' then AList.update n (Role_new n) rs else rs)"

definition load_permission :: "RecordRef \<Rightarrow> (string \<times> Role) list \<Rightarrow> (string \<times> Role) list" where
  "load_permission rec rs =
     (let n = str_col rec 0; ps = str_col rec 1; tn = str_col rec 2 in
      if n \<noteq> '''' \<and> ps \<noteq> '''' then
        (case map_of rs n of
           None \<Rightarrow> rs
         | Some r \<Rightarrow>
             (case perm_from_str ps of
                None \<Rightarrow> rs
              | Some p \<Rightarrow> AList.update n
                  (add_permission p (if tn = '''' then None else Some tn) None r) rs))
      else rs)"

definition load_user :: "RecordRef \<Rightarrow> (string \<times> User) list \<Rightarrow> (string \<times> User) list" where
  "load_user rec us =
     (let n = str_col rec 0 in if n \<noteq> '''' then AList.update n (User_new n) us else us)"

definition load_user_role :: "RecordRef \<Rightarrow> (string \<times> User) list \<Rightarrow> (string \<times> User) list" where
  "load_user_role rec us =
     (let n = str_col rec 0; r = str_col rec 1 in
      if n \<noteq> '''' \<and> r \<noteq> '''' then
        (case map_of us n of None \<Rightarrow> us | Some u \<Rightarrow> AList.update n (add_role r u) us)
      else us)"

definition load_from_system_tables :: "Database \<Rightarrow> RbacManager" where
  "load_from_system_tables db =
     \<lparr>roles = fold load_permission (table_rows SYSTEM_ROLE_PERMISSIONS_TABLE db)
               (fold load_role (table_rows SYSTEM_ROLES_TABLE db) []),
      users = fold load_user_role (table_rows SYSTEM_USER_ROLES_TABLE db)
               (fold load_user (table_rows SYSTEM_USERS_TABLE db) [])\<rparr>"

section \<open>Configuration cache\<close>

record ConfigCache =
  vector_compression_enabled :: bool
  vector_compression_scheme :: u8
  vector_compression_level :: u8
  max_query_memory_mb :: u32
  query_timeout_ms :: u32

definition COMPRESSION_NONE :: u8 where "COMPRESSION_NONE = 0"
definition COMPRESSION_FLOAT16 :: u8 where "COMPRESSION_FLOAT16 = 1"
definition COMPRESSION_ZSTD :: u8 where "COMPRESSION_ZSTD = 2"

definition default_config :: ConfigCache where
  "default_config =
     \<lparr>vector_compression_enabled = False, vector_compression_scheme = COMPRESSION_NONE,
      vector_compression_level = 3, max_query_memory_mb = 512, query_timeout_ms = 30000\<rparr>"

text \<open>
  \<open>str::parse\<close> to an unsigned type: an optional plus sign and at least one decimal digit, the
  value within range.
\<close>

fun digits :: "nat \<Rightarrow> string \<Rightarrow> nat option" where
  "digits acc [] = Some acc"
| "digits acc (c # cs) =
     (let d = (of_char c :: nat) in
      if 48 \<le> d \<and> d \<le> 57 then digits (10 * acc + (d - 48)) cs else None)"

definition parse_uint :: "nat \<Rightarrow> string \<Rightarrow> nat option" where
  "parse_uint lim s =
     (let ds = (case s of c # cs \<Rightarrow> if c = CHR ''+'' then cs else s | [] \<Rightarrow> []) in
      if ds = [] then None
      else case digits 0 ds of Some n \<Rightarrow> if n < lim then Some n else None | None \<Rightarrow> None)"

definition str_col_or :: "string \<Rightarrow> RecordRef \<Rightarrow> nat \<Rightarrow> string" where
  "str_col_or d r col = (case get_str (\<lambda>p n. []) r col of Ok bs \<Rightarrow> bytes_str bs | _ \<Rightarrow> d)"

definition load_config_row :: "RecordRef \<Rightarrow> ConfigCache \<Rightarrow> ConfigCache" where
  "load_config_row r c =
     (let k = str_col r 0 in
      if k = ''vector_compression_enabled'' then
        c\<lparr>vector_compression_enabled := str_col_or ''false'' r 1 = ''true''\<rparr>
      else if k = ''vector_compression_scheme'' then
        (let v = str_col_or ''none'' r 1 in
         c\<lparr>vector_compression_scheme :=
             if v = ''none'' then COMPRESSION_NONE
             else if v = ''float16'' then COMPRESSION_FLOAT16
             else if v = ''zstd'' then COMPRESSION_ZSTD else COMPRESSION_NONE\<rparr>)
      else if k = ''vector_compression_level'' then
        c\<lparr>vector_compression_level :=
            (case parse_uint 256 (str_col_or ''3'' r 1) of Some n \<Rightarrow> of_nat n | None \<Rightarrow> 3)\<rparr>
      else if k = ''max_query_memory_mb'' then
        c\<lparr>max_query_memory_mb :=
            (case parse_uint (2 ^ 32) (str_col_or ''512'' r 1) of Some n \<Rightarrow> of_nat n | None \<Rightarrow> 512)\<rparr>
      else if k = ''query_timeout_ms'' then
        c\<lparr>query_timeout_ms :=
            (case parse_uint (2 ^ 32) (str_col_or ''30000'' r 1) of Some n \<Rightarrow> of_nat n | None \<Rightarrow> 30000)\<rparr>
      else c)"

definition load_config_cache :: "Database \<Rightarrow> ConfigCache outcome" where
  "load_config_cache db =
     (case position_name SYSTEM_CONFIG_TABLE (tables db) of
        None \<Rightarrow> Err TableNotFound
      | Some k \<Rightarrow> and_then (get_table db k) (\<lambda>t. Ok (fold load_config_row (scan_ref t) default_config)))"

definition get_vector_compression_config :: "ConfigCache option \<Rightarrow> ConfigCache" where
  "get_vector_compression_config cache = (case cache of Some c \<Rightarrow> c | None \<Rightarrow> default_config)"

definition get_query_resource_config :: "ConfigCache option \<Rightarrow> u32 \<times> u32" where
  "get_query_resource_config cache =
     (let c = (case cache of Some c \<Rightarrow> c | None \<Rightarrow> default_config)
      in (max_query_memory_mb c, query_timeout_ms c))"

definition is_system_table :: "string \<Rightarrow> bool" where
  "is_system_table nm \<longleftrightarrow> take (length ''__remdb_system'') nm = ''__remdb_system''"

definition get_vector_field_size :: "ConfigCache option \<Rightarrow> u16 \<Rightarrow> nat" where
  "get_vector_field_size cache dim =
     (let s = vector_compression_scheme (get_vector_compression_config cache) in
      if s = COMPRESSION_NONE then unat dim * 4
      else if s = COMPRESSION_FLOAT16 then unat dim * 2
      else if s = COMPRESSION_ZSTD then unat dim * 4 + 4
      else unat dim * 4)"

text \<open>\<open>init_system_tables\<close>; \<open>mems\<close> gives the memory of the five tables in the order of creation.\<close>

definition has_table :: "string \<Rightarrow> Database \<Rightarrow> bool" where
  "has_table nm db \<longleftrightarrow> position_name nm (tables db) \<noteq> None"

definition create_config :: "(string \<Rightarrow> bytes) \<Rightarrow> u64 \<Rightarrow> (nat \<Rightarrow> table_memory) \<Rightarrow> 'lm db_state \<Rightarrow> 'lm db_state outcome" where
  "create_config desc now mems s =
     and_then (create_system_config_table now (mems 0) (snd s)) (\<lambda>db.
       insert_default_configs desc now (fst s, db))"

definition create_rbac :: "(string \<Rightarrow> bytes) \<Rightarrow> u64 \<Rightarrow> (nat \<Rightarrow> table_memory) \<Rightarrow> 'lm db_state \<Rightarrow> 'lm db_state outcome" where
  "create_rbac desc now mems s =
     and_then (create_system_roles_table now (mems 1) (snd s)) (\<lambda>db.
     and_then (create_system_role_permissions_table now (mems 2) db) (\<lambda>db.
     and_then (create_system_users_table now (mems 3) db) (\<lambda>db.
     and_then (create_system_user_roles_table now (mems 4) db) (\<lambda>db.
       insert_default_rbac_data desc now (fst s, db)))))"

definition init_system_tables ::
  "(string \<Rightarrow> bytes) \<Rightarrow> u64 \<Rightarrow> (nat \<Rightarrow> table_memory) \<Rightarrow> 'lm db_state
     \<Rightarrow> (bool \<times> ConfigCache \<times> 'lm db_state) outcome" where
  "init_system_tables desc now mems s =
     (let new_config = \<not> has_table SYSTEM_CONFIG_TABLE (snd s) in
      and_then (if new_config then create_config desc now mems s else Ok s) (\<lambda>s1.
        let new_rbac = \<not> has_table SYSTEM_ROLES_TABLE (snd s1) in
        and_then (if new_rbac then create_rbac desc now mems s1 else Ok s1) (\<lambda>s2.
          and_then (load_config_cache (snd s2)) (\<lambda>c. Ok (new_config \<or> new_rbac, c, s2)))))"

end
