(* ===== verification/SysTables_Inv.thy ===== *)
theory SysTables_Inv
  imports SysTables
begin

text \<open>
  Rows of the system tables: the effect of inserting rows whose errors are dropped, on one table and
  on the database, and the bytes and columns of the rows the manager saves.
\<close>

section \<open>Inserting a row\<close>

lemma scan_duplicates_iff:
  assumes "\<And>r. dup r = Ok (D r)"
  shows "scan_duplicates t cur None dup ss =
    (if \<exists>s\<in>set ss. slot_visible t cur s \<and> D (data t ! s) then Err DuplicateKey else Ok ())"
  by (induction ss) (auto simp: assms)

definition table_good :: "'lm TransactionManager \<Rightarrow> MemoryTable \<Rightarrow> bool" where
  "table_good tm t \<longleftrightarrow> in_service (tm, t) \<and> \<not> low_power_mode t
     \<and> (\<forall>f\<in>set (t_fields (tdef t)). unique f \<longrightarrow> f_primary_key f)"

definition row_ok :: "MemoryTable \<Rightarrow> bytes \<Rightarrow> bool" where
  "row_ok t rd \<longleftrightarrow> length rd = record_size t \<and> check_fields rd (t_fields (tdef t)) = Ok ()"

definition same_key :: "TableDef \<Rightarrow> bytes \<Rightarrow> bytes \<Rightarrow> bool" where
  "same_key d a b \<longleftrightarrow> pk_equal (t_fields d) (primary_key d) a b = Ok True"

lemma unique_fields_ok:
  "\<forall>f\<in>set fs. unique f \<longrightarrow> f_primary_key f \<Longrightarrow> check_unique_fields t cur ex rd fs = Ok ()"
  by (induction fs) auto

lemma validate_row:
  assumes "table_good tm t" and "row_ok t rd"
  shows "validate_constraints t (tx_id_counter tm) rd None =
    (if \<exists>x\<in>ran (contents t). same_key (tdef t) rd x then Err DuplicateKey else Ok ())"
proof -
  have wf: "wf_table t" and pr: "pk_in_range (tdef t)" and ne: "primary_key (tdef t) \<noteq> []"
    and hd: "headers_ok (tx_id_counter tm) t"
    and uq: "\<forall>f\<in>set (t_fields (tdef t)). unique f \<longrightarrow> f_primary_key f"
    using assms(1) by (auto simp: table_good_def in_service_def)
  have eq: "pk_equal (t_fields (tdef t)) (primary_key (tdef t)) rd r = Ok (same_key (tdef t) rd r)" for r
    using pk_equal_total [of "primary_key (tdef t)" "t_fields (tdef t)" rd r] pr
    by (auto simp: pk_in_range_def same_key_def)
  have vis: "slot_visible t (tx_id_counter tm) s \<longleftrightarrow> s \<in> used_slots t" if "s < cap t" for s
    using headers_ok_visible [OF hd wf] that by (auto simp: slot_visible_def used_slots_def)
  have "(\<exists>s\<in>set [0..<cap t]. slot_visible t (tx_id_counter tm) s \<and> same_key (tdef t) rd (data t ! s))
      \<longleftrightarrow> (\<exists>x\<in>ran (contents t). same_key (tdef t) rd x)"
  proof -
    have "ran (contents t) = (\<lambda>s. data t ! s) ` used_slots t"
      by (auto simp: ran_def contents_def split: if_splits)
    then show ?thesis using vis by (auto simp: used_slots_def)
  qed
  then show ?thesis
    using assms(2) ne scan_duplicates_iff [where t = t and cur = "tx_id_counter tm" and ss = "[0..<cap t]", OF eq]
    by (simp add: validate_constraints_def check_primary_key_def row_ok_def unique_fields_ok [OF uq])
qed

lemma insert_row:
  assumes "table_good tm t" and "row_ok t rd" and "record_count t < cap t"
  shows "if \<exists>x\<in>ran (contents t). same_key (tdef t) rd x
    then table_insert now tm t rd = Err DuplicateKey
    else \<exists>i tm' t'. table_insert now tm t rd = Ok (i, tm', t') \<and> table_good tm' t'
      \<and> tx_id_counter tm' = tx_id_counter tm \<and> ran (contents t') = insert rd (ran (contents t))
      \<and> tdef t' = tdef t \<and> record_size t' = record_size t \<and> record_count t' = Suc (record_count t)"
proof (cases "\<exists>x\<in>ran (contents t). same_key (tdef t) rd x")
  case True
  then show ?thesis by (simp add: table_insert_def validate_row [OF assms(1,2)])
next
  case False
  have wf: "wf_table t" and lp: "\<not> low_power_mode t" and len: "length rd = record_size t"
    using assms(1,2) by (auto simp: table_good_def in_service_def row_ok_def)
  obtain i t1 where p: "pick_slot t = Ok (i, False, t1)"
    using assms(3) lp wf_counts [OF wf] by (auto simp: pick_slot_def effective_max_def Let_def)
  have v: "validate_constraints t (tx_id_counter tm) rd None = Ok ()"
    using False by (simp add: validate_row [OF assms(1,2)])
  have "\<exists>tm' t'. table_insert now tm t rd = Ok (i, tm', t')"
    using v p by (simp add: table_insert_def Let_def)
  then obtain tm' t' where ins: "table_insert now tm t rd = Ok (i, tm', t')" by blast
  note e = table_insert_effect [OF wf len ins]
  have srv: "in_service (tm', t')"
    using insert_in_service [of "(tm, t)" rd now i "(tm', t')"] assms(1) len ins
    by (auto simp: table_good_def record_fits_def store_insert_def)
  have fresh: "i \<notin> used_slots t" using e(8) lp by blast
  then have r: "ran (contents t') = insert rd (ran (contents t))"
    unfolding e(2) by (subst ran_map_upd) (auto simp: contents_def)
  have "dom (contents t') = insert i (dom (contents t))" unfolding e(2) by simp
  moreover have "dom (contents x) = used_slots x" for x
    by (auto simp: contents_def split: if_splits)
  ultimately have "used_slots t' = insert i (used_slots t)" by simp
  moreover have "finite (used_slots t)" by (simp add: used_slots_def)
  ultimately have "record_count t' = Suc (record_count t)"
    using e(1) wf fresh by (simp add: wf_table_def)
  then show ?thesis
    using False ins srv e r assms(1) by (auto simp: table_good_def)
qed

section \<open>Rows whose errors are dropped\<close>

fun add_rows :: "(bytes \<Rightarrow> bytes \<Rightarrow> bool) \<Rightarrow> bytes set \<Rightarrow> bytes list \<Rightarrow> bytes set" where
  "add_rows eq R [] = R"
| "add_rows eq R (r # rs) = add_rows eq (if \<exists>x\<in>R. eq r x then R else insert r R) rs"

lemma add_rows_mono: "R \<subseteq> add_rows eq R rs"
  by (induction rs arbitrary: R) (auto, blast+)

text \<open>Into an empty table: of rows with equal keys the first one stays.\<close>

lemma add_rows_snoc:
  "add_rows eq R (rs @ [r]) = (let S = add_rows eq R rs in if \<exists>x\<in>S. eq r x then S else insert r S)"
  by (induction rs arbitrary: R) (auto simp: Let_def)

definition first_of :: "('a \<Rightarrow> 'k) \<Rightarrow> 'a list \<Rightarrow> 'a set" where
  "first_of k xs = {x. \<exists>i<length xs. xs ! i = x \<and> (\<forall>j<i. k (xs ! j) \<noteq> k x)}"

lemma first_of_snoc:
  "first_of k (xs @ [x]) = (if k x \<in> k ` set xs then first_of k xs else insert x (first_of k xs))"
proof -
  have "first_of k (xs @ [x]) = first_of k xs \<union> {y. y = x \<and> (\<forall>j<length xs. k (xs ! j) \<noteq> k x)}"
    by (auto simp: first_of_def nth_append less_Suc_eq)
  moreover have "(\<forall>j<length xs. k (xs ! j) \<noteq> k x) \<longleftrightarrow> k x \<notin> k ` set xs"
  proof -
    have "k ` set xs = (\<lambda>j. k (xs ! j)) ` {..<length xs}"
      by (simp add: set_conv_nth image_image setcompr_eq_image lessThan_def)
    then show ?thesis by force
  qed
  ultimately show ?thesis by auto
qed

lemma first_of_Nil [simp]: "first_of k [] = {}"
  by (simp add: first_of_def)

lemma first_of_subset: "first_of k xs \<subseteq> set xs"
  by (auto simp: first_of_def)

lemma first_of_keys: "k ` first_of k xs = k ` set xs"
  by (induction xs rule: rev_induct) (auto simp: first_of_snoc)

lemma first_of_distinct: "inj_on k (set xs) \<Longrightarrow> first_of k xs = set xs"
  using inj_on_image_eq_iff [OF _ first_of_subset subset_refl] first_of_keys by metis

lemma first_of_unique: "x \<in> first_of k xs \<Longrightarrow> y \<in> first_of k xs \<Longrightarrow> k x = k y \<Longrightarrow> x = y"
proof (induction xs rule: rev_induct)
  case (snoc z zs)
  then show ?case
    by (auto simp: first_of_snoc first_of_keys [symmetric] split: if_splits)
      (metis image_eqI)+
qed simp

lemma add_rows_first:
  assumes "\<And>x y. x \<in> set xs \<Longrightarrow> y \<in> set xs \<Longrightarrow> eq (f x) (f y) \<longleftrightarrow> k x = k y"
  shows "add_rows eq {} (map f xs) = f ` first_of k xs"
  using assms
proof (induction xs rule: rev_induct)
  case (snoc x xs)
  note s = first_of_subset [of k xs]
  have "(\<exists>z\<in>f ` first_of k xs. eq (f x) z) \<longleftrightarrow> k x \<in> k ` first_of k xs"
    using snoc.prems [of x] s by (auto simp: image_iff)
  with snoc show ?case by (simp add: add_rows_snoc first_of_snoc first_of_keys Let_def)
qed (simp add: first_of_def)

section \<open>One system table of the database\<close>

text \<open>The description of a system table: name, columns, key columns and record size.\<close>

type_synonym layout = "string \<times> FieldDef list \<times> nat list \<times> nat"

text \<open>The table is there, in service, has the layout and room for \<open>n\<close> more records.\<close>

definition sys_ready :: "'lm TransactionManager \<Rightarrow> Database \<Rightarrow> layout \<Rightarrow> nat \<Rightarrow> bool" where
  "sys_ready tm db L n \<longleftrightarrow>
     (case L of (nm, fs, pk, sz) \<Rightarrow>
        \<exists>k t. position_name nm (tables db) = Some k \<and> get_table db k = Ok t \<and> table_good tm t
          \<and> t_fields (tdef t) = fs \<and> primary_key (tdef t) = pk \<and> record_size t = sz
          \<and> record_count t + n \<le> cap t)"

text \<open>The records of the table of that name.\<close>

definition stored :: "string \<Rightarrow> Database \<Rightarrow> bytes set" where
  "stored nm db = rr_bytes ` set (table_rows nm db)"

definition key_equal :: "FieldDef list \<Rightarrow> nat list \<Rightarrow> bytes \<Rightarrow> bytes \<Rightarrow> bool" where
  "key_equal fs pk a b \<longleftrightarrow> pk_equal fs pk a b = Ok True"

lemma position_name_update:
  "k < length ts \<Longrightarrow> ts ! k = Some t \<Longrightarrow> tdef t' = tdef t
    \<Longrightarrow> position_name nm (ts[k := Some t']) = position_name nm ts"
  by (induction ts arbitrary: k) (auto split: nat.splits simp: less_Suc_eq_0_disj)

lemma get_table_put: "k < length (tables db) \<Longrightarrow> get_table (put_table k t db) k = Ok t"
  by (simp add: get_table_def put_table_def)

lemma get_table_put_other: "j \<noteq> k \<Longrightarrow> get_table (put_table k t db) j = get_table db j"
  by (simp add: get_table_def put_table_def)

lemma get_table_SomeD: "get_table db k = Ok t \<Longrightarrow> k < length (tables db) \<and> tables db ! k = Some t"
  by (auto simp: get_table_def split: if_splits option.splits)

lemma position_name_put:
  "get_table db k = Ok t \<Longrightarrow> tdef t' = tdef t
    \<Longrightarrow> position_name nm (tables (put_table k t' db)) = position_name nm (tables db)"
  by (auto simp: put_table_def dest!: get_table_SomeD intro: position_name_update)

lemma position_name_at:
  "position_name nm ts = Some k \<Longrightarrow> \<exists>t. k < length ts \<and> ts ! k = Some t \<and> t_name (tdef t) = nm"
  by (induction ts arbitrary: k) (auto split: if_splits option.splits)

lemma position_name_inj:
  "position_name a ts = Some k \<Longrightarrow> position_name b ts = Some k \<Longrightarrow> a = b"
  by (auto dest!: position_name_at)

lemma put_put_table: "put_table k t' (put_table k t db) = put_table k t' db"
  by (simp add: put_table_def)

lemma table_good_cong: "tx_id_counter tm' = tx_id_counter tm \<Longrightarrow> table_good tm' t = table_good tm t"
  by (simp add: table_good_def in_service_def)

lemma same_key_eq: "same_key d = key_equal (t_fields d) (primary_key d)"
  by (simp add: same_key_def key_equal_def fun_eq_iff)

lemma put_table_same: "tables db ! k = Some t \<Longrightarrow> put_table k t db = db"
  using list_update_id [of "tables db" k] by (simp add: put_table_def)

lemma try_rows_effect:
  assumes "get_table db k = Ok t" and "table_good tm t" and "\<forall>rd\<in>set rds. row_ok t rd"
    and "record_count t + length rds \<le> cap t"
  shows "\<exists>tm' t'. try_rows now k (map Ok rds) (tm, db) = Ok (tm', put_table k t' db)
    \<and> tx_id_counter tm' = tx_id_counter tm \<and> table_good tm' t' \<and> tdef t' = tdef t
    \<and> record_size t' = record_size t \<and> ran (contents t') = add_rows (same_key (tdef t)) (ran (contents t)) rds"
  using assms
proof (induction rds arbitrary: tm db t)
  case Nil
  then have "put_table k t db = db" by (metis put_table_same get_table_SomeD)
  with Nil show ?case by (auto intro!: exI [of _ t])
next
  case (Cons rd rds)
  have room: "record_count t < cap t" and rok: "row_ok t rd" using Cons.prems by auto
  note kl = get_table_SomeD [OF Cons.prems(1)]
  show ?case
  proof (cases "\<exists>x\<in>ran (contents t). same_key (tdef t) rd x")
    case True
    then have "db_exec now (DInsert k rd) (tm, db) = Err DuplicateKey"
      using insert_row [OF Cons.prems(2) rok room, of now] Cons.prems(1) by simp
    then show ?thesis using Cons.IH [OF Cons.prems(1,2)] Cons.prems(3,4) True by simp
  next
    case False
    then obtain i tm1 t1 where ins: "table_insert now tm t rd = Ok (i, tm1, t1)"
      and g: "table_good tm1 t1" "tx_id_counter tm1 = tx_id_counter tm"
        "ran (contents t1) = insert rd (ran (contents t))" "tdef t1 = tdef t"
        "record_size t1 = record_size t" "record_count t1 = Suc (record_count t)"
      using insert_row [OF Cons.prems(2) rok room, of now] by (auto simp: False)
    have ex: "db_exec now (DInsert k rd) (tm, db) = Ok (tm1, put_table k t1 db)"
      using Cons.prems(1) ins by simp
    have "get_table (put_table k t1 db) k = Ok t1" using kl by (simp add: get_table_put)
    moreover have "\<forall>rd\<in>set rds. row_ok t1 rd" using Cons.prems(3) g by (simp add: row_ok_def)
    moreover have "record_count t1 + length rds \<le> cap t1" using Cons.prems(4) g by simp
    ultimately have "\<exists>tm' t'. try_rows now k (map Ok rds) (tm1, put_table k t1 db)
          = Ok (tm', put_table k t' (put_table k t1 db))
        \<and> tx_id_counter tm' = tx_id_counter tm1 \<and> table_good tm' t' \<and> tdef t' = tdef t1
        \<and> record_size t' = record_size t1
        \<and> ran (contents t') = add_rows (same_key (tdef t1)) (ran (contents t1)) rds"
      by (rule Cons.IH [OF _ g(1)])
    then show ?thesis using ex g False by (simp add: put_put_table del: db_exec.simps)
  qed
qed

lemma stored_at:
  "position_name nm (tables db) = Some k \<Longrightarrow> get_table db k = Ok t \<Longrightarrow> stored nm db = ran (contents t)"
  by (simp add: stored_def table_rows_def scan_ref_bytes)

text \<open>Saving into one table leaves the others alone.\<close>

lemma save_rows_effect:
  assumes "sys_ready tm db (nm, fs, pk, sz) (length rds)"
    and "\<forall>rd\<in>set rds. length rd = sz \<and> check_fields rd fs = Ok ()"
  shows "\<exists>tm' db'. save_rows now nm (map Ok rds) (tm, db) = Ok (tm', db')
    \<and> sys_ready tm' db' (nm, fs, pk, sz) 0
    \<and> stored nm db' = add_rows (key_equal fs pk) (stored nm db) rds
    \<and> (\<forall>nm'. nm' \<noteq> nm \<longrightarrow> stored nm' db' = stored nm' db)
    \<and> (\<forall>nm' F n. nm' \<noteq> nm \<longrightarrow> sys_ready tm db (nm', F) n \<longrightarrow> sys_ready tm' db' (nm', F) n)"
proof -
  obtain k t where k: "position_name nm (tables db) = Some k" and t: "get_table db k = Ok t"
    and g: "table_good tm t" "t_fields (tdef t) = fs" "primary_key (tdef t) = pk" "record_size t = sz"
      "record_count t + length rds \<le> cap t"
    using assms(1) by (auto simp: sys_ready_def)
  have ro: "\<forall>rd\<in>set rds. row_ok t rd" using assms(2) g by (simp add: row_ok_def)
  obtain tm' t' where s: "try_rows now k (map Ok rds) (tm, db) = Ok (tm', put_table k t' db)"
    and c: "tx_id_counter tm' = tx_id_counter tm" and g': "table_good tm' t'" "tdef t' = tdef t"
      "record_size t' = record_size t"
      "ran (contents t') = add_rows (same_key (tdef t)) (ran (contents t)) rds"
    using try_rows_effect [OF t g(1) ro g(5), of now] by blast
  let ?db = "put_table k t' db"
  have kl: "k < length (tables db)" using get_table_SomeD [OF t] by simp
  have pn: "position_name x (tables ?db) = position_name x (tables db)" for x
    using position_name_put [OF t g'(2)] .
  have gt: "get_table ?db k = Ok t'" using kl by (simp add: get_table_put)
  have oth: "get_table ?db j = get_table db j" if "position_name x (tables db) = Some j" "x \<noteq> nm" for x j
    using position_name_inj [OF that(1), of nm] k that(2) by (auto intro!: get_table_put_other)
  have "save_rows now nm (map Ok rds) (tm, db) = Ok (tm', ?db)"
    using k t s by (simp add: save_rows_def)
  moreover have "sys_ready tm' ?db (nm, fs, pk, sz) 0"
    using pn k gt g g' wf_counts(1) [of t'] by (auto simp: sys_ready_def table_good_def in_service_def)
  moreover have "stored nm ?db = add_rows (key_equal fs pk) (stored nm db) rds"
    using stored_at [of nm ?db k t'] stored_at [OF k t] pn k gt g'(4) g by (simp add: same_key_eq)
  moreover have "stored x ?db = stored x db" if "x \<noteq> nm" for x
    using oth [OF _ that] pn by (cases "position_name x (tables db)") (simp_all add: stored_def table_rows_def)
  moreover have "sys_ready tm' ?db (x, F) n" if "x \<noteq> nm" "sys_ready tm db (x, F) n" for x F n
    using that(2) oth [OF _ that(1)] pn table_good_cong [OF c] by (auto simp: sys_ready_def)
  ultimately show ?thesis by blast
qed

section \<open>The bytes of a row\<close>

definition pad :: "nat \<Rightarrow> bytes \<Rightarrow> bytes" where
  "pad w s = s @ replicate (w - length s) 0"

lemma length_pad [simp]: "length s \<le> w \<Longrightarrow> length (pad w s) = w"
  by (simp add: pad_def)

lemma write_text_pad:
  assumes "length pre = off" and "length mid = w" and "length s \<le> w"
  shows "write_text off w s (pre @ mid @ post) = Ok (pre @ pad w s @ post)"
proof -
  have "bytes_put (pre @ mid @ post) off (replicate w 0) = pre @ replicate w 0 @ post"
    using assms by (simp add: bytes_put_def)
  moreover have "drop (off + length s) (pre @ replicate w (0 :: u8) @ post) = replicate (w - length s) 0 @ post"
    using assms by (simp add: drop_append)
  ultimately show ?thesis using assms by (simp add: write_text_def bytes_put_def pad_def)
qed

lemma write_time_app:
  "length pre = off \<Longrightarrow> length mid = 8 \<Longrightarrow>
    write_time off now (pre @ mid @ post) = pre @ to_le 8 (unat now) @ post"
  by (simp add: write_time_def bytes_put_def)

lemma bytes_at_app: "length pre = off \<Longrightarrow> length mid = w \<Longrightarrow> bytes_at (pre @ mid @ post) off w = mid"
  by (simp add: bytes_at_def)

lemma bytes_at_app0: "length mid = w \<Longrightarrow> bytes_at (mid @ post) 0 w = mid"
  by (simp add: bytes_at_def)

text \<open>A text a column of width \<open>w\<close> can hold.\<close>

definition text_ok :: "nat \<Rightarrow> string \<Rightarrow> bool" where
  "text_ok w s \<longleftrightarrow> s \<noteq> [] \<and> length s \<le> w \<and> CHR 0x00 \<notin> set s \<and> from_utf8_ok (str_bytes s)"

lemma length_str_bytes [simp]: "length (str_bytes s) = length s"
  by (simp add: str_bytes_def)

lemma unat_of_nat_char: "unat (of_nat (of_char c) :: u8) = (of_char c :: nat)"
  by (simp add: unat_of_nat)

lemma bytes_str_inverse [simp]: "bytes_str (str_bytes s) = s"
proof -
  have "char_of (unat (of_nat (of_char c) :: u8)) = c" for c
    by (simp add: unat_of_nat_char)
  then show ?thesis by (simp add: bytes_str_def str_bytes_def comp_def)
qed

lemma str_bytes_inject [simp]: "str_bytes a = str_bytes b \<longleftrightarrow> a = b"
  by (metis bytes_str_inverse)

lemma of_nat_eq_0_iff_u8: "(of_nat (of_char c) :: u8) = 0 \<Longrightarrow> (of_char c :: nat) = 0"
  by (metis unat_0 unat_of_nat_char)

lemma str_bytes_nonzero: "CHR 0x00 \<notin> set s \<Longrightarrow> 0 \<notin> set (str_bytes s)"
proof
  assume n: "CHR 0x00 \<notin> set s" and "0 \<in> set (str_bytes s)"
  then obtain c where c: "c \<in> set s" "of_nat (of_char c) = (0 :: u8)" by (auto simp: str_bytes_def)
  then have "c = char_of (0 :: nat)"
    using of_nat_eq_0_iff_u8 [of c] by (metis char_of_char)
  with c(1) n show False by (simp add: char_of_def)
qed

lemma takeWhile_pad: "0 \<notin> set s \<Longrightarrow> takeWhile (\<lambda>b. b \<noteq> 0) (pad w s) = s"
  unfolding pad_def by (subst takeWhile_append2) (auto intro: takeWhile_eq_Nil_iff [THEN iffD2])

lemma pad_inject:
  "CHR 0x00 \<notin> set a \<Longrightarrow> CHR 0x00 \<notin> set b \<Longrightarrow> pad w (str_bytes a) = pad w (str_bytes b) \<longleftrightarrow> a = b"
  by (metis takeWhile_pad str_bytes_nonzero str_bytes_inject)

lemma pad_not_null: "text_ok w s \<Longrightarrow> \<not> list_all (\<lambda>b. b = 0) (pad w (str_bytes s))"
proof
  assume o: "text_ok w s" and "list_all (\<lambda>b. b = 0) (pad w (str_bytes s))"
  then have "\<forall>b\<in>set (str_bytes s). b = 0" by (simp add: pad_def list_all_iff)
  moreover have "0 \<notin> set (str_bytes s)" using o by (auto simp: text_ok_def dest: str_bytes_nonzero)
  ultimately have "str_bytes s = []" by (cases "str_bytes s") auto
  with o show False by (simp add: text_ok_def str_bytes_def)
qed

text \<open>The text of a column, by the columns and the bytes alone.\<close>

definition col_text :: "FieldDef list \<Rightarrow> bytes \<Rightarrow> nat \<Rightarrow> string" where
  "col_text fs rd col =
     (let bs = takeWhile (\<lambda>b. b \<noteq> 0) (bytes_at rd (offset (fs ! col)) (f_size (fs ! col)))
      in if from_utf8_ok bs then bytes_str bs else '''')"

lemma str_col_text:
  "t_fields (tdef (rr_table r)) = fs \<Longrightarrow> col < length fs \<Longrightarrow> data_type (fs ! col) = VarChar
    \<Longrightarrow> str_col r col = col_text fs (rr_bytes r) col"
  by (simp add: str_col_def get_str_def field_def_def col_text_def Let_def take_zero_pos)

lemma col_text_pad:
  assumes "text_ok w s" and "bytes_at rd (offset (fs ! col)) (f_size (fs ! col)) = pad w (str_bytes s)"
  shows "col_text fs rd col = s"
  using assms by (simp add: col_text_def text_ok_def takeWhile_pad str_bytes_nonzero Let_def)

lemma col_text_zero:
  "bytes_at rd (offset (fs ! col)) (f_size (fs ! col)) = pad w [] \<Longrightarrow> col_text fs rd col = ''''"
  by (simp add: col_text_def takeWhile_pad Let_def bytes_str_def)

section \<open>The rows of the four tables\<close>

definition named_bytes :: "u64 \<Rightarrow> string \<Rightarrow> bytes" where
  "named_bytes now n =
     pad 64 (str_bytes n) @ pad 256 [] @ to_le 8 (unat now) @ to_le 8 (unat now)"

definition permission_bytes :: "u64 \<Rightarrow> string \<Rightarrow> string \<Rightarrow> string \<Rightarrow> bytes" where
  "permission_bytes now n p t =
     pad 64 (str_bytes n) @ pad 64 (str_bytes p) @ pad 256 (str_bytes t) @ to_le 8 (unat now)"

definition user_role_bytes :: "u64 \<Rightarrow> string \<Rightarrow> string \<Rightarrow> bytes" where
  "user_role_bytes now u r = pad 64 (str_bytes u) @ pad 64 (str_bytes r) @ to_le 8 (unat now)"

lemma write_text_pad0:
  "length mid = w \<Longrightarrow> length s \<le> w \<Longrightarrow> write_text 0 w s (mid @ post) = Ok (pad w s @ post)"
  using write_text_pad [of "[]" 0 mid w s post] by simp

lemma named_row_bytes:
  assumes "length n \<le> 64"
  shows "named_row now (str_bytes n) [] = Ok (named_bytes now n)"
proof -
  have z: "replicate (64 + 256 + 8 + 8) (0 :: u8)
      = replicate 64 0 @ replicate 256 0 @ replicate 8 0 @ replicate 8 0"
    by (simp only: replicate_add append_assoc)
  have "write_text 0 64 (str_bytes n) (replicate (64 + 256 + 8 + 8) 0)
      = Ok (pad 64 (str_bytes n) @ replicate 256 0 @ replicate 8 0 @ replicate 8 0)"
    unfolding z using assms by (intro write_text_pad0) auto
  moreover have "write_text 64 256 [] (pad 64 (str_bytes n) @ replicate 256 0 @ replicate 8 0 @ replicate 8 0)
      = Ok (pad 64 (str_bytes n) @ pad 256 [] @ replicate 8 0 @ replicate 8 0)"
    using assms by (intro write_text_pad) auto
  moreover have "write_time (64 + 256) now (pad 64 (str_bytes n) @ pad 256 [] @ replicate 8 0 @ replicate 8 0)
      = pad 64 (str_bytes n) @ pad 256 [] @ to_le 8 (unat now) @ replicate 8 0"
    using assms write_time_app [of "pad 64 (str_bytes n) @ pad 256 []" "64 + 256" "replicate 8 0" now "replicate 8 0"]
    by simp
  moreover have "write_time (64 + 256 + 8) now (pad 64 (str_bytes n) @ pad 256 [] @ to_le 8 (unat now) @ replicate 8 0)
      = named_bytes now n"
    using assms write_time_app [of "pad 64 (str_bytes n) @ pad 256 [] @ to_le 8 (unat now)" "64 + 256 + 8" "replicate 8 0" now "[]"]
    by (simp add: named_bytes_def)
  ultimately show ?thesis unfolding named_row_def by simp
qed

lemma permission_row_bytes:
  assumes "length n \<le> 64" and "length p \<le> 64" and "length t \<le> 256"
  shows "permission_row now (str_bytes n) (str_bytes p) (str_bytes t) = Ok (permission_bytes now n p t)"
proof -
  have z: "replicate (64 + 64 + 256 + 8) (0 :: u8)
      = replicate 64 0 @ replicate 64 0 @ replicate 256 0 @ replicate 8 0"
    by (simp only: replicate_add append_assoc)
  have "write_text 0 64 (str_bytes n) (replicate (64 + 64 + 256 + 8) 0)
      = Ok (pad 64 (str_bytes n) @ replicate 64 0 @ replicate 256 0 @ replicate 8 0)"
    unfolding z using assms by (intro write_text_pad0) auto
  moreover have "write_text 64 64 (str_bytes p) (pad 64 (str_bytes n) @ replicate 64 0 @ replicate 256 0 @ replicate 8 0)
      = Ok (pad 64 (str_bytes n) @ pad 64 (str_bytes p) @ replicate 256 0 @ replicate 8 0)"
    using assms by (intro write_text_pad) auto
  moreover have "write_text (64 + 64) 256 (str_bytes t)
        (pad 64 (str_bytes n) @ pad 64 (str_bytes p) @ replicate 256 0 @ replicate 8 0)
      = Ok (pad 64 (str_bytes n) @ pad 64 (str_bytes p) @ pad 256 (str_bytes t) @ replicate 8 0)"
    using assms write_text_pad [of "pad 64 (str_bytes n) @ pad 64 (str_bytes p)" "64 + 64" "replicate 256 0" 256
        "str_bytes t" "replicate 8 0"] by simp
  moreover have "write_time (64 + 64 + 256) now
        (pad 64 (str_bytes n) @ pad 64 (str_bytes p) @ pad 256 (str_bytes t) @ replicate 8 0)
      = permission_bytes now n p t"
    using assms write_time_app [of "pad 64 (str_bytes n) @ pad 64 (str_bytes p) @ pad 256 (str_bytes t)"
        "64 + 64 + 256" "replicate 8 0" now "[]"]
    by (simp add: permission_bytes_def)
  ultimately show ?thesis unfolding permission_row_def by simp
qed

lemma user_role_row_bytes:
  assumes "length u \<le> 64" and "length r \<le> 64"
  shows "user_role_row now (str_bytes u) (str_bytes r) = Ok (user_role_bytes now u r)"
proof -
  have z: "replicate (64 + 64 + 8) (0 :: u8) = replicate 64 0 @ replicate 64 0 @ replicate 8 0"
    by (simp only: replicate_add append_assoc)
  have "write_text 0 64 (str_bytes u) (replicate (64 + 64 + 8) 0)
      = Ok (pad 64 (str_bytes u) @ replicate 64 0 @ replicate 8 0)"
    unfolding z using assms by (intro write_text_pad0) auto
  moreover have "write_text 64 64 (str_bytes r) (pad 64 (str_bytes u) @ replicate 64 0 @ replicate 8 0)
      = Ok (pad 64 (str_bytes u) @ pad 64 (str_bytes r) @ replicate 8 0)"
    using assms by (intro write_text_pad) auto
  moreover have "write_time (64 + 64) now (pad 64 (str_bytes u) @ pad 64 (str_bytes r) @ replicate 8 0)
      = user_role_bytes now u r"
    using assms write_time_app [of "pad 64 (str_bytes u) @ pad 64 (str_bytes r)" "64 + 64" "replicate 8 0" now "[]"]
    by (simp add: user_role_bytes_def)
  ultimately show ?thesis unfolding user_role_row_def by simp
qed

text \<open>The four layouts, and what the columns of a saved row hold.\<close>

definition roles_layout :: layout where
  "roles_layout = (SYSTEM_ROLES_TABLE, system_roles_fields, [0], 64 + 256 + 8 + 8)"

definition permissions_layout :: layout where
  "permissions_layout =
     (SYSTEM_ROLE_PERMISSIONS_TABLE, system_role_permissions_fields, [0, 1], 64 + 64 + 256 + 8)"

definition users_layout :: layout where
  "users_layout = (SYSTEM_USERS_TABLE, system_users_fields, [0], 64 + 256 + 8 + 8)"

definition user_roles_layout :: layout where
  "user_roles_layout = (SYSTEM_USER_ROLES_TABLE, system_user_roles_fields, [0, 1], 64 + 64 + 8)"

lemmas field_defs = system_roles_fields_def system_role_permissions_fields_def system_users_fields_def
  system_user_roles_fields_def text_column_def time_column_def

lemma named_bytes_at:
  assumes "length n \<le> 64"
  shows "bytes_at (named_bytes now n) 0 64 = pad 64 (str_bytes n)"
    and "length (named_bytes now n) = 336"
  using assms by (simp_all add: named_bytes_def bytes_at_app0)

lemma permission_bytes_at:
  assumes "length n \<le> 64" and "length p \<le> 64" and "length t \<le> 256"
  shows "bytes_at (permission_bytes now n p t) 0 64 = pad 64 (str_bytes n)"
    and "bytes_at (permission_bytes now n p t) 64 64 = pad 64 (str_bytes p)"
    and "bytes_at (permission_bytes now n p t) 128 256 = pad 256 (str_bytes t)"
    and "length (permission_bytes now n p t) = 392"
  using assms bytes_at_app [of "pad 64 (str_bytes n) @ pad 64 (str_bytes p)" 128 "pad 256 (str_bytes t)" 256]
  by (simp_all add: permission_bytes_def bytes_at_app0 bytes_at_app)

lemma user_role_bytes_at:
  assumes "length u \<le> 64" and "length r \<le> 64"
  shows "bytes_at (user_role_bytes now u r) 0 64 = pad 64 (str_bytes u)"
    and "bytes_at (user_role_bytes now u r) 64 64 = pad 64 (str_bytes r)"
    and "length (user_role_bytes now u r) = 136"
  using assms by (simp_all add: user_role_bytes_def bytes_at_app0 bytes_at_app)

lemma text_ok_length: "text_ok w s \<Longrightarrow> length s \<le> w"
  by (simp add: text_ok_def)

lemma named_row_checks:
  assumes "text_ok 64 n"
  shows "check_fields (named_bytes now n) system_roles_fields = Ok ()"
    and "check_fields (named_bytes now n) system_users_fields = Ok ()"
  using named_bytes_at [OF text_ok_length [OF assms], of now] pad_not_null [OF assms]
  by (simp_all add: field_defs check_field_def is_null_field_def)

lemma permission_row_checks:
  assumes "text_ok 64 n" and "text_ok 64 p" and "length t \<le> 256"
  shows "check_fields (permission_bytes now n p t) system_role_permissions_fields = Ok ()"
  using permission_bytes_at [OF assms(1,2) [THEN text_ok_length] assms(3), of now]
    assms(1,2) [THEN pad_not_null]
  by (simp add: field_defs check_field_def is_null_field_def)

lemma user_role_row_checks:
  assumes "text_ok 64 u" and "text_ok 64 r"
  shows "check_fields (user_role_bytes now u r) system_user_roles_fields = Ok ()"
  using user_role_bytes_at [OF assms [THEN text_ok_length], of now] assms [THEN pad_not_null]
  by (simp add: field_defs check_field_def is_null_field_def)

lemma text_ok_inject: "text_ok w a \<Longrightarrow> text_ok w b \<Longrightarrow> pad w (str_bytes a) = pad w (str_bytes b) \<longleftrightarrow> a = b"
  by (simp add: text_ok_def pad_inject)

lemma named_row_key:
  assumes "text_ok 64 a" and "text_ok 64 b"
  shows "key_equal system_roles_fields [0] (named_bytes now a) (named_bytes now b) \<longleftrightarrow> a = b"
    and "key_equal system_users_fields [0] (named_bytes now a) (named_bytes now b) \<longleftrightarrow> a = b"
  using text_ok_inject [OF assms] assms [THEN text_ok_length]
  by (simp_all add: key_equal_def field_defs field_equal_def named_bytes_at)

lemma permission_row_key:
  assumes "text_ok 64 n" "text_ok 64 p" "length t \<le> 256" "text_ok 64 n'" "text_ok 64 p'" "length t' \<le> 256"
  shows "key_equal system_role_permissions_fields [0, 1] (permission_bytes now n p t) (permission_bytes now n' p' t')
    \<longleftrightarrow> n = n' \<and> p = p'"
  using text_ok_inject [OF assms(1,4)] text_ok_inject [OF assms(2,5)]
    permission_bytes_at [OF assms(1,2) [THEN text_ok_length] assms(3), of now]
    permission_bytes_at [OF assms(4,5) [THEN text_ok_length] assms(6), of now]
  by (auto simp: key_equal_def field_defs field_equal_def)

lemma user_role_row_key:
  assumes "text_ok 64 u" "text_ok 64 r" "text_ok 64 u'" "text_ok 64 r'"
  shows "key_equal system_user_roles_fields [0, 1] (user_role_bytes now u r) (user_role_bytes now u' r')
    \<longleftrightarrow> u = u' \<and> r = r'"
  using text_ok_inject [OF assms(1,3)] text_ok_inject [OF assms(2,4)]
    user_role_bytes_at [OF assms(1,2) [THEN text_ok_length], of now]
    user_role_bytes_at [OF assms(3,4) [THEN text_ok_length], of now]
  by (auto simp: key_equal_def field_defs field_equal_def)

lemma named_row_text:
  assumes "text_ok 64 n"
  shows "col_text system_roles_fields (named_bytes now n) 0 = n"
    and "col_text system_users_fields (named_bytes now n) 0 = n"
  using named_bytes_at [OF text_ok_length [OF assms], of now]
  by (auto intro!: col_text_pad [OF assms] simp: field_defs)

lemma permission_row_text:
  assumes "text_ok 64 n" and "text_ok 64 p" and "t = [] \<or> text_ok 256 t"
  shows "col_text system_role_permissions_fields (permission_bytes now n p t) 0 = n"
    and "col_text system_role_permissions_fields (permission_bytes now n p t) 1 = p"
    and "col_text system_role_permissions_fields (permission_bytes now n p t) 2 = t"
proof -
  have "length t \<le> 256" using assms(3) by (auto simp: text_ok_def)
  note b = permission_bytes_at [OF assms(1,2) [THEN text_ok_length] this, of now]
  show "col_text system_role_permissions_fields (permission_bytes now n p t) 0 = n"
    by (rule col_text_pad [OF assms(1)]) (simp add: field_defs b)
  show "col_text system_role_permissions_fields (permission_bytes now n p t) 1 = p"
    by (rule col_text_pad [OF assms(2)]) (simp add: field_defs b)
  show "col_text system_role_permissions_fields (permission_bytes now n p t) 2 = t"
  proof (cases "t = []")
    case True
    then show ?thesis
      using col_text_zero [where fs = system_role_permissions_fields and col = 2 and w = 256] b(3)
      by (simp add: field_defs str_bytes_def)
  next
    case False
    with assms(3) have "text_ok 256 t" by simp
    then show ?thesis by (rule col_text_pad) (simp add: field_defs b)
  qed
qed

lemma user_role_row_text:
  assumes "text_ok 64 u" and "text_ok 64 r"
  shows "col_text system_user_roles_fields (user_role_bytes now u r) 0 = u"
    and "col_text system_user_roles_fields (user_role_bytes now u r) 1 = r"
  using user_role_bytes_at [OF assms [THEN text_ok_length], of now]
  by (auto intro!: col_text_pad [OF assms(1)] col_text_pad [OF assms(2)] simp: field_defs)

end
