(* ===== verification/RbacPersist.thy ===== *)
theory RbacPersist
  imports SysTables_Inv Demo
begin

text \<open>
  Saving and loading the access-control manager (\<open>save_to_system_tables\<close> and
  \<open>load_from_system_tables\<close> of \<^verbatim>\<open>src/src/rbac/manager.rs\<close>): what the loader makes of the rows, what a
  save adds to the tables, and the two together.
\<close>

section \<open>What the loader reads\<close>

definition row_grant :: "RecordRef \<Rightarrow> (string \<times> grant) option" where
  "row_grant r =
     (if str_col r 0 \<noteq> '''' \<and> str_col r 1 \<noteq> ''''
      then map_option (\<lambda>p. (str_col r 0, p, if str_col r 2 = '''' then None else Some (str_col r 2), None))
             (perm_from_str (str_col r 1))
      else None)"

lemma load_roles:
  "map_of (fold load_role rs acc) n =
    (if n \<noteq> '''' \<and> n \<in> (\<lambda>r. str_col r 0) ` set rs then Some (Role_new n) else map_of acc n)"
  by (induction rs arbitrary: acc) (auto simp: load_role_def Let_def update_conv')

lemma load_users:
  "map_of (fold load_user rs acc) n =
    (if n \<noteq> '''' \<and> n \<in> (\<lambda>r. str_col r 0) ` set rs then Some (User_new n) else map_of acc n)"
  by (induction rs arbitrary: acc) (auto simp: load_user_def Let_def update_conv')

lemma load_permission_step:
  "map_of (load_permission r acc) n =
    map_option (\<lambda>x. x\<lparr>permissions := permissions x
      @ (case row_grant r of Some (m, g) \<Rightarrow> if m = n then [g] else [] | None \<Rightarrow> [])\<rparr>) (map_of acc n)"
  by (auto simp: load_permission_def row_grant_def Let_def update_conv' add_permission_def
      option.map_ident split: option.splits)

definition row_assign :: "RecordRef \<Rightarrow> (string \<times> string) option" where
  "row_assign r =
     (if str_col r 0 \<noteq> '''' \<and> str_col r 1 \<noteq> '''' then Some (str_col r 0, str_col r 1) else None)"

lemma load_user_role_step:
  "map_of (load_user_role r acc) n =
    map_option (\<lambda>x. case row_assign r of Some (m, g) \<Rightarrow> if m = n then add_role g x else x | None \<Rightarrow> x)
      (map_of acc n)"
  by (cases "map_of acc n") (auto simp: load_user_role_def row_assign_def Let_def update_conv' option.map_ident
      split: option.splits)

lemma fold_extend:
  assumes "\<And>r acc n. map_of (f r acc) n = map_option (upd r n) (map_of acc n)"
    and "\<And>r n x. S (upd r n x) = S x \<union> {g. h r = Some (n, g)}"
  shows "map_option S (map_of (fold f rs acc) n)
    = map_option (\<lambda>x. S x \<union> {g. \<exists>r\<in>set rs. h r = Some (n, g)}) (map_of acc n)"
proof (induction rs arbitrary: acc)
  case (Cons r rs)
  have "{g. \<exists>q\<in>set (r # rs). h q = Some (n, g)}
      = {g. h r = Some (n, g)} \<union> {g. \<exists>q\<in>set rs. h q = Some (n, g)}" by auto
  then show ?case using Cons by (simp add: assms option.map_comp comp_def Un_assoc)
qed simp

lemma load_permissions:
  "map_option (\<lambda>x. set (permissions x)) (map_of (fold load_permission rs acc) n)
    = map_option (\<lambda>x. set (permissions x) \<union> {g. \<exists>r\<in>set rs. row_grant r = Some (n, g)}) (map_of acc n)"
  by (rule fold_extend [OF load_permission_step]) (auto split: option.splits)

lemma load_user_roles:
  "map_option (\<lambda>x. set (user_roles x)) (map_of (fold load_user_role rs acc) n)
    = map_option (\<lambda>x. set (user_roles x) \<union> {g. \<exists>r\<in>set rs. row_assign r = Some (n, g)}) (map_of acc n)"
  by (rule fold_extend [OF load_user_role_step]) (auto simp: add_role_def split: option.splits)

text \<open>The policy of the loaded manager, by the rows of the four tables.\<close>

lemma policy_of_eq:
  assumes "\<And>n. map_option (\<lambda>x. set (permissions x)) (map_of (roles m) n) = (if n \<in> R then Some (G n) else None)"
    and "\<And>n. map_option (\<lambda>x. set (user_roles x)) (map_of (users m) n) = (if n \<in> U then Some (A n) else None)"
  shows "policy_of m = \<lparr>role_set = R, user_set = U, granted = {(n, g). n \<in> R \<and> g \<in> G n},
    assigned = {(u, n). u \<in> U \<and> n \<in> A u}\<rparr>"
proof -
  have "map_of (roles m) n \<noteq> None \<longleftrightarrow> n \<in> R" "map_of (users m) n \<noteq> None \<longleftrightarrow> n \<in> U" for n
    using assms [of n] by (cases "map_of (roles m) n"; cases "map_of (users m) n"; auto split: if_splits)+
  moreover have "(\<exists>r. map_of (roles m) n = Some r \<and> g \<in> set (permissions r)) \<longleftrightarrow> n \<in> R \<and> g \<in> G n" for n g
    using assms(1) [of n] by (cases "map_of (roles m) n") (auto split: if_splits)
  moreover have "(\<exists>r. map_of (users m) n = Some r \<and> g \<in> set (user_roles r)) \<longleftrightarrow> n \<in> U \<and> g \<in> A n" for n g
    using assms(2) [of n] by (cases "map_of (users m) n") (auto split: if_splits)
  ultimately show ?thesis by (simp add: policy_of_def dom_def)
qed

lemma load_policy:
  "policy_of (load_from_system_tables db) =
    \<lparr>role_set = (\<lambda>r. str_col r 0) ` set (table_rows SYSTEM_ROLES_TABLE db) - {''''},
     user_set = (\<lambda>r. str_col r 0) ` set (table_rows SYSTEM_USERS_TABLE db) - {''''},
     granted = {(n, g). n \<in> (\<lambda>r. str_col r 0) ` set (table_rows SYSTEM_ROLES_TABLE db) - {''''}
       \<and> (\<exists>r\<in>set (table_rows SYSTEM_ROLE_PERMISSIONS_TABLE db). row_grant r = Some (n, g))},
     assigned = {(u, n). u \<in> (\<lambda>r. str_col r 0) ` set (table_rows SYSTEM_USERS_TABLE db) - {''''}
       \<and> (\<exists>r\<in>set (table_rows SYSTEM_USER_ROLES_TABLE db). row_assign r = Some (u, n))}\<rparr>"
proof -
  let ?rt = "fold load_role (table_rows SYSTEM_ROLES_TABLE db) []"
  let ?ut = "fold load_user (table_rows SYSTEM_USERS_TABLE db) []"
  have r: "map_of ?rt n = (if n \<in> (\<lambda>r. str_col r 0) ` set (table_rows SYSTEM_ROLES_TABLE db) - {''''}
      then Some (Role_new n) else None)" for n
    by (auto simp: load_roles)
  have u: "map_of ?ut n = (if n \<in> (\<lambda>r. str_col r 0) ` set (table_rows SYSTEM_USERS_TABLE db) - {''''}
      then Some (User_new n) else None)" for n
    by (auto simp: load_users)
  have rp: "map_option (\<lambda>x. set (permissions x)) (map_of (roles (load_from_system_tables db)) n)
      = (if n \<in> (\<lambda>r. str_col r 0) ` set (table_rows SYSTEM_ROLES_TABLE db) - {''''}
         then Some {g. \<exists>r\<in>set (table_rows SYSTEM_ROLE_PERMISSIONS_TABLE db). row_grant r = Some (n, g)}
         else None)" for n
    unfolding load_from_system_tables_def by (simp add: load_permissions r Role_new_def)
  have ur: "map_option (\<lambda>x. set (user_roles x)) (map_of (users (load_from_system_tables db)) n)
      = (if n \<in> (\<lambda>r. str_col r 0) ` set (table_rows SYSTEM_USERS_TABLE db) - {''''}
         then Some {g. \<exists>r\<in>set (table_rows SYSTEM_USER_ROLES_TABLE db). row_assign r = Some (n, g)}
         else None)" for n
    unfolding load_from_system_tables_def by (simp add: load_user_roles u User_new_def)
  show ?thesis by (subst policy_of_eq [OF rp ur]) simp
qed

section \<open>Saving the manager\<close>

text \<open>The grants in the order they are saved, without their columns; the assignments.\<close>

definition grant_list :: "RbacManager \<Rightarrow> (string \<times> Permission \<times> string option) list" where
  "grant_list m =
     concat (map (\<lambda>(n, r). map (\<lambda>(p, t, c). (role_name r, p, t)) (permissions r)) (roles m))"

definition assign_list :: "RbacManager \<Rightarrow> (string \<times> string) list" where
  "assign_list m = concat (map (\<lambda>(n, u). map (\<lambda>r. (user_name u, r)) (user_roles u)) (users m))"

definition role_names :: "RbacManager \<Rightarrow> string list" where
  "role_names m = map (\<lambda>(n, r). role_name r) (roles m)"

definition user_names :: "RbacManager \<Rightarrow> string list" where
  "user_names m = map (\<lambda>(n, u). user_name u) (users m)"

text \<open>All names fit their columns.\<close>

definition names_ok :: "RbacManager \<Rightarrow> bool" where
  "names_ok m \<longleftrightarrow>
     list_all (text_ok 64) (role_names m) \<and> list_all (text_ok 64) (user_names m)
     \<and> list_all (\<lambda>(n, p, t). text_ok 64 n \<and> (case t of None \<Rightarrow> True | Some x \<Rightarrow> text_ok 256 x)) (grant_list m)
     \<and> list_all (\<lambda>(u, r). text_ok 64 u \<and> text_ok 64 r) (assign_list m)"

definition opt_text :: "string option \<Rightarrow> string" where
  "opt_text t = (case t of Some x \<Rightarrow> x | None \<Rightarrow> '''')"

definition grant_bytes :: "u64 \<Rightarrow> string \<times> Permission \<times> string option \<Rightarrow> bytes" where
  "grant_bytes now = (\<lambda>(n, p, t). permission_bytes now n (perm_to_string p) (opt_text t))"

definition assign_bytes :: "u64 \<Rightarrow> string \<times> string \<Rightarrow> bytes" where
  "assign_bytes now = (\<lambda>(u, r). user_role_bytes now u r)"

lemma perm_text_ok: "text_ok 64 (perm_to_string p)"
  by (cases p) (simp_all add: text_ok_def str_bytes_def of_char_def)

lemma perm_roundtrip [simp]: "perm_from_str (perm_to_string p) = Some p"
  by (cases p) (simp_all add: perm_from_str_def ascii_upper_def of_char_def char_of_def Let_def)

lemma perm_to_string_inject [simp]: "perm_to_string p = perm_to_string q \<longleftrightarrow> p = q"
  by (metis perm_roundtrip option.inject)

lemma saved_rows:
  assumes "names_ok m"
  shows "role_rows now m = map Ok (map (named_bytes now) (role_names m))"
    and "user_rows now m = map Ok (map (named_bytes now) (user_names m))"
    and "permission_rows now m = map Ok (map (grant_bytes now) (grant_list m))"
    and "user_role_rows now m = map Ok (map (assign_bytes now) (assign_list m))"
proof -
  note ok = assms [unfolded names_ok_def list_all_iff]
  show "role_rows now m = map Ok (map (named_bytes now) (role_names m))"
    using ok by (auto simp: role_rows_def role_names_def text_ok_def intro!: named_row_bytes)
  show "user_rows now m = map Ok (map (named_bytes now) (user_names m))"
    using ok by (auto simp: user_rows_def user_names_def text_ok_def intro!: named_row_bytes)
  have "permission_row now (str_bytes n) (str_bytes (perm_to_string p))
      (case t of Some x \<Rightarrow> str_bytes x | None \<Rightarrow> []) = Ok (grant_bytes now (n, p, t))"
    if "(n, p, t) \<in> set (grant_list m)" for n p t
  proof -
    have "length n \<le> 64" "length (opt_text t) \<le> 256"
      using ok that by (auto simp: text_ok_def opt_text_def split: option.splits)
    moreover have "(case t of Some x \<Rightarrow> str_bytes x | None \<Rightarrow> []) = str_bytes (opt_text t)"
      by (simp add: opt_text_def str_bytes_def split: option.split)
    ultimately show ?thesis
      using permission_row_bytes [of n "perm_to_string p" "opt_text t" now] perm_text_ok [of p]
      by (simp add: grant_bytes_def text_ok_def)
  qed
  then show "permission_rows now m = map Ok (map (grant_bytes now) (grant_list m))"
    unfolding permission_rows_def grant_list_def map_concat map_map
    by (intro arg_cong [where f = concat] map_cong refl) (force simp: case_prod_beta)
  have "user_role_row now (str_bytes u) (str_bytes r) = Ok (assign_bytes now (u, r))"
    if "(u, r) \<in> set (assign_list m)" for u r
    using ok that user_role_row_bytes [of u r now] by (auto simp: text_ok_def assign_bytes_def)
  then show "user_role_rows now m = map Ok (map (assign_bytes now) (assign_list m))"
    unfolding user_role_rows_def assign_list_def map_concat map_map
    by (intro arg_cong [where f = concat] map_cong refl) (force simp: case_prod_beta)
qed

definition tables_ready :: "'lm TransactionManager \<Rightarrow> Database \<Rightarrow> RbacManager \<Rightarrow> bool" where
  "tables_ready tm db m \<longleftrightarrow>
     sys_ready tm db roles_layout (length (role_names m))
     \<and> sys_ready tm db permissions_layout (length (grant_list m))
     \<and> sys_ready tm db users_layout (length (user_names m))
     \<and> sys_ready tm db user_roles_layout (length (assign_list m))"

lemmas layout_defs = roles_layout_def permissions_layout_def users_layout_def user_roles_layout_def
lemmas name_defs = SYSTEM_ROLES_TABLE_def SYSTEM_ROLE_PERMISSIONS_TABLE_def SYSTEM_USERS_TABLE_def
  SYSTEM_USER_ROLES_TABLE_def

lemma names_differ:
  "SYSTEM_ROLES_TABLE \<noteq> SYSTEM_ROLE_PERMISSIONS_TABLE" "SYSTEM_ROLES_TABLE \<noteq> SYSTEM_USERS_TABLE"
  "SYSTEM_ROLES_TABLE \<noteq> SYSTEM_USER_ROLES_TABLE" "SYSTEM_ROLE_PERMISSIONS_TABLE \<noteq> SYSTEM_USERS_TABLE"
  "SYSTEM_ROLE_PERMISSIONS_TABLE \<noteq> SYSTEM_USER_ROLES_TABLE" "SYSTEM_USERS_TABLE \<noteq> SYSTEM_USER_ROLES_TABLE"
  by (simp_all add: name_defs)

lemma sys_ready_0: "sys_ready tm db L n \<Longrightarrow> sys_ready tm db L 0"
  by (auto simp: sys_ready_def)

lemma grant_text:
  assumes "names_ok m" and "(n, p, t) \<in> set (grant_list m)"
  shows "text_ok 64 n" and "opt_text t = [] \<or> text_ok 256 (opt_text t)" and "length (opt_text t) \<le> 256"
    and "t \<noteq> Some []"
  using assms by (auto simp: names_ok_def list_all_iff opt_text_def text_ok_def split: option.splits)

lemma assign_text:
  assumes "names_ok m" and "(u, r) \<in> set (assign_list m)"
  shows "text_ok 64 u" and "text_ok 64 r"
  using assms by (auto simp: names_ok_def list_all_iff)

lemma rows_fit:
  assumes "names_ok m"
  shows "\<forall>rd\<in>set (map (named_bytes now) (role_names m)).
      length rd = 64 + 256 + 8 + 8 \<and> check_fields rd system_roles_fields = Ok ()"
    and "\<forall>rd\<in>set (map (named_bytes now) (user_names m)).
      length rd = 64 + 256 + 8 + 8 \<and> check_fields rd system_users_fields = Ok ()"
    and "\<forall>rd\<in>set (map (grant_bytes now) (grant_list m)).
      length rd = 64 + 64 + 256 + 8 \<and> check_fields rd system_role_permissions_fields = Ok ()"
    and "\<forall>rd\<in>set (map (assign_bytes now) (assign_list m)).
      length rd = 64 + 64 + 8 \<and> check_fields rd system_user_roles_fields = Ok ()"
proof -
  have n: "\<forall>n\<in>set (role_names m). text_ok 64 n" "\<forall>n\<in>set (user_names m). text_ok 64 n"
    using assms by (auto simp: names_ok_def list_all_iff)
  show "\<forall>rd\<in>set (map (named_bytes now) (role_names m)).
      length rd = 64 + 256 + 8 + 8 \<and> check_fields rd system_roles_fields = Ok ()"
    using n(1) by (auto simp: named_row_checks named_bytes_at(2) [OF text_ok_length])
  show "\<forall>rd\<in>set (map (named_bytes now) (user_names m)).
      length rd = 64 + 256 + 8 + 8 \<and> check_fields rd system_users_fields = Ok ()"
    using n(2) by (auto simp: named_row_checks named_bytes_at(2) [OF text_ok_length])
  show "\<forall>rd\<in>set (map (grant_bytes now) (grant_list m)).
      length rd = 64 + 64 + 256 + 8 \<and> check_fields rd system_role_permissions_fields = Ok ()"
    using grant_text [OF assms]
    by (auto simp: grant_bytes_def permission_row_checks perm_text_ok
        permission_bytes_at(4) [OF text_ok_length text_ok_length [OF perm_text_ok]])
  show "\<forall>rd\<in>set (map (assign_bytes now) (assign_list m)).
      length rd = 64 + 64 + 8 \<and> check_fields rd system_user_roles_fields = Ok ()"
    using assign_text [OF assms]
    by (auto simp: assign_bytes_def user_role_row_checks user_role_bytes_at(3) [OF text_ok_length text_ok_length])
qed

lemma save_effect:
  assumes "names_ok m" and "tables_ready tm db m"
  shows "\<exists>tm' db'. save_to_system_tables now m (tm, db) = Ok (tm', db')
    \<and> sys_ready tm' db' roles_layout 0 \<and> sys_ready tm' db' permissions_layout 0
    \<and> sys_ready tm' db' users_layout 0 \<and> sys_ready tm' db' user_roles_layout 0
    \<and> stored SYSTEM_ROLES_TABLE db' = add_rows (key_equal system_roles_fields [0])
        (stored SYSTEM_ROLES_TABLE db) (map (named_bytes now) (role_names m))
    \<and> stored SYSTEM_ROLE_PERMISSIONS_TABLE db' = add_rows (key_equal system_role_permissions_fields [0, 1])
        (stored SYSTEM_ROLE_PERMISSIONS_TABLE db) (map (grant_bytes now) (grant_list m))
    \<and> stored SYSTEM_USERS_TABLE db' = add_rows (key_equal system_users_fields [0])
        (stored SYSTEM_USERS_TABLE db) (map (named_bytes now) (user_names m))
    \<and> stored SYSTEM_USER_ROLES_TABLE db' = add_rows (key_equal system_user_roles_fields [0, 1])
        (stored SYSTEM_USER_ROLES_TABLE db) (map (assign_bytes now) (assign_list m))"
proof -
  note rdy = assms(2) [unfolded tables_ready_def layout_defs]
  note fit = rows_fit [OF assms(1), of now]
  note ne = names_differ names_differ [symmetric]
  have r1: "sys_ready tm db (SYSTEM_ROLES_TABLE, system_roles_fields, [0], 64 + 256 + 8 + 8)
      (length (map (named_bytes now) (role_names m)))" using rdy by simp
  obtain tm1 db1 where s1: "save_rows now SYSTEM_ROLES_TABLE (map Ok (map (named_bytes now) (role_names m))) (tm, db) = Ok (tm1, db1)"
    and e1: "sys_ready tm1 db1 roles_layout 0"
      "stored SYSTEM_ROLES_TABLE db1 = add_rows (key_equal system_roles_fields [0])
        (stored SYSTEM_ROLES_TABLE db) (map (named_bytes now) (role_names m))"
    and o1: "\<And>x. x \<noteq> SYSTEM_ROLES_TABLE \<Longrightarrow> stored x db1 = stored x db"
      "\<And>x F n. x \<noteq> SYSTEM_ROLES_TABLE \<Longrightarrow> sys_ready tm db (x, F) n \<Longrightarrow> sys_ready tm1 db1 (x, F) n"
    using save_rows_effect [OF r1 fit(1), of now] unfolding layout_defs by blast
  have r2: "sys_ready tm1 db1 (SYSTEM_ROLE_PERMISSIONS_TABLE, system_role_permissions_fields, [0, 1], 64 + 64 + 256 + 8)
      (length (map (grant_bytes now) (grant_list m)))" using rdy by (simp add: o1(2) ne)
  obtain tm2 db2 where s2: "save_rows now SYSTEM_ROLE_PERMISSIONS_TABLE (map Ok (map (grant_bytes now) (grant_list m))) (tm1, db1) = Ok (tm2, db2)"
    and e2: "sys_ready tm2 db2 permissions_layout 0"
      "stored SYSTEM_ROLE_PERMISSIONS_TABLE db2 = add_rows (key_equal system_role_permissions_fields [0, 1])
        (stored SYSTEM_ROLE_PERMISSIONS_TABLE db1) (map (grant_bytes now) (grant_list m))"
    and o2: "\<And>x. x \<noteq> SYSTEM_ROLE_PERMISSIONS_TABLE \<Longrightarrow> stored x db2 = stored x db1"
      "\<And>x F n. x \<noteq> SYSTEM_ROLE_PERMISSIONS_TABLE \<Longrightarrow> sys_ready tm1 db1 (x, F) n \<Longrightarrow> sys_ready tm2 db2 (x, F) n"
    using save_rows_effect [OF r2 fit(3), of now] unfolding layout_defs by blast
  have r3: "sys_ready tm2 db2 (SYSTEM_USERS_TABLE, system_users_fields, [0], 64 + 256 + 8 + 8)
      (length (map (named_bytes now) (user_names m)))" using rdy by (simp add: o1(2) o2(2) ne)
  obtain tm3 db3 where s3: "save_rows now SYSTEM_USERS_TABLE (map Ok (map (named_bytes now) (user_names m))) (tm2, db2) = Ok (tm3, db3)"
    and e3: "sys_ready tm3 db3 users_layout 0"
      "stored SYSTEM_USERS_TABLE db3 = add_rows (key_equal system_users_fields [0])
        (stored SYSTEM_USERS_TABLE db2) (map (named_bytes now) (user_names m))"
    and o3: "\<And>x. x \<noteq> SYSTEM_USERS_TABLE \<Longrightarrow> stored x db3 = stored x db2"
      "\<And>x F n. x \<noteq> SYSTEM_USERS_TABLE \<Longrightarrow> sys_ready tm2 db2 (x, F) n \<Longrightarrow> sys_ready tm3 db3 (x, F) n"
    using save_rows_effect [OF r3 fit(2), of now] unfolding layout_defs by blast
  have r4: "sys_ready tm3 db3 (SYSTEM_USER_ROLES_TABLE, system_user_roles_fields, [0, 1], 64 + 64 + 8)
      (length (map (assign_bytes now) (assign_list m)))" using rdy by (simp add: o1(2) o2(2) o3(2) ne)
  obtain tm4 db4 where s4: "save_rows now SYSTEM_USER_ROLES_TABLE (map Ok (map (assign_bytes now) (assign_list m))) (tm3, db3) = Ok (tm4, db4)"
    and e4: "sys_ready tm4 db4 user_roles_layout 0"
      "stored SYSTEM_USER_ROLES_TABLE db4 = add_rows (key_equal system_user_roles_fields [0, 1])
        (stored SYSTEM_USER_ROLES_TABLE db3) (map (assign_bytes now) (assign_list m))"
    and o4: "\<And>x. x \<noteq> SYSTEM_USER_ROLES_TABLE \<Longrightarrow> stored x db4 = stored x db3"
      "\<And>x F n. x \<noteq> SYSTEM_USER_ROLES_TABLE \<Longrightarrow> sys_ready tm3 db3 (x, F) n \<Longrightarrow> sys_ready tm4 db4 (x, F) n"
    using save_rows_effect [OF r4 fit(4), of now] unfolding layout_defs by blast
  have "save_to_system_tables now m (tm, db) = Ok (tm4, db4)"
    by (simp add: save_to_system_tables_def saved_rows [OF assms(1)] s1 s2 s3 s4 del: map_map)
  then show ?thesis
    using e1 e2 e3 e4 by (simp add: layout_defs o1 o2 o3 o4 ne)
qed

section \<open>Loading what was saved\<close>

definition grant_of_row :: "bytes \<Rightarrow> (string \<times> grant) option" where
  "grant_of_row rd =
     (let fs = system_role_permissions_fields; n = col_text fs rd 0; q = col_text fs rd 1; t = col_text fs rd 2 in
      if n \<noteq> '''' \<and> q \<noteq> ''''
      then map_option (\<lambda>p. (n, p, if t = '''' then None else Some t, None)) (perm_from_str q) else None)"

definition assign_of_row :: "bytes \<Rightarrow> (string \<times> string) option" where
  "assign_of_row rd =
     (let fs = system_user_roles_fields; u = col_text fs rd 0; r = col_text fs rd 1 in
      if u \<noteq> '''' \<and> r \<noteq> '''' then Some (u, r) else None)"

lemma table_rows_fields:
  "sys_ready tm db (nm, fs, F) k \<Longrightarrow> r \<in> set (table_rows nm db) \<Longrightarrow> t_fields (tdef (rr_table r)) = fs"
  by (auto simp: sys_ready_def table_rows_def dest!: scan_ref_table)

lemma image_stored: "(\<And>r. r \<in> set (table_rows nm db) \<Longrightarrow> f r = g (rr_bytes r))
    \<Longrightarrow> f ` set (table_rows nm db) = g ` stored nm db"
  unfolding stored_def image_image by (intro image_cong) auto

lemma load_policy_stored:
  assumes "sys_ready tm db roles_layout a" and "sys_ready tm db permissions_layout b"
    and "sys_ready tm db users_layout c" and "sys_ready tm db user_roles_layout d"
  defines "R \<equiv> (\<lambda>rd. col_text system_roles_fields rd 0) ` stored SYSTEM_ROLES_TABLE db - {''''}"
    and "U \<equiv> (\<lambda>rd. col_text system_users_fields rd 0) ` stored SYSTEM_USERS_TABLE db - {''''}"
  shows "policy_of (load_from_system_tables db) =
    \<lparr>role_set = R, user_set = U,
     granted = {(n, g). n \<in> R \<and> Some (n, g) \<in> grant_of_row ` stored SYSTEM_ROLE_PERMISSIONS_TABLE db},
     assigned = {(u, n). u \<in> U \<and> Some (u, n) \<in> assign_of_row ` stored SYSTEM_USER_ROLES_TABLE db}\<rparr>"
proof -
  note f = assms(1-4) [unfolded layout_defs, THEN table_rows_fields]
  have "(\<lambda>r. str_col r 0) ` set (table_rows SYSTEM_ROLES_TABLE db) - {''''} = R"
    unfolding R_def by (subst image_stored) (auto intro!: str_col_text dest: f(1) simp: field_defs)
  moreover have "(\<lambda>r. str_col r 0) ` set (table_rows SYSTEM_USERS_TABLE db) - {''''} = U"
    unfolding U_def by (subst image_stored) (auto intro!: str_col_text dest: f(3) simp: field_defs)
  moreover have "row_grant ` set (table_rows SYSTEM_ROLE_PERMISSIONS_TABLE db)
      = grant_of_row ` stored SYSTEM_ROLE_PERMISSIONS_TABLE db"
  proof (rule image_stored)
    fix r assume "r \<in> set (table_rows SYSTEM_ROLE_PERMISSIONS_TABLE db)"
    then have "str_col r j = col_text system_role_permissions_fields (rr_bytes r) j" if "j \<le> 2" for j
      using that by (intro str_col_text f(2)) (auto simp: field_defs le_Suc_eq numeral_2_eq_2)
    then show "row_grant r = grant_of_row (rr_bytes r)" by (simp add: row_grant_def grant_of_row_def Let_def)
  qed
  moreover have "row_assign ` set (table_rows SYSTEM_USER_ROLES_TABLE db)
      = assign_of_row ` stored SYSTEM_USER_ROLES_TABLE db"
  proof (rule image_stored)
    fix r assume "r \<in> set (table_rows SYSTEM_USER_ROLES_TABLE db)"
    then have "str_col r j = col_text system_user_roles_fields (rr_bytes r) j" if "j \<le> 1" for j
      using that by (intro str_col_text f(4)) (auto simp: field_defs le_Suc_eq)
    then show "row_assign r = assign_of_row (rr_bytes r)" by (simp add: row_assign_def assign_of_row_def Let_def)
  qed
  ultimately show ?thesis unfolding load_policy by (simp add: image_iff eq_commute)
qed

text \<open>A grant on a whole table.\<close>

definition table_grant :: "string \<times> Permission \<times> string option \<Rightarrow> string \<times> grant" where
  "table_grant x = (case x of (n, p, t) \<Rightarrow> (n, p, t, None))"

lemma table_grant_simp [simp]: "table_grant (n, p, t) = (n, p, t, None)"
  by (simp add: table_grant_def)

lemma grant_of_saved:
  assumes "names_ok m" and "(n, p, t) \<in> set (grant_list m)"
  shows "grant_of_row (grant_bytes now (n, p, t)) = Some (n, p, t, None)"
proof -
  note g = grant_text [OF assms]
  note c = permission_row_text [OF g(1) perm_text_ok g(2), of now p]
  have "perm_to_string p \<noteq> []" "n \<noteq> []" using perm_text_ok [of p] g(1) by (auto simp: text_ok_def)
  moreover have "(if opt_text t = [] then None else Some (opt_text t)) = t"
    using g(4) by (cases t) (auto simp: opt_text_def)
  ultimately show ?thesis using c by (auto simp: grant_of_row_def grant_bytes_def Let_def split: if_splits)
qed

lemma assign_of_saved:
  assumes "names_ok m" and "(u, r) \<in> set (assign_list m)"
  shows "assign_of_row (assign_bytes now (u, r)) = Some (u, r)"
  using user_role_row_text [OF assign_text [OF assms], of now] assign_text [OF assms]
  by (auto simp: assign_of_row_def assign_bytes_def text_ok_def Let_def)

lemma first_of_id [simp]: "first_of (\<lambda>x. x) xs = set xs"
  by (rule first_of_distinct) simp

lemma saved_texts:
  assumes "names_ok m"
  shows "(\<lambda>rd. col_text system_roles_fields rd 0) ` named_bytes now ` set (role_names m) - {''''} = set (role_names m)"
    and "(\<lambda>rd. col_text system_users_fields rd 0) ` named_bytes now ` set (user_names m) - {''''} = set (user_names m)"
proof -
  have n: "text_ok 64 n" if "n \<in> set (role_names m) \<union> set (user_names m)" for n
    using assms that by (auto simp: names_ok_def list_all_iff)
  have "[] \<notin> set (role_names m)" "[] \<notin> set (user_names m)"
    using n [of "[]"] by (auto simp: text_ok_def)
  then show "(\<lambda>rd. col_text system_roles_fields rd 0) ` named_bytes now ` set (role_names m) - {''''} = set (role_names m)"
    "(\<lambda>rd. col_text system_users_fields rd 0) ` named_bytes now ` set (user_names m) - {''''} = set (user_names m)"
    using n by (auto simp: image_image named_row_text)
qed

lemma wf_names:
  assumes "wf_rbac m"
  shows "set (role_names m) = dom (map_of (roles m))" and "set (user_names m) = dom (map_of (users m))"
    and "(u, r) \<in> set (assign_list m) \<longleftrightarrow> (u, r) \<in> assigned (policy_of m)"
    and "(n, p, t) \<in> set (grant_list m) \<longleftrightarrow> (\<exists>c. (n, p, t, c) \<in> granted (policy_of m))"
proof -
  have r: "role_name x = n" if "(n, x) \<in> set (roles m)" for n x
    using assms that by (auto simp: wf_rbac_def)
  have u: "user_name x = n" if "(n, x) \<in> set (users m)" for n x
    using assms that by (auto simp: wf_rbac_def)
  have d: "distinct (map fst (roles m))" "distinct (map fst (users m))"
    using assms by (auto simp: wf_rbac_def)
  show "set (role_names m) = dom (map_of (roles m))" "set (user_names m) = dom (map_of (users m))"
  proof -
    have "role_names m = map fst (roles m)" "user_names m = map fst (users m)"
      unfolding role_names_def user_names_def using r u by auto
    then show "set (role_names m) = dom (map_of (roles m))" "set (user_names m) = dom (map_of (users m))"
      by (simp_all add: dom_map_of_conv_image_fst)
  qed
  show "(u, r) \<in> set (assign_list m) \<longleftrightarrow> (u, r) \<in> assigned (policy_of m)"
  proof -
    have "(u, r) \<in> set (assign_list m) \<longleftrightarrow> (\<exists>x. (u, x) \<in> set (users m) \<and> r \<in> set (user_roles x))"
      unfolding assign_list_def using u by (auto 0 3 simp: case_prod_beta intro: rev_bexI)
    then show ?thesis using d(2) by (simp add: policy_of_def)
  qed
  show "(n, p, t) \<in> set (grant_list m) \<longleftrightarrow> (\<exists>c. (n, p, t, c) \<in> granted (policy_of m))"
  proof -
    have "(n, p, t) \<in> set (grant_list m) \<longleftrightarrow> (\<exists>x c. (n, x) \<in> set (roles m) \<and> (p, t, c) \<in> set (permissions x))"
      unfolding grant_list_def using r by (auto 0 3 simp: case_prod_beta image_iff intro: rev_bexI)
    then show ?thesis using d(1) by (auto simp: policy_of_def)
  qed
qed

text \<open>The policy that survives a save and a load: one grant per role and permission, no columns.\<close>

definition saved_policy :: "RbacManager \<Rightarrow> policy" where
  "saved_policy m =
     (policy_of m)\<lparr>granted := table_grant ` first_of (\<lambda>(n, p, t). (n, p)) (grant_list m)\<rparr>"

text \<open>Every role holds each permission at most once, and on whole tables only.\<close>

definition plain_grants :: "RbacManager \<Rightarrow> bool" where
  "plain_grants m \<longleftrightarrow> (\<forall>(n, r)\<in>set (roles m).
     distinct (map fst (permissions r)) \<and> (\<forall>(p, t, c)\<in>set (permissions r). c = None))"

lemma saved_policy_plain:
  assumes "wf_rbac m" and "plain_grants m"
  shows "saved_policy m = policy_of m"
proof -
  have pl: "distinct (map fst (permissions r))" "\<forall>(p, t, c)\<in>set (permissions r). c = None"
    if "map_of (roles m) n = Some r" for n r
    using assms(2) map_of_SomeD [OF that] by (auto simp: plain_grants_def)
  have p: "g = g'" if g: "(n, g) \<in> granted (policy_of m)" "(n, g') \<in> granted (policy_of m)" "fst g = fst g'" for n g g'
  proof -
    obtain r where r: "map_of (roles m) n = Some r" "g \<in> set (permissions r)" "g' \<in> set (permissions r)"
      using g by (auto simp: policy_of_def)
    then show ?thesis
      using eq_key_imp_eq_value [OF pl(1) [OF r(1)], of "fst g" "snd g" "snd g'"] g(3)
      by (simp add: prod_eq_iff) (metis prod.collapse)
  qed
  have c: "c = None" if "(n, p, t, c) \<in> granted (policy_of m)" for n p t c
    using that by (auto simp: policy_of_def dest!: pl(2))
  have "inj_on (\<lambda>(n, p, t). (n, p)) (set (grant_list m))"
    by (rule inj_onI) (use p in \<open>fastforce simp: wf_names(4) [OF assms(1)]\<close>)
  then have "first_of (\<lambda>(n, p, t). (n, p)) (grant_list m) = set (grant_list m)"
    by (rule first_of_distinct)
  moreover have "table_grant ` set (grant_list m) = granted (policy_of m)"
  proof (rule set_eqI)
    fix x :: "string \<times> grant"
    obtain n p t c where x: "x = (n, p, t, c)" by (cases x) auto
    have "x \<in> table_grant ` set (grant_list m) \<longleftrightarrow> c = None \<and> (n, p, t) \<in> set (grant_list m)"
      by (auto simp: x table_grant_def intro!: rev_image_eqI)
    then show "x \<in> table_grant ` set (grant_list m) \<longleftrightarrow> x \<in> granted (policy_of m)"
      using c wf_names(4) [OF assms(1)] by (auto simp: x)
  qed
  ultimately show ?thesis by (simp add: saved_policy_def)
qed

lemma add_rows_saved:
  assumes "names_ok m"
  shows "add_rows (key_equal system_roles_fields [0]) {} (map (named_bytes now) (role_names m))
      = named_bytes now ` set (role_names m)"
    and "add_rows (key_equal system_users_fields [0]) {} (map (named_bytes now) (user_names m))
      = named_bytes now ` set (user_names m)"
    and "add_rows (key_equal system_role_permissions_fields [0, 1]) {} (map (grant_bytes now) (grant_list m))
      = grant_bytes now ` first_of (\<lambda>(n, p, t). (n, p)) (grant_list m)"
    and "add_rows (key_equal system_user_roles_fields [0, 1]) {} (map (assign_bytes now) (assign_list m))
      = assign_bytes now ` set (assign_list m)"
proof -
  have n: "\<forall>n\<in>set (role_names m). text_ok 64 n" "\<forall>n\<in>set (user_names m). text_ok 64 n"
    using assms by (auto simp: names_ok_def list_all_iff)
  show "add_rows (key_equal system_roles_fields [0]) {} (map (named_bytes now) (role_names m))
      = named_bytes now ` set (role_names m)"
    by (subst add_rows_first [where k = "\<lambda>x. x"]) (use n(1) in \<open>auto simp: named_row_key\<close>)
  show "add_rows (key_equal system_users_fields [0]) {} (map (named_bytes now) (user_names m))
      = named_bytes now ` set (user_names m)"
    by (subst add_rows_first [where k = "\<lambda>x. x"]) (use n(2) in \<open>auto simp: named_row_key\<close>)
  show "add_rows (key_equal system_role_permissions_fields [0, 1]) {} (map (grant_bytes now) (grant_list m))
      = grant_bytes now ` first_of (\<lambda>(n, p, t). (n, p)) (grant_list m)"
  proof (rule add_rows_first)
    fix x y assume xy: "x \<in> set (grant_list m)" "y \<in> set (grant_list m)"
    obtain n p t n' p' t' where e: "x = (n, p, t)" "y = (n', p', t')" by (cases x; cases y) auto
    note g = grant_text [OF assms xy(1) [unfolded e]] and g' = grant_text [OF assms xy(2) [unfolded e]]
    show "key_equal system_role_permissions_fields [0, 1] (grant_bytes now x) (grant_bytes now y)
        \<longleftrightarrow> (case x of (n, p, t) \<Rightarrow> (n, p)) = (case y of (n, p, t) \<Rightarrow> (n, p))"
      using permission_row_key [OF g(1) perm_text_ok g(3) g'(1) perm_text_ok g'(3)]
      by (simp add: e grant_bytes_def)
  qed
  show "add_rows (key_equal system_user_roles_fields [0, 1]) {} (map (assign_bytes now) (assign_list m))
      = assign_bytes now ` set (assign_list m)"
  proof (subst add_rows_first [where k = "\<lambda>x. x"])
    fix x y assume xy: "x \<in> set (assign_list m)" "y \<in> set (assign_list m)"
    obtain u r u' r' where e: "x = (u, r)" "y = (u', r')" by (cases x; cases y) auto
    show "key_equal system_user_roles_fields [0, 1] (assign_bytes now x) (assign_bytes now y) \<longleftrightarrow> x = y"
      using user_role_row_key [OF assign_text [OF assms xy(1) [unfolded e]] assign_text [OF assms xy(2) [unfolded e]]]
      by (simp add: e assign_bytes_def)
  qed simp
qed

lemma saved_grants:
  assumes "names_ok m" and "S \<subseteq> set (grant_list m)"
  shows "Some (n, g) \<in> grant_of_row ` grant_bytes now ` S \<longleftrightarrow> (n, g) \<in> table_grant ` S"
proof -
  have "grant_of_row (grant_bytes now x) = Some (table_grant x)" if "x \<in> S" for x
    using grant_of_saved [OF assms(1)] assms(2) that by (cases x) (auto simp: table_grant_def)
  then have "grant_of_row ` grant_bytes now ` S = Some ` table_grant ` S"
    unfolding image_image by (intro image_cong) auto
  then show ?thesis by auto
qed

lemma saved_assigns:
  assumes "names_ok m"
  shows "Some (u, r) \<in> assign_of_row ` assign_bytes now ` set (assign_list m) \<longleftrightarrow> (u, r) \<in> set (assign_list m)"
proof -
  have "assign_of_row (assign_bytes now x) = Some x" if "x \<in> set (assign_list m)" for x
    using assign_of_saved [OF assms, of "fst x" "snd x"] that by simp
  then have "assign_of_row ` assign_bytes now ` set (assign_list m) = Some ` set (assign_list m)"
    unfolding image_image by (intro image_cong) auto
  then show ?thesis by auto
qed

lemma wf_grant_role: "(n, g) \<in> granted (policy_of m) \<Longrightarrow> n \<in> dom (map_of (roles m))"
  by (auto simp: policy_of_def)

lemma wf_assign_user: "(u, r) \<in> assigned (policy_of m) \<Longrightarrow> u \<in> dom (map_of (users m))"
  by (auto simp: policy_of_def)

section \<open>New system tables\<close>

lemma position_name_app:
  "position_name nm (xs @ ys) =
    (case position_name nm xs of Some k \<Rightarrow> Some k | None \<Rightarrow> map_option (\<lambda>j. length xs + j) (position_name nm ys))"
  by (induction xs; cases "position_name nm ys") (auto split: option.splits)

lemma new_system_table:
  fixes tm :: "'lm TransactionManager"
  assumes "new_with_options (Some dat) (Some hs) (Some fr) (system_def now n nm fs pk sz) False = Ok t"
    and "length dat = 512" and "length hs = 512" and "\<forall>r\<in>set dat. length r = sz"
    and "\<forall>h\<in>set hs. create_tx_id h = 0 \<and> delete_tx_id h = 0"
    and "pk \<noteq> []" and "\<forall>i\<in>set pk. i < length fs" and "\<forall>f\<in>set fs. unique f \<longrightarrow> f_primary_key f"
  shows "table_good tm t \<and> t_fields (tdef t) = fs \<and> primary_key (tdef t) = pk \<and> record_size t = sz
    \<and> record_count t = 0 \<and> cap t = 512 \<and> t_name (tdef t) = nm \<and> ran (contents t) = {}"
proof -
  let ?d = "system_def now n nm fs pk sz"
  have d: "max_records ?d = 512" "def_record_size ?d = sz" "t_fields ?d = fs" "primary_key ?d = pk" "t_name ?d = nm"
    by (simp_all add: system_def_def)
  note w = wf_table_new [of ?d dat hs fr t, unfolded d, OF _ assms(2-4) assms(1)]
  have "record_count t = 0" using assms(1) by (auto simp: new_with_options_def split: if_splits)
  moreover have "headers_ok (tx_id_counter tm) t"
    using w assms(5) by (auto simp: headers_ok_def init_header_def)
  moreover have "used_slots t = {}"
    using w by (auto simp: contents_def fun_eq_iff split: if_splits)
  ultimately show ?thesis
    using w assms(6-8) d by (auto simp: table_good_def in_service_def pk_in_range_def pk_unique_def)
qed

lemma push_table_ready:
  fixes tm :: "'lm TransactionManager"
  assumes "push_table (Some dat, Some hs, Some fr) (system_def now (length (tables db)) nm fs pk sz) db = Ok db'"
    and "length dat = 512" and "length hs = 512" and "\<forall>r\<in>set dat. length r = sz"
    and "\<forall>h\<in>set hs. create_tx_id h = 0 \<and> delete_tx_id h = 0"
    and "pk \<noteq> []" and "\<forall>i\<in>set pk. i < length fs" and "\<forall>f\<in>set fs. unique f \<longrightarrow> f_primary_key f"
    and "\<not> has_table nm db" and "k \<le> 512"
  shows "sys_ready tm db' (nm, fs, pk, sz) k \<and> stored nm db' = {}
    \<and> (\<forall>x. x \<noteq> nm \<longrightarrow> stored x db' = stored x db \<and> has_table x db' = has_table x db)
    \<and> (\<forall>x F n. x \<noteq> nm \<longrightarrow> sys_ready tm db (x, F) n \<longrightarrow> sys_ready tm db' (x, F) n)"
proof -
  obtain t where n: "new_with_options (Some dat) (Some hs) (Some fr)
        (system_def now (length (tables db)) nm fs pk sz) False = Ok t"
    and db': "tables db' = tables db @ [Some t]"
    using assms(1) by (cases "new_with_options (Some dat) (Some hs) (Some fr)
        (system_def now (length (tables db)) nm fs pk sz) False") (auto simp: push_table_def)
  note t = new_system_table [OF n assms(2-8), of tm]
  have p: "position_name nm (tables db') = Some (length (tables db))"
    using position_name_app [of nm "tables db" "[Some t]"] assms(9) t by (simp add: db' has_table_def)
  have po: "position_name x (tables db') = position_name x (tables db)" if "x \<noteq> nm" for x
    using position_name_app [of x "tables db" "[Some t]"] that t by (simp add: db' split: option.split)
  have g: "get_table db' (length (tables db)) = Ok t" by (simp add: get_table_def db')
  have go: "get_table db' j = get_table db j" if "position_name x (tables db) = Some j" for x j
    using position_name_at [OF that] by (auto simp: get_table_def db' nth_append)
  have "sys_ready tm db' (nm, fs, pk, sz) k" using p g t assms(10) by (auto simp: sys_ready_def)
  moreover have "stored nm db' = {}" using stored_at [OF p g] t by simp
  moreover have "stored x db' = stored x db \<and> has_table x db' = has_table x db" if "x \<noteq> nm" for x
    using po [OF that] go by (cases "position_name x (tables db)") (simp_all add: stored_def table_rows_def has_table_def)
  moreover have "sys_ready tm db' (x, F) n" if "x \<noteq> nm" "sys_ready tm db (x, F) n" for x F n
    using that(2) po [OF that(1)] go by (auto simp: sys_ready_def)
  ultimately show ?thesis by blast
qed

definition zero_memory :: "nat \<Rightarrow> table_memory" where
  "zero_memory sz =
     (Some (replicate 512 (replicate sz 0)),
      Some (replicate 512 zero_header), Some [])"

lemma push_zero_table:
  fixes tm :: "'lm TransactionManager"
  assumes "pk \<noteq> []" and "\<forall>i\<in>set pk. i < length fs" and "\<forall>f\<in>set fs. unique f \<longrightarrow> f_primary_key f"
    and "\<not> has_table nm db"
  shows "\<exists>db'. push_table (zero_memory sz) (system_def now (length (tables db)) nm fs pk sz) db = Ok db'
    \<and> (\<forall>k\<le>512. sys_ready tm db' (nm, fs, pk, sz) k)
    \<and> ((\<forall>x. stored x db = {}) \<longrightarrow> (\<forall>x. stored x db' = {})) \<and> (\<forall>x. x \<noteq> nm \<longrightarrow> has_table x db' = has_table x db)
    \<and> (\<forall>x F n. x \<noteq> nm \<longrightarrow> sys_ready tm db (x, F) n \<longrightarrow> sys_ready tm db' (x, F) n)"
proof -
  obtain db' where p: "push_table (zero_memory sz) (system_def now (length (tables db)) nm fs pk sz) db = Ok db'"
    by (auto simp: push_table_def zero_memory_def new_with_options_def system_def_def)
  note r = push_table_ready [OF p [unfolded zero_memory_def] _ _ _ _ assms, of _ tm]
  have "sys_ready tm db' (nm, fs, pk, sz) k" if "k \<le> 512" for k
    using r [OF _ _ _ _ that] by (auto simp: zero_header_def)
  moreover have st: "stored nm db' = {}" "\<forall>x. x \<noteq> nm \<longrightarrow> stored x db' = stored x db"
    "\<forall>x. x \<noteq> nm \<longrightarrow> has_table x db' = has_table x db"
    "\<forall>x F n. x \<noteq> nm \<longrightarrow> sys_ready tm db (x, F) n \<longrightarrow> sys_ready tm db' (x, F) n"
    using r [of 0] by (auto simp: zero_header_def)
  moreover from st(1,2) have "(\<forall>x. stored x db = {}) \<longrightarrow> (\<forall>x. stored x db' = {})" by metis
  ultimately show ?thesis using p by blast
qed

lemma field_shapes:
  "\<forall>i\<in>set [0]. i < length system_roles_fields" "\<forall>f\<in>set system_roles_fields. unique f \<longrightarrow> f_primary_key f"
  "\<forall>i\<in>set [0, 1]. i < length system_role_permissions_fields"
  "\<forall>f\<in>set system_role_permissions_fields. unique f \<longrightarrow> f_primary_key f"
  "\<forall>i\<in>set [0]. i < length system_users_fields" "\<forall>f\<in>set system_users_fields. unique f \<longrightarrow> f_primary_key f"
  "\<forall>i\<in>set [0, 1]. i < length system_user_roles_fields"
  "\<forall>f\<in>set system_user_roles_fields. unique f \<longrightarrow> f_primary_key f"
  by (simp_all add: field_defs)

text \<open>The four tables of the access-control manager, created over zero memory.\<close>

lemma fresh_tables:
  fixes tm :: "'lm TransactionManager"
  assumes "\<forall>x. \<not> has_table x db" and "\<forall>x. stored x db = {}"
  shows "\<exists>db1 db2 db3 db'. create_system_roles_table now (zero_memory 336) db = Ok db1
    \<and> create_system_role_permissions_table now (zero_memory 392) db1 = Ok db2
    \<and> create_system_users_table now (zero_memory 336) db2 = Ok db3
    \<and> create_system_user_roles_table now (zero_memory 136) db3 = Ok db'
    \<and> (\<forall>k\<le>512. sys_ready tm db' roles_layout k \<and> sys_ready tm db' permissions_layout k
         \<and> sys_ready tm db' users_layout k \<and> sys_ready tm db' user_roles_layout k)
    \<and> (\<forall>x. stored x db' = {})"
proof -
  note ne = names_differ names_differ [symmetric]
  have cr: "create_system_roles_table now mems d = push_table mems
      (system_def now (length (tables d)) SYSTEM_ROLES_TABLE system_roles_fields [0] 336) d"
    "create_system_role_permissions_table now mems d = push_table mems
      (system_def now (length (tables d)) SYSTEM_ROLE_PERMISSIONS_TABLE system_role_permissions_fields [0, 1] 392) d"
    "create_system_users_table now mems d = push_table mems
      (system_def now (length (tables d)) SYSTEM_USERS_TABLE system_users_fields [0] 336) d"
    "create_system_user_roles_table now mems d = push_table mems
      (system_def now (length (tables d)) SYSTEM_USER_ROLES_TABLE system_user_roles_fields [0, 1] 136) d" for mems d
    by (simp_all add: create_system_roles_table_def create_system_role_permissions_table_def
        create_system_users_table_def create_system_user_roles_table_def)
  have h0: "\<not> has_table SYSTEM_ROLES_TABLE db" using assms(1) by simp
  obtain db1 where c1: "create_system_roles_table now (zero_memory 336) db = Ok db1"
    and r1: "\<forall>k\<le>512. sys_ready tm db1 (SYSTEM_ROLES_TABLE, system_roles_fields, [0], 336) k"
    and s1: "\<forall>x. stored x db1 = {}" "\<forall>x. x \<noteq> SYSTEM_ROLES_TABLE \<longrightarrow> has_table x db1 = has_table x db"
    using push_zero_table [OF _ field_shapes(1,2) h0, of 336 now tm] assms(2) unfolding cr by blast
  have h1: "\<not> has_table SYSTEM_ROLE_PERMISSIONS_TABLE db1" using s1(2) ne assms(1) by simp
  obtain db2 where c2: "create_system_role_permissions_table now (zero_memory 392) db1 = Ok db2"
    and r2: "\<forall>k\<le>512. sys_ready tm db2 (SYSTEM_ROLE_PERMISSIONS_TABLE, system_role_permissions_fields, [0, 1], 392) k"
    and s2: "\<forall>x. stored x db2 = {}" "\<forall>x. x \<noteq> SYSTEM_ROLE_PERMISSIONS_TABLE \<longrightarrow> has_table x db2 = has_table x db1"
    and k2: "\<forall>x F n. x \<noteq> SYSTEM_ROLE_PERMISSIONS_TABLE \<longrightarrow> sys_ready tm db1 (x, F) n \<longrightarrow> sys_ready tm db2 (x, F) n"
    using push_zero_table [OF _ field_shapes(3,4) h1, of 392 now tm] s1(1) unfolding cr by blast
  have h2: "\<not> has_table SYSTEM_USERS_TABLE db2" using s1(2) s2(2) ne assms(1) by simp
  obtain db3 where c3: "create_system_users_table now (zero_memory 336) db2 = Ok db3"
    and r3: "\<forall>k\<le>512. sys_ready tm db3 (SYSTEM_USERS_TABLE, system_users_fields, [0], 336) k"
    and s3: "\<forall>x. stored x db3 = {}" "\<forall>x. x \<noteq> SYSTEM_USERS_TABLE \<longrightarrow> has_table x db3 = has_table x db2"
    and k3: "\<forall>x F n. x \<noteq> SYSTEM_USERS_TABLE \<longrightarrow> sys_ready tm db2 (x, F) n \<longrightarrow> sys_ready tm db3 (x, F) n"
    using push_zero_table [OF _ field_shapes(5,6) h2, of 336 now tm] s2(1) unfolding cr by blast
  have h3: "\<not> has_table SYSTEM_USER_ROLES_TABLE db3" using s1(2) s2(2) s3(2) ne assms(1) by simp
  obtain db4 where c4: "create_system_user_roles_table now (zero_memory 136) db3 = Ok db4"
    and r4: "\<forall>k\<le>512. sys_ready tm db4 (SYSTEM_USER_ROLES_TABLE, system_user_roles_fields, [0, 1], 136) k"
    and s4: "\<forall>x. stored x db4 = {}"
    and k4: "\<forall>x F n. x \<noteq> SYSTEM_USER_ROLES_TABLE \<longrightarrow> sys_ready tm db3 (x, F) n \<longrightarrow> sys_ready tm db4 (x, F) n"
    using push_zero_table [OF _ field_shapes(7,8) h3, of 136 now tm] s3(1) unfolding cr by blast
  have "\<forall>k\<le>512. sys_ready tm db4 roles_layout k \<and> sys_ready tm db4 permissions_layout k
      \<and> sys_ready tm db4 users_layout k \<and> sys_ready tm db4 user_roles_layout k"
    unfolding layout_defs using r1 r2 r3 r4 k2 k3 k4 ne by simp
  with c1 c2 c3 c4 s4 show ?thesis by blast
qed

definition empty_db :: Database where
  "empty_db = \<lparr>tables = [], primary_indices = []\<rparr>"

lemma new_names_ok: "names_ok RbacManager_new"
  by (simp add: names_ok_def role_names_def user_names_def grant_list_def assign_list_def RbacManager_new_def
      admin_role_def rbac_data_defs text_ok_def str_bytes_def of_char_def)

lemma new_plain: "plain_grants RbacManager_new"
  by (simp add: plain_grants_def RbacManager_new_def admin_role_def rbac_data_defs)

lemma fresh_tables_new:
  "\<exists>db. tables_ready demo_tm db RbacManager_new \<and> (\<forall>nm. stored nm db = {})"
proof -
  have "\<forall>x. \<not> has_table x empty_db" "\<forall>x. stored x empty_db = {}"
    by (simp_all add: empty_db_def has_table_def stored_def table_rows_def)
  from fresh_tables [OF this, of 0 demo_tm] obtain db where
    r: "\<forall>k\<le>512. sys_ready demo_tm db roles_layout k \<and> sys_ready demo_tm db permissions_layout k
         \<and> sys_ready demo_tm db users_layout k \<and> sys_ready demo_tm db user_roles_layout k"
    and s: "\<forall>x. stored x db = {}" by blast
  have "length (role_names RbacManager_new) = 1" "length (user_names RbacManager_new) = 1"
    "length (grant_list RbacManager_new) = 7" "length (assign_list RbacManager_new) = 1"
    by (simp_all add: role_names_def user_names_def grant_list_def assign_list_def
        RbacManager_new_def admin_role_def rbac_data_defs)
  with r s show ?thesis unfolding tables_ready_def by (intro exI [of _ db]) simp
qed

lemma save_load_policy:
  assumes "wf_rbac m" and "names_ok m" and "tables_ready tm db m"
    and "\<forall>nm. stored nm db = {}"
  shows "\<exists>tm' db'. save_to_system_tables now m (tm, db) = Ok (tm', db')
    \<and> policy_of (load_from_system_tables db') = saved_policy m
    \<and> tables_ready tm' db' \<lparr>roles = [], users = []\<rparr>"
proof -
  obtain tm' db' where s: "save_to_system_tables now m (tm, db) = Ok (tm', db')"
    and rdy: "sys_ready tm' db' roles_layout 0" "sys_ready tm' db' permissions_layout 0"
      "sys_ready tm' db' users_layout 0" "sys_ready tm' db' user_roles_layout 0"
    and st: "stored SYSTEM_ROLES_TABLE db' = add_rows (key_equal system_roles_fields [0]) {}
        (map (named_bytes now) (role_names m))"
      "stored SYSTEM_ROLE_PERMISSIONS_TABLE db' = add_rows (key_equal system_role_permissions_fields [0, 1]) {}
        (map (grant_bytes now) (grant_list m))"
      "stored SYSTEM_USERS_TABLE db' = add_rows (key_equal system_users_fields [0]) {}
        (map (named_bytes now) (user_names m))"
      "stored SYSTEM_USER_ROLES_TABLE db' = add_rows (key_equal system_user_roles_fields [0, 1]) {}
        (map (assign_bytes now) (assign_list m))"
    using save_effect [OF assms(2,3), of now] assms(4) by auto
  let ?F = "first_of (\<lambda>(n, p, t). (n, p)) (grant_list m)"
  have "policy_of (load_from_system_tables db') =
      \<lparr>role_set = dom (map_of (roles m)), user_set = dom (map_of (users m)),
       granted = {(n, g). n \<in> dom (map_of (roles m)) \<and> (n, g) \<in> table_grant ` ?F},
       assigned = {(u, r). u \<in> dom (map_of (users m)) \<and> (u, r) \<in> set (assign_list m)}\<rparr>"
    unfolding load_policy_stored [OF rdy] st add_rows_saved [OF assms(2)] saved_texts [OF assms(2)]
      saved_grants [OF assms(2) first_of_subset] saved_assigns [OF assms(2)]
    by (simp only: wf_names(1,2) [OF assms(1)])
  also have "\<dots> = saved_policy m"
  proof -
    have "n \<in> dom (map_of (roles m))" if "(n, p, t) \<in> ?F" for n p t
      using that first_of_subset [of _ "grant_list m"] wf_names(4) [OF assms(1)] wf_grant_role by blast
    then have "{(n, g). n \<in> dom (map_of (roles m)) \<and> (n, g) \<in> table_grant ` ?F} = table_grant ` ?F"
      by (force simp: table_grant_def)
    then show ?thesis
      using wf_names(3) [OF assms(1)] wf_assign_user by (auto simp: saved_policy_def policy_of_def [of m])
  qed
  finally show ?thesis using s rdy by (auto simp: tables_ready_def role_names_def user_names_def grant_list_def assign_list_def)
qed

lemma allowed_mono:
  assumes "allowed s u p t c" and "granted s \<subseteq> granted s'" and "assigned s \<subseteq> assigned s'"
  shows "allowed s' u p t c"
  using assms unfolding allowed_def by blast

lemma save_keeps:
  assumes "names_ok m" and "tables_ready tm db m"
  shows "\<exists>tm' db'. save_to_system_tables now m (tm, db) = Ok (tm', db')
    \<and> role_set (policy_of (load_from_system_tables db)) \<subseteq> role_set (policy_of (load_from_system_tables db'))
    \<and> user_set (policy_of (load_from_system_tables db)) \<subseteq> user_set (policy_of (load_from_system_tables db'))
    \<and> granted (policy_of (load_from_system_tables db)) \<subseteq> granted (policy_of (load_from_system_tables db'))
    \<and> assigned (policy_of (load_from_system_tables db)) \<subseteq> assigned (policy_of (load_from_system_tables db'))"
proof -
  obtain tm' db' where s: "save_to_system_tables now m (tm, db) = Ok (tm', db')"
    and rdy: "sys_ready tm' db' roles_layout 0" "sys_ready tm' db' permissions_layout 0"
      "sys_ready tm' db' users_layout 0" "sys_ready tm' db' user_roles_layout 0"
    and sub: "stored SYSTEM_ROLES_TABLE db \<subseteq> stored SYSTEM_ROLES_TABLE db'"
      "stored SYSTEM_ROLE_PERMISSIONS_TABLE db \<subseteq> stored SYSTEM_ROLE_PERMISSIONS_TABLE db'"
      "stored SYSTEM_USERS_TABLE db \<subseteq> stored SYSTEM_USERS_TABLE db'"
      "stored SYSTEM_USER_ROLES_TABLE db \<subseteq> stored SYSTEM_USER_ROLES_TABLE db'"
    using save_effect [OF assms, of now] add_rows_mono by fastforce
  note rdy0 = assms(2) [unfolded tables_ready_def]
  note p = load_policy_stored [OF rdy] and
    p0 = load_policy_stored [OF rdy0 [THEN conjunct1] rdy0 [THEN conjunct2, THEN conjunct1]
      rdy0 [THEN conjunct2, THEN conjunct2, THEN conjunct1] rdy0 [THEN conjunct2, THEN conjunct2, THEN conjunct2]]
  let ?old = "policy_of (load_from_system_tables db)" and ?new = "policy_of (load_from_system_tables db')"
  have "role_set ?old \<subseteq> role_set ?new" "user_set ?old \<subseteq> user_set ?new" "granted ?old \<subseteq> granted ?new"
    "assigned ?old \<subseteq> assigned ?new"
    unfolding p p0 using sub by (auto dest: subsetD)
  with s show ?thesis by blast
qed

section \<open>Properties\<close>



text \<open>
  (C26) A save never takes anything away.  The rows of the system tables are not cleared before the
  manager is written (the calls are commented out), so whatever a manager loaded before the save
  allows, a manager loaded after it allows too, whichever manager was saved: dropped roles, dropped
  users and revoked permissions come back with the next load.
\<close>

theorem rbac_save_only_adds:
  assumes "names_ok m" and "tables_ready tm db m"
    and "check_permission u p t c (load_from_system_tables db) = Inr True"
  shows "\<exists>tm' db'. save_to_system_tables now m (tm, db) = Ok (tm', db')
    \<and> check_permission u p t c (load_from_system_tables db') = Inr True"
proof -
  have a: "u \<in> user_set (policy_of (load_from_system_tables db))"
    "allowed (policy_of (load_from_system_tables db)) u p t c"
    using assms(3) unfolding check_permission_policy by (auto split: if_splits)
  obtain tm' db' where s: "save_to_system_tables now m (tm, db) = Ok (tm', db')"
    and "u \<in> user_set (policy_of (load_from_system_tables db'))"
      "allowed (policy_of (load_from_system_tables db')) u p t c"
    using save_keeps [OF assms(1,2), of now] a by (meson allowed_mono subsetD)
  then show ?thesis unfolding check_permission_policy by auto
qed

theorem rbac_save_only_adds_witness:
  "\<exists>tm db tm' db'. names_ok \<lparr>roles = [], users = []\<rparr>
    \<and> save_to_system_tables 8 \<lparr>roles = [], users = []\<rparr> (tm :: unit TransactionManager, db) = Ok (tm', db')
    \<and> check_permission ''root'' PAdmin None None (load_from_system_tables db') = Inr True"
proof -
  obtain db0 where r: "tables_ready demo_tm db0 RbacManager_new" and e: "\<forall>nm. stored nm db0 = {}"
    using fresh_tables_new by blast
  obtain tm :: "unit TransactionManager" and db where p: "policy_of (load_from_system_tables db) = policy_of RbacManager_new"
    and r2: "tables_ready tm db \<lparr>roles = [], users = []\<rparr>"
    using save_load_policy [OF wf_rbac_new new_names_ok r e, of 7]
    unfolding saved_policy_plain [OF wf_rbac_new new_plain] by blast
  have n: "names_ok \<lparr>roles = [], users = []\<rparr>"
    by (simp add: names_ok_def role_names_def user_names_def grant_list_def assign_list_def)
  have "check_permission ''root'' PAdmin None None RbacManager_new = Inr True"
    by (simp add: check_permission_def RbacManager_new_def admin_role_def rbac_data_defs has_permission_def
        grant_covers_def)
  then have "check_permission ''root'' PAdmin None None (load_from_system_tables db) = Inr True"
    unfolding check_permission_policy p .
  from rbac_save_only_adds [OF n r2 this, of 8] n show ?thesis by blast
qed

end
