(* ===== verification/MemPool.thy ===== *)
theory MemPool
  imports Prelude
begin

text \<open>
  The fixed-size pools of \<^verbatim>\<open>src/src/memory/pool.rs\<close>: memory pool, slab allocator, the manager over
  several pools and the lazy loader.  Memory is a map from addresses to bytes shared by all
  pools and their clients; a free block holds the pointer to the next free block in its first
  eight bytes (\<open>Option<NonNull<u8>>\<close>, zero for \<open>None\<close>).  Usage ratios (\<open>f32\<close>) are not modelled.
\<close>

section \<open>Memory\<close>

type_synonym memory = "nat \<Rightarrow> byte"

definition read_ptr :: "memory \<Rightarrow> nat \<Rightarrow> nat option" where
  "read_ptr mem a = (let p = le_nat (map mem [a..<a + 8]) in if p = 0 then None else Some p)"

definition write_bytes :: "nat \<Rightarrow> bytes \<Rightarrow> memory \<Rightarrow> memory" where
  "write_bytes a bs mem = (\<lambda>x. if a \<le> x \<and> x < a + length bs then bs ! (x - a) else mem x)"

definition write_ptr :: "nat \<Rightarrow> nat option \<Rightarrow> memory \<Rightarrow> memory" where
  "write_ptr a p mem = write_bytes a (to_le 8 (case p of None \<Rightarrow> 0 | Some q \<Rightarrow> q)) mem"

lemma map_write_bytes_same: "map (write_bytes a bs mem) [a..<a + length bs] = bs"
  by (rule nth_equalityI) (auto simp: write_bytes_def)

lemma read_write_same:
  assumes "\<And>q. p = Some q \<Longrightarrow> 0 < q \<and> q < 2 ^ 64"
  shows "read_ptr (write_ptr a p mem) a = p"
proof -
  have "map (write_ptr a p mem) [a..<a + 8] = to_le 8 (case p of None \<Rightarrow> 0 | Some q \<Rightarrow> q)"
    using map_write_bytes_same [of a "to_le 8 (case p of None \<Rightarrow> 0 | Some q \<Rightarrow> q)" mem]
    by (simp add: write_ptr_def)
  then show ?thesis using assms by (cases p) (auto simp: read_ptr_def)
qed

lemma read_write_other:
  assumes "a + length bs \<le> b \<or> b + 8 \<le> a"
  shows "read_ptr (write_bytes a bs mem) b = read_ptr mem b"
proof -
  have "map (write_bytes a bs mem) [b..<b + 8] = map mem [b..<b + 8]"
    using assms by (auto simp: write_bytes_def)
  then show ?thesis by (simp only: read_ptr_def)
qed

lemma read_write_ptr_other:
  "a + 8 \<le> b \<or> b + 8 \<le> a \<Longrightarrow> read_ptr (write_ptr a p mem) b = read_ptr mem b"
  unfolding write_ptr_def by (rule read_write_other) simp

section \<open>The memory pool\<close>

record MemoryPool =
  start_ptr :: nat
  block_size :: nat
  total_blocks :: nat
  used_blocks :: nat
  free_list :: "nat option"

text \<open>\<open>(n + 7) & !7\<close> is the next multiple of 8.\<close>

definition align_up :: "nat \<Rightarrow> nat \<Rightarrow> nat" where
  "align_up n a = (n + a - 1) div a * a"

text \<open>The loop of the constructors: block after block is put in front of the free list.\<close>

fun link_blocks :: "nat \<Rightarrow> nat \<Rightarrow> nat \<Rightarrow> nat option \<Rightarrow> memory \<Rightarrow> nat option \<times> memory" where
  "link_blocks 0 sz cur fl mem = (fl, mem)"
| "link_blocks (Suc n) sz cur fl mem = link_blocks n sz (cur + sz) (Some cur) (write_ptr cur fl mem)"

definition MemoryPool_new :: "nat \<Rightarrow> nat \<Rightarrow> nat \<Rightarrow> memory \<Rightarrow> MemoryPool \<times> memory" where
  "MemoryPool_new sp bs tb mem =
     (let sz = align_up bs 8; (fl, mem') = link_blocks tb sz sp None mem
      in (\<lparr>start_ptr = sp, block_size = sz, total_blocks = tb, used_blocks = 0, free_list = fl\<rparr>, mem'))"

definition pool_allocate :: "MemoryPool \<times> memory \<Rightarrow> (nat \<times> MemoryPool \<times> memory) outcome" where
  "pool_allocate s =
     (case s of (p, mem) \<Rightarrow>
        case free_list p of
          Some b \<Rightarrow> Ok (b, p\<lparr>free_list := read_ptr mem b, used_blocks := used_blocks p + 1\<rparr>, mem)
        | None \<Rightarrow> Err OutOfMemory)"

definition pool_contains :: "MemoryPool \<Rightarrow> nat \<Rightarrow> bool" where
  "pool_contains p a \<longleftrightarrow> start_ptr p \<le> a \<and> a < start_ptr p + block_size p * total_blocks p"

definition pool_free :: "nat \<Rightarrow> MemoryPool \<times> memory \<Rightarrow> (MemoryPool \<times> memory) outcome" where
  "pool_free a s =
     (case s of (p, mem) \<Rightarrow>
        if start_ptr p \<le> a \<and> a < start_ptr p + block_size p * total_blocks p then
          (if used_blocks p = 0 then Fault
           else Ok (p\<lparr>free_list := Some a, used_blocks := used_blocks p - 1\<rparr>,
                    write_ptr a (free_list p) mem))
        else Ok (p, mem))"

section \<open>Several pools\<close>

text \<open>The manager takes the first pool whose blocks are large enough, full or not.\<close>

fun multi_allocate :: "nat \<Rightarrow> MemoryPool list \<Rightarrow> memory \<Rightarrow> (nat \<times> MemoryPool list \<times> memory) outcome" where
  "multi_allocate n [] mem = Err OutOfMemory"
| "multi_allocate n (p # ps) mem =
     (if block_size p \<ge> n then and_then (pool_allocate (p, mem)) (\<lambda>(b, p', mem'). Ok (b, p' # ps, mem'))
      else and_then (multi_allocate n ps mem) (\<lambda>(b, ps', mem'). Ok (b, p # ps', mem')))"

fun multi_free :: "nat \<Rightarrow> MemoryPool list \<Rightarrow> memory \<Rightarrow> (MemoryPool list \<times> memory) outcome" where
  "multi_free a [] mem = Err InvalidPointer"
| "multi_free a (p # ps) mem =
     (if pool_contains p a then and_then (pool_free a (p, mem)) (\<lambda>(p', mem'). Ok (p' # ps, mem'))
      else and_then (multi_free a ps mem) (\<lambda>(ps', mem'). Ok (p # ps', mem')))"

section \<open>The slab allocator\<close>

record SlabAllocator =
  slot_size :: nat
  alignment :: nat
  total_slots :: nat
  used_slots :: nat
  slab_free_list :: "nat option"
  slab_start :: nat

text \<open>
  \<open>(slot_size + alignment - 1) & !(alignment - 1)\<close> with the masks written out; an alignment of
  zero underflows.
\<close>

definition mask_align :: "nat \<Rightarrow> nat \<Rightarrow> nat" where
  "mask_align n a =
     (let w = of_nat (n + a - 1) :: u64; m = of_nat (a - 1) :: u64 in unat (w AND NOT m))"

definition SlabAllocator_new ::
  "nat \<Rightarrow> nat \<Rightarrow> nat \<Rightarrow> nat \<Rightarrow> memory \<Rightarrow> (SlabAllocator \<times> memory) outcome" where
  "SlabAllocator_new sp ss al ts mem =
     (if sp = 0 then Err InvalidPointer
      else if al = 0 then Fault
      else let sz = mask_align ss al; (fl, mem') = link_blocks ts sz sp None mem
           in Ok (\<lparr>slot_size = sz, alignment = al, total_slots = ts, used_slots = 0,
                   slab_free_list = fl, slab_start = sp\<rparr>, mem'))"

definition slab_allocate :: "SlabAllocator \<times> memory \<Rightarrow> (nat \<times> SlabAllocator \<times> memory) outcome" where
  "slab_allocate s =
     (case s of (p, mem) \<Rightarrow>
        case slab_free_list p of
          Some b \<Rightarrow> Ok (b, p\<lparr>slab_free_list := read_ptr mem b, used_slots := used_slots p + 1\<rparr>, mem)
        | None \<Rightarrow> Err OutOfMemory)"

definition slab_contains :: "SlabAllocator \<Rightarrow> nat \<Rightarrow> bool" where
  "slab_contains p a \<longleftrightarrow> slab_start p \<le> a \<and> a < slab_start p + slot_size p * total_slots p"

definition slab_free :: "nat \<Rightarrow> SlabAllocator \<times> memory \<Rightarrow> (SlabAllocator \<times> memory) outcome" where
  "slab_free a s =
     (case s of (p, mem) \<Rightarrow>
        if slab_contains p a then
          (if used_slots p = 0 then Fault
           else Ok (p\<lparr>slab_free_list := Some a, used_slots := used_slots p - 1\<rparr>,
                    write_ptr a (slab_free_list p) mem))
        else Ok (p, mem))"

definition slab_remaining :: "SlabAllocator \<Rightarrow> nat outcome" where
  "slab_remaining p = (if total_slots p < used_slots p then Fault else Ok (total_slots p - used_slots p))"

section \<open>Lazy loading\<close>

record 'a LazyLoad =
  lz_data :: "'a option"
  lz_init :: "'a outcome option"

text \<open>The initialiser is a closure called at most once; here it is its result.\<close>

definition LazyLoad_new :: "'a outcome \<Rightarrow> 'a LazyLoad" where
  "LazyLoad_new f = \<lparr>lz_data = None, lz_init = Some f\<rparr>"

definition lazy_get :: "'a LazyLoad \<Rightarrow> 'a outcome \<times> 'a LazyLoad" where
  "lazy_get l =
     (case lz_data l of
        Some d \<Rightarrow> (Ok d, l)
      | None \<Rightarrow>
          (case lz_init l of
             None \<Rightarrow> (Err UnsupportedOperation, l)
           | Some (Ok d) \<Rightarrow> (Ok d, l\<lparr>lz_data := Some d, lz_init := None\<rparr>)
           | Some (Err e) \<Rightarrow> (Err e, l\<lparr>lz_init := None\<rparr>)
           | Some Fault \<Rightarrow> (Fault, l\<lparr>lz_init := None\<rparr>)))"

definition is_loaded :: "'a LazyLoad \<Rightarrow> bool" where
  "is_loaded l \<longleftrightarrow> lz_data l \<noteq> None"

definition drop_data :: "'a LazyLoad \<Rightarrow> 'a LazyLoad" where
  "drop_data l = l\<lparr>lz_data := None\<rparr>"

end
