(* ===== verification/MemPool_Inv.thy ===== *)
theory MemPool_Inv
  imports MemPool
begin

text \<open>
  The contract of a pool of equal blocks as the locale \<open>block_pool\<close>, with what a client that keeps
  to it can rely on; the free lists of the memory pool and of the slab allocator; and the
  interpretation of the locale on both.
\<close>

section \<open>The contract\<close>

text \<open>
  A client holds blocks, writes into them and gives them back.  A command that names a block
  by its position in the client's list can only name a block it holds.
\<close>

datatype pool_cmd = Take | Give nat | Scribble nat nat bytes

text \<open>
  A client of a pool with operations \<open>alloc\<close>, \<open>release\<close> and \<open>poke\<close> (a write into memory) and blocks
  of size \<open>sz\<close>.
\<close>

fun client ::
  "('s \<Rightarrow> (nat \<times> 's) outcome) \<Rightarrow> (nat \<Rightarrow> 's \<Rightarrow> 's outcome) \<Rightarrow> (nat \<Rightarrow> bytes \<Rightarrow> 's \<Rightarrow> 's) \<Rightarrow>
   ('s \<Rightarrow> nat) \<Rightarrow> pool_cmd \<Rightarrow> 's \<times> nat list \<Rightarrow> ('s \<times> nat list) outcome" where
  "client alloc release poke sz Take (s, held) =
     (case alloc s of Ok (b, s') \<Rightarrow> Ok (s', b # held) | Err e \<Rightarrow> Ok (s, held) | Fault \<Rightarrow> Fault)"
| "client alloc release poke sz (Give i) (s, held) =
     (if i < length held
      then and_then (release (held ! i) s) (\<lambda>s'. Ok (s', take i held @ drop (Suc i) held))
      else Ok (s, held))"
| "client alloc release poke sz (Scribble i off bs) (s, held) =
     (if i < length held \<and> off + length bs \<le> sz s
      then Ok (poke (held ! i + off) bs s, held) else Ok (s, held))"

fun clients ::
  "('s \<Rightarrow> (nat \<times> 's) outcome) \<Rightarrow> (nat \<Rightarrow> 's \<Rightarrow> 's outcome) \<Rightarrow> (nat \<Rightarrow> bytes \<Rightarrow> 's \<Rightarrow> 's) \<Rightarrow>
   ('s \<Rightarrow> nat) \<Rightarrow> pool_cmd list \<Rightarrow> 's \<times> nat list \<Rightarrow> ('s \<times> nat list) outcome" where
  "clients alloc release poke sz [] st = Ok st"
| "clients alloc release poke sz (c # cs) st =
     and_then (client alloc release poke sz c st) (clients alloc release poke sz cs)"

locale block_pool =
  fixes ok :: "'s \<Rightarrow> bool"
    and blocks :: "'s \<Rightarrow> nat set"
    and bsize :: "'s \<Rightarrow> nat"
    and available :: "'s \<Rightarrow> nat set"
    and alloc :: "'s \<Rightarrow> (nat \<times> 's) outcome"
    and release :: "nat \<Rightarrow> 's \<Rightarrow> 's outcome"
    and poke :: "nat \<Rightarrow> bytes \<Rightarrow> 's \<Rightarrow> 's"
  assumes available_blocks: "ok s \<Longrightarrow> available s \<subseteq> blocks s"
    and alloc_empty: "ok s \<Longrightarrow> available s = {} \<Longrightarrow> alloc s = Err OutOfMemory"
    and alloc_some: "ok s \<Longrightarrow> available s \<noteq> {} \<Longrightarrow> \<exists>b s'. alloc s = Ok (b, s') \<and> ok s'
      \<and> b \<in> available s \<and> available s' = available s - {b} \<and> blocks s' = blocks s \<and> bsize s' = bsize s"
    and release_held: "ok s \<Longrightarrow> b \<in> blocks s - available s \<Longrightarrow> \<exists>s'. release b s = Ok s' \<and> ok s'
      \<and> available s' = insert b (available s) \<and> blocks s' = blocks s \<and> bsize s' = bsize s"
    and poke_held: "ok s \<Longrightarrow> b \<in> blocks s - available s \<Longrightarrow> off + length bs \<le> bsize s \<Longrightarrow>
      ok (poke (b + off) bs s) \<and> available (poke (b + off) bs s) = available s
      \<and> blocks (poke (b + off) bs s) = blocks s \<and> bsize (poke (b + off) bs s) = bsize s"
begin

definition fair :: "'s \<times> nat list \<Rightarrow> bool" where
  "fair st \<longleftrightarrow> (case st of (s, held) \<Rightarrow>
     ok s \<and> distinct held \<and> set held = blocks s - available s)"

lemma set_drop_nth:
  "distinct xs \<Longrightarrow> i < length xs \<Longrightarrow> set (take i xs @ drop (Suc i) xs) = set xs - {xs ! i}"
  using id_take_nth_drop [of i xs] by (metis Diff_insert_absorb Un_insert_right distinct_append
      distinct.simps(2) list.simps(15) not_distinct_conv_prefix set_append Un_iff disjoint_iff)

lemma client_fair:
  assumes "fair st"
  shows "\<exists>st'. client alloc release poke bsize c st = Ok st' \<and> fair st' \<and> blocks (fst st') = blocks (fst st)
    \<and> bsize (fst st') = bsize (fst st)"
proof -
  obtain s held where st: "st = (s, held)" by (cases st)
  with assms have o: "ok s" and d: "distinct held" and h: "set held = blocks s - available s"
    by (auto simp: fair_def)
  show ?thesis
  proof (cases c)
    case Take
    show ?thesis
    proof (cases "available s = {}")
      case True
      then show ?thesis using Take st alloc_empty [OF o] assms by simp
    next
      case False
      then obtain b s' where "alloc s = Ok (b, s')" "ok s'" "b \<in> available s"
        "available s' = available s - {b}" "blocks s' = blocks s" "bsize s' = bsize s"
        using alloc_some [OF o] by blast
      then show ?thesis using Take st d h available_blocks [OF o] by (auto simp: fair_def)
    qed
  next
    case (Give i)
    show ?thesis
    proof (cases "i < length held")
      case True
      then have "held ! i \<in> blocks s - available s" using h nth_mem by blast
      from release_held [OF o this] obtain s' where "release (held ! i) s = Ok s'" "ok s'"
        "available s' = insert (held ! i) (available s)" "blocks s' = blocks s" "bsize s' = bsize s"
        by blast
      moreover have "distinct (take i held @ drop (Suc i) held)"
        using id_take_nth_drop [OF True] d by (metis distinct_append distinct.simps(2)
            Int_insert_right list.simps(15) disjoint_insert(1))
      ultimately show ?thesis
        using Give st True d h set_drop_nth [OF d True] by (auto simp: fair_def)
    next
      case False
      then show ?thesis using Give st assms by simp
    qed
  next
    case (Scribble i off bs)
    show ?thesis
    proof (cases "i < length held \<and> off + length bs \<le> bsize s")
      case True
      then have "held ! i \<in> blocks s - available s" using h nth_mem by blast
      from poke_held [OF o this, of off bs] True show ?thesis
        using Scribble st d h by (simp add: fair_def)
    next
      case False
      then show ?thesis using Scribble st assms by auto
    qed
  qed
qed

text \<open>
  Whatever a client does, the pool never fails, and the blocks it holds are pairwise different
  blocks of the pool: no block is handed out twice.
\<close>

lemma clients_fair:
  "fair st \<Longrightarrow> \<exists>st'. clients alloc release poke bsize cs st = Ok st' \<and> fair st' \<and> blocks (fst st') = blocks (fst st)
    \<and> bsize (fst st') = bsize (fst st)"
proof (induction cs arbitrary: st)
  case (Cons c cs)
  from client_fair [OF Cons.prems, of c] obtain st1 where "client alloc release poke bsize c st = Ok st1" "fair st1"
    "blocks (fst st1) = blocks (fst st)" "bsize (fst st1) = bsize (fst st)" by blast
  with Cons.IH [of st1] show ?case by auto
qed simp

end

section \<open>Free lists\<close>

definition block_set :: "nat \<Rightarrow> nat \<Rightarrow> nat \<Rightarrow> nat set" where
  "block_set sp sz n = (\<lambda>i. sp + i * sz) ` {..<n}"

definition free_blocks :: "memory \<Rightarrow> nat option \<Rightarrow> nat set" where
  "free_blocks mem fl = {b. \<exists>fs. chain (read_ptr mem) fl fs \<and> b \<in> set fs}"

definition free_list_ok :: "nat \<Rightarrow> nat \<Rightarrow> nat \<Rightarrow> nat option \<Rightarrow> nat \<Rightarrow> memory \<Rightarrow> bool" where
  "free_list_ok sp sz n fl used mem \<longleftrightarrow>
     0 < sp \<and> 8 \<le> sz \<and> sp + sz * n \<le> 2 ^ 64
     \<and> (\<exists>fs. chain (read_ptr mem) fl fs \<and> distinct fs \<and> set fs \<subseteq> block_set sp sz n
           \<and> used + length fs = n)"

lemma free_blocks_chain: "chain (read_ptr mem) fl fs \<Longrightarrow> free_blocks mem fl = set fs"
  using chain_unique by (auto simp: free_blocks_def)

lemma card_block_set: "0 < sz \<Longrightarrow> card (block_set sp sz n) = n"
  unfolding block_set_def by (subst card_image) (auto simp: inj_on_def)

lemma block_apart:
  assumes "a \<in> block_set sp sz n" and "b \<in> block_set sp sz n" and "a \<noteq> b"
  shows "a + sz \<le> b \<or> b + sz \<le> a"
proof -
  obtain i j where ij: "a = sp + i * sz" "b = sp + j * sz" using assms(1,2) by (auto simp: block_set_def)
  have "Suc i * sz \<le> j * sz" if "i < j" using that by (intro mult_le_mono1) simp
  moreover have "Suc j * sz \<le> i * sz" if "j < i" using that by (intro mult_le_mono1) simp
  ultimately show ?thesis using ij assms(3) by (cases i j rule: linorder_cases) auto
qed

lemma block_bound:
  assumes "b \<in> block_set sp sz n"
  shows "sp \<le> b \<and> b + sz \<le> sp + sz * n"
proof -
  obtain i where "b = sp + i * sz" "i < n" using assms by (auto simp: block_set_def)
  moreover have "Suc i * sz \<le> n * sz" using \<open>i < n\<close> by (intro mult_le_mono1) simp
  ultimately show ?thesis by (simp add: mult.commute)
qed

lemma chain_write:
  assumes "chain (read_ptr mem) fl fs" and "\<And>x. x \<in> set fs \<Longrightarrow> a + length bs \<le> x \<or> x + 8 \<le> a"
  shows "chain (read_ptr (write_bytes a bs mem)) fl fs"
  using assms chain_cong [of fs "read_ptr (write_bytes a bs mem)" "read_ptr mem" fl]
  by (auto simp: read_write_other)

lemma free_list_take:
  assumes "free_list_ok sp sz n (Some b) used mem"
  shows "free_list_ok sp sz n (read_ptr mem b) (Suc used) mem \<and> b \<in> free_blocks mem (Some b)
    \<and> free_blocks mem (read_ptr mem b) = free_blocks mem (Some b) - {b}"
proof -
  obtain fs where fs: "chain (read_ptr mem) (Some b) fs" "distinct fs"
    "set fs \<subseteq> block_set sp sz n" "used + length fs = n"
    using assms by (auto simp: free_list_ok_def)
  then obtain gs where g: "fs = b # gs" "chain (read_ptr mem) (read_ptr mem b) gs"
    by (auto simp: chain_Some)
  with fs assms show ?thesis
    by (auto simp: free_list_ok_def free_blocks_chain [OF g(2)] free_blocks_chain [OF fs(1)]
        simp del: chain.simps)
qed

lemma free_list_give:
  assumes "free_list_ok sp sz n fl used mem" and "b \<in> block_set sp sz n - free_blocks mem fl"
  shows "free_list_ok sp sz n (Some b) (used - 1) (write_ptr b fl mem) \<and> 0 < used
    \<and> free_blocks (write_ptr b fl mem) (Some b) = insert b (free_blocks mem fl)"
proof -
  obtain fs where fs: "chain (read_ptr mem) fl fs" "distinct fs"
    "set fs \<subseteq> block_set sp sz n" "used + length fs = n"
    and sz: "0 < sp" "8 \<le> sz" "sp + sz * n \<le> 2 ^ 64"
    using assms by (auto simp: free_list_ok_def)
  have nb: "b \<notin> set fs" using assms(2) free_blocks_chain [OF fs(1)] by simp
  have ap: "b + sz \<le> x \<or> x + sz \<le> b" if "x \<in> set fs" for x
    using block_apart [of b sp sz n x] assms(2) fs(3) nb that by blast
  have c: "chain (read_ptr (write_ptr b fl mem)) fl fs"
    unfolding write_ptr_def using ap sz(2) by (intro chain_write [OF fs(1)]) force
  have fl: "0 < q \<and> q < 2 ^ 64" if "fl = Some q" for q
  proof -
    have "q \<in> block_set sp sz n" using that fs(1,3) by (auto simp: chain_Some)
    from block_bound [OF this] sz show ?thesis by linarith
  qed
  have "read_ptr (write_ptr b fl mem) b = fl" using fl by (intro read_write_same) blast
  with c have c': "chain (read_ptr (write_ptr b fl mem)) (Some b) (b # fs)" by simp
  have "card (set (b # fs)) \<le> card (block_set sp sz n)"
    using fs(3) assms(2) by (intro card_mono) (auto simp: block_set_def)
  then have "length fs < n" using nb fs(2) sz(2) by (simp add: card_block_set distinct_card)
  then show ?thesis
    using c' fs nb sz assms(2) free_blocks_chain [OF c'] free_blocks_chain [OF fs(1)]
    by (auto simp: free_list_ok_def simp del: chain.simps intro!: exI [of _ "b # fs"])
qed

lemma free_list_poke:
  assumes "free_list_ok sp sz n fl used mem" and "b \<in> block_set sp sz n - free_blocks mem fl"
    and "off + length bs \<le> sz"
  shows "free_list_ok sp sz n fl used (write_bytes (b + off) bs mem)
    \<and> free_blocks (write_bytes (b + off) bs mem) fl = free_blocks mem fl"
proof -
  obtain fs where fs: "chain (read_ptr mem) fl fs" "distinct fs"
    "set fs \<subseteq> block_set sp sz n" "used + length fs = n" and sz: "8 \<le> sz"
    using assms by (auto simp: free_list_ok_def)
  have nb: "b \<notin> set fs" using assms(2) free_blocks_chain [OF fs(1)] by simp
  have ap: "b + sz \<le> x \<or> x + sz \<le> b" if "x \<in> set fs" for x
    using block_apart [of b sp sz n x] assms(2) fs(3) nb that by blast
  have c: "chain (read_ptr (write_bytes (b + off) bs mem)) fl fs"
    using ap sz assms(3) by (intro chain_write [OF fs(1)]) force
  show ?thesis
    using assms(1) c fs free_blocks_chain [OF c] free_blocks_chain [OF fs(1)]
    by (auto simp: free_list_ok_def)
qed

lemma link_blocks_chain:
  assumes "chain (read_ptr mem) fl fs" and "\<forall>x\<in>set fs. 0 < x \<and> x + 8 \<le> cur"
    and "0 < cur" and "8 \<le> sz" and "cur + k * sz \<le> 2 ^ 64"
  shows "chain (read_ptr (snd (link_blocks k sz cur fl mem))) (fst (link_blocks k sz cur fl mem))
    (rev (map (\<lambda>i. cur + i * sz) [0..<k]) @ fs)"
  using assms
proof (induction k arbitrary: cur fl mem fs)
  case (Suc k)
  let ?mem = "write_ptr cur fl mem"
  have q: "0 < q \<and> q < 2 ^ 64" if "fl = Some q" for q
  proof -
    have "q \<in> set fs" using that Suc.prems(1) by (auto simp: chain_Some)
    then show ?thesis using Suc.prems(2,5) by fastforce
  qed
  have "chain (read_ptr ?mem) fl fs"
    unfolding write_ptr_def using Suc.prems(2) by (intro chain_write [OF Suc.prems(1)]) auto
  moreover have "read_ptr ?mem cur = fl" using q by (intro read_write_same) blast
  ultimately have c: "chain (read_ptr ?mem) (Some cur) (cur # fs)" by simp
  have "rev (map (\<lambda>i. cur + i * sz) [0..<Suc k]) = rev (map (\<lambda>i. cur + sz + i * sz) [0..<k]) @ [cur]"
    by (simp add: upt_conv_Cons map_Suc_upt [symmetric] comp_def add.assoc del: upt_Suc)
  with Suc.IH [OF c, of "cur + sz"] Suc.prems show ?case by (fastforce simp: add.assoc)
qed simp

lemma free_list_new:
  assumes "0 < sp" and "8 \<le> sz" and "sp + sz * n \<le> 2 ^ 64"
    and "link_blocks n sz sp None mem = (fl, mem')"
  shows "free_list_ok sp sz n fl 0 mem' \<and> free_blocks mem' fl = block_set sp sz n"
proof -
  let ?fs = "rev (map (\<lambda>i. sp + i * sz) [0..<n])"
  have c: "chain (read_ptr mem') fl ?fs"
    using link_blocks_chain [of mem None "[]" sp sz n] assms by (simp add: mult.commute)
  have s: "set ?fs = block_set sp sz n" by (simp add: block_set_def atLeast0LessThan)
  have d: "distinct ?fs" using assms(2) by (auto simp: distinct_map inj_on_def)
  show ?thesis
    using assms(1-3) c s d free_blocks_chain [OF c] unfolding free_list_ok_def
    by (intro conjI exI [of _ ?fs]) auto
qed

section \<open>The pool and the slab keep the contract\<close>

definition pool_ok :: "MemoryPool \<times> memory \<Rightarrow> bool" where
  "pool_ok s \<longleftrightarrow> (case s of (p, mem) \<Rightarrow>
     free_list_ok (start_ptr p) (block_size p) (total_blocks p) (free_list p) (used_blocks p) mem)"

definition pool_blocks :: "MemoryPool \<times> memory \<Rightarrow> nat set" where
  "pool_blocks s = block_set (start_ptr (fst s)) (block_size (fst s)) (total_blocks (fst s))"

definition pool_available :: "MemoryPool \<times> memory \<Rightarrow> nat set" where
  "pool_available s = free_blocks (snd s) (free_list (fst s))"

definition poke_memory :: "nat \<Rightarrow> bytes \<Rightarrow> 'p \<times> memory \<Rightarrow> 'p \<times> memory" where
  "poke_memory a bs s = (fst s, write_bytes a bs (snd s))"

definition slab_ok :: "SlabAllocator \<times> memory \<Rightarrow> bool" where
  "slab_ok s \<longleftrightarrow> (case s of (p, mem) \<Rightarrow>
     free_list_ok (slab_start p) (slot_size p) (total_slots p) (slab_free_list p) (used_slots p) mem)"

definition slab_blocks :: "SlabAllocator \<times> memory \<Rightarrow> nat set" where
  "slab_blocks s = block_set (slab_start (fst s)) (slot_size (fst s)) (total_slots (fst s))"

definition slab_available :: "SlabAllocator \<times> memory \<Rightarrow> nat set" where
  "slab_available s = free_blocks (snd s) (slab_free_list (fst s))"

lemma free_list_available:
  "free_list_ok sp sz n fl used mem \<Longrightarrow> free_blocks mem fl \<subseteq> block_set sp sz n"
  by (auto simp: free_list_ok_def free_blocks_def dest: chain_unique)

lemma free_list_unused:
  "free_list_ok sp sz n fl 0 mem \<Longrightarrow> b \<in> block_set sp sz n \<Longrightarrow> b \<in> free_blocks mem fl"
  using free_list_give [of sp sz n fl 0 mem b] by blast

lemma free_list_none:
  "free_list_ok sp sz n fl used mem \<Longrightarrow> free_blocks mem fl = {} \<longleftrightarrow> fl = None"
  by (auto simp: free_list_ok_def free_blocks_chain chain_Some)

lemmas pool_defs = pool_ok_def pool_blocks_def pool_available_def poke_memory_def pool_allocate_def
  pool_free_def
lemmas slab_defs = slab_ok_def slab_blocks_def slab_available_def poke_memory_def slab_allocate_def
  slab_free_def slab_contains_def

lemma block_inside:
  "free_list_ok sp sz n fl used mem \<Longrightarrow> b \<in> block_set sp sz n \<Longrightarrow> sp \<le> b \<and> b < sp + sz * n"
  using block_bound [of b sp sz n] by (auto simp: free_list_ok_def)

interpretation pool: block_pool pool_ok pool_blocks "\<lambda>s. block_size (fst s)" pool_available
  pool_allocate pool_free poke_memory
proof unfold_locales
  fix s :: "MemoryPool \<times> memory"
  assume o: "pool_ok s"
  show "pool_available s \<subseteq> pool_blocks s"
    using o free_list_available by (auto simp: pool_defs split: prod.splits)
  show "pool_allocate s = Err OutOfMemory" if "pool_available s = {}"
    using o that free_list_none by (auto simp: pool_defs split: prod.splits option.splits)
  show "\<exists>b s'. pool_allocate s = Ok (b, s') \<and> pool_ok s' \<and> b \<in> pool_available s
      \<and> pool_available s' = pool_available s - {b} \<and> pool_blocks s' = pool_blocks s
      \<and> block_size (fst s') = block_size (fst s)" if ne: "pool_available s \<noteq> {}"
  proof -
    obtain b where "free_list (fst s) = Some b"
      using o ne free_list_none by (auto simp: pool_defs split: prod.splits)
    then show ?thesis using o free_list_take by (auto simp: pool_defs split: prod.splits)
  qed
  show "\<exists>s'. pool_free b s = Ok s' \<and> pool_ok s' \<and> pool_available s' = insert b (pool_available s)
      \<and> pool_blocks s' = pool_blocks s \<and> block_size (fst s') = block_size (fst s)"
    if "b \<in> pool_blocks s - pool_available s" for b
    using o that free_list_give block_inside free_list_unused by (auto simp: pool_defs split: prod.splits)
  show "pool_ok (poke_memory (b + off) bs s)
      \<and> pool_available (poke_memory (b + off) bs s) = pool_available s
      \<and> pool_blocks (poke_memory (b + off) bs s) = pool_blocks s
      \<and> block_size (fst (poke_memory (b + off) bs s)) = block_size (fst s)"
    if "b \<in> pool_blocks s - pool_available s" and "off + length bs \<le> block_size (fst s)" for b off bs
    using o that free_list_poke by (auto simp: pool_defs split: prod.splits)
qed

interpretation slab: block_pool slab_ok slab_blocks "\<lambda>s. slot_size (fst s)" slab_available
  slab_allocate slab_free poke_memory
proof unfold_locales
  fix s :: "SlabAllocator \<times> memory"
  assume o: "slab_ok s"
  show "slab_available s \<subseteq> slab_blocks s"
    using o free_list_available by (auto simp: slab_defs split: prod.splits)
  show "slab_allocate s = Err OutOfMemory" if "slab_available s = {}"
    using o that free_list_none by (auto simp: slab_defs split: prod.splits option.splits)
  show "\<exists>b s'. slab_allocate s = Ok (b, s') \<and> slab_ok s' \<and> b \<in> slab_available s
      \<and> slab_available s' = slab_available s - {b} \<and> slab_blocks s' = slab_blocks s
      \<and> slot_size (fst s') = slot_size (fst s)" if ne: "slab_available s \<noteq> {}"
  proof -
    obtain b where "slab_free_list (fst s) = Some b"
      using o ne free_list_none by (auto simp: slab_defs split: prod.splits)
    then show ?thesis using o free_list_take by (auto simp: slab_defs split: prod.splits)
  qed
  show "\<exists>s'. slab_free b s = Ok s' \<and> slab_ok s' \<and> slab_available s' = insert b (slab_available s)
      \<and> slab_blocks s' = slab_blocks s \<and> slot_size (fst s') = slot_size (fst s)"
    if "b \<in> slab_blocks s - slab_available s" for b
    using o that free_list_give block_inside free_list_unused by (auto simp: slab_defs split: prod.splits)
  show "slab_ok (poke_memory (b + off) bs s)
      \<and> slab_available (poke_memory (b + off) bs s) = slab_available s
      \<and> slab_blocks (poke_memory (b + off) bs s) = slab_blocks s
      \<and> slot_size (fst (poke_memory (b + off) bs s)) = slot_size (fst s)"
    if "b \<in> slab_blocks s - slab_available s" and "off + length bs \<le> slot_size (fst s)" for b off bs
    using o that free_list_poke by (auto simp: slab_defs split: prod.splits)
qed

lemma align_up_8: "0 < n \<Longrightarrow> 8 \<le> align_up n 8"
proof -
  assume "0 < n"
  then have "1 \<le> (n + 8 - 1) div 8" by (simp add: less_eq_div_iff_mult_less_eq)
  then show ?thesis by (simp add: align_up_def)
qed

lemma pool_new_ok:
  assumes "0 < sp" and "0 < bs" and "sp + align_up bs 8 * tb \<le> 2 ^ 64"
  shows "pool_ok (MemoryPool_new sp bs tb mem)
    \<and> pool_available (MemoryPool_new sp bs tb mem) = pool_blocks (MemoryPool_new sp bs tb mem)
    \<and> pool_blocks (MemoryPool_new sp bs tb mem) = block_set sp (align_up bs 8) tb"
proof -
  obtain fl mem' where l: "link_blocks tb (align_up bs 8) sp None mem = (fl, mem')" by fastforce
  from free_list_new [OF assms(1) align_up_8 [OF assms(2)] assms(3) l] l show ?thesis
    by (simp add: MemoryPool_new_def pool_ok_def pool_available_def pool_blocks_def)
qed

lemma slab_new_ok:
  assumes "SlabAllocator_new sp ss al ts mem = Ok s" and "8 \<le> mask_align ss al"
    and "sp + mask_align ss al * ts \<le> 2 ^ 64"
  shows "slab_ok s \<and> slab_available s = slab_blocks s \<and> slab_blocks s = block_set sp (mask_align ss al) ts"
proof -
  obtain fl mem' where l: "link_blocks ts (mask_align ss al) sp None mem = (fl, mem')" by fastforce
  have "0 < sp" using assms(1) by (auto simp: SlabAllocator_new_def split: if_splits)
  note f = free_list_new [OF this assms(2,3) l]
  have "al \<noteq> 0" using assms(1) by (auto simp: SlabAllocator_new_def split: if_splits)
  with \<open>0 < sp\<close> have "SlabAllocator_new sp ss al ts mem =
      Ok (\<lparr>slot_size = mask_align ss al, alignment = al, total_slots = ts, used_slots = 0,
          slab_free_list = fl, slab_start = sp\<rparr>, mem')"
    by (simp add: SlabAllocator_new_def l)
  with assms(1) have "s = (\<lparr>slot_size = mask_align ss al, alignment = al, total_slots = ts,
      used_slots = 0, slab_free_list = fl, slab_start = sp\<rparr>, mem')" by simp
  with f show ?thesis by (simp add: slab_ok_def slab_available_def slab_blocks_def)
qed

lemma free_list_count:
  assumes "free_list_ok sp sz n fl used mem" and "distinct held"
    and "set held = block_set sp sz n - free_blocks mem fl"
  shows "used = length held"
proof -
  obtain fs where fs: "chain (read_ptr mem) fl fs" "distinct fs"
    "set fs \<subseteq> block_set sp sz n" "used + length fs = n" and sz: "8 \<le> sz"
    using assms(1) by (auto simp: free_list_ok_def)
  have "card (set held) = n - length fs"
    using assms(3) fs sz
    by (simp add: free_blocks_chain [OF fs(1)] card_Diff_subset card_block_set distinct_card)
  then show ?thesis using assms(2) fs(4) by (simp add: distinct_card)
qed

section \<open>Freeing what was allocated\<close>

lemma write_read_id: "write_ptr b (read_ptr mem b) mem = mem"
proof -
  let ?bs = "map mem [b..<b + 8]"
  have "to_le 8 (case read_ptr mem b of None \<Rightarrow> 0 | Some q \<Rightarrow> q) = to_le (length ?bs) (le_nat ?bs)"
    by (simp add: read_ptr_def Let_def)
  then have "write_ptr b (read_ptr mem b) mem = write_bytes b ?bs mem"
    by (simp only: write_ptr_def to_le_le_nat)
  also have "\<dots> = mem" by (rule ext) (auto simp: write_bytes_def)
  finally show ?thesis .
qed

lemma pool_alloc_free:
  assumes "pool_ok (p, mem)" and "pool_allocate (p, mem) = Ok (b, p', mem')"
  shows "mem' = mem \<and> pool_contains p b \<and> pool_contains p' = pool_contains p
    \<and> block_size p' = block_size p \<and> pool_free b (p', mem) = Ok (p, mem)"
proof -
  have fl: "free_list p = Some b" and p': "p' = p\<lparr>free_list := read_ptr mem b, used_blocks := used_blocks p + 1\<rparr>"
    and m: "mem' = mem" using assms(2) by (auto simp: pool_allocate_def split: option.splits)
  have "b \<in> block_set (start_ptr p) (block_size p) (total_blocks p)"
    using free_list_take [of "start_ptr p" _ _ b] free_list_available assms(1) fl
    by (fastforce simp: pool_ok_def)
  from block_inside [OF _ this] assms(1) have "pool_contains p b"
    by (auto simp: pool_ok_def pool_contains_def)
  then show ?thesis
    using fl p' m write_read_id [of b mem]
    by (auto simp: pool_free_def pool_contains_def fun_eq_iff)
qed

fun apart :: "MemoryPool list \<Rightarrow> bool" where
  "apart [] = True"
| "apart (p # ps) = ((\<forall>q\<in>set ps. start_ptr p + block_size p * total_blocks p \<le> start_ptr q
       \<or> start_ptr q + block_size q * total_blocks q \<le> start_ptr p) \<and> apart ps)"

lemma multi_allocate_inside:
  "\<forall>p\<in>set ps. pool_ok (p, mem) \<Longrightarrow> multi_allocate n ps mem = Ok (b, ps', mem') \<Longrightarrow>
    mem' = mem \<and> (\<exists>p\<in>set ps. n \<le> block_size p \<and> pool_contains p b)"
  by (induction ps arbitrary: ps')
    (auto simp: outcome_simps dest!: pool_alloc_free split: if_splits)

lemma multi_alloc_free:
  assumes "\<forall>p\<in>set ps. pool_ok (p, mem)" and "apart ps"
    and "multi_allocate n ps mem = Ok (b, ps', mem')"
  shows "multi_free b ps' mem' = Ok (ps, mem)"
  using assms
proof (induction ps arbitrary: ps')
  case (Cons p ps)
  show ?case
  proof (cases "n \<le> block_size p")
    case True
    then obtain p' where "pool_allocate (p, mem) = Ok (b, p', mem')" "ps' = p' # ps"
      using Cons.prems(3) by (auto simp: outcome_simps)
    with pool_alloc_free [of p mem b p' mem'] Cons.prems(1) show ?thesis by simp
  next
    case False
    then obtain qs where q: "multi_allocate n ps mem = Ok (b, qs, mem')" "ps' = p # qs"
      using Cons.prems(3) by (auto simp: outcome_simps)
    obtain r where "r \<in> set ps" "pool_contains r b"
      using multi_allocate_inside [OF _ q(1)] Cons.prems(1) by auto
    then have "\<not> pool_contains p b" using Cons.prems(2) by (force simp: pool_contains_def)
    with q Cons.IH [OF _ _ q(1)] Cons.prems(1,2) show ?thesis by simp
  qed
qed simp

section \<open>Properties\<close>

text \<open>
  (C19) The memory pool never hands a block out twice.  Over a new pool, any client that takes blocks,
  writes into blocks it holds and gives back blocks it holds runs without a panic; the
  blocks it holds are always pairwise different blocks of the pool's area, the pool's counter is
  their number, and a request for a block fails only when all of them are held.
\<close>

theorem pool_blocks_exclusive:
  assumes "0 < sp" and "0 < bs" and "sp + align_up bs 8 * tb \<le> 2 ^ 64"
  shows "\<exists>p mem' held. clients pool_allocate pool_free poke_memory (\<lambda>s. block_size (fst s)) cs
      (MemoryPool_new sp bs tb mem, []) = Ok ((p, mem'), held)
    \<and> distinct held \<and> set held \<subseteq> (\<lambda>i. sp + i * align_up bs 8) ` {..<tb}
    \<and> used_blocks p = length held
    \<and> (if length held = tb then pool_allocate (p, mem') = Err OutOfMemory
       else \<exists>b s. pool_allocate (p, mem') = Ok (b, s) \<and> b \<notin> set held)"
proof -
  note n = pool_new_ok [OF assms, of mem]
  have "pool.fair (MemoryPool_new sp bs tb mem, [])" using n by (simp add: pool.fair_def)
  from pool.clients_fair [OF this, of cs] obtain p mem' held where
    c: "clients pool_allocate pool_free poke_memory (\<lambda>s. block_size (fst s)) cs
        (MemoryPool_new sp bs tb mem, []) = Ok ((p, mem'), held)"
    and f: "pool.fair ((p, mem'), held)" and b: "pool_blocks (p, mem') = block_set sp (align_up bs 8) tb"
    using n by force
  have o: "pool_ok (p, mem')" and d: "distinct held"
    and h: "set held = pool_blocks (p, mem') - pool_available (p, mem')"
    using f by (auto simp: pool.fair_def)
  have u: "used_blocks p = length held"
    using free_list_count [OF _ d] o h by (simp add: pool_ok_def pool_blocks_def pool_available_def)
  have cb: "card (pool_blocks (p, mem')) = tb"
    using b align_up_8 [OF assms(2)] by (simp add: card_block_set)
  have fin: "finite (pool_blocks (p, mem'))" by (simp add: pool_blocks_def block_set_def)
  have "length held = tb \<longleftrightarrow> set held = pool_blocks (p, mem')"
    using h cb fin distinct_card [OF d] by (metis Diff_subset card_subset_eq)
  then have "length held = tb \<longleftrightarrow> pool_available (p, mem') = {}"
    using h pool.available_blocks [OF o] by blast
  moreover have "\<exists>b s. pool_allocate (p, mem') = Ok (b, s) \<and> b \<notin> set held"
    if "pool_available (p, mem') \<noteq> {}"
    using pool.alloc_some [OF o that] h by blast
  ultimately have "if length held = tb then pool_allocate (p, mem') = Err OutOfMemory
       else \<exists>b s. pool_allocate (p, mem') = Ok (b, s) \<and> b \<notin> set held"
    using pool.alloc_empty [OF o] by presburger
  then show ?thesis using c d h u b by (auto simp: block_set_def)
qed

theorem pool_blocks_exclusive_witness:
  "\<exists>p mem' held. clients pool_allocate pool_free poke_memory (\<lambda>s. block_size (fst s))
      [Take, Scribble 0 0 [255, 255], Take, Give 1, Take, Take, Take]
      (MemoryPool_new 4096 10 3 (\<lambda>_. 0), []) = Ok ((p, mem'), held)
    \<and> distinct held"
  using pool_blocks_exclusive [of 4096 10 3 "[Take, Scribble 0 0 [255, 255], Take, Give 1, Take, Take, Take]" "\<lambda>_. 0"]
  by (auto simp: align_up_def)

text \<open>
  The slab allocator keeps the same promise for slots of at least eight bytes.
\<close>

theorem slab_slots_exclusive:
  assumes "SlabAllocator_new sp ss al ts mem = Ok s" and "8 \<le> mask_align ss al"
    and "sp + mask_align ss al * ts \<le> 2 ^ 64"
  shows "\<exists>p mem' held. clients slab_allocate slab_free poke_memory (\<lambda>s. slot_size (fst s)) cs (s, [])
      = Ok ((p, mem'), held)
    \<and> distinct held \<and> set held \<subseteq> (\<lambda>i. sp + i * mask_align ss al) ` {..<ts}
    \<and> slab_remaining p = Ok (ts - length held)"
proof -
  note n = slab_new_ok [OF assms]
  have "slab.fair (s, [])" using n by (simp add: slab.fair_def)
  from slab.clients_fair [OF this, of cs] obtain p mem' held where
    c: "clients slab_allocate slab_free poke_memory (\<lambda>s. slot_size (fst s)) cs (s, [])
        = Ok ((p, mem'), held)"
    and f: "slab.fair ((p, mem'), held)" and b: "slab_blocks (p, mem') = block_set sp (mask_align ss al) ts"
    using n by force
  have o: "slab_ok (p, mem')" and d: "distinct held"
    and h: "set held = slab_blocks (p, mem') - slab_available (p, mem')"
    using f by (auto simp: slab.fair_def)
  have u: "used_slots p = length held"
    using free_list_count [OF _ d] o h by (simp add: slab_ok_def slab_blocks_def slab_available_def)
  have sz: "0 < slot_size p" using o by (auto simp: slab_ok_def free_list_ok_def)
  have "card (slab_blocks (p, mem')) = total_slots p"
    using card_block_set [OF sz] by (simp add: slab_blocks_def)
  moreover have "card (slab_blocks (p, mem')) = ts"
    using b assms(2) by (simp add: card_block_set)
  moreover have "used_slots p \<le> total_slots p" using o by (auto simp: slab_ok_def free_list_ok_def)
  ultimately have "slab_remaining p = Ok (ts - length held)" using u by (simp add: slab_remaining_def)
  then show ?thesis using c d h b by (auto simp: block_set_def)
qed

lemma link_blocks_2: "link_blocks 2 sz cur fl mem =
    (Some (cur + sz), write_ptr (cur + sz) (Some cur) (write_ptr cur fl mem))"
  by (simp add: numeral_2_eq_2)

lemma link_blocks_3: "link_blocks 3 sz cur fl mem =
    (Some (cur + sz + sz), write_ptr (cur + sz + sz) (Some (cur + sz))
       (write_ptr (cur + sz) (Some cur) (write_ptr cur fl mem)))"
  by (simp add: numeral_3_eq_3)

lemma to_le_8: "to_le 8 x = [of_nat (x mod 256), of_nat (x div 256 mod 256),
    of_nat (x div 65536 mod 256), of_nat (x div 16777216 mod 256), of_nat (x div 4294967296 mod 256),
    of_nat (x div 1099511627776 mod 256), of_nat (x div 281474976710656 mod 256),
    of_nat (x div 72057594037927936 mod 256)]"
proof -
  have e: "(8 :: nat) = Suc (Suc (Suc (Suc (Suc (Suc (Suc (Suc 0)))))))" by simp
  show ?thesis unfolding e by (simp flip: div_mult2_eq)
qed

lemma demo_slab: "mask_align 10 8 = 16"
  by code_simp

theorem slab_slots_exclusive_witness:
  "\<exists>s p mem' held. SlabAllocator_new 4096 10 8 3 (\<lambda>_. 0) = Ok s
    \<and> clients slab_allocate slab_free poke_memory (\<lambda>s. slot_size (fst s)) [Take, Take, Give 0] (s, [])
      = Ok ((p, mem'), held) \<and> distinct held"
proof -
  have "\<exists>s. SlabAllocator_new 4096 10 8 3 (\<lambda>_. 0) = Ok s"
    by (simp add: SlabAllocator_new_def Let_def split: prod.splits)
  then obtain s where s: "SlabAllocator_new 4096 10 8 3 (\<lambda>_. 0) = Ok s" ..
  from slab_slots_exclusive [OF s, of "[Take, Take, Give 0]"] s show ?thesis
    by (auto simp: demo_slab)
qed

text \<open>
  Slots smaller than a pointer corrupt the free list.  With slots of four bytes the links of
  neighbouring slots overlap: of three slots at address 4096, the third request returns an
  address far outside the area of the allocator.
\<close>

theorem slab_small_slots_overlap:
  "and_then (SlabAllocator_new 4096 4 4 3 (\<lambda>_. 0)) (\<lambda>s.
     and_then (slab_allocate s) (\<lambda>(a, s).
       and_then (slab_allocate s) (\<lambda>(b, s).
         and_then (slab_allocate s) (\<lambda>(c, s). Ok (a, b, c)))))
   = Ok (4104, 4100, 4096 + 4100 * 2 ^ 32)"
proof -
  have "mask_align 4 4 = 4" by code_simp
  then show ?thesis
    by (simp add: SlabAllocator_new_def slab_allocate_def link_blocks_3 read_ptr_def write_ptr_def
        write_bytes_def to_le_8 upt_rec_numeral)
qed

text \<open>
  Allocating from the pool manager and freeing gives everything back.  Over pools in order that
  do not overlap, a block obtained from the manager lies in a pool whose blocks are large enough,
  and freeing it restores the pools and the memory exactly.
\<close>

theorem multi_pool_roundtrip:
  assumes "\<forall>p\<in>set ps. pool_ok (p, mem)" and "apart ps"
    and "multi_allocate n ps mem = Ok (b, ps', mem')"
  shows "(\<exists>p\<in>set ps. n \<le> block_size p \<and> pool_contains p b) \<and> multi_free b ps' mem' = Ok (ps, mem)"
  using multi_allocate_inside [OF assms(1,3)] multi_alloc_free [OF assms] by blast

definition demo_pool :: "MemoryPool \<times> memory" where
  "demo_pool = MemoryPool_new 4096 10 2 (\<lambda>_. 0)"

theorem multi_pool_roundtrip_witness:
  "\<exists>b ps' mem'. multi_allocate 12 [fst demo_pool] (snd demo_pool) = Ok (b, ps', mem')
    \<and> multi_free b ps' mem' = Ok ([fst demo_pool], snd demo_pool)"
proof -
  have o: "pool_ok demo_pool"
    using pool_new_ok [of 4096 10 2] by (simp add: demo_pool_def align_up_def)
  have "block_size (fst demo_pool) = 16" "free_list (fst demo_pool) = Some 4112"
    by (simp_all add: demo_pool_def MemoryPool_new_def align_up_def link_blocks_2)
  then obtain b ps' mem' where m: "multi_allocate 12 [fst demo_pool] (snd demo_pool) = Ok (b, ps', mem')"
    by (auto simp: pool_allocate_def case_prod_beta)
  from multi_pool_roundtrip [OF _ _ m] o m show ?thesis by auto
qed

text \<open>
  Lazy loading runs the initialiser once.  After a first successful access every access
  returns the same value; after a first access that fails, every later one reports
  \<open>UnsupportedOperation\<close>, as it does after the data has been dropped.
\<close>

theorem lazy_load_once:
  "lazy_get (snd (lazy_get (LazyLoad_new f))) =
     (case f of Ok d \<Rightarrow> Ok d | _ \<Rightarrow> Err UnsupportedOperation, snd (lazy_get (LazyLoad_new f)))
   \<and> fst (lazy_get (LazyLoad_new f)) = f
   \<and> fst (lazy_get (drop_data (snd (lazy_get (LazyLoad_new f))))) = Err UnsupportedOperation"
  by (cases f) (simp_all add: lazy_get_def LazyLoad_new_def drop_data_def)

end
