(* ===== verification/Crc32.thy ===== *)
theory Crc32
  imports Prelude
begin

text \<open>
  The checksum of \<^verbatim>\<open>src/src/pubsub/crc32.rs\<close>: a table of 256 words computed bit by bit, and the
  table-driven loop over the data.  The theory shows that the loop computes the remainder that
  the bit-serial definition gives, and that it detects a changed byte.
\<close>

unbundle bit_operations_syntax

section \<open>The code\<close>

definition CRC32_POLYNOMIAL :: u32 where
  "CRC32_POLYNOMIAL = 0x04C11DB7"

definition crc_shift :: "u32 \<Rightarrow> u32" where
  "crc_shift crc = (if crc AND 0x80000000 \<noteq> 0 then push_bit 1 crc XOR CRC32_POLYNOMIAL
                    else push_bit 1 crc)"

definition generate_crc32_table :: "u32 list" where
  "generate_crc32_table = map (\<lambda>i. (crc_shift ^^ 8) (push_bit 24 (of_nat i))) [0..<256]"

definition CRC32_TABLE :: "u32 list" where
  "CRC32_TABLE = generate_crc32_table"

definition crc_update :: "u32 \<Rightarrow> byte \<Rightarrow> u32" where
  "crc_update crc b =
     (let index = ucast (drop_bit 24 crc XOR ucast b) :: u8
      in push_bit 8 crc XOR CRC32_TABLE ! unat index)"

definition calculate_crc32 :: "bytes \<Rightarrow> u32" where
  "calculate_crc32 ds = foldl crc_update 0xFFFFFFFF ds XOR 0xFFFFFFFF"

definition verify_crc32 :: "bytes \<Rightarrow> u32 \<Rightarrow> bool" where
  "verify_crc32 ds expected \<longleftrightarrow> calculate_crc32 ds = expected"

section \<open>The bit-serial reference\<close>

text \<open>Each byte enters at the top of the register, then eight shifts.\<close>

definition crc_bits :: "u32 \<Rightarrow> byte \<Rightarrow> u32" where
  "crc_bits crc b = (crc_shift ^^ 8) (crc XOR push_bit 24 (ucast b))"

definition crc32_reference :: "bytes \<Rightarrow> u32" where
  "crc32_reference ds = foldl crc_bits 0xFFFFFFFF ds XOR 0xFFFFFFFF"

lemma top_bit: "(c AND 0x80000000 \<noteq> (0 :: u32)) \<longleftrightarrow> bit c 31"
proof -
  have "push_bit 31 1 = (0x80000000 :: u32)" by (simp add: push_bit_eq_mult)
  then show ?thesis using bit_iff_and_push_bit_not_eq_0 [of c 31] by simp
qed

lemma crc_shift_linear: "crc_shift (a XOR b) = crc_shift a XOR crc_shift b"
  unfolding crc_shift_def top_bit
  by (simp add: bit_xor_iff ac_simps)

lemma crc_shift_pow_linear: "(crc_shift ^^ n) (a XOR b) = (crc_shift ^^ n) a XOR (crc_shift ^^ n) b"
  by (induction n) (simp_all add: crc_shift_linear)

lemma crc_shift_low: "\<not> bit c 31 \<Longrightarrow> crc_shift c = push_bit 1 c"
  by (simp add: crc_shift_def top_bit)

lemma crc_shift_pow_low:
  "n \<le> 8 \<Longrightarrow> (\<And>k. 24 \<le> k \<Longrightarrow> \<not> bit c k) \<Longrightarrow> (crc_shift ^^ n) (c :: u32) = push_bit n c"
proof (induction n)
  case (Suc n)
  have "\<not> bit (push_bit n c) 31"
    using Suc.prems by (simp add: bit_push_bit_iff)
  then show ?case using Suc by (simp add: crc_shift_low ac_simps)
qed simp

text \<open>The register as its top byte and the rest.\<close>

lemma split_top: "crc = push_bit 24 (drop_bit 24 crc) XOR (take_bit 24 crc :: u32)"
proof (rule bit_word_eqI)
  fix n
  assume "n < LENGTH(32)"
  then show "bit crc n \<longleftrightarrow> bit (push_bit 24 (drop_bit 24 crc) XOR take_bit 24 crc) n"
    by (auto simp: bit_xor_iff bit_push_bit_iff bit_drop_bit_eq bit_take_bit_iff)
qed

lemma table_nth: "i < 256 \<Longrightarrow> CRC32_TABLE ! i = (crc_shift ^^ 8) (push_bit 24 (of_nat i))"
  by (simp add: CRC32_TABLE_def generate_crc32_table_def)

lemma crc_index:
  fixes crc :: u32 and b :: byte
  defines "t \<equiv> drop_bit 24 crc XOR ucast b"
  shows "unat (ucast t :: u8) < 256 \<and> of_nat (unat (ucast t :: u8)) = t"
proof
  show "unat (ucast t :: u8) < 256" using unsigned_less [of "ucast t :: u8"] by simp
  have "ucast (ucast t :: u8) = t"
    by (rule bit_word_eqI) (auto simp: t_def bit_simps dest: bit_imp_le_length)
  then show "of_nat (unat (ucast t :: u8)) = t" by simp
qed

lemma crc_update_bits: "crc_update crc b = crc_bits crc b"
proof -
  let ?t = "drop_bit 24 crc XOR ucast b :: u32"
  have "crc XOR push_bit 24 (ucast b) = push_bit 24 (drop_bit 24 crc) XOR take_bit 24 crc XOR push_bit 24 (ucast b)"
    by (subst split_top [of crc]) (rule xor.assoc)
  also have "\<dots> = push_bit 24 ?t XOR take_bit 24 crc"
    by (simp add: push_bit_xor ac_simps)
  finally have "crc_bits crc b = (crc_shift ^^ 8) (push_bit 24 ?t) XOR (crc_shift ^^ 8) (take_bit 24 crc)"
    by (simp add: crc_bits_def crc_shift_pow_linear)
  moreover have "(crc_shift ^^ 8) (take_bit 24 crc) = push_bit 8 (take_bit 24 crc)"
    by (rule crc_shift_pow_low) (simp_all add: bit_take_bit_iff)
  moreover have "push_bit 8 (take_bit 24 crc) = push_bit 8 crc"
    by (rule bit_word_eqI) (auto simp: bit_push_bit_iff bit_take_bit_iff)
  moreover have "CRC32_TABLE ! unat (ucast ?t :: u8) = (crc_shift ^^ 8) (push_bit 24 ?t)"
    using crc_index [of crc b] table_nth by simp
  ultimately show ?thesis by (simp add: crc_update_def Let_def ac_simps)
qed

section \<open>Detection\<close>

lemma poly_odd: "bit CRC32_POLYNOMIAL 0"
  by (simp add: CRC32_POLYNOMIAL_def)

lemma bit_push_one: "bit (push_bit 1 (c :: u32)) n \<longleftrightarrow> 0 < n \<and> n < 32 \<and> bit c (n - 1)"
  unfolding bit_push_bit_iff by (auto dest: bit_imp_le_length)

lemma bit_crc_shift_0: "bit (crc_shift c) 0 \<longleftrightarrow> bit c 31"
  using poly_odd unfolding crc_shift_def top_bit
  by (cases "bit c 31") (simp_all only: if_True if_False bit_xor_iff bit_push_one, simp_all)

lemma crc_shift_inj: "crc_shift a = crc_shift b \<Longrightarrow> a = b"
proof -
  assume e: "crc_shift a = crc_shift b"
  then have t: "bit a 31 = bit b 31" using bit_crc_shift_0 by metis
  then have p: "push_bit 1 a = push_bit 1 b"
    using e unfolding crc_shift_def top_bit by (cases "bit b 31") simp_all
  show "a = b"
  proof (rule bit_word_eqI)
    fix n
    assume "n < LENGTH(32)"
    then show "bit a n = bit b n"
      using t arg_cong [OF p, of "\<lambda>w. bit w (Suc n)"] unfolding bit_push_one
      by (cases "n = 31") auto
  qed
qed

lemma crc_shift_pow_inj: "(crc_shift ^^ n) a = (crc_shift ^^ n) b \<Longrightarrow> a = b"
  by (induction n) (auto dest: crc_shift_inj)

lemma crc_update_inj_crc: "crc_update c b = crc_update d b \<Longrightarrow> c = d"
  unfolding crc_update_bits crc_bits_def by (drule crc_shift_pow_inj) simp

lemma crc_update_inj_byte: "crc_update c a = crc_update c b \<Longrightarrow> a = b"
proof -
  assume "crc_update c a = crc_update c b"
  then have e: "push_bit 24 (ucast a :: u32) = push_bit 24 (ucast b)"
    unfolding crc_update_bits crc_bits_def by (auto dest: crc_shift_pow_inj)
  show "a = b"
  proof (rule bit_word_eqI)
    fix n
    assume "n < LENGTH(8)"
    then show "bit a n = bit b n"
      using arg_cong [OF e, of "\<lambda>w. bit w (24 + n)"] by (simp add: bit_simps)
  qed
qed

lemma foldl_crc_inj: "foldl crc_update c ds = foldl crc_update d ds \<Longrightarrow> c = d"
  by (induction ds arbitrary: c d) (auto dest: crc_update_inj_crc)

lemma crc_byte_changed:
  assumes "a \<noteq> b"
  shows "calculate_crc32 (xs @ a # ys) \<noteq> calculate_crc32 (xs @ b # ys)"
proof
  assume "calculate_crc32 (xs @ a # ys) = calculate_crc32 (xs @ b # ys)"
  then have "crc_update (foldl crc_update 0xFFFFFFFF xs) a = crc_update (foldl crc_update 0xFFFFFFFF xs) b"
    by (simp add: calculate_crc32_def) (erule foldl_crc_inj)
  with assms show False by (auto dest: crc_update_inj_byte)
qed

section \<open>Properties\<close>

text \<open>
  (C23) The table-driven checksum computes the bit-serial one: for every input, the loop over the
  precomputed table gives the remainder of the CRC-32 polynomial that shifting the bits one by one
  gives.
\<close>

theorem crc32_table_correct: "calculate_crc32 ds = crc32_reference ds"
proof -
  have "crc_update = crc_bits" by (intro ext) (rule crc_update_bits)
  then show ?thesis by (simp add: calculate_crc32_def crc32_reference_def)
qed

end
