(* ===== verification/Protocol.thy ===== *)
theory Protocol
  imports Crc32
begin

text \<open>
  The frames of the publish/subscribe protocol, \<^verbatim>\<open>src/src/pubsub/protocol.rs\<close>: constructors,
  encoding and parsing, with the round trip and the detection of damaged payloads.
\<close>

section \<open>Frames\<close>

datatype PubSubError =
    InitFailed | NetworkError | InvalidParameter | ResourceExhausted | InvalidFrameFormat
  | CrcCheckFailed | TopicNotFound | SubscriptionNotFound | PsUnsupportedOperation

datatype FrameType = FData | FNack | FHeartbeat

fun frame_code :: "FrameType \<Rightarrow> u8" where
  "frame_code FData = 0x01"
| "frame_code FNack = 0x02"
| "frame_code FHeartbeat = 0x03"

definition frame_type_from :: "u8 \<Rightarrow> FrameType" where
  "frame_type_from v =
     (if v = 0x01 then FData else if v = 0x02 then FNack else if v = 0x03 then FHeartbeat else FData)"

record ProtocolFrame =
  magic :: u32
  pf_version :: u8
  frame_type :: FrameType
  seq_num :: u32
  topic_id :: u16
  pf_data_len :: u16
  pf_crc32 :: u32
  payload :: bytes

definition MAGIC_WORD :: u32 where "MAGIC_WORD = 0x55AA55AA"
definition PROTOCOL_VERSION :: u8 where "PROTOCOL_VERSION = 1"
definition HEADER_SIZE :: nat where "HEADER_SIZE = 4 + 1 + 1 + 4 + 2 + 2 + 4"
definition MAX_DATA_LEN :: nat where "MAX_DATA_LEN = 4096"

definition new_data_frame :: "u32 \<Rightarrow> u16 \<Rightarrow> bytes \<Rightarrow> PubSubError + ProtocolFrame" where
  "new_data_frame sn tid ds =
     (if length ds > MAX_DATA_LEN then Inl InvalidParameter
      else Inr \<lparr>magic = MAGIC_WORD, pf_version = PROTOCOL_VERSION, frame_type = FData, seq_num = sn,
               topic_id = tid, pf_data_len = of_nat (length ds), pf_crc32 = calculate_crc32 ds,
               payload = ds\<rparr>)"

definition new_nack_frame :: "u32 \<Rightarrow> u16 \<Rightarrow> ProtocolFrame" where
  "new_nack_frame sn tid =
     \<lparr>magic = MAGIC_WORD, pf_version = PROTOCOL_VERSION, frame_type = FNack, seq_num = sn,
      topic_id = tid, pf_data_len = 0, pf_crc32 = 0, payload = []\<rparr>"

definition new_heartbeat_frame :: ProtocolFrame where
  "new_heartbeat_frame =
     \<lparr>magic = MAGIC_WORD, pf_version = PROTOCOL_VERSION, frame_type = FHeartbeat, seq_num = 0,
      topic_id = 0, pf_data_len = 0, pf_crc32 = 0, payload = []\<rparr>"

text \<open>\<open>from_le_bytes\<close> of a slice of the input; the slices lie inside it by the length check.\<close>

definition from_bytes :: "bytes \<Rightarrow> PubSubError + ProtocolFrame" where
  "from_bytes bs =
     (if length bs < HEADER_SIZE then Inl InvalidFrameFormat
      else let m = of_nat (read_le 4 bs 0) :: u32 in
      if m \<noteq> MAGIC_WORD then Inl InvalidFrameFormat
      else let v = bs ! 4 in
      if v \<noteq> PROTOCOL_VERSION then Inl InvalidFrameFormat
      else let ft = frame_type_from (bs ! 5);
               sn = of_nat (read_le 4 bs 6) :: u32;
               tid = of_nat (read_le 2 bs 10) :: u16;
               dl = of_nat (read_le 2 bs 12) :: u16 in
      if length bs < HEADER_SIZE + unat dl then Inl InvalidFrameFormat
      else let crc = of_nat (read_le 4 bs 14) :: u32;
               pl = bytes_at bs 18 (unat dl) in
      if ft = FData \<and> calculate_crc32 pl \<noteq> crc then Inl CrcCheckFailed
      else Inr \<lparr>magic = m, pf_version = v, frame_type = ft, seq_num = sn, topic_id = tid,
               pf_data_len = dl, pf_crc32 = crc, payload = pl\<rparr>)"

definition to_bytes :: "ProtocolFrame \<Rightarrow> bytes" where
  "to_bytes f =
     to_le 4 (unat (magic f)) @ [pf_version f] @ [frame_code (frame_type f)]
     @ to_le 4 (unat (seq_num f)) @ to_le 2 (unat (topic_id f)) @ to_le 2 (unat (pf_data_len f))
     @ to_le 4 (unat (pf_crc32 f)) @ payload f"

section \<open>Lemmas\<close>

definition wf_frame :: "ProtocolFrame \<Rightarrow> bool" where
  "wf_frame f \<longleftrightarrow>
     magic f = MAGIC_WORD \<and> pf_version f = PROTOCOL_VERSION \<and> unat (pf_data_len f) = length (payload f)
     \<and> (frame_type f = FData \<longrightarrow> pf_crc32 f = calculate_crc32 (payload f))"

lemma frame_type_code [simp]: "frame_type_from (frame_code t) = t"
  by (cases t) (simp_all add: frame_type_from_def)

lemma wf_new_frames:
  "new_data_frame sn tid ds = Inr f \<Longrightarrow> wf_frame f" "wf_frame (new_nack_frame sn tid)"
  "wf_frame new_heartbeat_frame"
  by (auto simp: wf_frame_def new_data_frame_def new_nack_frame_def new_heartbeat_frame_def
      MAX_DATA_LEN_def unat_of_nat split: if_splits)

lemma bytes_at_skip: "length xs \<le> off \<Longrightarrow> bytes_at (xs @ ys) off n = bytes_at ys (off - length xs) n"
  by (simp add: bytes_at_def)

lemma bytes_at_Cons: "0 < off \<Longrightarrow> bytes_at (x # xs) off n = bytes_at xs (off - 1) n"
  by (cases off) (simp_all add: bytes_at_def)

lemma bytes_at_0: "bytes_at xs 0 n = take n xs"
  by (simp add: bytes_at_def)

lemma unat_mod_width:
  "unat (w :: u32) mod 4294967296 = unat w" "unat (v :: u16) mod 65536 = unat v"
proof -
  have "unat w < 4294967296" using unsigned_less [of w] by simp
  then show "unat w mod 4294967296 = unat w" by simp
  have "unat v < 65536" using unsigned_less [of v] by simp
  then show "unat v mod 65536 = unat v" by simp
qed

text \<open>What the parser sees of a header followed by any bytes.\<close>

definition frame_header :: "u32 \<Rightarrow> u8 \<Rightarrow> u8 \<Rightarrow> u32 \<Rightarrow> u16 \<Rightarrow> u16 \<Rightarrow> u32 \<Rightarrow> bytes" where
  "frame_header m v ft sn tid dl crc =
     to_le 4 (unat m) @ [v] @ [ft] @ to_le 4 (unat sn) @ to_le 2 (unat tid) @ to_le 2 (unat dl)
     @ to_le 4 (unat crc)"

lemma length_frame_header [simp]: "length (frame_header m v ft sn tid dl crc) = 18"
  by (simp add: frame_header_def)

lemma frame_header_fields:
  fixes rest m v ft sn tid dl crc
  defines "bs \<equiv> frame_header m v ft sn tid dl crc @ rest"
  shows "of_nat (read_le 4 bs 0) = m" "bs ! 4 = v" "bs ! 5 = ft" "of_nat (read_le 4 bs 6) = sn"
    "of_nat (read_le 2 bs 10) = tid" "of_nat (read_le 2 bs 12) = dl" "of_nat (read_le 4 bs 14) = crc"
    "bytes_at bs 18 n = take n rest"
  unfolding bs_def frame_header_def read_le_def
  by (simp_all add: bytes_at_skip bytes_at_Cons bytes_at_0 unat_mod_width nth_append)

lemma from_bytes_header:
  "from_bytes (frame_header m v ft sn tid dl crc @ rest) =
     (if m \<noteq> MAGIC_WORD \<or> v \<noteq> PROTOCOL_VERSION \<or> length rest < unat dl then Inl InvalidFrameFormat
      else if frame_type_from ft = FData \<and> calculate_crc32 (take (unat dl) rest) \<noteq> crc
      then Inl CrcCheckFailed
      else Inr \<lparr>magic = m, pf_version = v, frame_type = frame_type_from ft, seq_num = sn,
               topic_id = tid, pf_data_len = dl, pf_crc32 = crc, payload = take (unat dl) rest\<rparr>)"
  unfolding from_bytes_def Let_def frame_header_fields
  by (simp add: HEADER_SIZE_def)

lemma to_bytes_header:
  "to_bytes f = frame_header (magic f) (pf_version f) (frame_code (frame_type f)) (seq_num f)
     (topic_id f) (pf_data_len f) (pf_crc32 f) @ payload f"
  by (simp add: to_bytes_def frame_header_def)

lemma from_to_bytes:
  "wf_frame f \<Longrightarrow> from_bytes (to_bytes f @ rest) = Inr f"
  by (simp add: to_bytes_header from_bytes_header wf_frame_def)

section \<open>Properties\<close>

text \<open>
  (C21) Encoding and parsing are inverse.  Every frame the constructors make is read back from its
  bytes unchanged, whatever follows it in the datagram.
\<close>

theorem frame_roundtrip:
  "(new_data_frame sn tid ds = Inr f \<longrightarrow> from_bytes (to_bytes f @ rest) = Inr f)
   \<and> from_bytes (to_bytes (new_nack_frame sn tid) @ rest) = Inr (new_nack_frame sn tid)
   \<and> from_bytes (to_bytes new_heartbeat_frame @ rest) = Inr new_heartbeat_frame"
  using from_to_bytes wf_new_frames by blast

theorem frame_roundtrip_witness:
  "\<exists>f. new_data_frame 7 3 [1, 2, 3] = Inr f \<and> from_bytes (to_bytes f @ [9]) = Inr f"
proof -
  obtain f where f: "new_data_frame 7 3 [1, 2, 3] = Inr f"
    by (simp add: new_data_frame_def MAX_DATA_LEN_def)
  from frame_roundtrip [of 7 3 "[1, 2, 3]" f "[9]"] f show ?thesis by blast
qed

text \<open>
  (C22) A damaged byte is noticed.  When one byte of the payload of a data frame arrives changed, the
  parser reports \<open>CrcCheckFailed\<close>; when the frame arrives cut off anywhere, it reports
  \<open>InvalidFrameFormat\<close>.
\<close>

theorem frame_damage_detected:
  assumes "new_data_frame sn tid ds = Inr f"
  shows "(i < length ds \<and> b \<noteq> ds ! i \<longrightarrow>
       from_bytes ((to_bytes f)[18 + i := b] @ rest) = Inl CrcCheckFailed)
    \<and> (k < length (to_bytes f) \<longrightarrow> from_bytes (take k (to_bytes f)) = Inl InvalidFrameFormat)"
proof -
  let ?h = "frame_header (magic f) (pf_version f) (frame_code (frame_type f)) (seq_num f)
     (topic_id f) (pf_data_len f) (pf_crc32 f)"
  have w: "wf_frame f" and p: "payload f = ds" "frame_type f = FData"
    using wf_new_frames(1) [OF assms] assms by (auto simp: new_data_frame_def split: if_splits)
  have l: "unat (pf_data_len f) = length ds" using w p by (simp add: wf_frame_def)
  have "calculate_crc32 (ds[i := b]) \<noteq> calculate_crc32 ds" if "i < length ds" "b \<noteq> ds ! i"
  proof -
    have "ds[i := b] = take i ds @ b # drop (Suc i) ds" using that(1) by (simp add: upd_conv_take_nth_drop)
    moreover have "ds = take i ds @ ds ! i # drop (Suc i) ds" using that(1) by (simp add: id_take_nth_drop)
    ultimately show ?thesis using crc_byte_changed [OF that(2)] by metis
  qed
  moreover have "(to_bytes f)[18 + i := b] @ rest = ?h @ (ds[i := b] @ rest)"
    using p by (simp add: to_bytes_header list_update_append)
  ultimately have "from_bytes ((to_bytes f)[18 + i := b] @ rest) = Inl CrcCheckFailed"
    if "i < length ds" "b \<noteq> ds ! i"
    using that w p l unfolding wf_frame_def by (simp only: from_bytes_header) (simp add: wf_frame_def frame_type_from_def)
  moreover have "from_bytes (take k (to_bytes f)) = Inl InvalidFrameFormat" if "k < length (to_bytes f)"
  proof (cases "k < 18")
    case True
    then have "length (take k (to_bytes f)) < HEADER_SIZE" by (simp add: HEADER_SIZE_def)
    then show ?thesis by (simp only: from_bytes_def if_True)
  next
    case False
    then have "take k (to_bytes f) = ?h @ take (k - 18) ds" using p by (simp add: to_bytes_header)
    moreover have "k - 18 < length ds" using that False p by (simp add: to_bytes_header)
    ultimately show ?thesis using l by (simp only: from_bytes_header) simp
  qed
  ultimately show ?thesis by blast
qed

theorem frame_damage_detected_witness:
  "\<exists>f. new_data_frame 7 3 [1, 2, 3] = Inr f
    \<and> from_bytes ((to_bytes f)[19 := 99] @ []) = Inl CrcCheckFailed"
proof -
  obtain f where f: "new_data_frame 7 3 [1, 2, 3] = Inr f"
    by (simp add: new_data_frame_def MAX_DATA_LEN_def)
  from frame_damage_detected [OF f, of 1 99 "[]"] f show ?thesis by simp
qed

end
