(* ===== verification/PubSub.thy ===== *)
theory PubSub
  imports Protocol
begin

text \<open>
  The publisher, the subscriber manager and the frame handlers of \<^verbatim>\<open>src/src/pubsub/\<close>.  The clock is
  an argument (\<open>now\<close>, milliseconds); a callback is a function of topic and data whose answer says
  whether to stay subscribed; sending a frame appends it to an outbox, since the handlers
  ignore the result of the socket.  Sequence numbers wrap at 32 bits.
\<close>

section \<open>Publisher\<close>

record PendingData =
  pd_frame :: ProtocolFrame
  send_time :: u64
  retransmit_count :: nat
  acknowledged :: bool

record Publisher =
  enable_nack :: bool
  retransmit_timeout :: u64
  max_retransmits :: nat
  next_seq_num :: u32
  pending_data :: "PendingData list"

definition Publisher_new :: "bool \<Rightarrow> u64 \<Rightarrow> nat \<Rightarrow> Publisher" where
  "Publisher_new en to mx =
     \<lparr>enable_nack = en, retransmit_timeout = to, max_retransmits = mx, next_seq_num = 1,
      pending_data = []\<rparr>"

text \<open>The sequence number is consumed even when the frame is refused.\<close>

definition create_frame ::
  "u64 \<Rightarrow> u16 \<Rightarrow> bytes \<Rightarrow> Publisher \<Rightarrow> (PubSubError + ProtocolFrame) \<times> Publisher" where
  "create_frame now tid ds p =
     (let sn = next_seq_num p; p1 = p\<lparr>next_seq_num := sn + 1\<rparr> in
      case new_data_frame sn tid ds of
        Inl e \<Rightarrow> (Inl e, p1)
      | Inr f \<Rightarrow> (Inr f,
          if enable_nack p1
          then p1\<lparr>pending_data := pending_data p1 @ [\<lparr>pd_frame = f, send_time = now,
                    retransmit_count = 0, acknowledged = False\<rparr>]\<rparr>
          else p1))"

text \<open>The loop over the pending frames stops at the first match.\<close>

fun nack_loop ::
  "u64 \<Rightarrow> nat \<Rightarrow> u32 \<Rightarrow> u16 \<Rightarrow> PendingData list \<Rightarrow> ProtocolFrame list \<times> PendingData list" where
  "nack_loop now mx sn tid [] = ([], [])"
| "nack_loop now mx sn tid (d # ds) =
     (if seq_num (pd_frame d) = sn \<and> topic_id (pd_frame d) = tid then
        (if retransmit_count d < mx
         then ([pd_frame d], d\<lparr>retransmit_count := retransmit_count d + 1, send_time := now\<rparr> # ds)
         else ([], d\<lparr>acknowledged := True\<rparr> # ds))
      else let (fs, ds') = nack_loop now mx sn tid ds in (fs, d # ds'))"

definition handle_nack :: "u64 \<Rightarrow> u32 \<Rightarrow> u16 \<Rightarrow> Publisher \<Rightarrow> ProtocolFrame list \<times> Publisher" where
  "handle_nack now sn tid p =
     (if \<not> enable_nack p then ([], p)
      else let (fs, ds) = nack_loop now (max_retransmits p) sn tid (pending_data p)
           in (fs, p\<lparr>pending_data := ds\<rparr>))"

text \<open>\<open>current_time - send_time\<close> is a subtraction on \<open>u64\<close>.\<close>

definition timeout_one :: "u64 \<Rightarrow> u64 \<Rightarrow> nat \<Rightarrow> PendingData \<Rightarrow> ProtocolFrame list \<times> PendingData" where
  "timeout_one now to mx d =
     (if \<not> acknowledged d \<and> now - send_time d > to then
        (if retransmit_count d < mx
         then ([pd_frame d], d\<lparr>retransmit_count := retransmit_count d + 1, send_time := now\<rparr>)
         else ([], d\<lparr>acknowledged := True\<rparr>))
      else ([], d))"

definition check_timeouts :: "u64 \<Rightarrow> Publisher \<Rightarrow> ProtocolFrame list \<times> Publisher" where
  "check_timeouts now p =
     (if \<not> enable_nack p then ([], p)
      else let rs = map (timeout_one now (retransmit_timeout p) (max_retransmits p)) (pending_data p)
           in (concat (map fst rs),
               p\<lparr>pending_data := filter (\<lambda>d. \<not> acknowledged d) (map snd rs)\<rparr>))"

definition clear_pending :: "Publisher \<Rightarrow> Publisher" where
  "clear_pending p = p\<lparr>pending_data := []\<rparr>"

definition pending_count :: "Publisher \<Rightarrow> nat" where
  "pending_count p = length (pending_data p)"

section \<open>Subscribers\<close>

record Subscriber =
  sub_id :: nat
  sub_topic :: u16
  callback :: "u16 \<Rightarrow> bytes \<Rightarrow> bool"
  active :: bool
  last_active :: u64

record SubscriberManager =
  max_topics :: nat
  max_subscribers_per_topic :: nat
  subscribers :: "Subscriber option list list"
  wildcard_subscribers :: "Subscriber option list"
  next_subscription_id :: nat
  global_subscribers :: "nat list"
  topic_map :: "string \<rightharpoonup> u16"
  id_map :: "string option list"
  expected_seq_nums :: "u32 list"

definition WILDCARD_TOPIC_ID :: u16 where "WILDCARD_TOPIC_ID = 0xFFFF"

definition SubscriberManager_new :: "nat \<Rightarrow> nat \<Rightarrow> PubSubError + SubscriberManager" where
  "SubscriberManager_new mt ms =
     (if mt = 0 \<or> ms = 0 then Inl InvalidParameter
      else Inr \<lparr>max_topics = mt, max_subscribers_per_topic = ms,
               subscribers = replicate mt (replicate ms None),
               wildcard_subscribers = replicate ms None, next_subscription_id = 1,
               global_subscribers = [], topic_map = Map.empty, id_map = [],
               expected_seq_nums = replicate mt 1\<rparr>)"

text \<open>The first free place of a list of subscribers, growing it while it is below the limit.\<close>

fun first_none :: "'a option list \<Rightarrow> nat option" where
  "first_none [] = None"
| "first_none (None # xs) = Some 0"
| "first_none (Some x # xs) = map_option Suc (first_none xs)"

definition place :: "nat \<Rightarrow> Subscriber \<Rightarrow> Subscriber option list \<Rightarrow> (nat \<times> Subscriber option list) option" where
  "place lim s xs =
     (case first_none xs of
        Some i \<Rightarrow> Some (i, xs[i := Some s])
      | None \<Rightarrow> if length xs \<ge> lim then None else Some (length xs, xs @ [Some s]))"

definition subscribe ::
  "u64 \<Rightarrow> u16 \<Rightarrow> (u16 \<Rightarrow> bytes \<Rightarrow> bool) \<Rightarrow> SubscriberManager
     \<Rightarrow> (PubSubError + nat) \<times> SubscriberManager" where
  "subscribe now tid cb m =
     (let sid = next_subscription_id m; m1 = m\<lparr>next_subscription_id := sid + 1\<rparr>;
          s = \<lparr>sub_id = sid, sub_topic = tid, callback = cb, active = True, last_active = now\<rparr> in
      if tid = WILDCARD_TOPIC_ID then
        (case place (max_subscribers_per_topic m) s (wildcard_subscribers m) of
           None \<Rightarrow> (Inl ResourceExhausted, m1)
         | Some (i, xs) \<Rightarrow>
             (Inr sid, m1\<lparr>wildcard_subscribers := xs,
                global_subscribers := global_subscribers m @ [unat WILDCARD_TOPIC_ID * 1000 + i]\<rparr>))
      else if unat tid \<ge> max_topics m then (Inl InvalidParameter, m1)
      else
        (case place (max_subscribers_per_topic m) s (subscribers m ! unat tid) of
           None \<Rightarrow> (Inl ResourceExhausted, m1)
         | Some (i, xs) \<Rightarrow>
             (Inr sid, m1\<lparr>subscribers := (subscribers m)[unat tid := xs],
                global_subscribers := global_subscribers m @ [unat tid * 1000 + i]\<rparr>)))"

fun clear_id :: "nat \<Rightarrow> Subscriber option list \<Rightarrow> Subscriber option list option" where
  "clear_id sid [] = None"
| "clear_id sid (None # xs) = map_option (\<lambda>ys. None # ys) (clear_id sid xs)"
| "clear_id sid (Some s # xs) =
     (if sub_id s = sid then Some (None # xs) else map_option (\<lambda>ys. Some s # ys) (clear_id sid xs))"

fun clear_id_topics :: "nat \<Rightarrow> Subscriber option list list \<Rightarrow> Subscriber option list list option" where
  "clear_id_topics sid [] = None"
| "clear_id_topics sid (xs # xss) =
     (case clear_id sid xs of
        Some ys \<Rightarrow> Some (ys # xss)
      | None \<Rightarrow> map_option (\<lambda>yss. xs # yss) (clear_id_topics sid xss))"

definition unsubscribe :: "nat \<Rightarrow> SubscriberManager \<Rightarrow> PubSubError + SubscriberManager" where
  "unsubscribe sid m =
     (case clear_id_topics sid (subscribers m) of
        Some xss \<Rightarrow> Inr (m\<lparr>subscribers := xss\<rparr>)
      | None \<Rightarrow>
          (case clear_id sid (wildcard_subscribers m) of
             Some xs \<Rightarrow> Inr (m\<lparr>wildcard_subscribers := xs\<rparr>)
           | None \<Rightarrow> Inl SubscriptionNotFound))"

text \<open>One subscriber gets the data: the delivery made and what is left of the subscription.\<close>

type_synonym delivery = "nat \<times> u16 \<times> bytes"

definition deliver_one ::
  "u64 \<Rightarrow> u16 \<Rightarrow> bytes \<Rightarrow> Subscriber option \<Rightarrow> delivery list \<times> Subscriber option" where
  "deliver_one now tid ds x =
     (case x of
        None \<Rightarrow> ([], None)
      | Some s \<Rightarrow>
          if active s then
            ([(sub_id s, tid, ds)],
             if callback s tid ds then Some (s\<lparr>last_active := now\<rparr>) else None)
          else ([], Some s))"

definition handle_data ::
  "u64 \<Rightarrow> u16 \<Rightarrow> bytes \<Rightarrow> SubscriberManager \<Rightarrow> PubSubError + (delivery list \<times> SubscriberManager)" where
  "handle_data now tid ds m =
     (if unat tid \<ge> max_topics m then Inl InvalidParameter
      else let rs = map (deliver_one now tid ds) (subscribers m ! unat tid);
               ws = map (deliver_one now tid ds) (wildcard_subscribers m)
           in Inr (concat (map fst rs) @ concat (map fst ws),
                   m\<lparr>subscribers := (subscribers m)[unat tid := map snd rs],
                     wildcard_subscribers := map snd ws\<rparr>))"

definition expire_one :: "u64 \<Rightarrow> u64 \<Rightarrow> Subscriber option \<Rightarrow> Subscriber option" where
  "expire_one now timeout x =
     (case x of
        None \<Rightarrow> None
      | Some s \<Rightarrow> if active s \<and> now - last_active s > timeout then None else Some s)"

definition cleanup_inactive :: "u64 \<Rightarrow> u64 \<Rightarrow> SubscriberManager \<Rightarrow> SubscriberManager" where
  "cleanup_inactive now timeout m =
     m\<lparr>subscribers := map (map (expire_one now timeout)) (subscribers m),
       wildcard_subscribers := map (expire_one now timeout) (wildcard_subscribers m)\<rparr>"

definition count_active :: "Subscriber option list \<Rightarrow> nat" where
  "count_active xs = length (filter (\<lambda>x. case x of Some s \<Rightarrow> active s | None \<Rightarrow> False) xs)"

definition get_subscriber_count :: "u16 \<Rightarrow> SubscriberManager \<Rightarrow> PubSubError + nat" where
  "get_subscriber_count tid m =
     (if tid = WILDCARD_TOPIC_ID then Inr (count_active (wildcard_subscribers m))
      else if unat tid \<ge> max_topics m then Inl InvalidParameter
      else Inr (count_active (subscribers m ! unat tid)))"

definition get_total_subscriber_count :: "SubscriberManager \<Rightarrow> nat" where
  "get_total_subscriber_count m =
     sum_list (map count_active (subscribers m)) + count_active (wildcard_subscribers m)"

section \<open>Topics and sequence numbers\<close>

definition register_topic :: "string \<Rightarrow> u16 \<Rightarrow> SubscriberManager \<Rightarrow> PubSubError + SubscriberManager" where
  "register_topic nm tid m =
     (if unat tid \<ge> max_topics m then Inl InvalidParameter
      else if topic_map m nm \<noteq> None then Inl InvalidParameter
      else if unat tid < length (id_map m) \<and> id_map m ! unat tid \<noteq> None then Inl InvalidParameter
      else let ids = id_map m @ replicate (Suc (unat tid) - length (id_map m)) None
           in Inr (m\<lparr>topic_map := (topic_map m)(nm \<mapsto> tid), id_map := ids[unat tid := Some nm]\<rparr>))"

definition get_topic_id :: "string \<Rightarrow> SubscriberManager \<Rightarrow> u16 option" where
  "get_topic_id nm m = topic_map m nm"

definition get_topic_name :: "u16 \<Rightarrow> SubscriberManager \<Rightarrow> string option" where
  "get_topic_name tid m = (if unat tid < length (id_map m) then id_map m ! unat tid else None)"

text \<open>\<open>Some n\<close>: the frame with sequence number \<open>n\<close> is missing and a NACK is due.\<close>

definition check_seq_num :: "u16 \<Rightarrow> u32 \<Rightarrow> SubscriberManager \<Rightarrow> u32 option \<times> SubscriberManager" where
  "check_seq_num tid sn m =
     (if unat tid \<ge> max_topics m then (None, m)
      else
        let es = expected_seq_nums m @ replicate (Suc (unat tid) - length (expected_seq_nums m)) 1;
            m1 = m\<lparr>expected_seq_nums := es\<rparr>; e = es ! unat tid in
        if sn < e then (None, m1)
        else if sn > e then (Some e, m1)
        else (None, m1\<lparr>expected_seq_nums := es[unat tid := e + 1]\<rparr>))"

section \<open>The frame handlers\<close>

record PubSub =
  ps_subscribers :: SubscriberManager
  ps_publisher :: Publisher
  heartbeat_interval :: u64
  outbox :: "ProtocolFrame list"
  delivered :: "delivery list"

definition handle_data_frame :: "u64 \<Rightarrow> ProtocolFrame \<Rightarrow> PubSub \<Rightarrow> PubSub" where
  "handle_data_frame now f ps =
     (case check_seq_num (topic_id f) (seq_num f) (ps_subscribers ps) of
        (Some missing, m) \<Rightarrow>
          ps\<lparr>ps_subscribers := m, outbox := outbox ps @ [new_nack_frame missing (topic_id f)]\<rparr>
      | (None, m) \<Rightarrow>
          (case handle_data now (topic_id f) (payload f) m of
             Inl e \<Rightarrow> ps\<lparr>ps_subscribers := m\<rparr>
           | Inr (dl, m') \<Rightarrow> ps\<lparr>ps_subscribers := m', delivered := delivered ps @ dl\<rparr>))"

definition handle_nack_frame :: "u64 \<Rightarrow> ProtocolFrame \<Rightarrow> PubSub \<Rightarrow> PubSub" where
  "handle_nack_frame now f ps =
     (let (fs, p) = handle_nack now (seq_num f) (topic_id f) (ps_publisher ps)
      in ps\<lparr>ps_publisher := p, outbox := outbox ps @ fs\<rparr>)"

definition handle_heartbeat_frame :: "u64 \<Rightarrow> PubSub \<Rightarrow> PubSub" where
  "handle_heartbeat_frame now ps =
     ps\<lparr>ps_subscribers := cleanup_inactive now (heartbeat_interval ps * 3) (ps_subscribers ps)\<rparr>"

definition handle_received_data :: "u64 \<Rightarrow> bytes \<Rightarrow> PubSub \<Rightarrow> PubSub" where
  "handle_received_data now bs ps =
     (case from_bytes bs of
        Inl e \<Rightarrow> ps
      | Inr f \<Rightarrow>
          (case frame_type f of
             FData \<Rightarrow> handle_data_frame now f ps
           | FNack \<Rightarrow> handle_nack_frame now f ps
           | FHeartbeat \<Rightarrow> handle_heartbeat_frame now ps))"

text \<open>Publishing; \<open>res\<close> is what the socket answers to the send.\<close>

definition publish ::
  "PubSubError option \<Rightarrow> u64 \<Rightarrow> u16 \<Rightarrow> bytes \<Rightarrow> PubSub \<Rightarrow> (PubSubError + unit) \<times> PubSub" where
  "publish res now tid ds ps =
     (case create_frame now tid ds (ps_publisher ps) of
        (Inl e, p) \<Rightarrow> (Inl e, ps\<lparr>ps_publisher := p\<rparr>)
      | (Inr f, p) \<Rightarrow>
          (case res of
             Some e \<Rightarrow> (Inl e, ps\<lparr>ps_publisher := p\<rparr>)
           | None \<Rightarrow> (Inr (), ps\<lparr>ps_publisher := p, outbox := outbox ps @ [f]\<rparr>)))"

definition register_predefined_topics :: "SubscriberManager \<Rightarrow> PubSubError + SubscriberManager" where
  "register_predefined_topics m =
     fold (\<lambda>(nm, tid) r. case r of Inl e \<Rightarrow> Inl e | Inr m \<Rightarrow> register_topic nm tid m)
       [(''wal'', 1), (''tables'', 11), (''metrics'', 12), (''healthstatus'', 13)] (Inr m)"

end
