(* ===== verification/PubSub_Inv.thy ===== *)
theory PubSub_Inv
  imports PubSub "HOL-Library.Multiset"
begin

text \<open>
  Properties of the publish/subscribe layer: subscriptions, the topic registry, sequence checking,
  retransmission and their composition over encoded frames.
\<close>

section \<open>Frames through the receive path\<close>

lemma receive_data:
  assumes "new_data_frame sn tid ds = Inr f"
  shows "handle_received_data now (to_bytes f) ps = handle_data_frame now f ps"
    and "topic_id f = tid" "seq_num f = sn" "payload f = ds"
proof -
  have f: "frame_type f = FData" "topic_id f = tid" "seq_num f = sn" "payload f = ds"
    using assms by (auto simp: new_data_frame_def split: if_splits)
  have "from_bytes (to_bytes f) = Inr f"
    using from_to_bytes [OF wf_new_frames(1) [OF assms], of "[]"] by simp
  then show "handle_received_data now (to_bytes f) ps = handle_data_frame now f ps"
    using f(1) by (simp add: handle_received_data_def)
  show "topic_id f = tid" "seq_num f = sn" "payload f = ds" using f by simp_all
qed

lemma receive_nack:
  "handle_received_data now (to_bytes (new_nack_frame sn tid)) ps
     = handle_nack_frame now (new_nack_frame sn tid) ps"
proof -
  have "from_bytes (to_bytes (new_nack_frame sn tid)) = Inr (new_nack_frame sn tid)"
    using from_to_bytes [OF wf_new_frames(2), of sn tid "[]"] by simp
  then show ?thesis by (simp add: handle_received_data_def new_nack_frame_def)
qed

text \<open>The topic is known and its tables have the size the constructor gives them.\<close>

definition topic_ready :: "u16 \<Rightarrow> SubscriberManager \<Rightarrow> bool" where
  "topic_ready tid m \<longleftrightarrow> unat tid < max_topics m \<and> length (expected_seq_nums m) = max_topics m
     \<and> length (subscribers m) = max_topics m"

definition expected :: "u16 \<Rightarrow> SubscriberManager \<Rightarrow> u32" where
  "expected tid m = expected_seq_nums m ! unat tid"

text \<open>Who is to get data of a topic: its active subscribers, then the active wildcard ones.\<close>

definition audience :: "u16 \<Rightarrow> SubscriberManager \<Rightarrow> nat list" where
  "audience tid m =
     map sub_id (filter active (List.map_filter id (subscribers m ! unat tid)))
     @ map sub_id (filter active (List.map_filter id (wildcard_subscribers m)))"

lemma deliver_list:
  "concat (map (fst \<circ> deliver_one now tid ds) xs)
     = map (\<lambda>i. (i, tid, ds)) (map sub_id (filter active (List.map_filter id xs)))"
  by (induction xs) (auto simp: deliver_one_def map_filter_def split: option.splits)

lemma handle_data_audience:
  assumes "topic_ready tid m"
  shows "\<exists>m'. handle_data now tid ds m = Inr (map (\<lambda>i. (i, tid, ds)) (audience tid m), m')
    \<and> expected_seq_nums m' = expected_seq_nums m \<and> topic_ready tid m'"
  using assms by (simp add: handle_data_def topic_ready_def audience_def deliver_list)

lemma check_seq_ready:
  assumes "topic_ready tid m"
  shows "check_seq_num tid sn m =
    (if sn < expected tid m then (None, m)
     else if sn > expected tid m then (Some (expected tid m), m)
     else (None, m\<lparr>expected_seq_nums := (expected_seq_nums m)[unat tid := sn + 1]\<rparr>))"
  using assms by (auto simp: check_seq_num_def topic_ready_def expected_def Let_def)

lemma data_frame_cases:
  assumes "topic_ready tid (ps_subscribers ps)" and "topic_id f = tid"
  shows "seq_num f > expected tid (ps_subscribers ps) \<Longrightarrow> handle_data_frame now f ps =
       ps\<lparr>outbox := outbox ps @ [new_nack_frame (expected tid (ps_subscribers ps)) tid]\<rparr>"
    and "seq_num f \<le> expected tid (ps_subscribers ps) \<Longrightarrow>
       delivered (handle_data_frame now f ps) =
         delivered ps @ map (\<lambda>i. (i, tid, payload f)) (audience tid (ps_subscribers ps))
       \<and> outbox (handle_data_frame now f ps) = outbox ps
       \<and> expected tid (ps_subscribers (handle_data_frame now f ps)) =
           (if seq_num f = expected tid (ps_subscribers ps) then seq_num f + 1
            else expected tid (ps_subscribers ps))
       \<and> topic_ready tid (ps_subscribers (handle_data_frame now f ps))"
proof -
  let ?m = "ps_subscribers ps"
  note c = check_seq_ready [OF assms(1)]
  show "handle_data_frame now f ps =
      ps\<lparr>outbox := outbox ps @ [new_nack_frame (expected tid ?m) tid]\<rparr>"
    if "seq_num f > expected tid ?m"
    using that assms(2) by (auto simp: handle_data_frame_def c)
  assume le: "seq_num f \<le> expected tid ?m"
  define m1 where "m1 = (if seq_num f = expected tid ?m
    then ?m\<lparr>expected_seq_nums := (expected_seq_nums ?m)[unat tid := seq_num f + 1]\<rparr> else ?m)"
  have c1: "check_seq_num tid (seq_num f) ?m = (None, m1)"
    using le by (auto simp: c m1_def)
  have r: "topic_ready tid m1" and a: "audience tid m1 = audience tid ?m"
    using assms(1) by (auto simp: m1_def topic_ready_def audience_def)
  have e: "expected tid m1 = (if seq_num f = expected tid ?m then seq_num f + 1 else expected tid ?m)"
    using assms(1) by (auto simp: m1_def topic_ready_def expected_def)
  from handle_data_audience [OF r, of now "payload f"] obtain m' where
    h: "handle_data now tid (payload f) m1 = Inr (map (\<lambda>i. (i, tid, payload f)) (audience tid m1), m')"
    and m': "expected_seq_nums m' = expected_seq_nums m1" "topic_ready tid m'" by blast
  have "handle_data_frame now f ps = ps\<lparr>ps_subscribers := m',
      delivered := delivered ps @ map (\<lambda>i. (i, tid, payload f)) (audience tid m1)\<rparr>"
    using assms(2) c1 h by (simp add: handle_data_frame_def)
  then show "delivered (handle_data_frame now f ps) =
         delivered ps @ map (\<lambda>i. (i, tid, payload f)) (audience tid (ps_subscribers ps))
       \<and> outbox (handle_data_frame now f ps) = outbox ps
       \<and> expected tid (ps_subscribers (handle_data_frame now f ps)) =
           (if seq_num f = expected tid (ps_subscribers ps) then seq_num f + 1
            else expected tid (ps_subscribers ps))
       \<and> topic_ready tid (ps_subscribers (handle_data_frame now f ps))"
    using a e m' by (auto simp: expected_def)
qed

section \<open>Retransmission\<close>

lemma nack_loop_hit:
  "List.find (\<lambda>d. seq_num (pd_frame d) = sn \<and> topic_id (pd_frame d) = tid) ds = Some d \<Longrightarrow>
    retransmit_count d < mx \<Longrightarrow> fst (nack_loop now mx sn tid ds) = [pd_frame d]"
  by (induction ds) (auto split: if_splits prod.splits)

lemma nack_loop_miss:
  "\<forall>d\<in>set ds. \<not> (seq_num (pd_frame d) = sn \<and> topic_id (pd_frame d) = tid) \<Longrightarrow>
    nack_loop now mx sn tid ds = ([], ds)"
  by (induction ds) (auto split: if_splits prod.splits)

fun run_timeouts :: "u64 list \<Rightarrow> Publisher \<Rightarrow> ProtocolFrame list \<times> Publisher" where
  "run_timeouts [] p = ([], p)"
| "run_timeouts (t # ts) p =
     (let (fs, p1) = check_timeouts t p; (gs, p2) = run_timeouts ts p1 in (fs @ gs, p2))"

text \<open>All pending frames are overdue at time \<open>t\<close>, and \<open>ts\<close> are times each overdue after the one before.\<close>

fun overdue :: "u64 \<Rightarrow> u64 \<Rightarrow> u64 list \<Rightarrow> bool" where
  "overdue to s [] = True"
| "overdue to s (t # ts) = (t - s > to \<and> overdue to t ts)"

lemma timeout_due:
  "\<not> acknowledged d \<Longrightarrow> t - send_time d > to \<Longrightarrow> timeout_one t to mx d =
     (if retransmit_count d < mx
      then ([pd_frame d], d\<lparr>retransmit_count := retransmit_count d + 1, send_time := t\<rparr>)
      else ([], d\<lparr>acknowledged := True\<rparr>))"
  by (simp add: timeout_one_def)

lemma check_timeouts_due:
  assumes "enable_nack p" and "\<forall>d\<in>set (pending_data p). \<not> acknowledged d \<and> t - send_time d > retransmit_timeout p"
  shows "check_timeouts t p =
    (map pd_frame (filter (\<lambda>d. retransmit_count d < max_retransmits p) (pending_data p)),
     p\<lparr>pending_data := map (\<lambda>d. d\<lparr>retransmit_count := retransmit_count d + 1, send_time := t\<rparr>)
         (filter (\<lambda>d. retransmit_count d < max_retransmits p) (pending_data p))\<rparr>)"
proof -
  let ?to = "retransmit_timeout p" and ?mx = "max_retransmits p"
  have "\<forall>d\<in>set ds. \<not> acknowledged d \<and> t - send_time d > ?to \<Longrightarrow>
      concat (map fst (map (timeout_one t ?to ?mx) ds)) = map pd_frame (filter (\<lambda>d. retransmit_count d < ?mx) ds)
      \<and> filter (\<lambda>d. \<not> acknowledged d) (map snd (map (timeout_one t ?to ?mx) ds))
        = map (\<lambda>d. d\<lparr>retransmit_count := retransmit_count d + 1, send_time := t\<rparr>)
            (filter (\<lambda>d. retransmit_count d < ?mx) ds)" for ds
    by (induction ds) (simp_all add: timeout_due)
  from this [OF assms(2)] show ?thesis using assms(1) by (simp add: check_timeouts_def Let_def)
qed

lemma retransmit_sum:
  "length (filter (\<lambda>d. retransmit_count d < mx) ds)
     + sum_list (map (\<lambda>d. mx - Suc (retransmit_count d)) (filter (\<lambda>d. retransmit_count d < mx) ds))
   = sum_list (map (\<lambda>d. mx - retransmit_count d) ds)"
  by (induction ds) auto

lemma drain:
  assumes "enable_nack p"
    and "\<forall>d\<in>set (pending_data p). \<not> acknowledged d \<and> overdue (retransmit_timeout p) (send_time d) ts"
    and "\<forall>d\<in>set (pending_data p). max_retransmits p < retransmit_count d + length ts"
    and "\<forall>d\<in>set (pending_data p). retransmit_count d \<le> max_retransmits p"
  shows "pending_data (snd (run_timeouts ts p)) = []
    \<and> length (fst (run_timeouts ts p))
      = sum_list (map (\<lambda>d. max_retransmits p - retransmit_count d) (pending_data p))"
  using assms
proof (induction ts arbitrary: p)
  case Nil
  then have "pending_data p = []" by (cases "pending_data p") auto
  then show ?case by simp
next
  case (Cons t ts)
  let ?mx = "max_retransmits p"
  let ?bump = "\<lambda>d. d\<lparr>retransmit_count := retransmit_count d + 1, send_time := t\<rparr>"
  let ?ds = "filter (\<lambda>d. retransmit_count d < ?mx) (pending_data p)"
  let ?p = "p\<lparr>pending_data := map ?bump ?ds\<rparr>"
  have c: "check_timeouts t p = (map pd_frame ?ds, ?p)"
    using Cons.prems by (intro check_timeouts_due) auto
  have i: "pending_data (snd (run_timeouts ts ?p)) = []
    \<and> length (fst (run_timeouts ts ?p)) = sum_list (map (\<lambda>d. ?mx - retransmit_count d) (map ?bump ?ds))"
    using Cons.IH [of ?p] Cons.prems by force
  have s: "length ?ds + sum_list (map (\<lambda>d. ?mx - retransmit_count d) (map ?bump ?ds))
      = sum_list (map (\<lambda>d. ?mx - retransmit_count d) (pending_data p))"
    using retransmit_sum [of ?mx "pending_data p"] by (simp add: comp_def)
  show ?case using c i s by (simp add: case_prod_beta Let_def)
qed

section \<open>Subscriptions\<close>

definition sub_ids :: "Subscriber option list \<Rightarrow> nat multiset" where
  "sub_ids xs = mset (map sub_id (List.map_filter id xs))"

definition all_ids :: "SubscriberManager \<Rightarrow> nat multiset" where
  "all_ids m = sum_list (map sub_ids (subscribers m)) + sub_ids (wildcard_subscribers m)"

definition subs_ok :: "SubscriberManager \<Rightarrow> bool" where
  "subs_ok m \<longleftrightarrow> length (subscribers m) = max_topics m
     \<and> (\<forall>i\<in>#all_ids m. i < next_subscription_id m \<and> count (all_ids m) i = 1)"

lemma sub_ids_simps [simp]:
  "sub_ids [] = {#}" "sub_ids (None # xs) = sub_ids xs"
  "sub_ids (Some s # xs) = add_mset (sub_id s) (sub_ids xs)" "sub_ids (xs @ ys) = sub_ids xs + sub_ids ys"
  by (simp_all add: sub_ids_def map_filter_def)

lemma place_ids:
  "place lim s xs = Some (i, ys) \<Longrightarrow> sub_ids ys = add_mset (sub_id s) (sub_ids xs)"
proof -
  have f: "first_none xs = Some i \<Longrightarrow> sub_ids (xs[i := Some s]) = add_mset (sub_id s) (sub_ids xs)" for i
    by (induction xs arbitrary: i rule: first_none.induct) auto
  assume "place lim s xs = Some (i, ys)"
  then show ?thesis using f by (auto simp: place_def split: option.splits if_splits)
qed

lemma clear_id_some:
  "clear_id sid xs = Some ys \<Longrightarrow> sub_ids xs = add_mset sid (sub_ids ys)"
  by (induction sid xs arbitrary: ys rule: clear_id.induct) (auto split: if_splits)

lemma clear_id_none: "clear_id sid xs = None \<longleftrightarrow> sid \<notin># sub_ids xs"
  by (induction sid xs rule: clear_id.induct) auto

lemma clear_topics_some:
  "clear_id_topics sid xss = Some yss \<Longrightarrow>
     sum_list (map sub_ids xss) = add_mset sid (sum_list (map sub_ids yss)) \<and> length yss = length xss"
  by (induction sid xss arbitrary: yss rule: clear_id_topics.induct)
    (auto split: option.splits dest: clear_id_some)

lemma clear_topics_none:
  "clear_id_topics sid xss = None \<longleftrightarrow> sid \<notin># sum_list (map sub_ids xss)"
  by (induction sid xss rule: clear_id_topics.induct) (auto split: option.splits simp: clear_id_none
      dest: clear_id_some)

lemma unsubscribe_ids:
  "case unsubscribe sid m of
     Inr m' \<Rightarrow> all_ids m = add_mset sid (all_ids m') \<and> length (subscribers m') = length (subscribers m)
       \<and> max_topics m' = max_topics m \<and> next_subscription_id m' = next_subscription_id m
   | Inl e \<Rightarrow> e = SubscriptionNotFound \<and> sid \<notin># all_ids m"
  by (auto simp: unsubscribe_def all_ids_def clear_topics_none clear_id_none
      split: option.splits dest!: clear_topics_some clear_id_some)

lemma sum_list_update_ids:
  "i < length xss \<Longrightarrow> sub_ids ys = add_mset x (sub_ids (xss ! i)) \<Longrightarrow>
     sum_list (map sub_ids (xss[i := ys])) = add_mset x (sum_list (map sub_ids xss))"
  by (induction xss arbitrary: i) (auto split: nat.splits)

lemma subscribe_ids:
  assumes "length (subscribers m) = max_topics m"
  shows "case subscribe now tid cb m of
     (Inr sid, m') \<Rightarrow> sid = next_subscription_id m \<and> all_ids m' = add_mset sid (all_ids m)
       \<and> length (subscribers m') = length (subscribers m) \<and> max_topics m' = max_topics m
       \<and> next_subscription_id m' = Suc sid
   | (Inl e, m') \<Rightarrow> m' = m\<lparr>next_subscription_id := Suc (next_subscription_id m)\<rparr>"
  using assms
  by (auto simp: subscribe_def Let_def all_ids_def sum_list_update_ids dest!: place_ids
      split: option.splits prod.splits)

section \<open>Topic names\<close>

definition topics_ok :: "SubscriberManager \<Rightarrow> bool" where
  "topics_ok m \<longleftrightarrow> (\<forall>nm tid. get_topic_id nm m = Some tid \<longleftrightarrow> get_topic_name tid m = Some nm)"

lemma register_topic_ok:
  assumes "topics_ok m" and "register_topic nm tid m = Inr m'"
  shows "topics_ok m' \<and> get_topic_id nm m' = Some tid \<and> get_topic_name tid m' = Some nm
    \<and> (\<forall>x. x \<noteq> nm \<longrightarrow> get_topic_id x m' = get_topic_id x m)"
proof -
  have n: "topic_map m nm = None" and f: "get_topic_name tid m = None"
    and m': "m' = m\<lparr>topic_map := (topic_map m)(nm \<mapsto> tid),
      id_map := (id_map m @ replicate (Suc (unat tid) - length (id_map m)) None)[unat tid := Some nm]\<rparr>"
    using assms(2) by (auto simp: register_topic_def get_topic_name_def Let_def split: if_splits)
  have g: "get_topic_name x m' = (if x = tid then Some nm else get_topic_name x m)" for x
  proof -
    have u: "unat tid = unat x \<longleftrightarrow> x = tid" by (auto simp: word_unat_eq_iff)
    show ?thesis by (auto simp: m' get_topic_name_def nth_list_update nth_append u)
  qed
  show ?thesis
    using assms(1) n f unfolding topics_ok_def g
    by (auto simp: m' get_topic_id_def topics_ok_def) (metis option.distinct(1))
qed

section \<open>Properties\<close>

text \<open>
  (C20) A lost frame is recovered.  A subscriber that expects frame \<open>n\<close> of a topic and receives a later
  one delivers nothing and answers with a NACK for \<open>n\<close>; a publisher with retransmission that still
  holds frame \<open>n\<close> and has not used up its retransmissions answers the NACK with exactly that frame;
  and the subscriber that then receives it delivers its payload once to each active subscriber
  of the topic and each active wildcard subscriber, and goes on to expect \<open>n + 1\<close>.  Frames travel
  as bytes.
\<close>

theorem lost_frame_recovered:
  fixes now :: u64
  assumes "topic_ready t (ps_subscribers sub)" and "expected t (ps_subscribers sub) = n"
    and "new_data_frame n t ds = Inr f" and "new_data_frame k t ds' = Inr g" and "n < k"
    and "enable_nack (ps_publisher pub)"
    and "List.find (\<lambda>d. seq_num (pd_frame d) = n \<and> topic_id (pd_frame d) = t)
           (pending_data (ps_publisher pub)) = Some d"
    and "pd_frame d = f" and "retransmit_count d < max_retransmits (ps_publisher pub)"
  defines "sub1 \<equiv> handle_received_data now (to_bytes g) sub"
  defines "pub1 \<equiv> handle_received_data now (to_bytes (new_nack_frame n t)) pub"
  defines "sub2 \<equiv> handle_received_data now (to_bytes f) sub1"
  shows "outbox sub1 = outbox sub @ [new_nack_frame n t] \<and> delivered sub1 = delivered sub
    \<and> outbox pub1 = outbox pub @ [f]
    \<and> delivered sub2 = delivered sub @ map (\<lambda>i. (i, t, ds)) (audience t (ps_subscribers sub))
    \<and> expected t (ps_subscribers sub2) = n + 1"
proof -
  note g = receive_data [OF assms(4)] and f = receive_data [OF assms(3)]
  have s1: "sub1 = sub\<lparr>outbox := outbox sub @ [new_nack_frame n t]\<rparr>"
    using data_frame_cases(1) [OF assms(1) g(2)] g(1,3) assms(2,5) by (simp add: sub1_def)
  have "fst (nack_loop now (max_retransmits (ps_publisher pub)) n t (pending_data (ps_publisher pub))) = [f]"
    using nack_loop_hit [OF assms(7,9)] assms(8) by simp
  then have p1: "outbox pub1 = outbox pub @ [f]"
    using assms(6) unfolding pub1_def receive_nack
    by (simp add: handle_nack_frame_def handle_nack_def new_nack_frame_def case_prod_beta Let_def)
  have r: "topic_ready t (ps_subscribers sub1)" "expected t (ps_subscribers sub1) = n"
    using s1 assms(1,2) by simp_all
  have "sub2 = handle_data_frame now f sub1" using f(1) by (simp add: sub2_def)
  with data_frame_cases(2) [OF r(1) f(2)] r(2) f(3,4) s1 p1 show ?thesis by simp
qed

definition demo_manager :: SubscriberManager where
  "demo_manager = projr (SubscriberManager_new 4 2)"

definition demo_sub :: PubSub where
  "demo_sub =
     \<lparr>ps_subscribers = snd (subscribe 0 3 (\<lambda>_ _. True) demo_manager), ps_publisher = Publisher_new True 100 3,
      heartbeat_interval = 10, outbox = [], delivered = []\<rparr>"

definition demo_pub :: PubSub where
  "demo_pub = snd (publish None 6 3 [8] (snd (publish None 5 3 [7] demo_sub)))"

lemma demo_sub_ready: "topic_ready 3 (ps_subscribers demo_sub)" "expected 3 (ps_subscribers demo_sub) = 1"
  "audience 3 (ps_subscribers demo_sub) = [1]"
  by code_simp+

definition demo_frame :: "u32 \<Rightarrow> bytes \<Rightarrow> ProtocolFrame" where
  "demo_frame n ds =
     \<lparr>magic = MAGIC_WORD, pf_version = PROTOCOL_VERSION, frame_type = FData, seq_num = n,
      topic_id = 3, pf_data_len = of_nat (length ds), pf_crc32 = calculate_crc32 ds, payload = ds\<rparr>"

lemma demo_frame_new: "length ds \<le> 4096 \<Longrightarrow> new_data_frame n 3 ds = Inr (demo_frame n ds)"
  by (simp add: new_data_frame_def demo_frame_def MAX_DATA_LEN_def)

lemma demo_pub_pending:
  "enable_nack (ps_publisher demo_pub)" "max_retransmits (ps_publisher demo_pub) = 3"
  "pending_data (ps_publisher demo_pub) =
    [\<lparr>pd_frame = demo_frame 1 [7], send_time = 5, retransmit_count = 0, acknowledged = False\<rparr>,
     \<lparr>pd_frame = demo_frame 2 [8], send_time = 6, retransmit_count = 0, acknowledged = False\<rparr>]"
  by (simp_all add: demo_pub_def demo_sub_def publish_def create_frame_def Publisher_new_def
      demo_frame_new)

theorem lost_frame_recovered_witness:
  "delivered (handle_received_data 9 (to_bytes (demo_frame 1 [7]))
     (handle_received_data 9 (to_bytes (demo_frame 2 [8])) demo_sub)) = [(1, 3, [7])]"
proof -
  have f: "List.find (\<lambda>d. seq_num (pd_frame d) = 1 \<and> topic_id (pd_frame d) = 3)
      (pending_data (ps_publisher demo_pub)) = Some \<lparr>pd_frame = demo_frame 1 [7], send_time = 5,
        retransmit_count = 0, acknowledged = False\<rparr>"
    by (simp add: demo_pub_pending demo_frame_def)
  have d: "delivered demo_sub = []" by (simp add: demo_sub_def)
  from lost_frame_recovered [OF demo_sub_ready(1,2) demo_frame_new [of "[7]" 1]
      demo_frame_new [of "[8]" 2] _ demo_pub_pending(1) f, of 9] d
  show ?thesis by (simp add: demo_pub_pending demo_sub_ready)
qed

text \<open>
  Duplicates are delivered again.  The sequence check answers a frame that was already received
  the same way as the expected one, and the handler passes it to the subscribers a second time.
\<close>

theorem duplicate_redelivered:
  assumes "topic_ready t (ps_subscribers sub)" and "new_data_frame k t ds = Inr f"
    and "k < expected t (ps_subscribers sub)"
  shows "delivered (handle_received_data now (to_bytes f) sub)
      = delivered sub @ map (\<lambda>i. (i, t, ds)) (audience t (ps_subscribers sub))
    \<and> outbox (handle_received_data now (to_bytes f) sub) = outbox sub"
  using data_frame_cases(2) [OF assms(1) receive_data(2) [OF assms(2)]] receive_data [OF assms(2)] assms(3)
  by simp

theorem duplicate_redelivered_witness:
  "delivered (handle_received_data 9 (to_bytes (demo_frame 0 [7])) demo_sub) = [(1, 3, [7])]"
  using duplicate_redelivered [OF demo_sub_ready(1) demo_frame_new [of "[7]" 0], of 9]
  by (simp add: demo_sub_ready) (simp add: demo_sub_def)

text \<open>
  A second topic starves.  The publisher numbers its frames over all topics, the subscriber
  counts per topic.  When a fresh publisher publishes on one topic and then on another, a fresh
  subscriber that receives both frames delivers only the first, asks for frame 1 of the second
  topic, and the publisher has no such frame to send.
\<close>

theorem second_topic_starves:
  assumes "topic_ready a (ps_subscribers sub)" and "topic_ready b (ps_subscribers sub)" and "a \<noteq> b"
    and "expected a (ps_subscribers sub) = 1" and "expected b (ps_subscribers sub) = 1"
    and "create_frame now a ds1 (Publisher_new en to mx) = (Inr f1, p1)"
    and "create_frame now b ds2 p1 = (Inr f2, p2)"
  defines "sub2 \<equiv> handle_received_data now (to_bytes f2) (handle_received_data now (to_bytes f1) sub)"
  shows "delivered sub2 = delivered sub @ map (\<lambda>i. (i, a, ds1)) (audience a (ps_subscribers sub))
    \<and> outbox sub2 = outbox sub @ [new_nack_frame 1 b] \<and> fst (handle_nack now 1 b p2) = []"
proof -
  have n1: "new_data_frame 1 a ds1 = Inr f1"
    using assms(6) by (auto simp: create_frame_def Publisher_new_def Let_def split: sum.splits)
  have s1: "next_seq_num p1 = 2"
    using assms(6) n1 by (auto simp: create_frame_def Publisher_new_def Let_def split: if_splits)
  have n2: "new_data_frame 2 b ds2 = Inr f2"
    using assms(7) s1 by (auto simp: create_frame_def Let_def split: sum.splits)
  note r1 = receive_data [OF n1] and r2 = receive_data [OF n2]
  let ?s1 = "handle_received_data now (to_bytes f1) sub"
  have d1: "delivered ?s1 = delivered sub @ map (\<lambda>i. (i, a, ds1)) (audience a (ps_subscribers sub))"
    "outbox ?s1 = outbox sub" "topic_ready a (ps_subscribers ?s1)"
    using data_frame_cases(2) [OF assms(1) r1(2)] r1 assms(4) by simp_all
  have m: "topic_ready b (ps_subscribers ?s1)" "expected b (ps_subscribers ?s1) = 1"
  proof -
    have u: "unat a \<noteq> unat b" using assms(3) by (simp add: word_unat_eq_iff)
    show "topic_ready b (ps_subscribers ?s1)" "expected b (ps_subscribers ?s1) = 1"
      using assms(1,2,4,5) r1 u
      by (auto simp: handle_data_frame_def check_seq_ready handle_data_def Let_def topic_ready_def
          expected_def)
  qed
  have "sub2 = ?s1\<lparr>outbox := outbox ?s1 @ [new_nack_frame 1 b]\<rparr>"
    unfolding sub2_def using data_frame_cases(1) [OF m(1) r2(2)] m(2) r2(1,3) by simp
  moreover have "\<forall>d\<in>set (pending_data p2). \<not> (seq_num (pd_frame d) = 1 \<and> topic_id (pd_frame d) = b)"
  proof -
    have "set (pending_data p1) \<subseteq> {d. pd_frame d = f1}"
      using assms(6) n1 by (auto simp: create_frame_def Publisher_new_def Let_def split: if_splits)
    then have "set (pending_data p2) \<subseteq> {d. pd_frame d = f1 \<or> pd_frame d = f2}"
      using assms(7) s1 n2 by (auto simp: create_frame_def Let_def split: if_splits)
    then show ?thesis using r1(2,3) r2(2,3) assms(3) by force
  qed
  then have "fst (handle_nack now 1 b p2) = []"
    by (simp add: handle_nack_def nack_loop_miss)
  ultimately show ?thesis using d1 by simp
qed

theorem second_topic_starves_witness:
  "\<exists>f1 p1 f2 p2. create_frame 0 3 [7] (Publisher_new True 100 3) = (Inr f1, p1)
     \<and> create_frame 0 2 [8] p1 = (Inr f2, p2) \<and> fst (handle_nack 0 1 2 p2) = []"
proof -
  have r: "topic_ready 2 (ps_subscribers demo_sub)" "expected 2 (ps_subscribers demo_sub) = 1"
    by code_simp+
  have "\<exists>f p'. create_frame 0 t ds p = (Inr f, p')" if "length ds \<le> 4096" for t ds p
    using that by (simp add: create_frame_def new_data_frame_def MAX_DATA_LEN_def Let_def)
  then obtain f1 p1 f2 p2 where c: "create_frame 0 3 [7] (Publisher_new True 100 3) = (Inr f1, p1)"
    "create_frame 0 2 [8] p1 = (Inr f2, p2)"
    by (metis length_Cons list.size(3) One_nat_def one_le_numeral)
  from second_topic_starves [OF demo_sub_ready(1) r(1) _ demo_sub_ready(2) r(2) c] c
  show ?thesis by auto
qed



text \<open>
  Subscriptions.  In a consistent manager, a successful \<open>subscribe\<close> returns an id that is not in
  use and adds exactly that subscription; \<open>unsubscribe\<close> of it removes exactly that one; an id that
  is not in use is reported as \<open>SubscriptionNotFound\<close>; and the manager stays consistent.
\<close>

theorem subscription_lifecycle:
  assumes "subs_ok m" and "subscribe now tid cb m = (Inr sid, m1)"
  shows "sid \<notin># all_ids m \<and> subs_ok m1 \<and> all_ids m1 = add_mset sid (all_ids m)
    \<and> (\<exists>m2. unsubscribe sid m1 = Inr m2 \<and> subs_ok m2 \<and> all_ids m2 = all_ids m)
    \<and> unsubscribe sid m = Inl SubscriptionNotFound"
proof -
  have s: "sid = next_subscription_id m" "all_ids m1 = add_mset sid (all_ids m)"
    "length (subscribers m1) = max_topics m1" "next_subscription_id m1 = Suc sid"
    using subscribe_ids [of m now tid cb] assms by (auto simp: subs_ok_def)
  have fresh: "sid \<notin># all_ids m" using assms(1) s(1) by (auto simp: subs_ok_def)
  have o1: "subs_ok m1"
    using assms(1) s fresh by (auto simp: subs_ok_def count_eq_zero_iff less_Suc_eq)
  have u: "unsubscribe sid m = Inl SubscriptionNotFound"
    using unsubscribe_ids [of sid m] fresh by (auto split: sum.splits)
  obtain m2 where m2: "unsubscribe sid m1 = Inr m2" "all_ids m1 = add_mset sid (all_ids m2)"
    "length (subscribers m2) = max_topics m2" "next_subscription_id m2 = next_subscription_id m1"
    using unsubscribe_ids [of sid m1] s(2,3) by (auto split: sum.splits)
  then have "all_ids m2 = all_ids m" using s(2) by simp
  moreover from this have "subs_ok m2"
    using assms(1) m2 s(1,4) by (auto simp: subs_ok_def)
  ultimately show ?thesis using fresh o1 s(2) u m2(1) by blast
qed

theorem subscription_lifecycle_witness:
  "\<exists>m1. subscribe 0 3 (\<lambda>_ _. True) demo_manager = (Inr 1, m1) \<and> all_ids m1 = {#1#}"
proof -
  have o: "subs_ok demo_manager" "all_ids demo_manager = {#}" by code_simp+
  have "fst (subscribe 0 3 (\<lambda>_ _. True) demo_manager) = Inr 1" by code_simp
  then obtain m1 where m1: "subscribe 0 3 (\<lambda>_ _. True) demo_manager = (Inr 1, m1)"
    by (metis prod.collapse)
  from subscription_lifecycle [OF o(1) m1] o(2) m1 show ?thesis by auto
qed

text \<open>
  The topic registry is a bijection.  Starting from a new manager, after any registrations that
  succeed, a name has an id exactly when the id has the name, and no earlier registration is lost.
\<close>

theorem topic_registry_bijective:
  assumes "topics_ok m" and "register_topic nm tid m = Inr m'"
  shows "topics_ok m' \<and> get_topic_id nm m' = Some tid \<and> get_topic_name tid m' = Some nm
    \<and> (\<forall>x. x \<noteq> nm \<longrightarrow> get_topic_id x m' = get_topic_id x m)"
  by (rule register_topic_ok [OF assms])

theorem topic_registry_bijective_witness:
  "\<exists>m m'. SubscriberManager_new 32 16 = Inr m \<and> register_topic ''wal'' 1 m = Inr m' \<and> topics_ok m'"
proof -
  obtain m where m: "SubscriberManager_new 32 16 = Inr m" by (simp add: SubscriberManager_new_def)
  then have o: "topics_ok m"
    by (auto simp: SubscriberManager_new_def topics_ok_def get_topic_id_def get_topic_name_def)
  obtain m' where m': "register_topic ''wal'' 1 m = Inr m'"
    using m by (auto simp: SubscriberManager_new_def register_topic_def Let_def)
  from topic_registry_bijective [OF o m'] m m' show ?thesis by blast
qed

end
