(* ===== verification/Json.thy ===== *)
theory Json
  imports Utf8
begin

text \<open>
  JSON documents, \<^verbatim>\<open>src/src/json/document.rs\<close>: the parser, the printer and the changes of a value at
  a path.  A text is the list of its Unicode scalar values, as the parser reads it (\<open>Vec<char>\<close>); the
  parser works on the rest of the text instead of an index.  \<open>JFuel\<close> stands for a run that has not
  returned, \<open>JPanic\<close> for a panic.
\<close>

section \<open>Values\<close>

type_synonym utext = "nat list"

text \<open>A \<open>BTreeMap\<close> is the list of its entries, sorted by key.\<close>

datatype JsonValue =
    JString utext | JNumber utext | JBoolean bool | JNull
  | JObject "(utext \<times> JsonValue) list" | JArray "JsonValue list"

datatype 'a jres = JOk 'a | JErr string | JPanic | JFuel

fun jbind :: "'a jres \<Rightarrow> ('a \<Rightarrow> 'b jres) \<Rightarrow> 'b jres" where
  "jbind (JOk a) f = f a"
| "jbind (JErr e) f = JErr e"
| "jbind JPanic f = JPanic"
| "jbind JFuel f = JFuel"

definition lit :: "string \<Rightarrow> utext" where
  "lit s = map of_char s"

text \<open>The order of strings.\<close>

fun utext_less :: "utext \<Rightarrow> utext \<Rightarrow> bool" where
  "utext_less xs [] = False"
| "utext_less [] (y # ys) = True"
| "utext_less (x # xs) (y # ys) = (x < y \<or> x = y \<and> utext_less xs ys)"

fun btree_insert :: "utext \<Rightarrow> 'v \<Rightarrow> (utext \<times> 'v) list \<Rightarrow> (utext \<times> 'v) list" where
  "btree_insert k v [] = [(k, v)]"
| "btree_insert k v ((k', v') # r) =
     (if k = k' then (k, v) # r
      else if utext_less k k' then (k, v) # (k', v') # r
      else (k', v') # btree_insert k v r)"

definition btree_remove :: "utext \<Rightarrow> (utext \<times> 'v) list \<Rightarrow> (utext \<times> 'v) list" where
  "btree_remove k m = filter (\<lambda>(k', v). k' \<noteq> k) m"

section \<open>Characters\<close>

definition is_ascii_whitespace :: "nat \<Rightarrow> bool" where
  "is_ascii_whitespace c \<longleftrightarrow> c = 0x20 \<or> c = 0x09 \<or> c = 0x0A \<or> c = 0x0C \<or> c = 0x0D"

text \<open>\<open>char::is_whitespace\<close>, which \<open>str::trim\<close> uses.\<close>

definition is_whitespace :: "nat \<Rightarrow> bool" where
  "is_whitespace c \<longleftrightarrow>
     0x09 \<le> c \<and> c \<le> 0x0D \<or> c = 0x20 \<or> c = 0x85 \<or> c = 0xA0 \<or> c = 0x1680
     \<or> 0x2000 \<le> c \<and> c \<le> 0x200A \<or> c = 0x2028 \<or> c = 0x2029 \<or> c = 0x202F \<or> c = 0x205F \<or> c = 0x3000"

definition trim :: "utext \<Rightarrow> utext" where
  "trim s = rev (dropWhile is_whitespace (rev (dropWhile is_whitespace s)))"

definition is_digit :: "nat \<Rightarrow> bool" where
  "is_digit c \<longleftrightarrow> 0x30 \<le> c \<and> c \<le> 0x39"

definition hex_value :: "nat \<Rightarrow> nat option" where
  "hex_value c =
     (if 0x30 \<le> c \<and> c \<le> 0x39 then Some (c - 0x30)
      else if 0x61 \<le> c \<and> c \<le> 0x66 then Some (c - 0x61 + 10)
      else if 0x41 \<le> c \<and> c \<le> 0x46 then Some (c - 0x41 + 10)
      else None)"

definition skip_whitespace :: "utext \<Rightarrow> utext" where
  "skip_whitespace cs = dropWhile is_ascii_whitespace cs"

section \<open>The parser\<close>

text \<open>The four digits of a Unicode escape.\<close>

fun hex_digits :: "nat \<Rightarrow> nat \<Rightarrow> utext \<Rightarrow> (nat \<times> utext) jres" where
  "hex_digits 0 code cs = JOk (code, cs)"
| "hex_digits (Suc n) code [] = JErr ''Invalid Unicode escape''"
| "hex_digits (Suc n) code (c # cs) =
     (case hex_value c of
        None \<Rightarrow> JErr ''Invalid Unicode escape''
      | Some d \<Rightarrow> hex_digits n (code * 16 + d) cs)"

text \<open>\<open>char::from_u32\<close> below \<open>0x10000\<close>: surrogates are no characters and are dropped.\<close>

definition push_code :: "nat \<Rightarrow> utext \<Rightarrow> utext" where
  "push_code code s = (if 0xD800 \<le> code \<and> code \<le> 0xDFFF then s else s @ [code])"

definition escape_char :: "nat \<Rightarrow> nat option" where
  "escape_char e =
     (if e = 0x22 then Some 0x22
      else if e = 0x5C then Some 0x5C
      else if e = 0x2F then Some 0x2F
      else if e = 0x62 then Some 0x08
      else if e = 0x66 then Some 0x0C
      else if e = 0x6E then Some 0x0A
      else if e = 0x72 then Some 0x0D
      else if e = 0x74 then Some 0x09
      else None)"

lemma hex_digits_length: "hex_digits n code cs = JOk (c, r) \<Longrightarrow> length r \<le> length cs"
  by (induction n code cs rule: hex_digits.induct) (auto split: option.splits)

text \<open>
  The body of a string, \<open>s\<close> collected so far.  After a Unicode escape the index already stands behind
  the four digits, and the increment at the end of the loop skips one more character.
\<close>

function string_loop :: "utext \<Rightarrow> utext \<Rightarrow> (utext \<times> utext) jres" where
  "string_loop s [] = JErr ''Unterminated string''"
| "string_loop s (c # cs) =
     (if c = 0x22 then JOk (s, cs)
      else if c = 0x5C then
        (case cs of
           [] \<Rightarrow> JErr ''Unexpected end of JSON''
         | e # r \<Rightarrow>
             (if e = 0x75 then
                (case hex_digits 4 0 r of
                   JOk (code, r') \<Rightarrow> string_loop (push_code code s) (drop 1 r')
                 | JErr m \<Rightarrow> JErr m | JPanic \<Rightarrow> JPanic | JFuel \<Rightarrow> JFuel)
              else case escape_char e of
                     Some x \<Rightarrow> string_loop (s @ [x]) r
                   | None \<Rightarrow> JErr ''Invalid escape sequence''))
      else string_loop (s @ [c]) cs)"
  by pat_completeness auto
termination
  by (relation "measure (\<lambda>(s, cs). length cs)") (auto dest: hex_digits_length)

text \<open>The first character is skipped, whatever it is.\<close>

definition parse_string :: "utext \<Rightarrow> (utext \<times> utext) jres" where
  "parse_string cs = string_loop [] (drop 1 cs)"

definition span_digits :: "utext \<Rightarrow> utext \<times> utext" where
  "span_digits cs = (takeWhile is_digit cs, dropWhile is_digit cs)"

definition parse_sign :: "utext \<Rightarrow> utext \<times> utext" where
  "parse_sign cs = (case cs of c # r \<Rightarrow> if c = 0x2D then ([c], r) else ([], cs) | [] \<Rightarrow> ([], []))"

definition parse_integer :: "utext \<Rightarrow> (utext \<times> utext) jres" where
  "parse_integer cs =
     (case cs of
        [] \<Rightarrow> JErr ''Invalid number''
      | c # r \<Rightarrow> if c = 0x30 then JOk ([c], r)
                else if is_digit c then JOk (span_digits cs)
                else JErr ''Invalid number'')"

definition parse_fraction :: "utext \<Rightarrow> (utext \<times> utext) jres" where
  "parse_fraction cs =
     (case cs of
        c # r \<Rightarrow> if c = 0x2E then
                   (if r = [] \<or> \<not> is_digit (hd r) then JErr ''Invalid decimal part''
                    else JOk (c # fst (span_digits r), snd (span_digits r)))
                 else JOk ([], cs)
      | [] \<Rightarrow> JOk ([], []))"

definition parse_exponent :: "utext \<Rightarrow> (utext \<times> utext) jres" where
  "parse_exponent cs =
     (case cs of
        c # r \<Rightarrow> if c = 0x65 \<or> c = 0x45 then
                   let (sg, r1) = (case r of d # r' \<Rightarrow> if d = 0x2B \<or> d = 0x2D then ([d], r') else ([], r)
                                   | [] \<Rightarrow> ([], [])) in
                   (if r1 = [] \<or> \<not> is_digit (hd r1) then JErr ''Invalid exponent part''
                    else JOk (c # sg @ fst (span_digits r1), snd (span_digits r1)))
                 else JOk ([], cs)
      | [] \<Rightarrow> JOk ([], []))"

definition parse_number :: "utext \<Rightarrow> (utext \<times> utext) jres" where
  "parse_number cs =
     (let (sg, r) = parse_sign cs in
      jbind (parse_integer r) (\<lambda>(ip, r1).
      jbind (parse_fraction r1) (\<lambda>(fp, r2).
      jbind (parse_exponent r2) (\<lambda>(ep, r3). JOk (sg @ ip @ fp @ ep, r3)))))"

definition parse_literal :: "string \<Rightarrow> JsonValue \<Rightarrow> utext \<Rightarrow> (JsonValue \<times> utext) jres" where
  "parse_literal l v cs =
     (if take (length l) cs = lit l then JOk (v, drop (length l) cs) else JErr (''Expected '' @ l))"

fun parse_value :: "nat \<Rightarrow> utext \<Rightarrow> (JsonValue \<times> utext) jres"
and parse_object :: "nat \<Rightarrow> (utext \<times> JsonValue) list \<Rightarrow> utext \<Rightarrow> (JsonValue \<times> utext) jres"
and parse_array :: "nat \<Rightarrow> JsonValue list \<Rightarrow> utext \<Rightarrow> (JsonValue \<times> utext) jres" where
  "parse_value 0 cs = JFuel"
| "parse_value (Suc n) cs =
     (let cs = skip_whitespace cs in
      case cs of
        [] \<Rightarrow> JErr ''Unexpected end of JSON''
      | c # r \<Rightarrow>
          if c = 0x22 then jbind (parse_string cs) (\<lambda>(s, r). JOk (JString s, r))
          else if c = 0x7B then parse_object n [] r
          else if c = 0x5B then parse_array n [] r
          else if c = 0x74 then parse_literal ''true'' (JBoolean True) cs
          else if c = 0x66 then parse_literal ''false'' (JBoolean False) cs
          else if c = 0x6E then parse_literal ''null'' JNull cs
          else if c = 0x2D \<or> is_digit c then jbind (parse_number cs) (\<lambda>(s, r). JOk (JNumber s, r))
          else JErr ''Invalid JSON value'')"
| "parse_object 0 obj cs = JFuel"
| "parse_object (Suc n) obj cs =
     (let cs = skip_whitespace cs in
      if cs = [] then JErr ''Unexpected end of JSON''
      else if hd cs = 0x7D then JOk (JObject obj, tl cs)
      else case parse_string cs of
        JOk (key, r) \<Rightarrow>
          (let r1 = skip_whitespace r in
           if r1 = [] \<or> hd r1 \<noteq> 0x3A then JErr ''Expected colon after object key''
           else jbind (parse_value n (tl r1)) (\<lambda>(v, r2).
             let obj' = btree_insert key v obj; r3 = skip_whitespace r2 in
             if r3 = [] then JErr ''Unexpected end of JSON''
             else if hd r3 = 0x7D then JOk (JObject obj', tl r3)
             else if hd r3 \<noteq> 0x2C then JErr ''Expected comma after object value''
             else parse_object n obj' (tl r3)))
      | _ \<Rightarrow> JErr ''Invalid object key'')"
| "parse_array 0 arr cs = JFuel"
| "parse_array (Suc n) arr cs =
     (let cs = skip_whitespace cs in
      if cs = [] then JErr ''Unexpected end of JSON''
      else if hd cs = 0x5D then JOk (JArray arr, tl cs)
      else jbind (parse_value n cs) (\<lambda>(v, r).
        let arr' = arr @ [v]; r1 = skip_whitespace r in
        if r1 = [] then JErr ''Unexpected end of JSON''
        else if hd r1 = 0x5D then JOk (JArray arr', tl r1)
        else if hd r1 \<noteq> 0x2C then JErr ''Expected comma after array value''
        else parse_array n arr' (tl r1)))"

text \<open>What follows the value is not looked at.  Every call but two in a row takes a character.\<close>

definition parse_json_str :: "utext \<Rightarrow> JsonValue jres" where
  "parse_json_str s =
     (let t = trim s in
      if t = [] then JOk JNull
      else jbind (parse_value (2 * length t + 1) t) (\<lambda>(v, r). JOk v))"

section \<open>The printer\<close>

definition escape_text :: "utext \<Rightarrow> utext" where
  "escape_text s =
     concat (map (\<lambda>c. if c = 0x22 then [0x5C, 0x22]
                      else if c = 0x5C then [0x5C, 0x5C]
                      else if c = 0x0A then [0x5C, 0x6E]
                      else if c = 0x0D then [0x5C, 0x72]
                      else if c = 0x09 then [0x5C, 0x74]
                      else if c = 0x08 then [0x5C, 0x62]
                      else if c = 0x0C then [0x5C, 0x66]
                      else [c]) s)"

text \<open>In keys only quotes and backslashes are escaped.\<close>

definition escape_key :: "utext \<Rightarrow> utext" where
  "escape_key s =
     concat (map (\<lambda>c. if c = 0x22 then [0x5C, 0x22] else if c = 0x5C then [0x5C, 0x5C] else [c]) s)"

fun join_commas :: "utext list \<Rightarrow> utext" where
  "join_commas [] = []"
| "join_commas [x] = x"
| "join_commas (x # y # r) = x @ 0x2C # join_commas (y # r)"

fun to_json_string :: "JsonValue \<Rightarrow> utext" where
  "to_json_string JNull = lit ''null''"
| "to_json_string (JBoolean b) = (if b then lit ''true'' else lit ''false'')"
| "to_json_string (JString s) = 0x22 # escape_text s @ [0x22]"
| "to_json_string (JNumber n) = n"
| "to_json_string (JArray arr) = 0x5B # join_commas (map to_json_string arr) @ [0x5D]"
| "to_json_string (JObject obj) =
     0x7B # join_commas (map (\<lambda>(k, v). 0x22 # escape_key k @ 0x22 # 0x3A # to_json_string v) obj) @ [0x7D]"

end
