(* ===== verification/Json_Inv.thy ===== *)
theory Json_Inv
  imports Json
begin

text \<open>
  The JSON parser always returns, and it reads back every value the printer writes.
\<close>

section \<open>Well-formed values\<close>

text \<open>Numbers are texts of the number grammar, the keys of an object are sorted.\<close>

definition valid_number :: "utext \<Rightarrow> bool" where
  "valid_number n \<longleftrightarrow> parse_number n = JOk (n, [])"

fun wf_json :: "JsonValue \<Rightarrow> bool" where
  "wf_json (JNumber n) = valid_number n"
| "wf_json (JArray vs) = list_all wf_json vs"
| "wf_json (JObject m) = (sorted_wrt utext_less (map fst m) \<and> list_all (\<lambda>(k, v). wf_json v) m)"
| "wf_json _ = True"

lemma utext_less_irrefl [simp]: "\<not> utext_less x x"
  by (induction x) auto

lemma utext_less_trans: "utext_less x y \<Longrightarrow> utext_less y z \<Longrightarrow> utext_less x z"
  by (induction x y arbitrary: z rule: utext_less.induct) (case_tac z; auto)+

lemma utext_less_total: "x \<noteq> y \<Longrightarrow> \<not> utext_less x y \<Longrightarrow> utext_less y x"
proof (induction x y rule: utext_less.induct)
  case (1 xs)
  then show ?case by (cases xs) auto
qed auto

lemma utext_less_asym: "utext_less x y \<Longrightarrow> \<not> utext_less y x"
  using utext_less_trans utext_less_irrefl by blast

section \<open>Lengths\<close>

lemma jbind_JOk_iff: "jbind r f = JOk b \<longleftrightarrow> (\<exists>a. r = JOk a \<and> f a = JOk b)"
  by (cases r) auto

lemma jbind_JFuel_iff: "jbind r f = JFuel \<longleftrightarrow> r = JFuel \<or> (\<exists>a. r = JOk a \<and> f a = JFuel)"
  by (cases r) auto

lemma jbind_JPanic_iff: "jbind r f = JPanic \<longleftrightarrow> r = JPanic \<or> (\<exists>a. r = JOk a \<and> f a = JPanic)"
  by (cases r) auto

lemmas jbind_iffs = jbind_JOk_iff jbind_JFuel_iff jbind_JPanic_iff

lemma skip_length: "length (skip_whitespace cs) \<le> length cs"
  by (simp add: skip_whitespace_def length_dropWhile_le)

lemma string_loop_length: "string_loop s cs = JOk (t, r) \<Longrightarrow> length r < length cs"
proof (induction s cs rule: string_loop.induct)
  case (2 s c cs)
  then show ?case
    by (auto split: if_splits list.splits option.splits jres.splits dest!: hex_digits_length)
      (fastforce, meson less_SucI)
qed simp

lemma parse_string_length: "cs \<noteq> [] \<Longrightarrow> parse_string cs = JOk (t, r) \<Longrightarrow> Suc (length r) < length cs"
  using string_loop_length [of "[]" "drop 1 cs"] by (cases cs) (auto simp: parse_string_def)

lemma hex_digits_returns: "hex_digits n code cs \<noteq> JFuel \<and> hex_digits n code cs \<noteq> JPanic"
  by (induction n code cs rule: hex_digits.induct) (auto split: option.splits)

lemma string_loop_returns: "string_loop s cs \<noteq> JFuel \<and> string_loop s cs \<noteq> JPanic"
proof (induction s cs rule: string_loop.induct)
  case (2 s c cs)
  then show ?case
    using hex_digits_returns [of 4 0] by (auto split: list.splits option.splits jres.splits)
qed simp

lemma parse_string_returns: "parse_string cs \<noteq> JFuel \<and> parse_string cs \<noteq> JPanic"
  by (simp add: parse_string_def string_loop_returns)

lemma span_digits_length: "length (snd (span_digits cs)) \<le> length cs"
  by (simp add: span_digits_def length_dropWhile_le)

lemma parse_integer_length: "parse_integer cs = JOk (a, r) \<Longrightarrow> length r < length cs"
  by (cases cs) (auto simp: parse_integer_def span_digits_def split: if_splits
      intro: le_imp_less_Suc length_dropWhile_le)

lemma parse_fraction_length: "parse_fraction cs = JOk (a, r) \<Longrightarrow> length r \<le> length cs"
  by (cases cs) (auto simp: parse_fraction_def split: if_splits intro: le_SucI span_digits_length)

lemma parse_exponent_length: "parse_exponent cs = JOk (a, r) \<Longrightarrow> length r \<le> length cs"
  using span_digits_length [of "tl cs"] span_digits_length [of "tl (tl cs)"]
  by (cases cs; cases "tl cs") (auto simp: parse_exponent_def split: if_splits)

lemma parse_sign_length: "length (snd (parse_sign cs)) \<le> length cs"
  by (simp add: parse_sign_def split: list.split)

lemma parse_number_length: "parse_number cs = JOk (a, r) \<Longrightarrow> length r < length cs"
  using parse_sign_length [of cs]
  by (auto simp: parse_number_def jbind_JOk_iff split: prod.splits
      dest!: parse_integer_length parse_fraction_length parse_exponent_length)

section \<open>The parser returns\<close>

lemma parse_number_returns: "parse_number cs \<noteq> JFuel \<and> parse_number cs \<noteq> JPanic"
proof -
  have "parse_integer r \<noteq> JFuel \<and> parse_integer r \<noteq> JPanic" "parse_fraction r \<noteq> JFuel \<and> parse_fraction r \<noteq> JPanic"
    "parse_exponent r \<noteq> JFuel \<and> parse_exponent r \<noteq> JPanic" for r
    by (simp_all add: parse_integer_def parse_fraction_def parse_exponent_def Let_def split: list.split prod.split)
  then show ?thesis
    by (auto simp: parse_number_def jbind_JFuel_iff jbind_JPanic_iff split: prod.splits)
qed

lemma skip_Cons: "skip_whitespace cs = c # r \<Longrightarrow> length r < length cs"
  using skip_length [of cs] by simp

lemma skip_tl: "skip_whitespace cs \<noteq> [] \<Longrightarrow> length (tl (skip_whitespace cs)) < length cs"
  using skip_length [of cs] by (cases "skip_whitespace cs") auto

lemma parse_literal_length: "parse_literal l v cs = JOk (w, r) \<Longrightarrow> l \<noteq> [] \<Longrightarrow> length r < length cs"
  by (cases l; cases cs) (auto simp: parse_literal_def lit_def split: if_splits)

lemma parse_string_skip:
  "skip_whitespace cs \<noteq> [] \<Longrightarrow> parse_string (skip_whitespace cs) = JOk (k, r) \<Longrightarrow> length r < length cs"
  using parse_string_length [of "skip_whitespace cs" k r] skip_length [of cs] by simp

lemma parse_length:
  "(\<forall>cs v r. parse_value n cs = JOk (v, r) \<longrightarrow> length r < length cs)
   \<and> (\<forall>obj cs v r. parse_object n obj cs = JOk (v, r) \<longrightarrow> length r < length cs)
   \<and> (\<forall>arr cs v r. parse_array n arr cs = JOk (v, r) \<longrightarrow> length r < length cs)"
proof (induction n)
  case (Suc n)
  then have v: "\<And>cs v r. parse_value n cs = JOk (v, r) \<Longrightarrow> length r < length cs"
    and o: "\<And>obj cs v r. parse_object n obj cs = JOk (v, r) \<Longrightarrow> length r < length cs"
    and a: "\<And>arr cs v r. parse_array n arr cs = JOk (v, r) \<Longrightarrow> length r < length cs" by blast+
  have "length r < length cs" if p: "parse_value (Suc n) cs = JOk (w, r)" for cs w r
  proof (cases "skip_whitespace cs")
    case (Cons c r')
    have "length r < length (c # r')"
      using p Cons by (auto simp: Let_def jbind_JOk_iff is_digit_def split: if_splits
          dest!: parse_number_length parse_string_length [rotated] parse_literal_length o a)
    then show ?thesis using skip_Cons [OF Cons] by simp
  qed (use p in simp)
  moreover have "length r < length cs" if p: "parse_object (Suc n) obj cs = JOk (w, r)" for obj cs w r
  proof -
    let ?c = "skip_whitespace cs"
    have ne: "?c \<noteq> []" using p by (auto simp: Let_def)
    consider "r = tl ?c" | k q x s where "parse_string ?c = JOk (k, q)" "skip_whitespace q \<noteq> []"
        "parse_value n (tl (skip_whitespace q)) = JOk (x, s)" "skip_whitespace s \<noteq> []"
        "r = tl (skip_whitespace s) \<or> (\<exists>ob. parse_object n ob (tl (skip_whitespace s)) = JOk (w, r))"
      using p ne by (auto simp: Let_def jbind_JOk_iff split: if_splits jres.splits) blast
    then show ?thesis
    proof cases
      case 2
      have "length q < length cs" by (rule parse_string_skip [OF ne 2(1)])
      moreover have "length s < length q" using v [OF 2(3)] skip_tl [OF 2(2)] by simp
      moreover have "length r \<le> length (tl (skip_whitespace s))" using 2(5) o less_imp_le by blast
      ultimately show ?thesis using skip_tl [OF 2(4)] by simp
    qed (use skip_tl [OF ne] in simp)
  qed
  moreover have "length r < length cs" if p: "parse_array (Suc n) arr cs = JOk (w, r)" for arr cs w r
  proof -
    let ?c = "skip_whitespace cs"
    have ne: "?c \<noteq> []" using p by (auto simp: Let_def)
    consider "r = tl ?c" | x s where "parse_value n ?c = JOk (x, s)" "skip_whitespace s \<noteq> []"
        "r = tl (skip_whitespace s) \<or> (\<exists>ar. parse_array n ar (tl (skip_whitespace s)) = JOk (w, r))"
      using p ne by (auto simp: Let_def jbind_JOk_iff split: if_splits)
    then show ?thesis
    proof cases
      case 2
      have "length s < length cs" using v [OF 2(1)] skip_length [of cs] by simp
      moreover have "length r \<le> length (tl (skip_whitespace s))" using 2(3) a less_imp_le by blast
      ultimately show ?thesis using skip_tl [OF 2(2)] by simp
    qed (use skip_tl [OF ne] in simp)
  qed
  ultimately show ?case by blast
qed simp

lemmas parse_value_length = parse_length [THEN conjunct1, rule_format]

text \<open>Enough fuel: two more steps for every character.\<close>

lemma parse_returns:
  "(\<forall>cs. 2 * length cs + 1 \<le> n \<longrightarrow> parse_value n cs \<notin> {JFuel, JPanic})
   \<and> (\<forall>obj cs. 2 * length cs + 1 \<le> n \<longrightarrow> parse_object n obj cs \<notin> {JFuel, JPanic})
   \<and> (\<forall>arr cs. 2 * length cs + 2 \<le> n \<longrightarrow> parse_array n arr cs \<notin> {JFuel, JPanic})"
proof (induction n)
  case (Suc n)
  then have v: "\<And>cs. 2 * length cs + 1 \<le> n \<Longrightarrow> parse_value n cs \<notin> {JFuel, JPanic}"
    and o: "\<And>obj cs. 2 * length cs + 1 \<le> n \<Longrightarrow> parse_object n obj cs \<notin> {JFuel, JPanic}"
    and a: "\<And>arr cs. 2 * length cs + 2 \<le> n \<Longrightarrow> parse_array n arr cs \<notin> {JFuel, JPanic}" by blast+
  have "parse_value (Suc n) cs \<notin> {JFuel, JPanic}" if l: "2 * length cs + 1 \<le> Suc n" for cs
  proof (cases "skip_whitespace cs")
    case (Cons c r)
    have "2 * length r + 2 \<le> n" using skip_Cons [OF Cons] l by simp
    then show ?thesis
      using Cons o [of r "[]"] a [of r "[]"] parse_string_returns [of "c # r"] parse_number_returns [of "c # r"]
      by (auto simp: Let_def jbind_JFuel_iff jbind_JPanic_iff parse_literal_def)
  qed simp
  moreover have "parse_object (Suc n) obj cs \<notin> {JFuel, JPanic}" if l: "2 * length cs + 1 \<le> Suc n" for obj cs
  proof -
    have nv: "parse_value n (tl (skip_whitespace q)) \<notin> {JFuel, JPanic}"
      if "skip_whitespace cs \<noteq> []" "parse_string (skip_whitespace cs) = JOk (k, q)" "skip_whitespace q \<noteq> []" for k q
      using parse_string_skip [OF that(1,2)] skip_tl [OF that(3)] l by (intro v) simp
    moreover have no: "parse_object n ob (tl (skip_whitespace s)) \<notin> {JFuel, JPanic}"
      if "skip_whitespace cs \<noteq> []" "parse_string (skip_whitespace cs) = JOk (k, q)" "skip_whitespace q \<noteq> []"
        "parse_value n (tl (skip_whitespace q)) = JOk (x, s)" "skip_whitespace s \<noteq> []" for k q x s ob
      using parse_string_skip [OF that(1,2)] skip_tl [OF that(3)] parse_value_length [OF that(4)]
        skip_tl [OF that(5)] l by (intro o) simp
    moreover note ret = parse_string_returns [of "skip_whitespace cs"]
    ultimately show ?thesis
    proof (cases "parse_string (skip_whitespace cs)")
      case (JOk kq)
      obtain k q where kq: "kq = (k, q)" by (cases kq)
      have "parse_value n (tl (skip_whitespace q)) \<notin> {JFuel, JPanic}"
        if "skip_whitespace cs \<noteq> []" "skip_whitespace q \<noteq> []"
        using nv [OF that(1) JOk [unfolded kq] that(2)] .
      then show ?thesis
        using no [OF _ JOk [unfolded kq]] JOk
        by (cases "parse_value n (tl (skip_whitespace q))") (auto simp: Let_def kq split: if_splits)
    qed (simp_all add: Let_def)
  qed
  moreover have "parse_array (Suc n) arr cs \<notin> {JFuel, JPanic}" if l: "2 * length cs + 2 \<le> Suc n" for arr cs
  proof -
    have "parse_value n (skip_whitespace cs) \<notin> {JFuel, JPanic}"
      using skip_length [of cs] l by (intro v) simp
    moreover have "parse_array n ar (tl (skip_whitespace s)) \<notin> {JFuel, JPanic}"
      if "parse_value n (skip_whitespace cs) = JOk (x, s)" "skip_whitespace s \<noteq> []" for x s ar
      using parse_value_length [OF that(1)] skip_length [of cs] skip_tl [OF that(2)] l by (intro a) simp
    ultimately show ?thesis
      by (cases "parse_value n (skip_whitespace cs)") (auto simp: Let_def split: if_splits)
  qed
  ultimately show ?case by blast
qed simp

lemma parse_json_str_returns: "parse_json_str s \<notin> {JFuel, JPanic}"
  using parse_returns [of "2 * length (trim s) + 1", THEN conjunct1, rule_format, of "trim s"]
  by (auto simp: parse_json_str_def Let_def jbind_JFuel_iff jbind_JPanic_iff)

section \<open>Reading back what was printed\<close>

lemma string_loop_escape_text: "string_loop acc (escape_text s @ 0x22 # r) = JOk (acc @ s, r)"
proof (induction s arbitrary: acc)
  case (Cons c s)
  then show ?case by (auto simp: escape_text_def escape_char_def)
qed (simp add: escape_text_def)

lemma string_loop_escape_key: "string_loop acc (escape_key s @ 0x22 # r) = JOk (acc @ s, r)"
proof (induction s arbitrary: acc)
  case (Cons c s)
  then show ?case by (auto simp: escape_key_def escape_char_def)
qed (simp add: escape_key_def)

text \<open>What may follow a value inside a document.\<close>

definition closes :: "utext \<Rightarrow> bool" where
  "closes r \<longleftrightarrow> r = [] \<or> hd r \<in> {0x2C, 0x5D, 0x7D}"

lemma closes_digit: "closes r \<Longrightarrow> takeWhile is_digit r = [] \<and> dropWhile is_digit r = r"
  by (cases r) (auto simp: closes_def is_digit_def)

lemma span_digits_closes: "closes r \<Longrightarrow> span_digits (cs @ r) = (fst (span_digits cs), snd (span_digits cs) @ r)"
  using closes_digit [of r]
  by (auto simp: span_digits_def takeWhile_append dropWhile_append takeWhile_eq_all_conv [THEN iffD2])

lemma parse_integer_closes: "parse_integer cs = JOk (a, s) \<Longrightarrow> closes r \<Longrightarrow> parse_integer (cs @ r) = JOk (a, s @ r)"
  using span_digits_closes [of r cs] by (cases cs) (auto simp: parse_integer_def split: if_splits)

lemma parse_fraction_closes: "parse_fraction cs = JOk (a, s) \<Longrightarrow> closes r \<Longrightarrow> parse_fraction (cs @ r) = JOk (a, s @ r)"
  using span_digits_closes [of r "tl cs"]
  by (cases cs; cases r) (auto simp: parse_fraction_def closes_def hd_append split: if_splits)

lemma parse_exponent_closes:
  assumes "parse_exponent cs = JOk (a, s)" and "closes r"
  shows "parse_exponent (cs @ r) = JOk (a, s @ r)"
proof (cases cs)
  case Nil
  then show ?thesis using assms by (cases r) (auto simp: parse_exponent_def closes_def)
next
  case (Cons c t)
  show ?thesis
  proof (cases "c = 0x65 \<or> c = 0x45")
    case True
    then show ?thesis
      using assms Cons span_digits_closes [OF assms(2), of t] span_digits_closes [OF assms(2), of "tl t"]
      by (cases t) (auto simp: parse_exponent_def hd_append split: if_splits)
  next
    case False
    then show ?thesis using assms Cons by (auto simp: parse_exponent_def)
  qed
qed

lemma parse_number_closes:
  assumes "parse_number cs = JOk (a, s)" and "closes r"
  shows "parse_number (cs @ r) = JOk (a, s @ r)"
proof -
  obtain sg q where q: "parse_sign cs = (sg, q)" by (cases "parse_sign cs")
  obtain ip r1 fp r2 ep where p: "parse_integer q = JOk (ip, r1)" "parse_fraction r1 = JOk (fp, r2)"
      "parse_exponent r2 = JOk (ep, s)" and a: "a = sg @ ip @ fp @ ep"
    using assms(1) q by (auto simp: parse_number_def jbind_JOk_iff)
  have "cs \<noteq> []" using p(1) q by (auto simp: parse_sign_def parse_integer_def split: list.splits)
  then have "parse_sign (cs @ r) = (sg, q @ r)" using q by (cases cs) (auto simp: parse_sign_def split: if_splits)
  then show ?thesis
    using parse_integer_closes [OF p(1) assms(2)] parse_fraction_closes [OF p(2) assms(2)]
      parse_exponent_closes [OF p(3) assms(2)] a
    by (simp add: parse_number_def)
qed

lemma digit_zero: "is_digit 0x30"
  by (simp add: is_digit_def)

lemma parse_number_chars:
  assumes "parse_number cs = JOk (a, r)"
  shows "a \<noteq> [] \<and> (hd a = 0x2D \<or> is_digit (hd a))
    \<and> (\<forall>c\<in>set a. is_digit c \<or> c \<in> {0x2D, 0x2E, 0x2B, 0x65, 0x45})"
proof -
  obtain sg q where q: "parse_sign cs = (sg, q)" by (cases "parse_sign cs")
  obtain ip r1 fp r2 ep where p: "parse_integer q = JOk (ip, r1)" "parse_fraction r1 = JOk (fp, r2)"
      "parse_exponent r2 = JOk (ep, r)" and a: "a = sg @ ip @ fp @ ep"
    using assms q by (auto simp: parse_number_def jbind_JOk_iff)
  have "set sg \<subseteq> {0x2D}" using q by (auto simp: parse_sign_def split: list.splits if_splits)
  moreover have "ip \<noteq> [] \<and> (\<forall>c\<in>set ip. is_digit c)"
    using p(1) digit_zero by (auto simp: parse_integer_def span_digits_def split: list.splits if_splits
        dest: set_takeWhileD)
  moreover have "\<forall>c\<in>set fp. is_digit c \<or> c = 0x2E"
    using p(2) by (auto simp: parse_fraction_def span_digits_def split: list.splits if_splits dest: set_takeWhileD)
  moreover have "\<forall>c\<in>set ep. is_digit c \<or> c \<in> {0x2B, 0x2D, 0x65, 0x45}"
    using p(3) by (auto simp: parse_exponent_def span_digits_def split: list.splits if_splits prod.splits
        dest: set_takeWhileD)
  ultimately show ?thesis unfolding a by (cases sg; cases ip) auto
qed

text \<open>A printed value starts with a character that decides its kind.\<close>

lemma print_hd:
  assumes "wf_json v"
  shows "to_json_string v \<noteq> [] \<and> \<not> is_whitespace (hd (to_json_string v)) \<and> hd (to_json_string v) \<notin> {0x2C, 0x5D, 0x7D}"
proof (cases v)
  case (JNumber n)
  then show ?thesis
    using assms parse_number_chars [of n n "[]"] by (auto simp: valid_number_def is_whitespace_def is_digit_def)
qed (auto simp: lit_def is_whitespace_def)

lemma print_last:
  assumes "wf_json v"
  shows "\<not> is_whitespace (last (to_json_string v))"
proof (cases v)
  case (JNumber n)
  then have "last n \<in> set n \<and> (\<forall>c\<in>set n. is_digit c \<or> c \<in> {0x2D, 0x2E, 0x2B, 0x65, 0x45})"
    using assms parse_number_chars [of n n "[]"] by (auto simp: valid_number_def)
  then show ?thesis unfolding JNumber by (auto simp: is_whitespace_def is_digit_def)
qed (auto simp: lit_def is_whitespace_def)

lemma ascii_is_white: "is_ascii_whitespace c \<Longrightarrow> is_whitespace c"
  by (auto simp: is_ascii_whitespace_def is_whitespace_def)

lemma skip_whitespace_id: "cs \<noteq> [] \<Longrightarrow> \<not> is_whitespace (hd cs) \<Longrightarrow> skip_whitespace cs = cs"
  by (cases cs) (auto simp: skip_whitespace_def dest: ascii_is_white)

lemma skip_closing: "c \<in> {0x22, 0x2C, 0x3A, 0x5D, 0x7D} \<Longrightarrow> skip_whitespace (c # r) = c # r"
  by (auto simp: skip_whitespace_def is_ascii_whitespace_def)

lemma btree_insert_last:
  "sorted_wrt utext_less (map fst m @ [k]) \<Longrightarrow> btree_insert k v m = m @ [(k, v)]"
  by (induction m) (auto simp: sorted_wrt_append dest: utext_less_asym)

lemma parse_array_print:
  assumes IH: "\<And>v n r. v \<in> set vs \<Longrightarrow> closes r \<Longrightarrow> 2 * length (to_json_string v) + 1 \<le> n
      \<Longrightarrow> parse_value n (to_json_string v @ r) = JOk (v, r)"
    and "\<forall>v\<in>set vs. wf_json v" and "2 * length (join_commas (map to_json_string vs)) + 2 \<le> n"
  shows "parse_array n arr (join_commas (map to_json_string vs) @ 0x5D # r) = JOk (JArray (arr @ vs), r)"
  using assms
proof (induction vs arbitrary: n arr)
  case Nil
  then obtain m where "n = Suc m" by (cases n) auto
  then show ?case by (simp add: skip_closing)
next
  case (Cons v vs)
  then obtain m where n: "n = Suc m" by (cases n) auto
  define t where "t = (case vs of [] \<Rightarrow> 0x5D # r | _ \<Rightarrow> 0x2C # join_commas (map to_json_string vs) @ 0x5D # r)"
  have e: "join_commas (map to_json_string (v # vs)) @ 0x5D # r = to_json_string v @ t"
    by (cases vs) (simp_all add: t_def)
  have h: "to_json_string v \<noteq> []" "\<not> is_whitespace (hd (to_json_string v))" "hd (to_json_string v) \<noteq> 0x5D"
    using print_hd [of v] Cons.prems(2) by auto
  have sk: "skip_whitespace (to_json_string v @ t) = to_json_string v @ t"
    using h by (intro skip_whitespace_id) auto
  have "closes t" by (cases vs) (simp_all add: t_def closes_def)
  moreover have "2 * length (to_json_string v) + 1 \<le> m"
    using Cons.prems(3) n by (cases vs) auto
  ultimately have pv: "parse_value m (to_json_string v @ t) = JOk (v, t)" by (intro Cons.prems(1)) auto
  show ?case
  proof (cases vs)
    case Nil
    then show ?thesis unfolding e using n h sk pv by (simp add: Let_def t_def skip_closing)
  next
    case (Cons w ws)
    have "parse_array m (arr @ [v]) (join_commas (map to_json_string vs) @ 0x5D # r) = JOk (JArray ((arr @ [v]) @ vs), r)"
      by (rule Cons.IH) (use Cons.prems n Cons in auto)
    then show ?thesis unfolding e using n h sk pv Cons by (simp add: Let_def t_def skip_closing)
  qed
qed

definition print_entry :: "utext \<times> JsonValue \<Rightarrow> utext" where
  "print_entry e = 0x22 # escape_key (fst e) @ 0x22 # 0x3A # to_json_string (snd e)"

lemma print_object:
  "to_json_string (JObject m) = 0x7B # join_commas (map print_entry m) @ [0x7D]"
proof -
  have "map (\<lambda>(k, v). 0x22 # escape_key k @ 0x22 # 0x3A # to_json_string v) m = map print_entry m"
    by (auto simp: print_entry_def)
  then show ?thesis by (simp only: to_json_string.simps)
qed

lemma parse_object_print:
  assumes IH: "\<And>v n r. v \<in> snd ` set m \<Longrightarrow> closes r \<Longrightarrow> 2 * length (to_json_string v) + 1 \<le> n
      \<Longrightarrow> parse_value n (to_json_string v @ r) = JOk (v, r)"
    and "sorted_wrt utext_less (map fst (obj @ m))" and "2 * length (join_commas (map print_entry m)) + 1 \<le> n"
  shows "parse_object n obj (join_commas (map print_entry m) @ 0x7D # r) = JOk (JObject (obj @ m), r)"
  using assms
proof (induction m arbitrary: n obj)
  case Nil
  then obtain k where "n = Suc k" by (cases n) auto
  then show ?case by (simp add: skip_closing)
next
  case (Cons kv m)
  then obtain l where n: "n = Suc l" by (cases n) auto
  obtain k v where kv: "kv = (k, v)" by (cases kv)
  define t where "t = (case m of [] \<Rightarrow> 0x7D # r | _ \<Rightarrow> 0x2C # join_commas (map print_entry m) @ 0x7D # r)"
  have e: "join_commas (map print_entry (kv # m)) @ 0x7D # r = 0x22 # escape_key k @ 0x22 # 0x3A # to_json_string v @ t"
    by (cases m) (simp_all add: t_def print_entry_def kv)
  have "closes t" by (cases m) (simp_all add: t_def closes_def)
  moreover have "2 * length (to_json_string v) + 1 \<le> l"
    using Cons.prems(3) n by (cases m) (auto simp: print_entry_def kv)
  ultimately have pv: "parse_value l (to_json_string v @ t) = JOk (v, t)" by (intro Cons.prems(1)) (auto simp: kv)
  have ins: "btree_insert k v obj = obj @ [(k, v)]"
    using Cons.prems(2) by (intro btree_insert_last) (auto simp: kv sorted_wrt_append)
  have ps: "parse_string (0x22 # escape_key k @ 0x22 # 0x3A # to_json_string v @ t) = JOk (k, 0x3A # to_json_string v @ t)"
    by (simp add: parse_string_def string_loop_escape_key)
  show ?case
  proof (cases m)
    case Nil
    then show ?thesis unfolding e n using ps pv ins by (simp add: Let_def t_def skip_closing kv)
  next
    case m: (Cons w ws)
    have "parse_object l (obj @ [(k, v)]) (join_commas (map print_entry m) @ 0x7D # r)
        = JOk (JObject ((obj @ [(k, v)]) @ m), r)"
      by (rule Cons.IH) (use Cons.prems n m kv in \<open>auto simp: print_entry_def\<close>)
    then show ?thesis unfolding e n using ps pv ins m by (simp add: Let_def t_def skip_closing kv)
  qed
qed

lemma parse_print:
  "wf_json v \<Longrightarrow> closes r \<Longrightarrow> 2 * length (to_json_string v) + 1 \<le> n
    \<Longrightarrow> parse_value n (to_json_string v @ r) = JOk (v, r)"
proof (induction v arbitrary: n r)
  case (JString s)
  then obtain l where "n = Suc l" by (cases n) auto
  then show ?case
    by (simp add: skip_closing parse_string_def string_loop_escape_text)
next
  case (JNumber s)
  then obtain l where n: "n = Suc l" by (cases n) auto
  have v: "parse_number s = JOk (s, [])" using JNumber by (simp add: valid_number_def)
  then have h: "s \<noteq> []" "hd s = 0x2D \<or> is_digit (hd s)" using parse_number_chars by blast+
  then have sk: "skip_whitespace (s @ r) = s @ r"
    by (intro skip_whitespace_id) (auto simp: is_whitespace_def is_digit_def)
  show ?case
    using n sk h parse_number_closes [OF v JNumber.prems(2)]
    by (cases s) (auto simp: Let_def is_digit_def)
next
  case (JObject m)
  then obtain l where n: "n = Suc l" by (cases n) auto
  have "parse_object l [] (join_commas (map print_entry m) @ 0x7D # r) = JOk (JObject ([] @ m), r)"
  proof (rule parse_object_print)
    fix v n r assume v: "v \<in> snd ` set m" and "closes r" "2 * length (to_json_string v) + 1 \<le> n"
    moreover from v have "wf_json v" using JObject.prems(1) by (auto simp: list_all_iff)
    moreover from v obtain k where "(k, v) \<in> set m" by auto
    ultimately show "parse_value n (to_json_string v @ r) = JOk (v, r)"
      using JObject.IH [of "(k, v)" v] by simp
  qed (use JObject.prems n in \<open>simp_all add: print_object del: to_json_string.simps\<close>)
  then show ?case
    using n by (simp add: print_object skip_whitespace_def is_ascii_whitespace_def del: to_json_string.simps)
next
  case (JArray vs)
  then obtain l where n: "n = Suc l" by (cases n) auto
  have "parse_array l [] (join_commas (map to_json_string vs) @ 0x5D # r) = JOk (JArray ([] @ vs), r)"
    by (rule parse_array_print) (use JArray n in \<open>auto simp: list_all_iff\<close>)
  then show ?case using n by (simp add: skip_whitespace_def is_ascii_whitespace_def)
next
  case (JBoolean b)
  then obtain l where "n = Suc l" by (cases n) auto
  then show ?case
    by (cases b) (simp_all add: lit_def parse_literal_def skip_whitespace_def is_ascii_whitespace_def)
next
  case JNull
  then obtain l where "n = Suc l" by (cases n) auto
  then show ?case by (simp add: lit_def parse_literal_def skip_whitespace_def is_ascii_whitespace_def)
qed

lemma dropWhile_hd: "xs = [] \<or> \<not> P (hd xs) \<Longrightarrow> dropWhile P xs = xs"
  by (cases xs) auto

lemma trim_print:
  assumes "wf_json v"
  shows "trim (to_json_string v) = to_json_string v"
proof -
  have "dropWhile is_whitespace (to_json_string v) = to_json_string v"
    using print_hd [OF assms] by (intro dropWhile_hd) simp
  moreover have "dropWhile is_whitespace (rev (to_json_string v)) = rev (to_json_string v)"
    using print_hd [OF assms] print_last [OF assms] by (intro dropWhile_hd) (simp add: hd_rev)
  ultimately show ?thesis by (simp add: trim_def)
qed

lemma json_roundtrip_value: "wf_json v \<Longrightarrow> parse_json_str (to_json_string v) = JOk v"
  using parse_print [of v "[]"] print_hd [of v]
  by (simp add: parse_json_str_def trim_print Let_def closes_def del: parse_value.simps)

end
