(* ===== verification/JsonPool.thy ===== *)
theory JsonPool
  imports Json
begin

text \<open>
  The memory pool of long JSON documents, \<^verbatim>\<open>src/src/json/memory_pool.rs\<close>.  A block is its header and the
  bytes behind it; a pointer into a block is the number of the block and a position behind the header.
  The memory the allocator returns, or its failure, is an argument.  Atomic counters are words, which
  wrap.
\<close>

section \<open>Data\<close>

record JsonPoolConfig =
  jc_block_size :: nat
  jc_initial_blocks :: nat
  jc_max_blocks :: nat

definition JsonPoolConfig_default :: JsonPoolConfig where
  "JsonPoolConfig_default = \<lparr>jc_block_size = 4096, jc_initial_blocks = 16, jc_max_blocks = 1024\<rparr>"

record JsonBlock =
  jb_status :: byte
  jb_ref_count :: "64 word"
  jb_next_free :: nat
  jb_size :: nat
  jb_data :: bytes

text \<open>\<open>size_of::<BlockHeader>()\<close> on a 64-bit target.\<close>

definition HEADER :: nat where
  "HEADER = 32"

definition USIZE_MAX :: nat where
  "USIZE_MAX = 2 ^ 64 - 1"

record JsonMemoryPool =
  jp_id :: byte
  jp_config :: JsonPoolConfig
  jp_total_used :: "64 word"
  jp_free_blocks :: "64 word"
  jp_first_free :: nat
  jp_blocks :: "JsonBlock option list"

record JsonPoolManager =
  jm_pools :: "JsonMemoryPool list"
  jm_max_pools :: nat

section \<open>One pool\<close>

text \<open>
  The blocks of a new pool: \<open>mem i\<close> is the \<open>i\<close>-th answer of the allocator, the bytes behind the header.
  The last block, when there is memory for it, ends the free list.
\<close>

definition initial_block :: "JsonPoolConfig \<Rightarrow> nat \<Rightarrow> bytes \<Rightarrow> JsonBlock" where
  "initial_block c i d =
     \<lparr>jb_status = 0, jb_ref_count = 0,
      jb_next_free = (if Suc i = jc_initial_blocks c then USIZE_MAX else i + 1),
      jb_size = jc_block_size c - HEADER, jb_data = d\<rparr>"

definition JsonMemoryPool_new :: "byte \<Rightarrow> JsonPoolConfig \<Rightarrow> (nat \<Rightarrow> bytes option) \<Rightarrow> JsonMemoryPool" where
  "JsonMemoryPool_new i c mem =
     \<lparr>jp_id = i, jp_config = c, jp_total_used = 0, jp_free_blocks = of_nat (jc_initial_blocks c),
      jp_first_free = 0,
      jp_blocks = map (\<lambda>i. map_option (initial_block c i) (mem i)) [0..<jc_initial_blocks c]\<rparr>"

definition get_block_data :: "JsonMemoryPool \<Rightarrow> nat \<Rightarrow> nat \<Rightarrow> (nat \<times> nat) option" where
  "get_block_data p i ofs =
     (if i < length (jp_blocks p) then
        (case jp_blocks p ! i of Some b \<Rightarrow> Some (i, ofs) | None \<Rightarrow> None)
      else None)"

definition jp_block_size :: "JsonMemoryPool \<Rightarrow> nat" where
  "jp_block_size p = jc_block_size (jp_config p) - HEADER"

text \<open>
  The loop of \<open>allocate\<close> asks for the same first block again when it is not free or has no memory, and
  then does not return.
\<close>

definition jp_allocate :: "bytes option \<Rightarrow> nat \<Rightarrow> JsonMemoryPool \<Rightarrow> ((nat \<times> nat) option \<times> JsonMemoryPool) jres" where
  "jp_allocate mem sz p =
     (if sz + HEADER > jc_block_size (jp_config p) then JOk (None, p)
      else let i = jp_first_free p in
        if i \<ge> length (jp_blocks p) \<or> i = USIZE_MAX then
          (if length (jp_blocks p) < jc_max_blocks (jp_config p) then
             (case mem of
                Some d \<Rightarrow>
                  JOk (Some (length (jp_blocks p), HEADER),
                    p\<lparr>jp_blocks := jp_blocks p @
                        [Some \<lparr>jb_status = 1, jb_ref_count = 1, jb_next_free = USIZE_MAX,
                           jb_size = jc_block_size (jp_config p) - HEADER, jb_data = d\<rparr>],
                      jp_total_used := jp_total_used p + of_nat sz,
                      jp_free_blocks := jp_free_blocks p - 1\<rparr>)
              | None \<Rightarrow> JOk (None, p))
           else JOk (None, p))
        else case jp_blocks p ! i of
            Some b \<Rightarrow>
              if jb_status b = 0 then
                JOk (Some (i, HEADER),
                  p\<lparr>jp_blocks := (jp_blocks p)[i := Some (b\<lparr>jb_status := 1, jb_ref_count := 1\<rparr>)],
                    jp_first_free := jb_next_free b,
                    jp_total_used := jp_total_used p + of_nat sz,
                    jp_free_blocks := jp_free_blocks p - 1\<rparr>)
              else JFuel
          | None \<Rightarrow> JFuel)"

definition jp_add_ref :: "nat \<Rightarrow> JsonMemoryPool \<Rightarrow> JsonMemoryPool" where
  "jp_add_ref i p =
     (if i < length (jp_blocks p) then
        (case jp_blocks p ! i of
           Some b \<Rightarrow> p\<lparr>jp_blocks := (jp_blocks p)[i := Some (b\<lparr>jb_ref_count := jb_ref_count b + 1\<rparr>)]\<rparr>
         | None \<Rightarrow> p)
      else p)"

definition jp_release :: "nat \<Rightarrow> JsonMemoryPool \<Rightarrow> JsonMemoryPool" where
  "jp_release i p =
     (if i < length (jp_blocks p) then
        (case jp_blocks p ! i of
           Some b \<Rightarrow>
             let b' = b\<lparr>jb_ref_count := jb_ref_count b - 1\<rparr> in
             if jb_ref_count b = 1 then
               p\<lparr>jp_blocks := (jp_blocks p)[i := Some (b'\<lparr>jb_status := 0, jb_next_free := jp_first_free p\<rparr>)],
                 jp_first_free := i,
                 jp_free_blocks := jp_free_blocks p + 1,
                 jp_total_used := jp_total_used p - of_nat (jb_size b)\<rparr>
             else p\<lparr>jp_blocks := (jp_blocks p)[i := Some b']\<rparr>
         | None \<Rightarrow> p)
      else p)"

definition jp_status :: "JsonMemoryPool \<Rightarrow> 64 word \<times> 64 word \<times> nat" where
  "jp_status p = (jp_total_used p, jp_free_blocks p, length (jp_blocks p))"

definition jp_cleanup :: "JsonMemoryPool \<Rightarrow> JsonMemoryPool" where
  "jp_cleanup p = p\<lparr>jp_blocks := [], jp_total_used := 0, jp_free_blocks := 0, jp_first_free := USIZE_MAX\<rparr>"

section \<open>Access to a block\<close>

text \<open>A copy through a pointer; \<open>None\<close> when it leaves the block.\<close>

definition block_write :: "JsonMemoryPool \<Rightarrow> nat \<times> nat \<Rightarrow> bytes \<Rightarrow> JsonMemoryPool option" where
  "block_write p a d =
     (case jp_blocks p ! fst a of
        Some b \<Rightarrow>
          if snd a + length d \<le> length (jb_data b) then
            Some (p\<lparr>jp_blocks := (jp_blocks p)[fst a := Some (b\<lparr>jb_data :=
              take (snd a) (jb_data b) @ d @ drop (snd a + length d) (jb_data b)\<rparr>)]\<rparr>)
          else None
      | None \<Rightarrow> None)"

definition block_read :: "JsonMemoryPool \<Rightarrow> nat \<times> nat \<Rightarrow> nat \<Rightarrow> bytes option" where
  "block_read p a n =
     (case jp_blocks p ! fst a of
        Some b \<Rightarrow> if snd a + n \<le> length (jb_data b) then Some (take n (drop (snd a) (jb_data b))) else None
      | None \<Rightarrow> None)"

section \<open>The manager\<close>

definition JsonPoolManager_new :: "nat \<Rightarrow> JsonPoolManager" where
  "JsonPoolManager_new n = \<lparr>jm_pools = [], jm_max_pools = n\<rparr>"

definition create_pool :: "JsonPoolConfig \<Rightarrow> (nat \<Rightarrow> bytes option) \<Rightarrow> JsonPoolManager \<Rightarrow> byte option \<times> JsonPoolManager" where
  "create_pool c mem m =
     (if length (jm_pools m) \<ge> jm_max_pools m then (None, m)
      else let i = of_nat (length (jm_pools m)) in
        (Some i, m\<lparr>jm_pools := jm_pools m @ [JsonMemoryPool_new i c mem]\<rparr>))"

definition get_pool :: "byte \<Rightarrow> JsonPoolManager \<Rightarrow> JsonMemoryPool option" where
  "get_pool i m = (if unat i < length (jm_pools m) then Some (jm_pools m ! unat i) else None)"

definition put_pool :: "byte \<Rightarrow> JsonMemoryPool \<Rightarrow> JsonPoolManager \<Rightarrow> JsonPoolManager" where
  "put_pool i p m = m\<lparr>jm_pools := (jm_pools m)[unat i := p]\<rparr>"

definition cleanup_all :: "JsonPoolManager \<Rightarrow> JsonPoolManager" where
  "cleanup_all m = m\<lparr>jm_pools := []\<rparr>"

definition JsonPoolManager_default :: JsonPoolManager where
  "JsonPoolManager_default = JsonPoolManager_new 8"

definition init_json_pool_manager :: "JsonPoolManager option \<Rightarrow> JsonPoolManager option" where
  "init_json_pool_manager g = (case g of None \<Rightarrow> Some JsonPoolManager_default | Some m \<Rightarrow> Some m)"

end
