(* ===== verification/JsonPath.thy ===== *)
theory JsonPath
  imports Json_Inv JsonPool
begin

text \<open>
  JSON paths, \<^verbatim>\<open>src/src/json/path.rs\<close>, and the operations on documents at a path of
  \<^verbatim>\<open>src/src/json/document.rs\<close>.  A document of at most 256 bytes holds its text, a longer one refers to a
  block of the memory pool; the global pool manager is passed as \<open>g\<close> and returned where it changes, and
  \<open>mem\<close> is the allocator's answer when the pool grows.
\<close>

section \<open>Numbers in paths\<close>

text \<open>\<open>str::parse::<usize>\<close>.\<close>

fun decimal :: "nat \<Rightarrow> utext \<Rightarrow> nat option" where
  "decimal acc [] = Some acc"
| "decimal acc (c # cs) = (if is_digit c then decimal (10 * acc + (c - 0x30)) cs else None)"

definition parse_usize :: "utext \<Rightarrow> nat option" where
  "parse_usize s =
     (let ds = (case s of c # cs \<Rightarrow> if c = 0x2B then cs else s | [] \<Rightarrow> []) in
      if ds = [] then None
      else case decimal 0 ds of Some n \<Rightarrow> if n < 2 ^ 64 then Some n else None | None \<Rightarrow> None)"

text \<open>\<open>str::split\<close> at one character: never empty.\<close>

fun split_at :: "nat \<Rightarrow> utext \<Rightarrow> utext list" where
  "split_at d [] = [[]]"
| "split_at d (c # cs) =
     (if c = d then [] # split_at d cs
      else case split_at d cs of p # ps \<Rightarrow> (c # p) # ps | [] \<Rightarrow> [[c]])"

section \<open>Compiled paths\<close>

datatype PathNode =
    PRoot | PKey utext | PIndex nat | PWildcard | PSlice "nat option" "nat option" | PFilter utext

definition key_end :: "nat \<Rightarrow> bool" where
  "key_end c \<longleftrightarrow> c = 0x2E \<or> c = 0x5B \<or> c = 0x5D"

definition parse_key :: "utext \<Rightarrow> (utext \<times> utext) jres" where
  "parse_key p =
     (let k = takeWhile (\<lambda>c. \<not> key_end c) p in
      if k = [] then JErr ''Empty key'' else JOk (k, drop (length k) p))"

definition parse_slice :: "utext \<Rightarrow> PathNode" where
  "parse_slice s =
     (let parts = split_at 0x3A s in
      PSlice (if parts ! 0 = [] then None else parse_usize (parts ! 0))
        (if 1 < length parts \<and> parts ! 1 \<noteq> [] then parse_usize (parts ! 1) else None))"

definition parse_array_access :: "utext \<Rightarrow> (PathNode \<times> utext) jres" where
  "parse_array_access p =
     (case p of
        [] \<Rightarrow> JErr ''Array access must start with [''
      | c # r \<Rightarrow>
          if c \<noteq> 0x5B then JErr ''Array access must start with [''
          else
            let s = takeWhile (\<lambda>c. c \<noteq> 0x5D) r; rest = drop (length s) r in
            if rest = [] then JErr ''Array access must end with ]''
            else if s = [0x2A] then JOk (PWildcard, tl rest)
            else if 0x3A \<in> set s then JOk (parse_slice s, tl rest)
            else if s \<noteq> [] \<and> hd s = 0x3F then JOk (PFilter (tl s), tl rest)
            else case parse_usize s of
                   None \<Rightarrow> JErr ''Invalid array index'' | Some i \<Rightarrow> JOk (PIndex i, tl rest))"

lemma parse_key_length: "parse_key p = JOk (k, r) \<Longrightarrow> length r < length p"
  by (cases p) (auto simp: parse_key_def Let_def split: if_splits)

lemma parse_array_access_length: "parse_array_access p = JOk (k, r) \<Longrightarrow> length r < length p"
  by (cases p) (auto simp: parse_array_access_def Let_def split: if_splits option.splits)

function path_loop :: "PathNode list \<Rightarrow> utext \<Rightarrow> PathNode list jres" where
  "path_loop nodes [] = JOk nodes"
| "path_loop nodes (c # cs) =
     (if c = 0x2E then
        (if cs \<noteq> [] \<and> hd cs = 0x5B then
           (case parse_array_access cs of
              JOk (x, r) \<Rightarrow> path_loop (nodes @ [x]) r
            | JErr m \<Rightarrow> JErr m | JPanic \<Rightarrow> JPanic | JFuel \<Rightarrow> JFuel)
         else (case parse_key cs of
              JOk (k, r) \<Rightarrow> path_loop (nodes @ [PKey k]) r
            | JErr m \<Rightarrow> JErr m | JPanic \<Rightarrow> JPanic | JFuel \<Rightarrow> JFuel))
      else if c = 0x5B then
        (case parse_array_access (c # cs) of
           JOk (x, r) \<Rightarrow> path_loop (nodes @ [x]) r
         | JErr m \<Rightarrow> JErr m | JPanic \<Rightarrow> JPanic | JFuel \<Rightarrow> JFuel)
      else JErr ''Invalid path syntax'')"
  by pat_completeness auto
termination
  by (relation "measure (\<lambda>(ns, cs). length cs)")
    (auto dest: parse_key_length parse_array_access_length)

definition CompiledPath_parse :: "utext \<Rightarrow> PathNode list jres" where
  "CompiledPath_parse p =
     (case p of
        [] \<Rightarrow> JErr ''Empty path''
      | c # r \<Rightarrow> if c \<noteq> 0x24 then JErr ''Path must start with $'' else path_loop [PRoot] r)"

section \<open>Documents and queries\<close>

datatype JsonStorage = JsInline bytes | JsExternal byte nat nat | JsNull

record JsonDocument =
  jd_storage :: JsonStorage
  jd_size :: nat

datatype JsonQueryResult =
    QNone | QScalar utext | QObject JsonDocument | QArray "JsonQueryResult list"

definition null_document :: JsonDocument where
  "null_document = \<lparr>jd_storage = JsNull, jd_size = 0\<rparr>"

definition inline_document :: "bytes \<Rightarrow> JsonDocument" where
  "inline_document d =
     \<lparr>jd_storage = JsInline (d @ replicate (256 - length d) 0), jd_size = length d\<rparr>"

text \<open>The block and the ofs of the allocation, then the copy; a copy that leaves its block is undefined.\<close>

definition store_external :: "bytes option \<Rightarrow> bytes \<Rightarrow> nat \<Rightarrow> JsonPoolManager option
    \<Rightarrow> JsonDocument jres \<times> JsonPoolManager option" where
  "store_external mem d sz g =
     (case g of
        None \<Rightarrow> (JErr ''JSON pool manager not initialized'', g)
      | Some m \<Rightarrow>
          (case get_pool 0 m of
             None \<Rightarrow> (JErr ''Default JSON pool not found'', g)
           | Some p \<Rightarrow>
               (case jp_allocate mem sz p of
                  JOk (None, p') \<Rightarrow> (JErr ''Failed to allocate JSON memory'', Some (put_pool 0 p' m))
                | JOk (Some (i, ofs), p') \<Rightarrow>
                    (case get_block_data p' i ofs of
                       None \<Rightarrow> (JErr ''Failed to get block data'', Some (put_pool 0 p' m))
                     | Some a \<Rightarrow>
                         if length d < sz then (JPanic, g)
                         else (case block_write p' a (take sz d) of
                             None \<Rightarrow> (JPanic, g)
                           | Some p'' \<Rightarrow>
                               (JOk \<lparr>jd_storage = JsExternal 0 (i mod 2 ^ 32) (sz mod 2 ^ 32), jd_size = sz\<rparr>,
                                Some (put_pool 0 p'' m))))
                | JErr e \<Rightarrow> (JErr e, g) | JPanic \<Rightarrow> (JPanic, g) | JFuel \<Rightarrow> (JFuel, g))))"

definition from_binary :: "bytes option \<Rightarrow> bytes \<Rightarrow> nat \<Rightarrow> JsonPoolManager option
    \<Rightarrow> JsonDocument jres \<times> JsonPoolManager option" where
  "from_binary mem d sz g =
     (if sz = 0 then (JOk null_document, g)
      else if sz > 10 * 1024 then (JErr ''JSON too large (max 10KB)'', g)
      else if sz \<le> 256 then
        (if length d \<noteq> sz then (JPanic, g) else (JOk (inline_document d), g))
      else store_external mem d sz g)"

definition from_json :: "bytes option \<Rightarrow> utext \<Rightarrow> JsonPoolManager option
    \<Rightarrow> JsonDocument jres \<times> JsonPoolManager option" where
  "from_json mem s g =
     (if trim s = [] then (JOk null_document, g)
      else if length (encode_text s) > 10 * 1024 then (JErr ''JSON too large (max 10KB)'', g)
      else from_binary mem (encode_text s) (length (encode_text s)) g)"

definition set_json_string :: "utext \<Rightarrow> JsonDocument \<Rightarrow> JsonDocument jres" where
  "set_json_string s d =
     (let sz = length (encode_text s) in
      if sz > 10 * 1024 then JErr ''JSON too large (max 10KB)''
      else if sz > 256 then JErr ''JSON too large for inline storage (max 256 bytes)''
      else JOk (inline_document (encode_text s)))"

definition to_json :: "JsonPoolManager option \<Rightarrow> JsonDocument \<Rightarrow> utext jres" where
  "to_json g d =
     (case jd_storage d of
        JsInline bs \<Rightarrow> JOk (utf8_lossy (take (jd_size d) bs))
      | JsExternal i ofs n \<Rightarrow>
          (case g of
             None \<Rightarrow> JErr ''JSON pool manager not initialized''
           | Some m \<Rightarrow>
               (case get_pool i m of
                  None \<Rightarrow> JErr ''JSON pool not found''
                | Some p \<Rightarrow>
                    (case get_block_data p ofs 0 of
                       None \<Rightarrow> JErr ''Failed to get block data''
                     | Some a \<Rightarrow>
                         (case block_read p a n of
                            None \<Rightarrow> JPanic
                          | Some bs \<Rightarrow> JOk (utf8_lossy bs)))))
      | JsNull \<Rightarrow> JOk (lit ''null''))"

definition json_is_null :: "JsonDocument \<Rightarrow> bool" where
  "json_is_null d \<longleftrightarrow> jd_storage d = JsNull"

definition parse_json :: "JsonPoolManager option \<Rightarrow> JsonDocument \<Rightarrow> JsonValue jres" where
  "parse_json g d = jbind (to_json g d) parse_json_str"

text \<open>One node of a path applied to one value.\<close>

fun path_step :: "PathNode \<Rightarrow> JsonValue \<Rightarrow> JsonValue list" where
  "path_step (PKey k) (JObject m) = (case map_of m k of Some v \<Rightarrow> [v] | None \<Rightarrow> [])"
| "path_step (PIndex i) (JArray vs) = (if i < length vs then [vs ! i] else [])"
| "path_step PWildcard (JObject m) = map snd m"
| "path_step PWildcard (JArray vs) = vs"
| "path_step (PSlice a b) (JArray vs) =
     (let s = (case a of Some i \<Rightarrow> i | None \<Rightarrow> 0); e = (case b of Some i \<Rightarrow> i | None \<Rightarrow> length vs)
      in map ((!) vs) [s..<min e (length vs)])"
| "path_step _ _ = []"

text \<open>The nodes behind the root, stopping when nothing is left.\<close>

fun path_walk :: "PathNode list \<Rightarrow> JsonValue list \<Rightarrow> JsonValue list" where
  "path_walk [] vs = vs"
| "path_walk (p # ps) vs =
     (let next = concat (map (path_step p) vs) in if next = [] then [] else path_walk ps next)"

fun scalar_result :: "JsonValue \<Rightarrow> JsonQueryResult" where
  "scalar_result (JString s) = QScalar s"
| "scalar_result (JNumber n) = QScalar n"
| "scalar_result (JBoolean b) = QScalar (lit (if b then ''true'' else ''false''))"
| "scalar_result JNull = QScalar (lit ''null'')"
| "scalar_result _ = QNone"

text \<open>An object as the result gives the whole document.\<close>

definition query_result :: "JsonDocument \<Rightarrow> JsonValue list \<Rightarrow> JsonQueryResult" where
  "query_result d vs =
     (case vs of
        [] \<Rightarrow> QNone
      | [JObject m] \<Rightarrow> QObject d
      | [JArray ws] \<Rightarrow> QArray (map scalar_result ws)
      | [v] \<Rightarrow> scalar_result v
      | _ \<Rightarrow> QArray (map scalar_result vs))"

definition CompiledPath_execute :: "JsonPoolManager option \<Rightarrow> PathNode list \<Rightarrow> JsonDocument \<Rightarrow> JsonQueryResult" where
  "CompiledPath_execute g nodes d =
     (case parse_json g d of JOk v \<Rightarrow> query_result d (path_walk (tl nodes) [v]) | _ \<Rightarrow> QNone)"

definition json_extract :: "JsonPoolManager option \<Rightarrow> JsonDocument \<Rightarrow> utext \<Rightarrow> JsonQueryResult" where
  "json_extract g d p = (case CompiledPath_parse p of JOk ns \<Rightarrow> CompiledPath_execute g ns d | _ \<Rightarrow> QNone)"

definition json_has :: "JsonPoolManager option \<Rightarrow> JsonDocument \<Rightarrow> utext \<Rightarrow> bool" where
  "json_has g d p = (case CompiledPath_parse p of JOk ns \<Rightarrow> CompiledPath_execute g ns d \<noteq> QNone | _ \<Rightarrow> False)"

definition json_extract_text :: "JsonPoolManager option \<Rightarrow> JsonDocument \<Rightarrow> utext \<Rightarrow> utext option" where
  "json_extract_text g d p = (case json_extract g d p of QScalar s \<Rightarrow> Some s | _ \<Rightarrow> None)"

text \<open>\<open>str::parse::<i64>\<close>.\<close>

definition parse_i64 :: "utext \<Rightarrow> int option" where
  "parse_i64 s =
     (case s of
        [] \<Rightarrow> None
      | c # cs \<Rightarrow>
          let neg = (c = 0x2D); ds = (if c = 0x2D \<or> c = 0x2B then cs else s) in
          if ds = [] then None
          else case decimal 0 ds of
              None \<Rightarrow> None
            | Some n \<Rightarrow>
                let v = (if neg then - int n else int n) in
                if - (2 ^ 63) \<le> v \<and> v < 2 ^ 63 then Some v else None)"

definition json_extract_int :: "JsonPoolManager option \<Rightarrow> JsonDocument \<Rightarrow> utext \<Rightarrow> int option" where
  "json_extract_int g d p = (case json_extract g d p of QScalar s \<Rightarrow> parse_i64 s | _ \<Rightarrow> None)"

definition keys_of :: "JsonValue jres \<Rightarrow> JsonQueryResult" where
  "keys_of r = (case r of JOk (JObject m) \<Rightarrow> QArray (map (\<lambda>(k, v). QScalar k) m) | _ \<Rightarrow> QNone)"

definition json_keys :: "JsonPoolManager option \<Rightarrow> JsonDocument \<Rightarrow> utext \<Rightarrow> JsonQueryResult" where
  "json_keys g d p =
     (case json_extract g d p of
        QObject o' \<Rightarrow> keys_of (parse_json g o')
      | QScalar s \<Rightarrow> if s \<noteq> [] \<and> hd s = 0x7B then keys_of (parse_json_str s) else QNone
      | _ \<Rightarrow> QNone)"

definition json_valid :: "bytes option \<Rightarrow> utext \<Rightarrow> JsonPoolManager option \<Rightarrow> bool" where
  "json_valid mem s g \<longleftrightarrow> (case fst (from_json mem s g) of JOk _ \<Rightarrow> True | _ \<Rightarrow> False)"

section \<open>Changes at a path\<close>

text \<open>A part that is one quote only is sliced from 1 to 0, which panics.\<close>

definition path_part :: "utext \<Rightarrow> utext jres" where
  "path_part p =
     (if p = [] then JErr ''Empty key in path''
      else if hd p = 0x22 \<and> last p = 0x22 \<or> hd p = 0x27 \<and> last p = 0x27 then
        (if length p = 1 then JPanic else JOk (butlast (tl p)))
      else JOk p)"

fun path_parts :: "utext list \<Rightarrow> utext list jres" where
  "path_parts [] = JOk []"
| "path_parts (p # ps) = jbind (path_part p) (\<lambda>k. jbind (path_parts ps) (\<lambda>ks. JOk (k # ks)))"

definition parse_simple_json_path :: "utext \<Rightarrow> utext list jres" where
  "parse_simple_json_path p =
     (if p = [] \<or> hd p \<noteq> 0x24 then JErr ''Path must start with $''
      else let r = tl p in
        if r = [] then JOk []
        else path_parts (split_at 0x2E (if hd r = 0x2E then tl r else r)))"

fun set_value_at_path :: "JsonValue \<Rightarrow> utext list \<Rightarrow> JsonValue \<Rightarrow> JsonValue jres" where
  "set_value_at_path root [] x = JOk x"
| "set_value_at_path (JObject m) [k] x = JOk (JObject (btree_insert k x m))"
| "set_value_at_path (JObject m) (k # k' # ks) x =
     jbind (set_value_at_path (case map_of m k of Some c \<Rightarrow> c | None \<Rightarrow> JObject []) (k' # ks) x)
       (\<lambda>c. JOk (JObject (btree_insert k c m)))"
| "set_value_at_path (JArray vs) (k # ks) x =
     (case parse_usize k of
        None \<Rightarrow> JErr ''Array index must be a number''
      | Some i \<Rightarrow>
          if ks = [] then JOk (JArray ((vs @ replicate (Suc i - length vs) JNull)[i := x]))
          else if i < length vs then jbind (set_value_at_path (vs ! i) ks x) (\<lambda>c. JOk (JArray (vs[i := c])))
          else JErr ''Array index out of bounds for intermediate path'')"
| "set_value_at_path _ (k # ks) x = JErr ''Cannot navigate through non-object/non-array value''"

fun remove_value_at_path :: "JsonValue \<Rightarrow> utext list \<Rightarrow> JsonValue jres" where
  "remove_value_at_path root [] = JOk JNull"
| "remove_value_at_path (JObject m) (k # ks) =
     (if ks = [] then JOk (JObject (btree_remove k m))
      else case map_of m k of
             Some c \<Rightarrow> jbind (remove_value_at_path c ks) (\<lambda>c'. JOk (JObject (btree_insert k c' m)))
           | None \<Rightarrow> JOk (JObject m))"
| "remove_value_at_path (JArray vs) (k # ks) =
     (case parse_usize k of
        None \<Rightarrow> JErr ''Array index must be a number''
      | Some i \<Rightarrow>
          if i < length vs then
            (if ks = [] then JOk (JArray (take i vs @ drop (Suc i) vs))
             else jbind (remove_value_at_path (vs ! i) ks) (\<lambda>c. JOk (JArray (vs[i := c]))))
          else JOk (JArray vs))"
| "remove_value_at_path v (k # ks) = JOk v"

text \<open>The entries of the patch are merged one after the other.\<close>

fun merge_json_patch :: "JsonValue \<Rightarrow> JsonValue \<Rightarrow> JsonValue"
and merge_entries :: "(utext \<times> JsonValue) list \<Rightarrow> (utext \<times> JsonValue) list \<Rightarrow> (utext \<times> JsonValue) list" where
  "merge_json_patch (JObject m) (JObject ps) = JObject (merge_entries ps m)"
| "merge_json_patch t p = p"
| "merge_entries [] m = m"
| "merge_entries ((k, p) # ps) m =
     merge_entries ps
       (if p = JNull then btree_remove k m
        else case map_of m k of
               Some t \<Rightarrow> btree_insert k (merge_json_patch t p) m
             | None \<Rightarrow> btree_insert k p m)"

definition json_set :: "JsonPoolManager option \<Rightarrow> utext \<Rightarrow> utext \<Rightarrow> JsonDocument \<Rightarrow> JsonDocument jres" where
  "json_set g p value d =
     jbind (parse_json g d) (\<lambda>v.
     jbind (parse_json_str value) (\<lambda>x.
     jbind (parse_simple_json_path p) (\<lambda>ks.
     jbind (set_value_at_path v ks x) (\<lambda>v'. set_json_string (to_json_string v') d))))"

definition json_insert :: "JsonPoolManager option \<Rightarrow> utext \<Rightarrow> utext \<Rightarrow> JsonDocument \<Rightarrow> JsonDocument jres" where
  "json_insert = json_set"

definition json_replace :: "JsonPoolManager option \<Rightarrow> utext \<Rightarrow> utext \<Rightarrow> JsonDocument \<Rightarrow> JsonDocument jres" where
  "json_replace = json_set"

definition json_remove :: "bytes option \<Rightarrow> utext \<Rightarrow> JsonDocument \<Rightarrow> JsonPoolManager option
    \<Rightarrow> JsonDocument jres \<times> JsonPoolManager option" where
  "json_remove mem p d g =
     (case jbind (parse_json g d) (\<lambda>v. jbind (parse_simple_json_path p) (remove_value_at_path v)) of
        JOk v \<Rightarrow> from_json mem (to_json_string v) g
      | JErr e \<Rightarrow> (JErr e, g) | JPanic \<Rightarrow> (JPanic, g) | JFuel \<Rightarrow> (JFuel, g))"

definition json_merge_patch :: "bytes option \<Rightarrow> utext \<Rightarrow> JsonDocument \<Rightarrow> JsonPoolManager option
    \<Rightarrow> JsonDocument jres \<times> JsonPoolManager option" where
  "json_merge_patch mem patch d g =
     (case jbind (parse_json g d) (\<lambda>v. jbind (parse_json_str patch) (\<lambda>x. JOk (merge_json_patch v x))) of
        JOk v \<Rightarrow> from_json mem (to_json_string v) g
      | JErr e \<Rightarrow> (JErr e, g) | JPanic \<Rightarrow> (JPanic, g) | JFuel \<Rightarrow> (JFuel, g))"

end
