(* ===== verification/JsonPath_Inv.thy ===== *)
theory JsonPath_Inv
  imports JsonPath
begin

text \<open>
  What the JSON parser returns is well formed, so that values survive printing and parsing; a change at a
  path is what a later query sees; and the storage of documents, with the flaw of the external storage.
\<close>

section \<open>Parsed values are well formed\<close>

fun json_chars :: "(nat \<Rightarrow> bool) \<Rightarrow> JsonValue \<Rightarrow> bool" where
  "json_chars S (JString s) = list_all S s"
| "json_chars S (JNumber n) = list_all S n"
| "json_chars S (JArray vs) = list_all (json_chars S) vs"
| "json_chars S (JObject m) = list_all (\<lambda>(k, v). list_all S k \<and> json_chars S v) m"
| "json_chars S _ = True"

definition entries_ok :: "(nat \<Rightarrow> bool) \<Rightarrow> (utext \<times> JsonValue) list \<Rightarrow> bool" where
  "entries_ok S m \<longleftrightarrow> wf_json (JObject m) \<and> json_chars S (JObject m)"

abbreviation value_ok :: "(nat \<Rightarrow> bool) \<Rightarrow> JsonValue \<Rightarrow> bool" where
  "value_ok S v \<equiv> wf_json v \<and> json_chars S v"

text \<open>Characters below \<open>0x10000\<close> that are no surrogates can come from an escape.\<close>

definition escapes_in :: "(nat \<Rightarrow> bool) \<Rightarrow> bool" where
  "escapes_in S \<longleftrightarrow> (\<forall>c. c < 0x10000 \<longrightarrow> \<not> (0xD800 \<le> c \<and> c \<le> 0xDFFF) \<longrightarrow> S c)"

lemma escapes_in_scalar: "escapes_in scalar"
  by (simp add: escapes_in_def scalar_def)

lemma escapes_in_True: "escapes_in (\<lambda>c. True)"
  by (simp add: escapes_in_def)

lemma set_btree_insert: "set (btree_insert k v m) \<subseteq> insert (k, v) (set m)"
  by (induction m) (auto split: if_splits)

lemma keys_btree_insert: "fst ` set (btree_insert k v m) = insert k (fst ` set m)"
  by (induction k v m rule: btree_insert.induct) (simp_all add: insert_commute)

lemma sorted_btree_insert:
  "sorted_wrt utext_less (map fst m) \<Longrightarrow> sorted_wrt utext_less (map fst (btree_insert k v m))"
proof (induction m)
  case (Cons e m)
  obtain k' v' where e: "e = (k', v')" by (cases e)
  have h: "\<And>x. x \<in> fst ` set m \<Longrightarrow> utext_less k' x" using Cons.prems e by auto
  consider "k = k'" | "k \<noteq> k'" "utext_less k k'" | "k \<noteq> k'" "\<not> utext_less k k'" by blast
  then show ?case
  proof cases
    case 2
    then have "\<And>x. x \<in> fst ` set m \<Longrightarrow> utext_less k x" using h utext_less_trans by blast
    with 2 Cons.prems e show ?thesis by auto
  next
    case 3
    then have "\<And>x. x \<in> fst ` set (btree_insert k v m) \<Longrightarrow> utext_less k' x"
      using h utext_less_total [of k k'] by (auto simp: keys_btree_insert)
    with 3 Cons e show ?thesis by auto
  qed (use Cons.prems e in auto)
qed simp

lemma entries_ok_insert: "entries_ok S m \<Longrightarrow> list_all S k \<Longrightarrow> value_ok S v \<Longrightarrow> entries_ok S (btree_insert k v m)"
  using set_btree_insert [of k v m] sorted_btree_insert [of m k v]
  by (fastforce simp: entries_ok_def list_all_iff)

lemma hex_digits_chars:
  "hex_digits n code cs = JOk (c, r) \<Longrightarrow> (code < 16 ^ k \<longrightarrow> c < 16 ^ (n + k)) \<and> (list_all S cs \<longrightarrow> list_all S r)"
proof (induction n code cs arbitrary: k rule: hex_digits.induct)
  case (3 n code ch cs)
  then obtain d where d: "hex_value ch = Some d" "hex_digits n (code * 16 + d) cs = JOk (c, r)"
    by (auto split: option.splits)
  have "d < 16" using d(1) by (auto simp: hex_value_def split: if_splits)
  then have "code < 16 ^ k \<Longrightarrow> code * 16 + d < 16 ^ Suc k" by simp
  with "3.IH" [OF d, of "Suc k"] show ?case by auto
qed auto

lemma push_code_chars: "escapes_in S \<Longrightarrow> code < 0x10000 \<Longrightarrow> list_all S s \<Longrightarrow> list_all S (push_code code s)"
  by (auto simp: push_code_def escapes_in_def)

lemma escape_char_ascii: "escape_char e = Some x \<Longrightarrow> x < 128"
  by (auto simp: escape_char_def split: if_splits)

lemma escapes_in_ascii: "escapes_in S \<Longrightarrow> c < 128 \<Longrightarrow> S c"
  by (simp add: escapes_in_def)

lemma list_all_drop: "list_all S cs \<Longrightarrow> list_all S (drop n cs)"
  by (auto simp: list_all_iff dest: in_set_dropD)

lemma string_loop_chars:
  "string_loop s cs = JOk (t, r) \<Longrightarrow> escapes_in S \<Longrightarrow> list_all S s \<Longrightarrow> list_all S cs \<Longrightarrow> list_all S t \<and> list_all S r"
proof (induction s cs rule: string_loop.induct)
  case (2 s c cs)
  show ?case
  proof (cases "c = 0x5C \<and> cs \<noteq> [] \<and> hd cs = 0x75")
    case True
    then obtain q where cs: "cs = 0x75 # q" by (cases cs) auto
    obtain code r' where h: "hex_digits 4 0 q = JOk (code, r')" "string_loop (push_code code s) (drop 1 r') = JOk (t, r)"
      using "2.prems"(1) True cs by (auto split: jres.splits)
    then have "code < 0x10000" "list_all S r'"
      using hex_digits_chars [of 4 0 q code r' 0 S] "2.prems"(4) cs by simp_all
    moreover have "c \<noteq> 0x22" "list_all S s" using True "2.prems" by simp_all
    ultimately show ?thesis
      using True cs h "2.prems"(2) push_code_chars [of S code s] list_all_drop [of S r' 1]
      by (intro "2.IH"(1)) simp_all
  next
    case False
    consider "c = 0x22" | "c = 0x5C" | "c \<noteq> 0x22" "c \<noteq> 0x5C" by blast
    then show ?thesis
    proof cases
      case 2
      then obtain e r' where cs: "cs = e # r'" "e \<noteq> 0x75" using False "2.prems"(1) by (cases cs) auto
      then obtain x where x: "escape_char e = Some x" "string_loop (s @ [x]) r' = JOk (t, r)"
        using 2 "2.prems"(1) by (auto split: option.splits)
      then have "S x" using escape_char_ascii escapes_in_ascii "2.prems"(2) by blast
      then show ?thesis using "2.IH"(2) 2 cs x "2.prems" by simp
    next
      case 3
      then show ?thesis using "2.IH"(3) "2.prems" by simp
    qed (use "2.prems" in simp)
  qed
qed simp

lemma parse_string_chars:
  "parse_string cs = JOk (t, r) \<Longrightarrow> escapes_in S \<Longrightarrow> list_all S cs \<Longrightarrow> list_all S t \<and> list_all S r"
  using string_loop_chars [of "[]" "drop 1 cs"] list_all_drop [of S cs 1] by (simp add: parse_string_def)

lemma takeWhile_stop: "\<forall>x\<in>set xs. P x \<Longrightarrow> ys = [] \<or> \<not> P (hd ys) \<Longrightarrow> takeWhile P (xs @ ys) = xs \<and> dropWhile P (xs @ ys) = ys"
  by (cases ys) simp_all

lemma span_digits_parts:
  assumes "span_digits cs = (a, r)"
  shows "cs = a @ r" "\<forall>c\<in>set a. is_digit c" "x = [] \<or> \<not> is_digit (hd x) \<Longrightarrow> span_digits (a @ x) = (a, x)"
proof -
  show "cs = a @ r" and d: "\<forall>c\<in>set a. is_digit c"
    using assms by (auto simp: span_digits_def dest: set_takeWhileD)
  show "span_digits (a @ x) = (a, x)" if "x = [] \<or> \<not> is_digit (hd x)"
    using takeWhile_stop [OF d that] by (simp add: span_digits_def)
qed

lemma parse_integer_exact:
  assumes "parse_integer cs = JOk (a, r)"
  shows "cs = a @ r \<and> a \<noteq> [] \<and> is_digit (hd a)
    \<and> (\<forall>x. x = [] \<or> \<not> is_digit (hd x) \<longrightarrow> parse_integer (a @ x) = JOk (a, x))"
proof (cases cs)
  case (Cons c q)
  show ?thesis
  proof (cases "c = 0x30")
    case False
    then have d: "is_digit c" "span_digits cs = (a, r)"
      using assms Cons by (auto simp: parse_integer_def split: if_splits)
    note sp = span_digits_parts [OF d(2)]
    have ne: "a \<noteq> [] \<and> hd a = c" using d Cons by (auto simp: span_digits_def)
    then show ?thesis using sp d(1) False by (cases a) (auto simp: parse_integer_def)
  qed (use assms Cons digit_zero in \<open>auto simp: parse_integer_def\<close>)
qed (use assms in \<open>simp add: parse_integer_def\<close>)

lemma parse_fraction_exact:
  assumes "parse_fraction cs = JOk (a, r)"
  shows "cs = a @ r \<and> (a = [] \<or> hd a = 0x2E)
    \<and> (\<forall>x. x = [] \<or> hd x \<in> {0x65, 0x45} \<longrightarrow> parse_fraction (a @ x) = JOk (a, x))"
proof (cases "cs \<noteq> [] \<and> hd cs = 0x2E")
  case True
  then obtain q where q: "cs = 0x2E # q" by (cases cs) auto
  obtain b s where b: "span_digits q = (b, s)" by (cases "span_digits q")
  note sp = span_digits_parts [OF b]
  have h: "q \<noteq> []" "is_digit (hd q)" "a = 0x2E # b" "r = s"
    using assms q b by (auto simp: parse_fraction_def split: if_splits)
  then have ne: "b \<noteq> [] \<and> is_digit (hd b)" using b by (cases q) (auto simp: span_digits_def)
  have "span_digits (b @ x) = (b, x)" if "x = [] \<or> hd x \<in> {0x65, 0x45}" for x
    using that by (intro sp(3)) (auto simp: is_digit_def)
  then show ?thesis using h q sp(1) ne by (auto simp: parse_fraction_def)
next
  case False
  then have "a = [] \<and> r = cs" using assms by (cases cs) (auto simp: parse_fraction_def)
  then show ?thesis by (auto simp: parse_fraction_def split: list.split)
qed

lemma parse_exponent_exact:
  assumes "parse_exponent cs = JOk (a, r)"
  shows "cs = a @ r \<and> (a = [] \<or> hd a \<in> {0x65, 0x45}) \<and> parse_exponent a = JOk (a, [])"
proof (cases "cs \<noteq> [] \<and> hd cs \<in> {0x65, 0x45}")
  case True
  then obtain c q where q: "cs = c # q" "c \<in> {0x65, 0x45}" by (cases cs) auto
  define sg where "sg = (case q of d # r' \<Rightarrow> if d = 0x2B \<or> d = 0x2D then ([d], r') else ([], q) | [] \<Rightarrow> ([], []))"
  obtain g r1 where g: "sg = (g, r1)" by (cases sg)
  obtain b s where b: "span_digits r1 = (b, s)" by (cases "span_digits r1")
  note sp = span_digits_parts [OF b]
  have h: "r1 \<noteq> []" "is_digit (hd r1)" "a = c # g @ b" "r = s"
    using assms q b g by (auto simp: parse_exponent_def sg_def [symmetric] split: if_splits)
  then have ne: "b \<noteq> [] \<and> is_digit (hd b)" using b by (cases r1) (auto simp: span_digits_def)
  have e: "q = g @ r1 \<and> (g = [] \<or> g = [0x2B] \<or> g = [0x2D])"
    using g by (auto simp: sg_def split: list.splits if_splits)
  have "span_digits b = (b, [])" using sp(3) [of "[]"] by simp
  then have "parse_exponent a = JOk (a, [])"
    using e ne h(3) q(2) by (cases b) (auto simp: parse_exponent_def is_digit_def)
  then show ?thesis using h e sp(1) q by auto
next
  case False
  then have "a = [] \<and> r = cs" using assms by (cases cs) (auto simp: parse_exponent_def)
  then show ?thesis by (auto simp: parse_exponent_def)
qed

lemma parse_number_valid:
  assumes "parse_number cs = JOk (a, r)"
  shows "cs = a @ r" "valid_number a"
proof -
  obtain sg q where q: "parse_sign cs = (sg, q)" by (cases "parse_sign cs")
  obtain ip r1 fp r2 ep where p: "parse_integer q = JOk (ip, r1)" "parse_fraction r1 = JOk (fp, r2)"
      "parse_exponent r2 = JOk (ep, r)" and a: "a = sg @ ip @ fp @ ep"
    using assms q by (auto simp: parse_number_def jbind_JOk_iff)
  note i = parse_integer_exact [OF p(1)] and f = parse_fraction_exact [OF p(2)] and e = parse_exponent_exact [OF p(3)]
  have sg: "cs = sg @ q \<and> (sg = [] \<or> sg = [0x2D])"
    using q by (auto simp: parse_sign_def split: list.splits if_splits)
  then show "cs = a @ r" using a i f e by simp
  have "parse_sign a = (sg, ip @ fp @ ep)" using sg i a by (cases ip) (auto simp: parse_sign_def is_digit_def)
  moreover have "fp @ ep = [] \<or> \<not> is_digit (hd (fp @ ep))" using f e by (cases fp; cases ep) (auto simp: is_digit_def)
  then have "parse_integer (ip @ fp @ ep) = JOk (ip, fp @ ep)" using i by blast
  moreover have "parse_fraction (fp @ ep) = JOk (fp, ep)" using f e by blast
  ultimately show "valid_number a" using e a by (simp add: valid_number_def parse_number_def)
qed

lemma skip_chars: "list_all S cs \<Longrightarrow> list_all S (skip_whitespace cs)"
  by (auto simp: skip_whitespace_def list_all_iff dest: set_dropWhileD)

lemma tl_chars: "list_all S cs \<Longrightarrow> list_all S (tl cs)"
  by (cases cs) simp_all

lemmas rest_chars = skip_chars tl_chars

lemma parse_literal_chars:
  "parse_literal l v cs = JOk (w, r) \<Longrightarrow> list_all S cs \<Longrightarrow> w = v \<and> list_all S r"
  by (auto simp: parse_literal_def list_all_drop split: if_splits)

lemma parse_value_ok:
  assumes "escapes_in S"
    and o: "\<And>cs v r. parse_object n [] cs = JOk (v, r) \<Longrightarrow> list_all S cs \<Longrightarrow> value_ok S v \<and> list_all S r"
    and a: "\<And>cs v r. parse_array n [] cs = JOk (v, r) \<Longrightarrow> list_all S cs \<Longrightarrow> value_ok S v \<and> list_all S r"
    and p: "parse_value (Suc n) cs = JOk (w, r)" and s: "list_all S cs"
  shows "value_ok S w \<and> list_all S r"
proof (cases "skip_whitespace cs")
  case (Cons c q)
  have sc: "list_all S (c # q)" using skip_chars [OF s] Cons by simp
  have lt: "value_ok S w \<and> list_all S r" if "parse_literal l v (c # q) = JOk (w, r)" "v = JNull \<or> v = JBoolean b" for l v b
    using parse_literal_chars [OF that(1) sc] that(2) by auto
  consider "c = 0x22" | "c = 0x7B" | "c = 0x5B" | "c = 0x74" | "c = 0x66" | "c = 0x6E"
    | "c \<notin> {0x22, 0x7B, 0x5B, 0x74, 0x66, 0x6E}" by blast
  then show ?thesis
  proof cases
    case 1
    then obtain t where "parse_string (c # q) = JOk (t, r)" "w = JString t"
      using p Cons by (auto simp: Let_def jbind_JOk_iff)
    then show ?thesis using parse_string_chars [OF _ assms(1) sc] by auto
  next
    case 7
    then obtain t where t: "parse_number (c # q) = JOk (t, r)" "w = JNumber t"
      using p Cons by (auto simp: Let_def jbind_JOk_iff split: if_splits)
    then have "c # q = t @ r" "valid_number t" using parse_number_valid by blast+
    moreover from this have "list_all S t \<and> list_all S r" using sc by (metis list_all_append)
    ultimately show ?thesis using t(2) by simp
  qed (use p Cons sc o [of q w r] a [of q w r] lt [of "''true''" "JBoolean True" True]
      lt [of "''false''" "JBoolean False" False] lt [of "''null''" JNull] in \<open>simp_all add: Let_def\<close>)
qed (use p in simp)

lemma parse_object_ok:
  assumes "escapes_in S"
    and v: "\<And>cs v r. parse_value n cs = JOk (v, r) \<Longrightarrow> list_all S cs \<Longrightarrow> value_ok S v \<and> list_all S r"
    and o: "\<And>obj cs v r. parse_object n obj cs = JOk (v, r) \<Longrightarrow> entries_ok S obj \<Longrightarrow> list_all S cs
      \<Longrightarrow> value_ok S v \<and> list_all S r"
    and p: "parse_object (Suc n) obj cs = JOk (w, r)" and s: "list_all S cs" and e: "entries_ok S obj"
  shows "value_ok S w \<and> list_all S r"
proof -
  let ?c = "skip_whitespace cs"
  have ne: "?c \<noteq> []" using p by (auto simp: Let_def)
  consider "r = tl ?c" "w = JObject obj" | k q x t where "parse_string ?c = JOk (k, q)"
      "parse_value n (tl (skip_whitespace q)) = JOk (x, t)"
      "r = tl (skip_whitespace t) \<and> w = JObject (btree_insert k x obj)
       \<or> parse_object n (btree_insert k x obj) (tl (skip_whitespace t)) = JOk (w, r)"
    using p ne by (auto simp: Let_def jbind_JOk_iff split: if_splits jres.splits)
  then show ?thesis
  proof cases
    case 1
    then show ?thesis using s e by (simp add: rest_chars entries_ok_def)
  next
    case 2
    have k: "list_all S k" "list_all S q" using parse_string_chars [OF 2(1) assms(1)] s by (simp_all add: rest_chars)
    then have x: "value_ok S x" "list_all S t" using v [OF 2(2)] by (simp_all add: rest_chars)
    have "entries_ok S (btree_insert k x obj)" by (intro entries_ok_insert e k x)
    then show ?thesis using 2(3) o x(2) by (auto simp: rest_chars entries_ok_def)
  qed
qed

lemma parse_array_ok:
  assumes v: "\<And>cs v r. parse_value n cs = JOk (v, r) \<Longrightarrow> list_all S cs \<Longrightarrow> value_ok S v \<and> list_all S r"
    and a: "\<And>arr cs v r. parse_array n arr cs = JOk (v, r) \<Longrightarrow> list_all (value_ok S) arr \<Longrightarrow> list_all S cs
      \<Longrightarrow> value_ok S v \<and> list_all S r"
    and p: "parse_array (Suc n) arr cs = JOk (w, r)" and s: "list_all S cs" and e: "list_all (value_ok S) arr"
  shows "value_ok S w \<and> list_all S r"
proof -
  let ?c = "skip_whitespace cs"
  have ne: "?c \<noteq> []" using p by (auto simp: Let_def)
  consider "r = tl ?c" "w = JArray arr" | x t where "parse_value n ?c = JOk (x, t)"
      "r = tl (skip_whitespace t) \<and> w = JArray (arr @ [x])
       \<or> parse_array n (arr @ [x]) (tl (skip_whitespace t)) = JOk (w, r)"
    using p ne by (auto simp: Let_def jbind_JOk_iff split: if_splits)
  then show ?thesis
  proof cases
    case 1
    moreover have "list_all S (tl ?c)" using s by (simp add: rest_chars)
    ultimately show ?thesis using e by (simp add: list_all_iff)
  next
    case 2
    have x: "value_ok S x" "list_all S t" using v [OF 2(1)] s by (simp_all add: rest_chars)
    then have "list_all (value_ok S) (arr @ [x])" "list_all S (tl (skip_whitespace t))" using e by (simp_all add: rest_chars)
    then show ?thesis using 2(2) a [of "arr @ [x]"] by (auto simp: list_all_iff)
  qed
qed

lemma parse_ok:
  assumes "escapes_in S"
  shows "(\<forall>cs v r. parse_value n cs = JOk (v, r) \<longrightarrow> list_all S cs \<longrightarrow> value_ok S v \<and> list_all S r)
   \<and> (\<forall>obj cs v r. parse_object n obj cs = JOk (v, r) \<longrightarrow> entries_ok S obj \<longrightarrow> list_all S cs
        \<longrightarrow> value_ok S v \<and> list_all S r)
   \<and> (\<forall>arr cs v r. parse_array n arr cs = JOk (v, r) \<longrightarrow> list_all (value_ok S) arr \<longrightarrow> list_all S cs
        \<longrightarrow> value_ok S v \<and> list_all S r)"
proof (induction n)
  case (Suc n)
  then have v: "\<And>cs v r. parse_value n cs = JOk (v, r) \<Longrightarrow> list_all S cs \<Longrightarrow> value_ok S v \<and> list_all S r"
    and o: "\<And>obj cs v r. parse_object n obj cs = JOk (v, r) \<Longrightarrow> entries_ok S obj \<Longrightarrow> list_all S cs
      \<Longrightarrow> value_ok S v \<and> list_all S r"
    and a: "\<And>arr cs v r. parse_array n arr cs = JOk (v, r) \<Longrightarrow> list_all (value_ok S) arr \<Longrightarrow> list_all S cs
      \<Longrightarrow> value_ok S v \<and> list_all S r"
    by blast+
  have n: "entries_ok S []" by (simp add: entries_ok_def)
  have o': "parse_object n [] cs = JOk (v, r) \<Longrightarrow> list_all S cs \<Longrightarrow> value_ok S v \<and> list_all S r" for cs v r
    by (rule o [OF _ n])
  have a': "parse_array n [] cs = JOk (v, r) \<Longrightarrow> list_all S cs \<Longrightarrow> value_ok S v \<and> list_all S r" for cs v r
    using a [of "[]" cs v r] by simp
  have "value_ok S w \<and> list_all S r" if "parse_value (Suc n) cs = JOk (w, r)" "list_all S cs" for cs w r
    by (rule parse_value_ok [OF assms _ _ that]) (rule o' a', assumption+)+
  moreover have "value_ok S w \<and> list_all S r"
    if "parse_object (Suc n) obj cs = JOk (w, r)" "list_all S cs" "entries_ok S obj" for obj cs w r
    by (rule parse_object_ok [OF assms _ _ that]) (rule v o, assumption+)+
  moreover have "value_ok S w \<and> list_all S r"
    if "parse_array (Suc n) arr cs = JOk (w, r)" "list_all S cs" "list_all (value_ok S) arr" for arr cs w r
    by (rule parse_array_ok [OF _ _ that]) (rule v a, assumption+)+
  ultimately show ?case by blast
qed simp

lemma trim_chars: "list_all S s \<Longrightarrow> list_all S (trim s)"
  by (auto simp: trim_def list_all_iff dest!: set_dropWhileD)

lemma parse_json_str_ok:
  "parse_json_str s = JOk v \<Longrightarrow> escapes_in S \<Longrightarrow> list_all S s \<Longrightarrow> value_ok S v"
  using parse_ok [of S "2 * length (trim s) + 1"] trim_chars [of S s]
  by (auto simp: parse_json_str_def Let_def jbind_JOk_iff split: if_splits)

section \<open>Changing and reading a value at a path\<close>

text \<open>The value at a path of keys; arrays take indices.\<close>

fun get_at :: "JsonValue \<Rightarrow> utext list \<Rightarrow> JsonValue option" where
  "get_at v [] = Some v"
| "get_at (JObject m) (k # ks) = (case map_of m k of Some c \<Rightarrow> get_at c ks | None \<Rightarrow> None)"
| "get_at (JArray vs) (k # ks) =
     (case parse_usize k of
        Some i \<Rightarrow> if i < length vs then get_at (vs ! i) ks else None
      | None \<Rightarrow> None)"
| "get_at _ (k # ks) = None"

text \<open>Two paths that part at some key, which does not stand for the same index in both.\<close>

fun apart :: "utext list \<Rightarrow> utext list \<Rightarrow> bool" where
  "apart (k # ks) (k' # ks') =
     (if k = k' then apart ks ks'
      else parse_usize k = None \<or> parse_usize k \<noteq> parse_usize k')"
| "apart _ _ = False"

lemma map_of_btree_insert: "map_of (btree_insert k v m) = (map_of m)(k \<mapsto> v)"
  by (induction k v m rule: btree_insert.induct) (auto simp: fun_eq_iff)

lemma get_set:
  "set_value_at_path v ks x = JOk v' \<Longrightarrow> get_at v' ks = Some x"
  by (induction v ks x arbitrary: v' rule: set_value_at_path.induct)
    (auto simp: jbind_JOk_iff map_of_btree_insert split: option.splits if_splits)

lemma get_set_apart:
  "set_value_at_path v ks x = JOk v' \<Longrightarrow> apart ks ks' \<Longrightarrow> get_at v ks' = Some y \<Longrightarrow> get_at v' ks' = Some y"
proof (induction v ks x arbitrary: v' ks' rule: set_value_at_path.induct)
  case (4 vs k ks x)
  then obtain k' r where ks': "ks' = k' # r" by (cases ks') auto
  obtain i where i: "parse_usize k = Some i" using "4.prems"(1) by (cases "parse_usize k") auto
  obtain j where j: "parse_usize k' = Some j" "j < length vs" "get_at (vs ! j) r = Some y"
    using "4.prems"(3) ks' by (auto split: option.splits if_splits)
  show ?case
  proof (cases "k = k'")
    case True
    then have a: "apart ks r" using "4.prems"(2) ks' by simp
    then have ne: "ks \<noteq> []" by (cases ks) auto
    then obtain c where "set_value_at_path (vs ! i) ks x = JOk c" "v' = JArray (vs[i := c])"
      using "4.prems"(1) i by (auto simp: jbind_JOk_iff split: if_splits)
    then show ?thesis using "4.IH" [OF i ne _ _ a] True i j ks' by auto
  next
    case False
    then have "i \<noteq> j" using "4.prems"(2) i j ks' by auto
    then show ?thesis
      using "4.prems"(1) i j ks' by (auto simp: jbind_JOk_iff nth_append split: if_splits)
  qed
next
  case (3 m k k1 ks x)
  then obtain k' r where ks': "ks' = k' # r" by (cases ks') auto
  obtain c where c: "set_value_at_path (case map_of m k of Some c \<Rightarrow> c | None \<Rightarrow> JObject []) (k1 # ks) x = JOk c"
      "v' = JObject (btree_insert k c m)"
    using "3.prems"(1) by (auto simp: jbind_JOk_iff)
  show ?case
    using "3.IH" [OF c(1), of r] "3.prems" c(2) ks'
    by (auto simp: map_of_btree_insert split: option.splits if_splits)
qed (auto simp: map_of_btree_insert neq_Nil_conv split: option.splits if_splits elim: apart.elims)

lemma set_value_ok:
  "set_value_at_path v ks x = JOk v' \<Longrightarrow> value_ok S v \<Longrightarrow> value_ok S x \<Longrightarrow> list_all (list_all S) ks \<Longrightarrow> value_ok S v'"
proof (induction v ks x arbitrary: v' rule: set_value_at_path.induct)
  case (2 m k x)
  then show ?case using entries_ok_insert [of S m k x] by (auto simp: entries_ok_def)
next
  case (3 m k k1 ks x)
  let ?c = "case map_of m k of Some c \<Rightarrow> c | None \<Rightarrow> JObject []"
  obtain c where c: "set_value_at_path ?c (k1 # ks) x = JOk c" "v' = JObject (btree_insert k c m)"
    using "3.prems"(1) by (auto simp: jbind_JOk_iff)
  have "value_ok S ?c"
    using "3.prems"(2) by (auto simp: list_all_iff split: option.split dest!: map_of_SomeD)
  then have "value_ok S c" using "3.IH" [OF c(1)] "3.prems" by simp
  then show ?case using entries_ok_insert [of S m k c] c(2) "3.prems" by (auto simp: entries_ok_def)
next
  case (4 vs k ks x)
  then obtain i where i: "parse_usize k = Some i" by (cases "parse_usize k") auto
  show ?case
  proof (cases "ks = []")
    case True
    then have "v' = JArray ((vs @ replicate (Suc i - length vs) JNull)[i := x])" using 4 i by simp
    moreover have "set ((vs @ replicate (Suc i - length vs) JNull)[i := x]) \<subseteq> insert x (set vs \<union> {JNull})"
      by (rule order_trans [OF set_update_subset_insert]) auto
    ultimately show ?thesis using "4.prems" by (auto simp: list_all_iff)
  next
    case False
    then obtain c where c: "i < length vs" "set_value_at_path (vs ! i) ks x = JOk c" "v' = JArray (vs[i := c])"
      using "4.prems"(1) i by (auto simp: jbind_JOk_iff split: if_splits)
    then have "value_ok S (vs ! i)" using "4.prems"(2) by (simp add: list_all_length)
    then have "value_ok S c" using "4.IH" [OF i False c(1) c(2)] "4.prems" by simp
    then show ?thesis using c(3) "4.prems"(2) set_update_subset_insert [of vs i c] by (auto simp: list_all_iff)
  qed
qed auto

section \<open>Documents\<close>

lemma set_join_commas: "set (join_commas xs) \<subseteq> insert 0x2C (\<Union> (set ` set xs))"
  by (induction xs rule: join_commas.induct) auto

lemma ascii_scalar: "c < 128 \<Longrightarrow> scalar c"
  by (simp add: scalar_def)

lemma escape_text_chars: "list_all scalar s \<Longrightarrow> list_all scalar (escape_text s)"
  by (auto simp: escape_text_def list_all_iff ascii_scalar)

lemma escape_key_chars: "list_all scalar s \<Longrightarrow> list_all scalar (escape_key s)"
  by (auto simp: escape_key_def list_all_iff ascii_scalar)

lemma join_commas_chars: "list_all (list_all scalar) xs \<Longrightarrow> list_all scalar (join_commas xs)"
  by (induction xs rule: join_commas.induct) (auto simp: ascii_scalar)

lemma lit_chars: "list_all scalar (lit s)"
proof -
  have "scalar (of_char c)" for c using nat_of_char_less_256 [of c] unfolding scalar_def by linarith
  then show ?thesis by (simp add: lit_def list_all_iff)
qed

lemma print_chars: "json_chars scalar v \<Longrightarrow> list_all scalar (to_json_string v)"
proof (induction v)
  case (JObject m)
  have "list_all scalar (to_json_string w)" if "(k, w) \<in> set m" for k w
    using JObject that by (fastforce simp: list_all_iff)
  then have "list_all (list_all scalar) (map (\<lambda>(k, v). 0x22 # escape_key k @ 0x22 # 0x3A # to_json_string v) m)"
    using JObject.prems by (auto simp: list_all_iff [of _ m] list.pred_map ascii_scalar escape_key_chars)
  then show ?case by (simp add: join_commas_chars ascii_scalar)
next
  case (JArray vs)
  then have "list_all (list_all scalar) (map to_json_string vs)" by (simp add: list.pred_map list_all_iff [of _ vs])
  then show ?case by (simp add: join_commas_chars ascii_scalar)
qed (simp_all add: escape_text_chars lit_chars ascii_scalar)

lemma inline_reads_back:
  assumes "list_all scalar s"
  shows "to_json g (inline_document (encode_text s)) = JOk s"
  using utf8_lossy_encode [of s] assms by (simp add: to_json_def inline_document_def list_all_iff)

lemma parse_json_ok: "parse_json g d = JOk v \<Longrightarrow> value_ok scalar v"
proof -
  assume "parse_json g d = JOk v"
  then obtain s where s: "to_json g d = JOk s" "parse_json_str s = JOk v" by (auto simp: parse_json_def jbind_JOk_iff)
  have "list_all scalar s"
    using s(1) utf8_lossy_scalar lit_chars
    by (auto simp: to_json_def list_all_iff split: JsonStorage.splits option.splits)
  then show ?thesis by (rule parse_json_str_ok [OF s(2) escapes_in_scalar])
qed

lemma stored_value_parses:
  "value_ok scalar v \<Longrightarrow> parse_json g (inline_document (encode_text (to_json_string v))) = JOk v"
  by (simp add: parse_json_def inline_reads_back print_chars json_roundtrip_value)

lemma split_at_chars: "list_all S s \<Longrightarrow> list_all (list_all S) (split_at d s)"
  by (induction d s rule: split_at.induct) (auto split: list.splits)

lemma path_parts_chars: "path_parts ps = JOk ks \<Longrightarrow> list_all (list_all S) ps \<Longrightarrow> list_all (list_all S) ks"
proof (induction ps arbitrary: ks)
  case (Cons p ps)
  then obtain k r where k: "path_part p = JOk k" "path_parts ps = JOk r" "ks = k # r" by (auto simp: jbind_JOk_iff)
  have "list_all S k"
    using k(1) Cons.prems(2)
    by (auto simp: path_part_def list_all_iff split: if_splits dest: in_set_butlastD list.set_sel(2) [rotated])
  then show ?case using Cons k by simp
qed simp

lemma parse_simple_json_path_chars:
  "parse_simple_json_path p = JOk ks \<Longrightarrow> list_all S p \<Longrightarrow> list_all (list_all S) ks"
  by (auto simp: parse_simple_json_path_def Let_def tl_chars split: if_splits
      dest!: path_parts_chars [of _ _ S] intro: split_at_chars)

lemma json_set_result:
  assumes "json_set g p t d = JOk d'" and "list_all scalar p" "list_all scalar t"
  obtains v x ks v' where "parse_json g d = JOk v" "parse_json_str t = JOk x" "parse_simple_json_path p = JOk ks"
    "set_value_at_path v ks x = JOk v'" "\<And>g'. parse_json g' d' = JOk v'"
proof -
  obtain v x ks v' where p: "parse_json g d = JOk v" "parse_json_str t = JOk x" "parse_simple_json_path p = JOk ks"
      "set_value_at_path v ks x = JOk v'" and d': "d' = inline_document (encode_text (to_json_string v'))"
    using assms(1) by (auto simp: json_set_def jbind_JOk_iff set_json_string_def Let_def split: if_splits)
  have "value_ok scalar v'"
    using set_value_ok [OF p(4) parse_json_ok [OF p(1)]] parse_json_str_ok [OF p(2) escapes_in_scalar assms(3)]
      parse_simple_json_path_chars [OF p(3) assms(2)] by blast
  then have "\<And>g'. parse_json g' d' = JOk v'" unfolding d' by (rule stored_value_parses)
  then show ?thesis using p by (rule that [rotated 4])
qed

lemma encode_text_Nil: "encode_text s = [] \<Longrightarrow> s = []"
  by (cases s) (simp_all add: encode_text_def utf8_encode_def split: if_splits)

section \<open>Plain paths\<close>

text \<open>The text of a path of keys, and keys that need no quoting and are no array index.\<close>

definition path_of :: "utext list \<Rightarrow> utext" where
  "path_of ks = 0x24 # concat (map (\<lambda>k. 0x2E # k) ks)"

definition plain_key :: "utext \<Rightarrow> bool" where
  "plain_key k \<longleftrightarrow> k \<noteq> [] \<and> list_all (\<lambda>c. \<not> key_end c \<and> c \<noteq> 0x22 \<and> c \<noteq> 0x27) k \<and> parse_usize k = None"

lemma split_at_plain: "0x2E \<notin> set k \<Longrightarrow> split_at 0x2E k = [k]"
  by (induction k) auto

lemma split_at_join:
  "0x2E \<notin> set k \<Longrightarrow> split_at 0x2E (k @ 0x2E # r) = k # split_at 0x2E r"
  by (induction k) auto

lemma plain_no_dot: "plain_key k \<Longrightarrow> 0x2E \<notin> set k"
  by (auto simp: plain_key_def list_all_iff key_end_def)

lemma split_at_path:
  "list_all plain_key (k # ks) \<Longrightarrow> split_at 0x2E (k @ concat (map (\<lambda>k. 0x2E # k) ks)) = k # ks"
  by (induction ks arbitrary: k) (simp_all add: plain_no_dot split_at_plain split_at_join)

lemma path_part_plain: "plain_key k \<Longrightarrow> path_part k = JOk k"
  by (cases k) (auto simp: plain_key_def path_part_def)

lemma path_parts_plain: "list_all plain_key ks \<Longrightarrow> path_parts ks = JOk ks"
  by (induction ks) (simp_all add: path_part_plain)

lemma simple_path_plain: "list_all plain_key ks \<Longrightarrow> parse_simple_json_path (path_of ks) = JOk ks"
proof (cases ks)
  case (Cons k r)
  assume a: "list_all plain_key ks"
  then show ?thesis
    using split_at_path [of k r] path_parts_plain [OF a]
    by (auto simp: Cons parse_simple_json_path_def path_of_def Let_def)
qed (simp add: parse_simple_json_path_def path_of_def)

lemma parse_key_plain:
  assumes "plain_key k"
  shows "parse_key (k @ concat (map (\<lambda>k. 0x2E # k) ks)) = JOk (k, concat (map (\<lambda>k. 0x2E # k) ks))"
proof -
  let ?r = "concat (map (\<lambda>k. 0x2E # k) ks)"
  have "takeWhile (\<lambda>c. \<not> key_end c) (k @ ?r) = k"
    using takeWhile_stop [of k "\<lambda>c. \<not> key_end c" ?r] assms
    by (cases ks) (auto simp: plain_key_def list_all_iff key_end_def)
  then show ?thesis using assms by (simp add: parse_key_def plain_key_def)
qed

lemma path_loop_plain:
  "list_all plain_key ks \<Longrightarrow> path_loop ns (concat (map (\<lambda>k. 0x2E # k) ks)) = JOk (ns @ map PKey ks)"
proof (induction ks arbitrary: ns)
  case (Cons k ks)
  then obtain c q where k: "k = c # q" "c \<noteq> 0x5B" by (cases k) (auto simp: plain_key_def key_end_def)
  then show ?case using Cons parse_key_plain [of k ks] by simp
qed simp

lemma compile_plain: "list_all plain_key ks \<Longrightarrow> CompiledPath_parse (path_of ks) = JOk (PRoot # map PKey ks)"
  by (simp add: CompiledPath_parse_def path_of_def path_loop_plain)

lemma path_walk_plain:
  "list_all plain_key ks \<Longrightarrow> path_walk (map PKey ks) [v] = (case get_at v ks of Some y \<Rightarrow> [y] | None \<Rightarrow> [])"
  by (induction v ks rule: get_at.induct) (auto simp: plain_key_def split: option.splits)

lemma json_extract_plain:
  assumes "list_all plain_key ks" and "parse_json g d = JOk v" and "get_at v ks = Some x"
  shows "json_extract g d (path_of ks) = query_result d [x]"
  using assms by (simp add: json_extract_def compile_plain CompiledPath_execute_def path_walk_plain)

section \<open>Properties\<close>


text \<open>
  (C27) Every well-formed value is read back from its printed text.  Stored as a document of at most 256
  bytes it is read back from the document, whatever the memory pools hold.
\<close>

theorem json_roundtrip:
  assumes "wf_json v"
  shows "parse_json_str (to_json_string v) = JOk v
    \<and> (json_chars scalar v \<and> length (encode_text (to_json_string v)) \<le> 256 \<longrightarrow>
       (\<exists>d. from_json mem (to_json_string v) g = (JOk d, g) \<and> (\<forall>g'. parse_json g' d = JOk v)))"
proof (intro conjI impI)
  assume s: "json_chars scalar v \<and> length (encode_text (to_json_string v)) \<le> 256"
  let ?d = "inline_document (encode_text (to_json_string v))"
  have t: "trim (to_json_string v) = to_json_string v" "to_json_string v \<noteq> []"
    using trim_print [OF assms] print_hd [OF assms] by simp_all
  then have "encode_text (to_json_string v) \<noteq> []" using encode_text_Nil by blast
  then have "from_json mem (to_json_string v) g = (JOk ?d, g)"
    using s t by (simp add: from_json_def from_binary_def)
  then show "\<exists>d. from_json mem (to_json_string v) g = (JOk d, g) \<and> (\<forall>g'. parse_json g' d = JOk v)"
    using stored_value_parses assms s by blast
qed (rule json_roundtrip_value [OF assms])

text \<open>The document \<open>{"a":[1,null],"b":"x\n"}\<close>.\<close>

definition sample_json :: JsonValue where
  "sample_json =
     JObject [([0x61], JArray [JNumber [0x31], JNull]), ([0x62], JString [0x78, 0x0A])]"

lemma sample_json_ok: "value_ok scalar sample_json" "length (encode_text (to_json_string sample_json)) \<le> 256"
proof -
  have "parse_number [0x31] = JOk ([0x31], [])" by code_simp
  then show "value_ok scalar sample_json" by (simp add: sample_json_def valid_number_def scalar_def)
  show "length (encode_text (to_json_string sample_json)) \<le> 256"
    by (simp add: sample_json_def lit_def escape_text_def escape_key_def encode_text_def utf8_encode_def of_char_def)
qed

theorem json_roundtrip_witness:
  "\<exists>d. from_json None (to_json_string sample_json) None = (JOk d, None)
     \<and> parse_json None d = JOk sample_json"
  using json_roundtrip [of sample_json None None] sample_json_ok by blast



section \<open>External storage\<close>

lemma fresh_pool_block:
  assumes "mem 0 = Some z"
  shows "jp_blocks (JsonMemoryPool_new 0 JsonPoolConfig_default mem) ! 0 = Some (initial_block JsonPoolConfig_default 0 z)"
    "length (jp_blocks (JsonMemoryPool_new 0 JsonPoolConfig_default mem)) = 16"
  using assms by (simp_all add: JsonMemoryPool_new_def JsonPoolConfig_default_def)

definition fresh_pools :: "(nat \<Rightarrow> bytes option) \<Rightarrow> JsonPoolManager option" where
  "fresh_pools mem = Some (snd (create_pool JsonPoolConfig_default mem JsonPoolManager_default))"

lemma fresh_pools_get: "fresh_pools mem = Some \<lparr>jm_pools = [JsonMemoryPool_new 0 JsonPoolConfig_default mem], jm_max_pools = 8\<rparr>"
  by (simp add: fresh_pools_def create_pool_def JsonPoolManager_default_def JsonPoolManager_new_def Let_def)

lemma first_allocation:
  fixes n :: nat
  assumes "mem 0 = Some z" and "n \<le> 4064"
  obtains p' where "jp_allocate a n (JsonMemoryPool_new 0 JsonPoolConfig_default mem) = JOk (Some (0, 32), p')"
    "length (jp_blocks p') = 16" "jp_blocks p' ! 0 = Some ((initial_block JsonPoolConfig_default 0 z)\<lparr>jb_status := 1, jb_ref_count := 1\<rparr>)"
proof -
  let ?p = "JsonMemoryPool_new 0 JsonPoolConfig_default mem"
  have c: "jp_config ?p = JsonPoolConfig_default" "jp_first_free ?p = 0" by (simp_all add: JsonMemoryPool_new_def)
  have b: "jb_status (initial_block JsonPoolConfig_default 0 z) = 0" by (simp add: initial_block_def)
  note fb = fresh_pool_block [of mem, OF assms(1)]
  define q where "q = ?p\<lparr>jp_blocks := (jp_blocks ?p)[0 := Some ((initial_block JsonPoolConfig_default 0 z)\<lparr>jb_status := 1, jb_ref_count := 1\<rparr>)],
    jp_first_free := jb_next_free (initial_block JsonPoolConfig_default 0 z), jp_total_used := jp_total_used ?p + of_nat n,
    jp_free_blocks := jp_free_blocks ?p - 1\<rparr>"
  have l: "jc_block_size JsonPoolConfig_default = 4096" by (simp add: JsonPoolConfig_default_def)
  have "jp_allocate a n ?p = JOk (Some (0, 32), q)"
    using fb c b assms(2) by (simp add: jp_allocate_def Let_def HEADER_def USIZE_MAX_def l q_def)
  then show ?thesis by (rule that) (simp_all add: q_def fb)
qed

text \<open>
  Documents of more than 256 bytes, over a pool manager with a fresh default pool whose first block
  holds the bytes \<open>z\<close>: a text of at most 4032 bytes is stored one header too far, and what is read back
  is 32 bytes of what was in the block before, followed by the text without its last 32 bytes; a text of
  up to 4064 bytes is written past the end of its block; a longer one is refused.
\<close>

theorem json_external_shifted:
  assumes "mem 0 = Some z" and "length z = 4064" and "trim s \<noteq> []"
  shows "(256 < length (encode_text s) \<and> length (encode_text s) \<le> 4032 \<longrightarrow>
      (\<exists>d g'. from_json a s (fresh_pools mem) = (JOk d, g')
        \<and> to_json g' d = JOk (utf8_lossy (take 32 z @ take (length (encode_text s) - 32) (encode_text s)))))
    \<and> (4032 < length (encode_text s) \<and> length (encode_text s) \<le> 4064 \<longrightarrow>
      fst (from_json a s (fresh_pools mem)) = JPanic)
    \<and> (4064 < length (encode_text s) \<longrightarrow> (\<exists>e. fst (from_json a s (fresh_pools mem)) = JErr e))"
    (is "?small \<and> ?over \<and> ?large")
proof -
  let ?bs = "encode_text s" and ?p = "JsonMemoryPool_new 0 JsonPoolConfig_default mem"
  have fj: "from_json a s g = store_external a ?bs (length ?bs) g"
    if "256 < length ?bs" "length ?bs \<le> 10240" for g
    using that assms(3) by (auto simp: from_json_def from_binary_def)
  have g: "get_pool 0 \<lparr>jm_pools = [?p], jm_max_pools = 8\<rparr> = Some ?p" by (simp add: get_pool_def)
  note fj [simp] store_external_def [simp] fresh_pools_get [simp] g [simp] block_write_def [simp]
  have small: ?small
  proof (intro impI, elim conjE)
    assume n: "256 < length ?bs" "length ?bs \<le> 4032"
    then obtain p' where p' [simp]: "jp_allocate a (length ?bs) ?p = JOk (Some (0, 32), p')" "length (jp_blocks p') = 16"
        "jp_blocks p' ! 0 = Some ((initial_block JsonPoolConfig_default 0 z)\<lparr>jb_status := 1, jb_ref_count := 1\<rparr>)"
      using first_allocation [of mem z "length ?bs", OF assms(1)] by auto
    have [simp]: "jp_blocks p' \<noteq> []" using p'(2) by (metis list.size(3) zero_neq_numeral)
    show "\<exists>d g'. from_json a s (fresh_pools mem) = (JOk d, g')
        \<and> to_json g' d = JOk (utf8_lossy (take 32 z @ take (length ?bs - 32) ?bs))"
      using n assms(2) by (simp add: initial_block_def to_json_def put_pool_def get_pool_def get_block_data_def
          block_read_def)
  qed
  have over: ?over
  proof (intro impI, elim conjE)
    assume n: "4032 < length ?bs" "length ?bs \<le> 4064"
    then obtain p' where p' [simp]: "jp_allocate a (length ?bs) ?p = JOk (Some (0, 32), p')" "length (jp_blocks p') = 16"
        "jp_blocks p' ! 0 = Some ((initial_block JsonPoolConfig_default 0 z)\<lparr>jb_status := 1, jb_ref_count := 1\<rparr>)"
      using first_allocation [of mem z "length ?bs", OF assms(1)] by auto
    have [simp]: "jp_blocks p' \<noteq> []" using p'(2) by (metis list.size(3) zero_neq_numeral)
    show "fst (from_json a s (fresh_pools mem)) = JPanic"
      using n assms(2) by (simp add: initial_block_def get_block_data_def)
  qed
  have "jp_allocate a (length ?bs) ?p = JOk (None, ?p)" if "4064 < length ?bs"
    using that by (simp add: jp_allocate_def JsonMemoryPool_new_def JsonPoolConfig_default_def HEADER_def)
  then have ?large
    using assms(3) by (cases "length ?bs \<le> 10240") (simp, simp add: from_json_def)
  with small over show ?thesis by blast
qed

text \<open>A text of 300 letters in a block of zeros is read back with 32 null characters in front.\<close>

theorem json_external_shifted_witness:
  "\<exists>d g'. from_json None (replicate 300 0x61) (fresh_pools (\<lambda>i. Some (replicate 4064 0))) = (JOk d, g')
     \<and> to_json g' d = JOk (utf8_lossy (replicate 32 0 @ replicate 268 0x61))"
proof -
  let ?s = "replicate 300 (0x61 :: nat)" and ?z = "replicate 4064 (0 :: byte)"
  have e: "encode_text (replicate n 0x61) = replicate n 0x61" for n
    by (induction n) (simp_all add: encode_text_def utf8_encode_def)
  have "\<not> is_whitespace 0x61" by (simp add: is_whitespace_def)
  then have "trim ?s = ?s" by (simp add: trim_def dropWhile_eq_self_iff)
  then have "trim ?s \<noteq> []" by simp
  from json_external_shifted [of "\<lambda>i. Some ?z" ?z ?s None, OF refl _ this]
  show ?thesis by (simp add: e)
qed

end
