(* ===== verification/TsCompress.thy ===== *)
theory TsCompress
  imports Prelude
begin

text \<open>
  The encodings of time-series values, \<^verbatim>\<open>src/src/time_series/compression.rs\<close>: delta, delta of delta and
  run length.  The integer and the floating-point routines run the same loop over different arithmetic, so
  the loops take addition and subtraction as arguments: \<open>u64\<close> wraps, and the IEEE operations on the bits of
  an \<open>f64\<close> are a parameter.  A reader walks over the rest of the buffer instead of an index.
\<close>

section \<open>Buffers\<close>

datatype CompressionType = CNone | CDelta | CRunLength | CDeltaRunLength | CDeltaDelta

definition put_u64 :: "u64 \<Rightarrow> bytes" where
  "put_u64 x = to_le 8 (unat x)"

definition get_u64_le :: "bytes \<Rightarrow> u64" where
  "get_u64_le bs = of_nat (le_nat (take 8 bs))"

definition put_u32 :: "nat \<Rightarrow> bytes" where
  "put_u32 x = to_le 4 x"

definition get_u32_le :: "bytes \<Rightarrow> nat" where
  "get_u32_le bs = le_nat (take 4 bs)"

lemma length_put [simp]: "length (put_u64 x) = 8" "length (put_u32 n) = 4"
  by (simp_all add: put_u64_def put_u32_def)

lemma get_put_u64 [simp]: "get_u64_le (put_u64 x @ bs) = x"
proof -
  have "unat x < 2 ^ LENGTH(64)" by (rule unsigned_less)
  then have "unat x mod 256 ^ 8 = unat x" by simp
  then show ?thesis by (simp add: get_u64_le_def put_u64_def)
qed

lemma get_put_u32 [simp]: "n < 2 ^ 32 \<Longrightarrow> get_u32_le (put_u32 n @ bs) = n"
  by (simp add: get_u32_le_def put_u32_def)

section \<open>Delta encoding\<close>

fun delta_encode :: "(u64 \<Rightarrow> u64 \<Rightarrow> u64) \<Rightarrow> u64 \<Rightarrow> u64 list \<Rightarrow> bytes" where
  "delta_encode sub lst [] = []"
| "delta_encode sub lst (v # vs) = put_u64 (sub v lst) @ delta_encode sub v vs"

text \<open>The reader trusts the count: beyond the buffer its behaviour is undefined.\<close>

fun delta_decode :: "(u64 \<Rightarrow> u64 \<Rightarrow> u64) \<Rightarrow> u64 \<Rightarrow> bytes \<Rightarrow> nat \<Rightarrow> u64 list option" where
  "delta_decode add lst bs 0 = Some []"
| "delta_decode add lst bs (Suc n) =
     (if length bs < 8 then None
      else let v = add lst (get_u64_le bs) in
        map_option ((#) v) (delta_decode add v (drop 8 bs) n))"

definition compress_delta :: "u64 list \<Rightarrow> bytes" where
  "compress_delta values = delta_encode (-) 0 values"

definition decompress_delta :: "bytes \<Rightarrow> nat \<Rightarrow> u64 list option" where
  "decompress_delta compressed count = delta_decode (+) 0 compressed count"

definition compress_delta_float :: "(u64 \<Rightarrow> u64 \<Rightarrow> u64) \<Rightarrow> u64 list \<Rightarrow> bytes" where
  "compress_delta_float fsub values = delta_encode fsub 0 values"

definition decompress_delta_float :: "(u64 \<Rightarrow> u64 \<Rightarrow> u64) \<Rightarrow> bytes \<Rightarrow> nat \<Rightarrow> u64 list option" where
  "decompress_delta_float fadd compressed count = delta_decode fadd 0 compressed count"

section \<open>Delta of delta\<close>

fun dd_encode :: "(u64 \<Rightarrow> u64 \<Rightarrow> u64) \<Rightarrow> u64 \<Rightarrow> u64 \<Rightarrow> u64 list \<Rightarrow> bytes" where
  "dd_encode sub prev last_delta1 [] = []"
| "dd_encode sub prev last_delta1 (v # vs) =
     (let delta1 = sub v prev; delta2 = sub delta1 last_delta1
      in put_u64 delta2 @ dd_encode sub v delta1 vs)"

definition dd_compress :: "(u64 \<Rightarrow> u64 \<Rightarrow> u64) \<Rightarrow> u64 list \<Rightarrow> bytes" where
  "dd_compress sub values =
     (case values of
        [] \<Rightarrow> []
      | [a] \<Rightarrow> put_u64 a
      | a # b # vs \<Rightarrow> put_u64 a @ put_u64 (sub b a) @ dd_encode sub b (sub b a) vs)"

fun dd_decode :: "(u64 \<Rightarrow> u64 \<Rightarrow> u64) \<Rightarrow> u64 \<Rightarrow> u64 \<Rightarrow> bytes \<Rightarrow> nat \<Rightarrow> u64 list" where
  "dd_decode add last_value current_delta1 bs 0 = []"
| "dd_decode add last_value current_delta1 bs (Suc n) =
     (if length bs < 8 then []
      else
        let delta1 = add current_delta1 (get_u64_le bs); v = add last_value delta1
        in v # dd_decode add v delta1 (drop 8 bs) n)"

definition dd_decompress :: "(u64 \<Rightarrow> u64 \<Rightarrow> u64) \<Rightarrow> bytes \<Rightarrow> nat \<Rightarrow> u64 list" where
  "dd_decompress add bs count =
     (if count = 0 \<or> length bs < 8 then []
      else let a = get_u64_le bs in
        if count = 1 \<or> length bs < 16 then [a]
        else let d = get_u64_le (drop 8 bs); b = add a d
          in a # b # dd_decode add b d (drop 16 bs) (count - 2))"

definition compress_delta_delta :: "u64 list \<Rightarrow> bytes" where
  "compress_delta_delta values = dd_compress (-) values"

definition decompress_delta_delta :: "bytes \<Rightarrow> nat \<Rightarrow> u64 list" where
  "decompress_delta_delta compressed count = dd_decompress (+) compressed count"

definition compress_delta_delta_float :: "(u64 \<Rightarrow> u64 \<Rightarrow> u64) \<Rightarrow> u64 list \<Rightarrow> bytes" where
  "compress_delta_delta_float fsub values = dd_compress fsub values"

definition decompress_delta_delta_float :: "(u64 \<Rightarrow> u64 \<Rightarrow> u64) \<Rightarrow> bytes \<Rightarrow> nat \<Rightarrow> u64 list" where
  "decompress_delta_delta_float fadd compressed count = dd_decompress fadd compressed count"

section \<open>Run length\<close>

definition RUN_MAX :: nat where
  "RUN_MAX = 65535"

fun run_loop :: "u64 \<Rightarrow> nat \<Rightarrow> u64 list \<Rightarrow> bytes" where
  "run_loop current count [] = put_u64 current @ put_u32 count"
| "run_loop current count (v # vs) =
     (if v = current \<and> count < RUN_MAX then run_loop current (count + 1) vs
      else put_u64 current @ put_u32 count @ run_loop v 1 vs)"

definition compress_run_length :: "u64 list \<Rightarrow> bytes" where
  "compress_run_length values = (case values of [] \<Rightarrow> [] | v # vs \<Rightarrow> run_loop v 1 vs)"

function decompress_run_length :: "bytes \<Rightarrow> u64 list" where
  "decompress_run_length compressed =
     (if length compressed < 12 then []
      else replicate (get_u32_le (drop 8 compressed)) (get_u64_le compressed)
        @ decompress_run_length (drop 12 compressed))"
  by auto
termination
  by (relation "measure length") auto

declare decompress_run_length.simps [simp del]

section \<open>Reading back\<close>

text \<open>
  What the delta encodings ask of their arithmetic: adding a difference gives the value back.  It holds
  for wrapping integers; for floating-point values it holds where the subtraction is exact.
\<close>

locale delta_arith =
  fixes add sub :: "u64 \<Rightarrow> u64 \<Rightarrow> u64"
  assumes add_sub: "add a (sub b a) = b"
begin

lemma delta_roundtrip: "delta_decode add lst (delta_encode sub lst vs) (length vs) = Some vs"
  by (induction vs arbitrary: lst) (simp_all add: add_sub)

lemma dd_loop_roundtrip: "dd_decode add prev d (dd_encode sub prev d vs) (length vs) = vs"
  by (induction vs arbitrary: prev d) (simp_all add: add_sub Let_def)

lemma dd_roundtrip: "dd_decompress add (dd_compress sub vs) (length vs) = vs"
proof (cases vs)
  case (Cons a r)
  show ?thesis
  proof (cases r)
    case Nil
    then show ?thesis using Cons get_put_u64 [of a "[]"] by (simp add: dd_compress_def dd_decompress_def)
  next
    case (Cons b ws)
    then show ?thesis
      using \<open>vs = a # r\<close> by (simp add: dd_compress_def dd_decompress_def add_sub dd_loop_roundtrip Let_def)
  qed
qed (simp add: dd_compress_def dd_decompress_def)

end

interpretation wrapping: delta_arith "(+)" "(-)"
  by unfold_locales simp

lemma decompress_chunk:
  "n < 2 ^ 32 \<Longrightarrow> decompress_run_length (put_u64 v @ put_u32 n @ bs) = replicate n v @ decompress_run_length bs"
  by (subst decompress_run_length.simps) simp

lemma decompress_Nil: "decompress_run_length [] = []"
  by (subst decompress_run_length.simps) simp

lemma run_loop_roundtrip:
  "count \<le> RUN_MAX \<Longrightarrow> decompress_run_length (run_loop v count vs) = replicate count v @ vs"
proof (induction v count vs rule: run_loop.induct)
  case (1 v count)
  then show ?case using decompress_chunk [of count v "[]"] by (simp add: decompress_Nil RUN_MAX_def)
next
  case (2 v count w vs)
  show ?case
  proof (cases "w = v \<and> count < RUN_MAX")
    case True
    then show ?thesis using 2 by (simp add: replicate_append_same)
  next
    case False
    then have "run_loop v count (w # vs) = put_u64 v @ put_u32 count @ run_loop w 1 vs" by auto
    then show ?thesis using 2(2) [OF False] "2.prems" decompress_chunk [of count v] by (simp add: RUN_MAX_def)
  qed
qed

lemma run_loop_size: "length (run_loop v count vs) \<le> 12 * Suc (length vs)"
  by (induction v count vs rule: run_loop.induct) auto

lemma run_loop_constant:
  "count + n \<le> RUN_MAX \<Longrightarrow> length (run_loop v count (replicate n v)) = 12"
  by (induction n arbitrary: count) auto

lemma delta_size: "length (delta_encode sub lst vs) = 8 * length vs"
  by (induction vs arbitrary: lst) simp_all

lemma dd_size: "length (dd_compress sub vs) = 8 * length vs"
proof -
  have "length (dd_encode sub p d ws) = 8 * length ws" for p d ws
    by (induction ws arbitrary: p d) (simp_all add: Let_def)
  then show ?thesis by (simp add: dd_compress_def split: list.split)
qed

section \<open>Properties\<close>

text \<open>
  (C31) Every list of \<open>u64\<close> values is read back from each of the three encodings, decreasing values
  included, since the differences wrap.  The delta encodings take eight bytes a value; run length takes at
  most twelve, and twelve in all for up to 65535 equal values.
\<close>

theorem ts_compression_roundtrip:
  "decompress_delta (compress_delta vs) (length vs) = Some vs
   \<and> decompress_delta_delta (compress_delta_delta vs) (length vs) = vs
   \<and> decompress_run_length (compress_run_length vs) = vs
   \<and> length (compress_delta vs) = 8 * length vs \<and> length (compress_delta_delta vs) = 8 * length vs
   \<and> length (compress_run_length vs) \<le> 12 * length vs
   \<and> (0 < n \<and> n \<le> 65535 \<longrightarrow> length (compress_run_length (replicate n v)) = 12)"
proof -
  have "decompress_run_length (compress_run_length vs) = vs"
    by (cases vs) (simp_all add: compress_run_length_def decompress_Nil run_loop_roundtrip RUN_MAX_def)
  moreover have "length (compress_run_length vs) \<le> 12 * length vs"
    using run_loop_size by (cases vs) (simp_all add: compress_run_length_def)
  moreover have "0 < n \<and> n \<le> 65535 \<longrightarrow> length (compress_run_length (replicate n v)) = 12"
    using run_loop_constant [of 1 "n - 1" v] by (cases n) (simp_all add: compress_run_length_def RUN_MAX_def)
  ultimately show ?thesis
    by (simp add: decompress_delta_def compress_delta_def wrapping.delta_roundtrip decompress_delta_delta_def
        compress_delta_delta_def wrapping.dd_roundtrip delta_size dd_size)
qed

theorem ts_compression_roundtrip_witness:
  "decompress_run_length (compress_run_length [7, 7, 3]) = [7, 7, 3]
   \<and> length (compress_run_length (replicate 1000 5)) = 12"
  using ts_compression_roundtrip [of "[7, 7, 3]" 1000 5] by simp

text \<open>The floating-point delta encoding reads back exactly where every subtraction along the list is exact.\<close>

fun exact_deltas :: "(u64 \<Rightarrow> u64 \<Rightarrow> u64) \<Rightarrow> (u64 \<Rightarrow> u64 \<Rightarrow> u64) \<Rightarrow> u64 \<Rightarrow> u64 list \<Rightarrow> bool" where
  "exact_deltas add sub lst [] = True"
| "exact_deltas add sub lst (v # vs) = (add lst (sub v lst) = v \<and> exact_deltas add sub v vs)"

lemma float_delta_roundtrip:
  assumes "exact_deltas fadd fsub 0 vs"
  shows "decompress_delta_float fadd (compress_delta_float fsub vs) (length vs) = Some vs"
proof -
  have "exact_deltas fadd fsub lst vs \<Longrightarrow> delta_decode fadd lst (delta_encode fsub lst vs) (length vs) = Some vs" for lst
    by (induction vs arbitrary: lst) simp_all
  with assms show ?thesis by (simp add: compress_delta_float_def decompress_delta_float_def)
qed

end
