(* ===== verification/TimeSeries.thy ===== *)
theory TimeSeries
  imports TxLog TsCompress
begin

text \<open>
  Time-series tables, \<^verbatim>\<open>src/src/time_series\<close>: partitions by time, the time and tag indexes,
  pre-aggregations, batch writes, range queries and the lifecycle manager.  A shared partition
  (\<open>Arc<Mutex<..>>\<close>) is an element of the manager's list; \<open>None\<close> stands for a partition that has left the
  list.  Values of type \<open>f64\<close> are bit patterns and their arithmetic is the argument \<open>F\<close>; the clock is an
  argument.
\<close>

section \<open>Configuration and records\<close>

record TimeSeriesConfig =
  partition_duration_secs :: u64
  retention_period_secs :: u64
  ts_compression :: CompressionType
  max_partitions :: nat

definition TimeSeriesConfig_default :: TimeSeriesConfig where
  "TimeSeriesConfig_default =
     \<lparr>partition_duration_secs = 3600, retention_period_secs = 7 * 24 * 3600,
      ts_compression = CDeltaRunLength, max_partitions = 1000\<rparr>"

record TimeSeriesTableDef =
  ts_base :: TableDef
  time_field :: nat
  value_field :: nat
  tag_fields :: "nat list"
  ts_config :: TimeSeriesConfig

record TimeSeriesRecord =
  ts_time :: u64
  ts_value :: u64
  ts_tag_count :: u8
  ts_tags :: "u64 list"

text \<open>The arithmetic of \<open>f64\<close>, and the constants the code uses.\<close>

record float_ops =
  f_add :: "u64 \<Rightarrow> u64 \<Rightarrow> u64"
  f_div :: "u64 \<Rightarrow> u64 \<Rightarrow> u64"
  f_min :: "u64 \<Rightarrow> u64 \<Rightarrow> u64"
  f_max :: "u64 \<Rightarrow> u64 \<Rightarrow> u64"

definition F_TWO :: u64 where "F_TWO = 0x4000000000000000"

definition F_MAX :: u64 where "F_MAX = 0x7FEFFFFFFFFFFFFF"

definition F_MIN :: u64 where "F_MIN = 0xFFEFFFFFFFFFFFFF"

section \<open>Partitions\<close>

record PartitionStats =
  ps_record_count :: nat
  ps_uncompressed_size :: nat
  ps_compressed_size :: nat
  ps_last_access_time :: u64

definition PartitionStats_default :: PartitionStats where
  "PartitionStats_default =
     \<lparr>ps_record_count = 0, ps_uncompressed_size = 0, ps_compressed_size = 0, ps_last_access_time = 0\<rparr>"

record TimeSeriesPartition =
  pt_start :: u64
  pt_end :: u64
  pt_records :: "TimeSeriesRecord list"
  pt_compressed :: bool
  pt_stats :: PartitionStats

definition TimeSeriesPartition_new :: "u64 \<Rightarrow> u64 \<Rightarrow> TimeSeriesPartition" where
  "TimeSeriesPartition_new s e =
     \<lparr>pt_start = s, pt_end = e, pt_records = [], pt_compressed = False, pt_stats = PartitionStats_default\<rparr>"

text \<open>\<open>size_of::<TimeSeriesRecord>()\<close> on a 64-bit target.\<close>

definition TS_RECORD_SIZE :: nat where
  "TS_RECORD_SIZE = 88"

definition calculate_size :: "TimeSeriesPartition \<Rightarrow> nat" where
  "calculate_size p = length (pt_records p) * TS_RECORD_SIZE"

definition partition_clear :: "TimeSeriesPartition \<Rightarrow> TimeSeriesPartition" where
  "partition_clear p =
     p\<lparr>pt_records := [],
       pt_stats := (pt_stats p)\<lparr>ps_record_count := 0, ps_uncompressed_size := 0, ps_compressed_size := 0\<rparr>\<rparr>"

record PartitionManager =
  pm_partitions :: "TimeSeriesPartition list"
  pm_duration :: u64
  pm_max :: nat

definition PartitionManager_new :: "u64 \<Rightarrow> nat \<Rightarrow> PartitionManager" where
  "PartitionManager_new d n = \<lparr>pm_partitions = [], pm_duration = d, pm_max = n\<rparr>"

fun find_start :: "u64 \<Rightarrow> TimeSeriesPartition list \<Rightarrow> nat option" where
  "find_start s [] = None"
| "find_start s (p # ps) = (if pt_start p = s then Some 0 else map_option Suc (find_start s ps))"

definition bucket :: "u64 \<Rightarrow> u64 \<Rightarrow> u64" where
  "bucket d t = t div d * d"

text \<open>
  A duration of zero divides by zero.  When there are too many partitions the first of the list goes,
  which is the new one itself if no partition is allowed.
\<close>

definition get_or_create_partition :: "u64 \<Rightarrow> PartitionManager \<Rightarrow> (nat option \<times> PartitionManager) outcome" where
  "get_or_create_partition t m =
     (if pm_duration m = 0 then Fault
      else
        let s = bucket (pm_duration m) t; e = s + pm_duration m in
        case find_start s (pm_partitions m) of
          Some i \<Rightarrow> Ok (Some i, m)
        | None \<Rightarrow>
            let ps = pm_partitions m @ [TimeSeriesPartition_new s e] in
            if length ps > pm_max m then
              Ok (if length ps = 1 then None else Some (length ps - 2), m\<lparr>pm_partitions := tl ps\<rparr>)
            else Ok (Some (length ps - 1), m\<lparr>pm_partitions := ps\<rparr>))"

definition in_range :: "u64 \<Rightarrow> u64 \<Rightarrow> TimeSeriesPartition \<Rightarrow> bool" where
  "in_range lo hi p \<longleftrightarrow> pt_start p \<le> hi \<and> lo \<le> pt_end p"

definition get_partitions_in_range :: "u64 \<Rightarrow> u64 \<Rightarrow> PartitionManager \<Rightarrow> TimeSeriesPartition list" where
  "get_partitions_in_range lo hi m = filter (in_range lo hi) (pm_partitions m)"

definition get_oldest_partition :: "PartitionManager \<Rightarrow> TimeSeriesPartition option" where
  "get_oldest_partition m = (case pm_partitions m of [] \<Rightarrow> None | p # ps \<Rightarrow> Some p)"

definition get_newest_partition :: "PartitionManager \<Rightarrow> TimeSeriesPartition option" where
  "get_newest_partition m = (if pm_partitions m = [] then None else Some (last (pm_partitions m)))"

definition cleanup_expired_partitions :: "u64 \<Rightarrow> u64 \<Rightarrow> PartitionManager \<Rightarrow> PartitionManager" where
  "cleanup_expired_partitions now retention m =
     m\<lparr>pm_partitions := filter (\<lambda>p. pt_end p > now - retention) (pm_partitions m)\<rparr>"

definition get_partition_count :: "PartitionManager \<Rightarrow> nat" where
  "get_partition_count m = length (pm_partitions m)"

definition get_partition :: "u64 \<Rightarrow> PartitionManager \<Rightarrow> TimeSeriesPartition option outcome" where
  "get_partition t m =
     (if pm_duration m = 0 then Fault
      else case find_start (bucket (pm_duration m) t) (pm_partitions m) of
             Some i \<Rightarrow> Ok (Some (pm_partitions m ! i)) | None \<Rightarrow> Ok None)"

definition compress_all_partitions :: "PartitionManager \<Rightarrow> PartitionManager" where
  "compress_all_partitions m =
     m\<lparr>pm_partitions := map (\<lambda>p. if pt_compressed p then p else p\<lparr>pt_compressed := True\<rparr>) (pm_partitions m)\<rparr>"

section \<open>The index\<close>

text \<open>The time index is the list of its entries, sorted by time; the tag index is only looked up.\<close>

record TimeSeriesIndex =
  time_index :: "(u64 \<times> nat list) list"
  tag_index :: "string \<rightharpoonup> (string \<rightharpoonup> nat list)"

definition TimeSeriesIndex_new :: TimeSeriesIndex where
  "TimeSeriesIndex_new = \<lparr>time_index = [], tag_index = Map.empty\<rparr>"

fun time_push :: "u64 \<Rightarrow> nat \<Rightarrow> (u64 \<times> nat list) list \<Rightarrow> (u64 \<times> nat list) list" where
  "time_push t i [] = [(t, [i])]"
| "time_push t i ((t', ids) # r) =
     (if t = t' then (t', ids @ [i]) # r
      else if t < t' then (t, [i]) # (t', ids) # r
      else (t', ids) # time_push t i r)"

definition index_insert :: "u64 \<Rightarrow> nat \<Rightarrow> TimeSeriesIndex \<Rightarrow> TimeSeriesIndex" where
  "index_insert t i x = x\<lparr>time_index := time_push t i (time_index x)\<rparr>"

definition insert_tag :: "string \<Rightarrow> string \<Rightarrow> nat \<Rightarrow> TimeSeriesIndex \<Rightarrow> TimeSeriesIndex" where
  "insert_tag n v i x =
     (let values = (case tag_index x n of Some vs \<Rightarrow> vs | None \<Rightarrow> Map.empty);
          ids = (case values v of Some ids \<Rightarrow> ids | None \<Rightarrow> [])
      in x\<lparr>tag_index := (tag_index x)(n \<mapsto> values(v \<mapsto> ids @ [i]))\<rparr>)"

text \<open>\<open>BTreeMap::range\<close> panics when the start lies behind the end.\<close>

definition index_query_time_range :: "u64 \<Rightarrow> u64 \<Rightarrow> TimeSeriesIndex \<Rightarrow> nat list outcome" where
  "index_query_time_range lo hi x =
     (if hi < lo then Fault
      else Ok (concat (map snd (filter (\<lambda>(t, ids). lo \<le> t \<and> t \<le> hi) (time_index x)))))"

fun filter_loop :: "TimeSeriesIndex \<Rightarrow> (string \<times> string) list \<Rightarrow> nat list \<Rightarrow> nat list" where
  "filter_loop x [] ids = ids"
| "filter_loop x ((n, v) # tags) ids =
     (case tag_index x n of
        None \<Rightarrow> []
      | Some values \<Rightarrow>
          (case values v of
             None \<Rightarrow> []
           | Some matching \<Rightarrow>
               let ids' = filter (\<lambda>i. i \<in> set matching) ids in
               if ids' = [] then [] else filter_loop x tags ids'))"

definition filter_by_tags :: "TimeSeriesIndex \<Rightarrow> nat list \<Rightarrow> (string \<times> string) list \<Rightarrow> nat list" where
  "filter_by_tags x ids tags = (if tags = [] then ids else filter_loop x tags ids)"

definition clear_before :: "u64 \<Rightarrow> TimeSeriesIndex \<Rightarrow> TimeSeriesIndex" where
  "clear_before t x = x\<lparr>time_index := filter (\<lambda>(t', ids). \<not> t' < t) (time_index x)\<rparr>"

definition index_remove :: "u64 \<Rightarrow> TimeSeriesIndex \<Rightarrow> TimeSeriesIndex" where
  "index_remove t x = x\<lparr>time_index := filter (\<lambda>(t', ids). t' \<noteq> t) (time_index x)\<rparr>"

section \<open>Lifecycle\<close>

text \<open>Periods are whole seconds.  The cleanup thread calls the callback while \<open>lc_running\<close> holds.\<close>

record LifecycleManager =
  lc_retention :: u64
  lc_interval :: u64
  lc_running :: bool
  lc_callback :: bool

definition LifecycleManager_new :: "u64 \<Rightarrow> LifecycleManager" where
  "LifecycleManager_new r = \<lparr>lc_retention = r, lc_interval = 5 * 60, lc_running = False, lc_callback = False\<rparr>"

definition set_cleanup_interval :: "u64 \<Rightarrow> LifecycleManager \<Rightarrow> LifecycleManager" where
  "set_cleanup_interval i l = l\<lparr>lc_interval := i\<rparr>"

definition set_cleanup_callback :: "LifecycleManager \<Rightarrow> LifecycleManager" where
  "set_cleanup_callback l = l\<lparr>lc_callback := True\<rparr>"

definition is_expired :: "u64 \<Rightarrow> u64 \<Rightarrow> LifecycleManager \<Rightarrow> bool" where
  "is_expired now t l \<longleftrightarrow> t < now - lc_retention l"

definition lifecycle_start :: "LifecycleManager \<Rightarrow> LifecycleManager" where
  "lifecycle_start l = (if lc_running l then l else l\<lparr>lc_running := True\<rparr>)"

definition lifecycle_stop :: "LifecycleManager \<Rightarrow> LifecycleManager" where
  "lifecycle_stop l = l\<lparr>lc_running := False\<rparr>"

section \<open>Tables\<close>

record PreAggregationConfig =
  interval_seconds :: u64
  aggregation :: string

text \<open>The hash map of aggregated values is the list of its entries in the order of iteration.\<close>

record PreAggregationStore =
  pa_configs :: "PreAggregationConfig list"
  pa_data :: "((u64 \<times> u64) \<times> u64) list"

record TimeSeriesTable =
  ts_def :: TimeSeriesTableDef
  ts_partitions :: PartitionManager
  ts_index :: TimeSeriesIndex
  ts_lifecycle :: LifecycleManager
  pre_aggregation :: PreAggregationStore

definition TimeSeriesTable_new :: "TimeSeriesTableDef \<Rightarrow> TimeSeriesIndex \<Rightarrow> TimeSeriesTable outcome" where
  "TimeSeriesTable_new d x =
     (let n = length (t_fields (ts_base d)) in
      if time_field d \<ge> n then Err FieldNotFound
      else if value_field d \<ge> n then Err FieldNotFound
      else if \<exists>f\<in>set (tag_fields d). f \<ge> n then Err FieldNotFound
      else Ok \<lparr>ts_def = d,
        ts_partitions = PartitionManager_new (partition_duration_secs (ts_config d)) (max_partitions (ts_config d)),
        ts_index = x,
        ts_lifecycle = set_cleanup_callback (LifecycleManager_new (retention_period_secs (ts_config d))),
        pre_aggregation = \<lparr>pa_configs = [], pa_data = []\<rparr>\<rparr>)"

text \<open>The cleanup callback that \<open>new\<close> installs.\<close>

definition lifecycle_cleanup :: "u64 \<Rightarrow> TimeSeriesTable \<Rightarrow> TimeSeriesTable" where
  "lifecycle_cleanup now t =
     (if lc_callback (ts_lifecycle t) then
        t\<lparr>ts_partitions := cleanup_expired_partitions now (retention_period_secs (ts_config (ts_def t))) (ts_partitions t)\<rparr>
      else t)"

definition add_pre_aggregation :: "u64 \<Rightarrow> string \<Rightarrow> TimeSeriesTable \<Rightarrow> TimeSeriesTable" where
  "add_pre_aggregation i a t =
     (let s = pre_aggregation t; c = \<lparr>interval_seconds = i, aggregation = a\<rparr> in
      if c \<in> set (pa_configs s) then t
      else t\<lparr>pre_aggregation := s\<lparr>pa_configs := pa_configs s @ [c]\<rparr>\<rparr>)"

definition interval_nanos :: "u64 \<Rightarrow> u64" where
  "interval_nanos s = s * 1000000000"

definition query_pre_aggregated :: "u64 \<Rightarrow> u64 \<Rightarrow> u64 \<Rightarrow> string \<Rightarrow> TimeSeriesTable \<Rightarrow> TimeSeriesRecord list outcome" where
  "query_pre_aggregated lo hi i a t =
     (let s = pre_aggregation t; n = interval_nanos i in
      if \<lparr>interval_seconds = i, aggregation = a\<rparr> \<notin> set (pa_configs s) then Err ConfigError
      else if n = 0 then Fault
      else Ok (concat (map (\<lambda>b.
          map (\<lambda>(k, v). \<lparr>ts_time = of_nat b * n, ts_value = v, ts_tag_count = 0, ts_tags = replicate 8 0\<rparr>)
            (filter (\<lambda>((b', h), v). b' = of_nat b) (pa_data s)))
          [unat (lo div n)..<Suc (unat (hi div n))])))"

text \<open>\<open>HashMap::insert\<close>: a new key may come anywhere in the order of iteration, here at the end.\<close>

fun hash_insert :: "'k \<Rightarrow> 'v \<Rightarrow> ('k \<times> 'v) list \<Rightarrow> ('k \<times> 'v) list" where
  "hash_insert k v [] = [(k, v)]"
| "hash_insert k v ((k', v') # r) = (if k = k' then (k, v) # r else (k', v') # hash_insert k v r)"

definition aggregate :: "float_ops \<Rightarrow> string \<Rightarrow> u64 option \<Rightarrow> u64 \<Rightarrow> u64 option" where
  "aggregate F a current v =
     (if a = ''avg'' then Some (f_div F (f_add F (case current of Some c \<Rightarrow> c | None \<Rightarrow> 0) v) F_TWO)
      else if a = ''sum'' then Some (f_add F (case current of Some c \<Rightarrow> c | None \<Rightarrow> 0) v)
      else if a = ''min'' then Some (f_min F (case current of Some c \<Rightarrow> c | None \<Rightarrow> F_MAX) v)
      else if a = ''max'' then Some (f_max F (case current of Some c \<Rightarrow> c | None \<Rightarrow> F_MIN) v)
      else None)"

fun update_configs :: "float_ops \<Rightarrow> TimeSeriesRecord \<Rightarrow> PreAggregationConfig list
    \<Rightarrow> ((u64 \<times> u64) \<times> u64) list \<Rightarrow> ((u64 \<times> u64) \<times> u64) list outcome" where
  "update_configs F r [] d = Ok d"
| "update_configs F r (c # cs) d =
     (let n = interval_nanos (interval_seconds c) in
      if n = 0 then Fault
      else
        let k = (ts_time r div n, ucast (ts_tag_count r)) in
        update_configs F r cs
          (case aggregate F (aggregation c) (map_of d k) (ts_value r) of
             Some v \<Rightarrow> hash_insert k v d | None \<Rightarrow> d))"

definition update_pre_aggregations :: "float_ops \<Rightarrow> TimeSeriesRecord \<Rightarrow> TimeSeriesTable \<Rightarrow> TimeSeriesTable outcome" where
  "update_pre_aggregations F r t =
     and_then (update_configs F r (pa_configs (pre_aggregation t)) (pa_data (pre_aggregation t)))
       (\<lambda>d. Ok (t\<lparr>pre_aggregation := (pre_aggregation t)\<lparr>pa_data := d\<rparr>\<rparr>))"

text \<open>Appending to a partition; \<open>count\<close> gives the new record count from the old one and the number of records.\<close>

definition push_record :: "(nat \<Rightarrow> nat \<Rightarrow> nat) \<Rightarrow> TimeSeriesRecord \<Rightarrow> TimeSeriesPartition \<Rightarrow> TimeSeriesPartition" where
  "push_record count r p =
     (let rs = pt_records p @ [r] in
      p\<lparr>pt_records := rs,
        pt_stats := (pt_stats p)\<lparr>ps_record_count := count (ps_record_count (pt_stats p)) (length rs)\<rparr>\<rparr>)"

definition write_one :: "(nat \<Rightarrow> nat \<Rightarrow> nat) \<Rightarrow> float_ops \<Rightarrow> TimeSeriesRecord \<Rightarrow> nat \<Rightarrow> TimeSeriesTable \<Rightarrow> TimeSeriesTable outcome" where
  "write_one count F r inserted t =
     and_then (get_or_create_partition (ts_time r) (ts_partitions t)) (\<lambda>(i, m).
       let m' = (case i of
                   Some j \<Rightarrow> m\<lparr>pm_partitions := (pm_partitions m)[j := push_record count r (pm_partitions m ! j)]\<rparr>
                 | None \<Rightarrow> m)
       in update_pre_aggregations F r
            (t\<lparr>ts_partitions := m', ts_index := index_insert (ts_time r) inserted (ts_index t)\<rparr>))"

fun write_loop :: "float_ops \<Rightarrow> TimeSeriesRecord list \<Rightarrow> nat \<Rightarrow> TimeSeriesTable \<Rightarrow> (nat \<times> TimeSeriesTable) outcome" where
  "write_loop F [] inserted t = Ok (inserted, t)"
| "write_loop F (r # rs) inserted t =
     and_then (write_one (\<lambda>old len. old + 1) F r inserted t) (write_loop F rs (inserted + 1))"

definition batch_write :: "float_ops \<Rightarrow> TimeSeriesRecord list option \<Rightarrow> TimeSeriesTable \<Rightarrow> (nat \<times> TimeSeriesTable) outcome" where
  "batch_write F records t =
     (case records of
        None \<Rightarrow> Err ConfigError
      | Some rs \<Rightarrow> if rs = [] then Err ConfigError else write_loop F rs 0 t)"

text \<open>
  The transactional write: \<open>layout\<close> gives the bytes of a record in memory.  Records are logged under their
  position in the batch.
\<close>

fun write_logged :: "u64 \<Rightarrow> (TimeSeriesRecord \<Rightarrow> bytes) \<Rightarrow> float_ops \<Rightarrow> TimeSeriesRecord list \<Rightarrow> nat
    \<Rightarrow> TimeSeriesTable \<times> 'lm TransactionManager \<Rightarrow> (nat \<times> TimeSeriesTable \<times> 'lm TransactionManager) outcome" where
  "write_logged now layout F [] inserted (t, tm) = Ok (inserted, t, tm)"
| "write_logged now layout F (r # rs) inserted (t, tm) =
     and_then (write_one (\<lambda>old len. len) F r inserted t) (\<lambda>t'.
       write_logged now layout F rs (inserted + 1)
         (t', log_in_tx now TimeSeriesInsert (t_id (ts_base (ts_def t))) (of_nat inserted) (of_nat TS_RECORD_SIZE)
                None (Some (layout r)) tm))"

definition write_timeseries_batch :: "u64 \<Rightarrow> (TimeSeriesRecord \<Rightarrow> bytes) \<Rightarrow> float_ops \<Rightarrow> TimeSeriesRecord list
    \<Rightarrow> TimeSeriesTable \<times> 'lm TransactionManager \<Rightarrow> (nat \<times> TimeSeriesTable \<times> 'lm TransactionManager) outcome" where
  "write_timeseries_batch now layout F rs s =
     (if rs = [] then Err ConfigError
      else if \<not> has_active_tx (snd s) then Err TransactionError
      else write_logged now layout F rs 0 s)"

definition query_time_range :: "u64 \<Rightarrow> u64 \<Rightarrow> TimeSeriesTable \<Rightarrow> TimeSeriesRecord list" where
  "query_time_range lo hi t =
     concat (map (\<lambda>p. filter (\<lambda>r. lo \<le> ts_time r \<and> ts_time r \<le> hi) (pt_records p))
       (get_partitions_in_range lo hi (ts_partitions t)))"

end
