(* ===== verification/TimeSeries_Inv.thy ===== *)
theory TimeSeries_Inv
  imports TimeSeries "HOL-Library.Multiset"
begin

text \<open>
  Time-series tables: the partitions keep their order and bounds under every operation, a batch write adds
  exactly its records to every range query, and the time and tag indexes answer exactly.
\<close>

section \<open>Partitions\<close>

definition all_records :: "TimeSeriesTable \<Rightarrow> TimeSeriesRecord list" where
  "all_records t = concat (map pt_records (pm_partitions (ts_partitions t)))"

definition starts :: "PartitionManager \<Rightarrow> u64 set" where
  "starts m = pt_start ` set (pm_partitions m)"

text \<open>
  Partitions have different start times, last one duration, hold the records of their own stretch of time,
  and there are no more of them than allowed.
\<close>

definition part_ok :: "u64 \<Rightarrow> TimeSeriesPartition \<Rightarrow> bool" where
  "part_ok d p \<longleftrightarrow> pt_end p = pt_start p + d \<and> (\<forall>r\<in>set (pt_records p). bucket d (ts_time r) = pt_start p)"

definition manager_ok :: "PartitionManager \<Rightarrow> bool" where
  "manager_ok m \<longleftrightarrow> distinct (map pt_start (pm_partitions m)) \<and> length (pm_partitions m) \<le> pm_max m
     \<and> (\<forall>p\<in>set (pm_partitions m). part_ok (pm_duration m) p)"

lemma find_start_Some: "find_start s ps = Some i \<Longrightarrow> i < length ps \<and> pt_start (ps ! i) = s"
  by (induction ps arbitrary: i) (auto split: if_splits)

lemma find_start_None: "find_start s ps = None \<longleftrightarrow> s \<notin> pt_start ` set ps"
  by (induction ps) auto

lemma push_record_simps [simp]:
  "pt_start (push_record c r p) = pt_start p" "pt_end (push_record c r p) = pt_end p"
  "pt_records (push_record c r p) = pt_records p @ [r]"
  by (simp_all add: push_record_def Let_def)

lemma part_ok_push: "part_ok d p \<Longrightarrow> bucket d (ts_time r) = pt_start p \<Longrightarrow> part_ok d (push_record c r p)"
  by (auto simp: part_ok_def)

text \<open>Appending a record to one partition of a list.\<close>

definition push_at :: "(nat \<Rightarrow> nat \<Rightarrow> nat) \<Rightarrow> TimeSeriesRecord \<Rightarrow> nat \<Rightarrow> TimeSeriesPartition list \<Rightarrow> TimeSeriesPartition list" where
  "push_at c r j ps = ps[j := push_record c r (ps ! j)]"

lemma push_at_starts: "j < length ps \<Longrightarrow> map pt_start (push_at c r j ps) = map pt_start ps"
  by (rule nth_equalityI) (auto simp: push_at_def nth_list_update)

lemma length_push_at [simp]: "length (push_at c r j ps) = length ps"
  by (simp add: push_at_def)

lemma push_at_ok:
  assumes "j < length ps" and "\<forall>p\<in>set ps. part_ok d p" and "bucket d (ts_time r) = pt_start (ps ! j)"
  shows "\<forall>p\<in>set (push_at c r j ps). part_ok d p"
  using assms part_ok_push set_update_subset_insert [of ps j] by (fastforce simp: push_at_def)

lemma push_at_records:
  "j < length ps \<Longrightarrow> mset (concat (map pt_records (push_at c r j ps))) = mset (concat (map pt_records ps)) + {#r#}"
proof (induction ps arbitrary: j)
  case (Cons p ps)
  then show ?case by (cases j) (auto simp: push_at_def)
qed simp

lemma TimeSeriesPartition_new_ok: "part_ok d (TimeSeriesPartition_new s (s + d))"
  by (simp add: part_ok_def TimeSeriesPartition_new_def)

text \<open>The partitions after a write: with the partition there or room for it, and with the first one gone.\<close>

lemma get_or_create_found:
  "pm_duration m \<noteq> 0 \<Longrightarrow> bucket (pm_duration m) t \<in> starts m \<Longrightarrow>
    \<exists>i. get_or_create_partition t m = Ok (Some i, m) \<and> i < length (pm_partitions m)
      \<and> pt_start (pm_partitions m ! i) = bucket (pm_duration m) t"
  using find_start_None [of "bucket (pm_duration m) t" "pm_partitions m"]
  by (auto simp: get_or_create_partition_def starts_def Let_def dest: find_start_Some)

lemma get_or_create_new:
  "pm_duration m \<noteq> 0 \<Longrightarrow> bucket (pm_duration m) t \<notin> starts m \<Longrightarrow>
    get_or_create_partition t m =
      (let s = bucket (pm_duration m) t; ps = pm_partitions m @ [TimeSeriesPartition_new s (s + pm_duration m)] in
       if length (pm_partitions m) < pm_max m then Ok (Some (length (pm_partitions m)), m\<lparr>pm_partitions := ps\<rparr>)
       else Ok (if pm_partitions m = [] then None else Some (length (pm_partitions m) - 1), m\<lparr>pm_partitions := tl ps\<rparr>))"
  using find_start_None [of "bucket (pm_duration m) t" "pm_partitions m"]
  by (auto simp: get_or_create_partition_def starts_def Let_def)

lemma update_pre_aggregations_frame:
  "update_pre_aggregations F r t = Ok t' \<Longrightarrow> ts_partitions t' = ts_partitions t \<and> ts_def t' = ts_def t
    \<and> ts_index t' = ts_index t \<and> ts_lifecycle t' = ts_lifecycle t
    \<and> pa_configs (pre_aggregation t') = pa_configs (pre_aggregation t)"
  by (auto simp: update_pre_aggregations_def outcome_simps)

text \<open>The manager after a record was written.\<close>

definition written :: "(nat \<Rightarrow> nat \<Rightarrow> nat) \<Rightarrow> TimeSeriesRecord \<Rightarrow> PartitionManager \<Rightarrow> PartitionManager outcome" where
  "written c r m = and_then (get_or_create_partition (ts_time r) m) (\<lambda>(i, m).
     Ok (case i of Some j \<Rightarrow> m\<lparr>pm_partitions := push_at c r j (pm_partitions m)\<rparr> | None \<Rightarrow> m))"

lemma write_one_written:
  "write_one c F r n t = Ok t' \<Longrightarrow>
    \<exists>m. written c r (ts_partitions t) = Ok m \<and> ts_partitions t' = m \<and> ts_def t' = ts_def t
      \<and> ts_lifecycle t' = ts_lifecycle t \<and> pa_configs (pre_aggregation t') = pa_configs (pre_aggregation t)"
proof -
  assume "write_one c F r n t = Ok t'"
  then obtain i m where g: "get_or_create_partition (ts_time r) (ts_partitions t) = Ok (i, m)"
    and u: "update_pre_aggregations F r
      (t\<lparr>ts_partitions := (case i of Some j \<Rightarrow> m\<lparr>pm_partitions := push_at c r j (pm_partitions m)\<rparr> | None \<Rightarrow> m),
         ts_index := index_insert (ts_time r) n (ts_index t)\<rparr>) = Ok t'"
    unfolding push_at_def by (auto simp: write_one_def outcome_simps Let_def)
  then show ?thesis using update_pre_aggregations_frame [OF u] by (simp add: written_def)
qed

lemma written_cases:
  assumes "manager_ok m" and "pm_duration m \<noteq> 0"
  obtains (found) i where "i < length (pm_partitions m)" "pt_start (pm_partitions m ! i) = bucket (pm_duration m) (ts_time r)"
      "written c r m = Ok (m\<lparr>pm_partitions := push_at c r i (pm_partitions m)\<rparr>)"
    | (new) "bucket (pm_duration m) (ts_time r) \<notin> starts m" "length (pm_partitions m) < pm_max m"
      "written c r m = Ok (m\<lparr>pm_partitions := push_at c r (length (pm_partitions m)) (pm_partitions m @
         [TimeSeriesPartition_new (bucket (pm_duration m) (ts_time r)) (bucket (pm_duration m) (ts_time r) + pm_duration m)])\<rparr>)"
    | (evict) p ps where "bucket (pm_duration m) (ts_time r) \<notin> starts m" "pm_partitions m = p # ps"
      "written c r m = Ok (m\<lparr>pm_partitions := push_at c r (length ps) (ps @
         [TimeSeriesPartition_new (bucket (pm_duration m) (ts_time r)) (bucket (pm_duration m) (ts_time r) + pm_duration m)])\<rparr>)" "\<not> length (pm_partitions m) < pm_max m"
    | (none) "bucket (pm_duration m) (ts_time r) \<notin> starts m" "pm_partitions m = []" "written c r m = Ok m" "\<not> length (pm_partitions m) < pm_max m"
proof (cases "bucket (pm_duration m) (ts_time r) \<in> starts m")
  case True
  then obtain i where "get_or_create_partition (ts_time r) m = Ok (Some i, m)" "i < length (pm_partitions m)"
      "pt_start (pm_partitions m ! i) = bucket (pm_duration m) (ts_time r)"
    using get_or_create_found assms(2) by blast
  then show ?thesis using found by (simp add: written_def)
next
  case False
  note g = get_or_create_new [OF assms(2) False]
  show ?thesis
  proof (cases "length (pm_partitions m) < pm_max m")
    case True
    then show ?thesis using new False g by (simp add: written_def Let_def)
  next
    case no: False
    show ?thesis
    proof (cases "pm_partitions m")
      case Nil
      then show ?thesis using none False g no by (simp add: written_def Let_def)
    next
      case (Cons p ps)
      then show ?thesis using evict False g no by (simp add: written_def Let_def)
    qed
  qed
qed

lemma written_ok:
  assumes "manager_ok m" and "pm_duration m \<noteq> 0" and "written c r m = Ok m'"
  shows "manager_ok m' \<and> pm_duration m' = pm_duration m \<and> pm_max m' = pm_max m"
proof -
  let ?s = "bucket (pm_duration m) (ts_time r)"
  let ?n = "TimeSeriesPartition_new ?s (?s + pm_duration m)"
  have n: "pt_start ?n = ?s" by (simp add: TimeSeriesPartition_new_def)
  from assms(1,2) show ?thesis
  proof (cases rule: written_cases [where c = c and r = r])
    case (found i)
    have "\<forall>p\<in>set (push_at c r i (pm_partitions m)). part_ok (pm_duration m) p"
      using assms(1) found(2) by (intro push_at_ok [OF found(1)]) (simp_all add: manager_ok_def)
    then show ?thesis
      using assms(1,3) found(3) push_at_starts [OF found(1), of c r] by (auto simp: manager_ok_def)
  next
    case new
    let ?ps = "pm_partitions m @ [?n]"
    have l: "length (pm_partitions m) < length ?ps" by simp
    have "map pt_start (push_at c r (length (pm_partitions m)) ?ps) = map pt_start ?ps" by (rule push_at_starts [OF l])
    moreover have "\<forall>p\<in>set (push_at c r (length (pm_partitions m)) ?ps). part_ok (pm_duration m) p"
      using assms(1) TimeSeriesPartition_new_ok n by (intro push_at_ok [OF l]) (auto simp: manager_ok_def)
    ultimately show ?thesis
      using new assms(1,3) n by (auto simp: manager_ok_def starts_def)
  next
    case (evict p ps)
    let ?ps = "ps @ [?n]"
    have l: "length ps < length ?ps" by simp
    have "map pt_start (push_at c r (length ps) ?ps) = map pt_start ?ps" by (rule push_at_starts [OF l])
    moreover have "\<forall>p\<in>set (push_at c r (length ps) ?ps). part_ok (pm_duration m) p"
      using assms(1) evict(2) TimeSeriesPartition_new_ok n by (intro push_at_ok [OF l]) (auto simp: manager_ok_def)
    ultimately show ?thesis
      using evict assms(1,3) n by (auto simp: manager_ok_def starts_def)
  next
    case none
    then show ?thesis using assms by simp
  qed
qed

section \<open>Reachable tables\<close>

lemma write_one_ok:
  assumes "manager_ok (ts_partitions t)" "pm_duration (ts_partitions t) \<noteq> 0" and "write_one c F r n t = Ok t'"
  shows "manager_ok (ts_partitions t') \<and> pm_duration (ts_partitions t') = pm_duration (ts_partitions t)
    \<and> pm_max (ts_partitions t') = pm_max (ts_partitions t)"
  using write_one_written [OF assms(3)] written_ok [OF assms(1,2)] by auto

lemma write_loop_ok:
  "write_loop F rs n t = Ok (k, t') \<Longrightarrow> manager_ok (ts_partitions t) \<Longrightarrow> pm_duration (ts_partitions t) \<noteq> 0
    \<Longrightarrow> manager_ok (ts_partitions t') \<and> pm_duration (ts_partitions t') = pm_duration (ts_partitions t)
      \<and> pm_max (ts_partitions t') = pm_max (ts_partitions t)"
  by (induction rs arbitrary: n t) (fastforce simp: outcome_simps dest: write_one_ok)+

lemma write_logged_ok:
  "write_logged now l F rs n (t, tm) = Ok (k, t', tm') \<Longrightarrow> manager_ok (ts_partitions t)
    \<Longrightarrow> pm_duration (ts_partitions t) \<noteq> 0
    \<Longrightarrow> manager_ok (ts_partitions t') \<and> pm_duration (ts_partitions t') = pm_duration (ts_partitions t)
      \<and> pm_max (ts_partitions t') = pm_max (ts_partitions t)"
  by (induction rs arbitrary: n t tm) (fastforce simp: outcome_simps dest: write_one_ok)+

text \<open>The operations on a table, from its creation on.\<close>

inductive ts_reachable :: "float_ops \<Rightarrow> TimeSeriesTableDef \<Rightarrow> TimeSeriesIndex \<Rightarrow> TimeSeriesTable \<Rightarrow> bool"
  for F d x where
  created: "TimeSeriesTable_new d x = Ok t \<Longrightarrow> ts_reachable F d x t"
| written: "ts_reachable F d x t \<Longrightarrow> batch_write F rs t = Ok (n, t') \<Longrightarrow> ts_reachable F d x t'"
| logged: "ts_reachable F d x t \<Longrightarrow>
    write_timeseries_batch now l F rs (t, tm :: unit TransactionManager) = Ok (n, t', tm') \<Longrightarrow> ts_reachable F d x t'"
| cleaned: "ts_reachable F d x t \<Longrightarrow> ts_reachable F d x (lifecycle_cleanup now t)"
| compressed: "ts_reachable F d x t \<Longrightarrow>
    ts_reachable F d x (t\<lparr>ts_partitions := compress_all_partitions (ts_partitions t)\<rparr>)"
| aggregated: "ts_reachable F d x t \<Longrightarrow> ts_reachable F d x (add_pre_aggregation i a t)"

lemma cleanup_ok: "manager_ok m \<Longrightarrow> manager_ok (cleanup_expired_partitions now r m)"
  by (auto simp: manager_ok_def cleanup_expired_partitions_def distinct_map inj_on_def
      intro: order_trans [OF length_filter_le])

lemma compress_ok: "manager_ok m \<Longrightarrow> manager_ok (compress_all_partitions m)"
  by (auto simp: manager_ok_def compress_all_partitions_def part_ok_def comp_def if_distrib cong: if_cong)

lemma reachable_ok:
  assumes "ts_reachable F d x t" and "partition_duration_secs (ts_config d) \<noteq> 0"
  shows "manager_ok (ts_partitions t) \<and> pm_duration (ts_partitions t) = partition_duration_secs (ts_config d)
    \<and> pm_max (ts_partitions t) = max_partitions (ts_config d)"
  using assms
proof (induction rule: ts_reachable.induct)
  case (created t)
  then show ?case
    by (auto simp: TimeSeriesTable_new_def PartitionManager_new_def manager_ok_def Let_def split: if_splits)
next
  case (written t rs n t')
  then show ?case
    using write_loop_ok by (fastforce simp: batch_write_def split: option.splits if_splits)
next
  case (logged t now l rs tm n t' tm')
  then show ?case
    using write_logged_ok by (fastforce simp: write_timeseries_batch_def split: if_splits)
next
  case (cleaned t now)
  then show ?case by (simp add: lifecycle_cleanup_def cleanup_ok) (simp add: cleanup_expired_partitions_def)
next
  case (compressed t)
  then show ?case by (simp add: compress_ok) (simp add: compress_all_partitions_def)
next
  case (aggregated t i a)
  then show ?case by (simp add: add_pre_aggregation_def Let_def)
qed

section \<open>Writing with room\<close>

definition aggregations_ok :: "TimeSeriesTable \<Rightarrow> bool" where
  "aggregations_ok t \<longleftrightarrow> (\<forall>c\<in>set (pa_configs (pre_aggregation t)). interval_nanos (interval_seconds c) \<noteq> 0)"

lemma update_configs_total:
  "\<forall>c\<in>set cs. interval_nanos (interval_seconds c) \<noteq> 0 \<Longrightarrow> \<exists>d'. update_configs F r cs d = Ok d'"
  by (induction cs arbitrary: d) (auto simp: Let_def)

lemma update_pre_aggregations_total: "aggregations_ok t \<Longrightarrow> \<exists>t'. update_pre_aggregations F r t = Ok t'"
  using update_configs_total [of "pa_configs (pre_aggregation t)" F r "pa_data (pre_aggregation t)"]
  by (auto simp: update_pre_aggregations_def aggregations_ok_def)

lemma write_one_total:
  assumes "manager_ok (ts_partitions t)" "pm_duration (ts_partitions t) \<noteq> 0" "aggregations_ok t"
  shows "\<exists>t'. write_one c F r n t = Ok t' \<and> aggregations_ok t'"
proof -
  obtain i m where "get_or_create_partition (ts_time r) (ts_partitions t) = Ok (i, m)"
    using assms(2) get_or_create_found [of "ts_partitions t" "ts_time r"] get_or_create_new [of "ts_partitions t" "ts_time r"]
    by (cases "bucket (pm_duration (ts_partitions t)) (ts_time r) \<in> starts (ts_partitions t)") (auto simp: Let_def split: if_splits)
  moreover have "aggregations_ok (t\<lparr>ts_partitions := m', ts_index := x\<rparr>)" for m' x
    using assms(3) by (simp add: aggregations_ok_def)
  ultimately obtain t' where "write_one c F r n t = Ok t'"
    using update_pre_aggregations_total by (fastforce simp: write_one_def Let_def)
  then show ?thesis using write_one_written assms(3) by (fastforce simp: aggregations_ok_def)
qed

lemma written_room:
  assumes "manager_ok m" "pm_duration m \<noteq> 0" "written c r m = Ok m'"
    and "bucket (pm_duration m) (ts_time r) \<in> starts m \<or> length (pm_partitions m) < pm_max m"
  shows "mset (concat (map pt_records (pm_partitions m'))) = mset (concat (map pt_records (pm_partitions m))) + {#r#}
    \<and> starts m' = insert (bucket (pm_duration m) (ts_time r)) (starts m)"
  using assms(1,2)
proof (cases rule: written_cases [where c = c and r = r])
  case (found i)
  have "starts m' = starts m"
    using arg_cong [OF push_at_starts [OF found(1), of c r], of set] found(3) assms(3) by (auto simp: starts_def)
  moreover have "bucket (pm_duration m) (ts_time r) \<in> starts m" using found(1,2) unfolding starts_def by (metis image_eqI nth_mem)
  ultimately show ?thesis using found(3) assms(3) push_at_records [OF found(1), of c r] by auto
next
  case new
  let ?n = "TimeSeriesPartition_new (bucket (pm_duration m) (ts_time r)) (bucket (pm_duration m) (ts_time r) + pm_duration m)"
  have l: "length (pm_partitions m) < length (pm_partitions m @ [?n])" by simp
  have "starts m' = insert (pt_start ?n) (starts m)"
    using arg_cong [OF push_at_starts [OF l, of c r], of set] new(3) assms(3) by (auto simp: starts_def)
  then show ?thesis
    using push_at_records [OF l, of c r] new(3) assms(3) by (auto simp: TimeSeriesPartition_new_def)
qed (use assms in auto)

lemma length_partitions: "manager_ok m \<Longrightarrow> length (pm_partitions m) = card (starts m)"
  by (auto simp: manager_ok_def starts_def dest: distinct_card)

lemma write_loop_room:
  assumes "manager_ok (ts_partitions t)" "pm_duration (ts_partitions t) = d" "d \<noteq> 0" "aggregations_ok t"
    and "card (starts (ts_partitions t) \<union> bucket d ` ts_time ` set rs) \<le> pm_max (ts_partitions t)"
  shows "\<exists>t'. write_loop F rs n t = Ok (n + length rs, t') \<and> mset (all_records t') = mset (all_records t) + mset rs
    \<and> aggregations_ok t'"
  using assms
proof (induction rs arbitrary: n t)
  case (Cons r rs)
  let ?m = "ts_partitions t" and ?s = "bucket d (ts_time r)"
  obtain t1 where w: "write_one (\<lambda>old len. old + 1) F r n t = Ok t1" "aggregations_ok t1"
    using write_one_total Cons.prems(1-4) by blast
  obtain m1 where m: "written (\<lambda>old len. old + 1) r ?m = Ok m1" "ts_partitions t1 = m1"
    using write_one_written [OF w(1)] by auto
  have f: "finite (starts ?m)" by (simp add: starts_def)
  have "?s \<in> starts ?m \<or> length (pm_partitions ?m) < pm_max ?m"
  proof (rule disjCI)
    assume "\<not> length (pm_partitions ?m) < pm_max ?m"
    then have "card (starts ?m \<union> bucket d ` ts_time ` set (r # rs)) \<le> card (starts ?m)"
      using Cons.prems(1,5) length_partitions by fastforce
    then have "starts ?m = starts ?m \<union> bucket d ` ts_time ` set (r # rs)"
      using f by (intro card_seteq) auto
    then show "?s \<in> starts ?m" by auto
  qed
  then have e: "mset (all_records t1) = mset (all_records t) + {#r#}" "starts m1 = insert ?s (starts ?m)"
    using written_room [OF Cons.prems(1) _ m(1)] Cons.prems(2,3) m(2) by (simp_all add: all_records_def)
  have k: "manager_ok m1" "pm_duration m1 = d" "pm_max m1 = pm_max ?m"
    using written_ok [OF Cons.prems(1) _ m(1)] Cons.prems(2,3) by simp_all
  have "card (starts m1 \<union> bucket d ` ts_time ` set rs) \<le> pm_max m1" using Cons.prems(5) e(2) k(3) by simp
  then obtain t' where "write_loop F rs (n + 1) t1 = Ok (n + 1 + length rs, t')"
      "mset (all_records t') = mset (all_records t1) + mset rs" "aggregations_ok t'"
    using Cons.IH [of t1 "n + 1"] k m(2) w(2) Cons.prems(3) by blast
  then show ?case using w(1) e(1) by simp
qed simp

section \<open>Queries\<close>

lemma bucket_bounds:
  assumes "d \<noteq> 0" "unat t + unat d < 2 ^ 64"
  shows "bucket d t \<le> t" "t \<le> bucket d t + d"
proof -
  have d: "unat d \<noteq> 0" using assms(1) by (simp add: unat_eq_0)
  have l: "unat t div unat d * unat d \<le> unat t" by simp
  have b: "unat (bucket d t) = unat t div unat d * unat d"
  proof -
    have "unat (t div d) = unat t div unat d" by (rule unat_div)
    moreover have "unat t div unat d * unat d < 2 ^ 64" using l assms(2) by linarith
    ultimately show ?thesis by (simp add: bucket_def unat_word_ariths)
  qed
  then show "bucket d t \<le> t" using l by (simp add: word_le_nat_alt)
  have "unat t < unat t div unat d * unat d + unat d"
    using d mod_less_divisor [of "unat d" "unat t"] div_mult_mod_eq [of "unat t" "unat d"] by linarith
  moreover have "unat (bucket d t + d) = unat (bucket d t) + unat d"
  proof -
    have "unat (bucket d t) + unat d < 2 ^ 64" using l b assms(2) by linarith
    then show ?thesis by (simp add: unat_word_ariths)
  qed
  ultimately show "t \<le> bucket d t + d" using b by (simp add: word_le_nat_alt)
qed

lemma query_exact:
  assumes "manager_ok (ts_partitions t)" "pm_duration (ts_partitions t) = d" "d \<noteq> 0"
    and "\<forall>r\<in>set (all_records t). unat (ts_time r) + unat d < 2 ^ 64"
  shows "mset (query_time_range lo hi t) = filter_mset (\<lambda>r. lo \<le> ts_time r \<and> ts_time r \<le> hi) (mset (all_records t))"
proof -
  let ?P = "\<lambda>r. lo \<le> ts_time r \<and> ts_time r \<le> hi"
  have e: "filter ?P (pt_records p) = []" if p: "p \<in> set (pm_partitions (ts_partitions t))" "\<not> in_range lo hi p" for p
  proof -
    have "\<not> ?P r" if r: "r \<in> set (pt_records p)" for r
    proof -
      have "bucket d (ts_time r) = pt_start p" "pt_end p = pt_start p + d"
        using assms(1,2) p(1) r by (auto simp: manager_ok_def part_ok_def)
      moreover have "unat (ts_time r) + unat d < 2 ^ 64" using assms(4) p(1) r by (auto simp: all_records_def)
      ultimately have "pt_start p \<le> ts_time r" "ts_time r \<le> pt_end p" using bucket_bounds [OF assms(3)] by metis+
      then show ?thesis using p(2) unfolding in_range_def by (meson order_trans)
    qed
    then show ?thesis by (simp add: filter_empty_conv)
  qed
  have "concat (map (\<lambda>p. filter ?P (pt_records p)) (filter (in_range lo hi) ps)) = filter ?P (concat (map pt_records ps))"
    if "set ps \<subseteq> set (pm_partitions (ts_partitions t))" for ps
    using that e by (induction ps) auto
  then have "query_time_range lo hi t = filter ?P (all_records t)"
    by (simp add: query_time_range_def get_partitions_in_range_def all_records_def)
  then show ?thesis by (simp add: mset_filter)
qed

section \<open>The index\<close>

definition flat :: "(u64 \<times> nat list) list \<Rightarrow> (u64 \<times> nat) list" where
  "flat es = concat (map (\<lambda>(t, ids). map (Pair t) ids) es)"

lemma flat_simps [simp]: "flat [] = []" "flat ((t, ids) # es) = map (Pair t) ids @ flat es"
  by (simp_all add: flat_def)

lemma flat_keys: "x \<in> set (flat es) \<Longrightarrow> fst x \<in> fst ` set es"
  by (force simp: flat_def)

lemma time_push_keys: "fst ` set (time_push t i es) = insert t (fst ` set es)"
  by (induction t i es rule: time_push.induct) (simp_all add: insert_commute)

lemma time_push_sorted: "sorted_wrt (<) (map fst es) \<Longrightarrow> sorted_wrt (<) (map fst (time_push t i es))"
proof (induction t i es rule: time_push.induct)
  case (2 t i t' ids r)
  have "\<forall>x\<in>fst ` set (time_push t i r). t' < x" if "t \<noteq> t'" "\<not> t < t'"
    using that 2(2) by (auto simp: time_push_keys)
  with 2 show ?case by (auto intro: order_less_trans)
qed simp

lemma flat_push_mset: "mset (flat (time_push t i es)) = mset (flat es) + {#(t, i)#}"
  by (induction t i es rule: time_push.induct) auto

lemma flat_push_filter:
  "sorted_wrt (<) (map fst es) \<Longrightarrow>
    filter (\<lambda>x. fst x = k) (flat (time_push t i es)) = filter (\<lambda>x. fst x = k) (flat es @ [(t, i)])"
proof (induction t i es rule: time_push.induct)
  case (2 t i t' ids r)
  have e: "filter (\<lambda>x. fst x = t) (flat r) = []" if "t \<le> t'"
    using 2(2) that by (auto simp: filter_empty_conv dest!: flat_keys)
  consider "t = t'" | "t < t'" | "t' < t" by fastforce
  then show ?case
  proof cases
    case 1
    then show ?thesis using e by (cases "k = t") auto
  next
    case 2
    then show ?thesis using e by (cases "k = t") auto
  next
    case 3
    then show ?thesis using "2.IH" "2.prems" by auto
  qed
qed simp

lemma flat_sorted: "sorted_wrt (<) (map fst es) \<Longrightarrow> sorted (map fst (flat es))"
proof (induction es)
  case (Cons e es)
  then show ?case by (cases e) (auto simp: sorted_append comp_def map_replicate_const dest!: flat_keys)
qed simp

definition time_indexed :: "(u64 \<times> nat) list \<Rightarrow> TimeSeriesIndex \<Rightarrow> TimeSeriesIndex" where
  "time_indexed xs x = fold (\<lambda>(t, i). index_insert t i) xs x"

lemma time_indexed_flat:
  "sorted_wrt (<) (map fst (time_index (time_indexed xs TimeSeriesIndex_new)))
   \<and> mset (flat (time_index (time_indexed xs TimeSeriesIndex_new))) = mset xs
   \<and> (\<forall>k. filter (\<lambda>x. fst x = k) (flat (time_index (time_indexed xs TimeSeriesIndex_new))) = filter (\<lambda>x. fst x = k) xs)"
proof (induction xs rule: rev_induct)
  case Nil
  then show ?case by (simp add: time_indexed_def TimeSeriesIndex_new_def)
next
  case (snoc x xs)
  obtain t i where x: "x = (t, i)" by (cases x)
  have "time_index (time_indexed (xs @ [x]) TimeSeriesIndex_new) = time_push t i (time_index (time_indexed xs TimeSeriesIndex_new))"
    by (simp add: x time_indexed_def index_insert_def)
  then show ?case using snoc x by (simp add: time_push_sorted flat_push_mset flat_push_filter)
qed

lemma time_indexed_sort: "flat (time_index (time_indexed xs TimeSeriesIndex_new)) = sort_key fst xs"
proof -
  let ?ys = "flat (time_index (time_indexed xs TimeSeriesIndex_new))"
  have "(\<lambda>x. k = fst x) = (\<lambda>x :: u64 \<times> nat. fst x = k)" for k by auto
  then have "filter (\<lambda>x. k = fst x) ?ys = filter (\<lambda>x. k = fst x) xs" for k using time_indexed_flat [of xs] by simp
  moreover have "mset ?ys = mset xs" "sorted (map fst ?ys)" using time_indexed_flat [of xs] flat_sorted by blast+
  ultimately show ?thesis by (metis properties_for_sort_key)
qed

lemma query_flat:
  "concat (map snd (filter (\<lambda>(t, ids). P t) es)) = map snd (filter (\<lambda>(t, i). P t) (flat es))"
  by (induction es) (auto simp: comp_def filter_map)

definition tagged :: "(string \<times> string \<times> nat) list \<Rightarrow> TimeSeriesIndex \<Rightarrow> TimeSeriesIndex" where
  "tagged ops x = fold (\<lambda>(n, v, i). insert_tag n v i) ops x"

definition tag_ids :: "TimeSeriesIndex \<Rightarrow> string \<Rightarrow> string \<Rightarrow> nat set" where
  "tag_ids x n v = (case tag_index x n of None \<Rightarrow> {} | Some m \<Rightarrow> (case m v of None \<Rightarrow> {} | Some ids \<Rightarrow> set ids))"

lemma tag_ids_insert: "tag_ids (insert_tag n v i x) n' v' = (if n = n' \<and> v = v' then insert i (tag_ids x n v) else tag_ids x n' v')"
  by (auto simp: tag_ids_def insert_tag_def Let_def split: option.splits)

lemma tag_ids_tagged: "tag_ids (tagged ops x) n v = tag_ids x n v \<union> {i. (n, v, i) \<in> set ops}"
proof (induction ops rule: rev_induct)
  case (snoc e ops)
  obtain n' v' i where e: "e = (n', v', i)" by (cases e) auto
  have "tagged (ops @ [e]) x = insert_tag n' v' i (tagged ops x)" by (simp add: tagged_def e)
  then show ?case using snoc by (auto simp: tag_ids_insert e)
qed (simp add: tagged_def)

lemma filter_loop_exact: "filter_loop x tags ids = filter (\<lambda>i. \<forall>(n, v)\<in>set tags. i \<in> tag_ids x n v) ids"
proof (induction x tags ids rule: filter_loop.induct)
  case (2 x n v tags ids)
  show ?case
  proof (cases "tag_index x n")
    case (Some m)
    show ?thesis
    proof (cases "m v")
      case Some': (Some ms)
      let ?ids = "filter (\<lambda>i. i \<in> set ms) ids"
      have t: "tag_ids x n v = set ms" using Some Some' by (simp add: tag_ids_def)
      have "filter_loop x ((n, v) # tags) ids = filter (\<lambda>i. \<forall>(n, v)\<in>set tags. i \<in> tag_ids x n v) ?ids"
        using 2 [OF Some Some' refl] Some Some' by (cases "?ids = []") (simp_all add: Let_def filter_empty_conv del: filter_filter)
      then show ?thesis by (simp add: t conj_commute)
    qed (use Some in \<open>simp add: tag_ids_def\<close>)
  qed (simp add: tag_ids_def)
qed simp

section \<open>Properties\<close>

text \<open>
  (C32) In every table reached from a new one by batch writes, logged writes, cleanups, compression and
  pre-aggregations, there are at most \<open>max_partitions\<close> partitions, their start times differ, and every
  record lies in the partition of its stretch of time.
\<close>

theorem ts_partitions_bounded:
  assumes "ts_reachable F d x t" and "partition_duration_secs (ts_config d) \<noteq> 0"
  shows "get_partition_count (ts_partitions t) \<le> max_partitions (ts_config d)
    \<and> distinct (map pt_start (pm_partitions (ts_partitions t)))
    \<and> (\<forall>p\<in>set (pm_partitions (ts_partitions t)). pt_end p = pt_start p + partition_duration_secs (ts_config d)
        \<and> (\<forall>r\<in>set (pt_records p). bucket (partition_duration_secs (ts_config d)) (ts_time r) = pt_start p))"
  using reachable_ok [OF assms] by (auto simp: get_partition_count_def manager_ok_def part_ok_def)

text \<open>
  (C30) A batch write to a reachable table with room for its partitions stores every record: it returns
  their number, and a query of any range returns what it returned before and the records of the batch in
  the range.  Before the first write every query is empty.
\<close>

theorem ts_write_query:
  assumes "ts_reachable F d x t" and "partition_duration_secs (ts_config d) = D" "D \<noteq> 0"
    and "\<forall>c\<in>set (pa_configs (pre_aggregation t)). interval_nanos (interval_seconds c) \<noteq> 0"
    and "rs \<noteq> []"
    and "card (pt_start ` set (pm_partitions (ts_partitions t)) \<union> bucket D ` ts_time ` set rs)
      \<le> max_partitions (ts_config d)"
    and "\<forall>r\<in>set (all_records t) \<union> set rs. unat (ts_time r) + unat D < 2 ^ 64"
  shows "\<exists>t'. batch_write F (Some rs) t = Ok (length rs, t')
    \<and> (\<forall>lo hi. mset (query_time_range lo hi t') = mset (query_time_range lo hi t)
         + filter_mset (\<lambda>r. lo \<le> ts_time r \<and> ts_time r \<le> hi) (mset rs))"
proof -
  note ok = reachable_ok [OF assms(1), unfolded assms(2), OF assms(3)]
  obtain t' where w: "write_loop F rs 0 t = Ok (0 + length rs, t')" "mset (all_records t') = mset (all_records t) + mset rs"
    using write_loop_room [of t D rs F 0] ok assms(3,4,6) by (auto simp: aggregations_ok_def starts_def)
  have b: "batch_write F (Some rs) t = Ok (length rs, t')" using w(1) assms(5) by (simp add: batch_write_def)
  note ok' = reachable_ok [OF ts_reachable.written [OF assms(1) b], unfolded assms(2), OF assms(3)]
  have "set (all_records t') = set (all_records t) \<union> set rs" using w(2) by (metis set_mset_mset set_mset_union)
  then show ?thesis
    using b query_exact [of t' D] query_exact [of t D] ok ok' assms(3,7) w(2) by auto
qed

text \<open>
  The indexes of a time-series table answer exactly: a range query gives the ids recorded in the
  range in order of time, those of one time in order of insertion, and the tag filter keeps the ids that
  were recorded under all the tags asked for.
\<close>

theorem ts_index_exact:
  assumes "lo \<le> hi"
  shows "index_query_time_range lo hi (fold (\<lambda>(t, i). index_insert t i) xs TimeSeriesIndex_new)
      = Ok (map snd (filter (\<lambda>(t, i). lo \<le> t \<and> t \<le> hi) (sort_key fst xs)))
    \<and> filter_by_tags (fold (\<lambda>(n, v, i). insert_tag n v i) ops TimeSeriesIndex_new) ids tags
      = filter (\<lambda>i. \<forall>(n, v)\<in>set tags. (n, v, i) \<in> set ops) ids"
proof
  show "index_query_time_range lo hi (fold (\<lambda>(t, i). index_insert t i) xs TimeSeriesIndex_new)
      = Ok (map snd (filter (\<lambda>(t, i). lo \<le> t \<and> t \<le> hi) (sort_key fst xs)))"
    using assms time_indexed_sort [of xs] query_flat [of "\<lambda>t. lo \<le> t \<and> t \<le> hi" "time_index (time_indexed xs TimeSeriesIndex_new)"]
    by (simp add: index_query_time_range_def time_indexed_def)
  have "tag_ids TimeSeriesIndex_new n v = {}" for n v by (simp add: tag_ids_def TimeSeriesIndex_new_def)
  then show "filter_by_tags (fold (\<lambda>(n, v, i). insert_tag n v i) ops TimeSeriesIndex_new) ids tags
      = filter (\<lambda>i. \<forall>(n, v)\<in>set tags. (n, v, i) \<in> set ops) ids"
    using filter_loop_exact [of "tagged ops TimeSeriesIndex_new" tags ids]
    by (simp add: filter_by_tags_def tag_ids_tagged tagged_def [symmetric] case_prod_beta)
qed

theorem ts_index_exact_witness:
  "index_query_time_range 3 9 (fold (\<lambda>(t, i). index_insert t i) [(5, 0), (2, 1), (3, 2), (5, 3)] TimeSeriesIndex_new)
    = Ok [2, 0, 3]"
  using ts_index_exact [of 3 9 "[(5, 0), (2, 1), (3, 2), (5, 3)]"] by simp

section \<open>A sample table\<close>

definition sample_field :: FieldDef where
  "sample_field =
     \<lparr>f_name = ''t'', data_type = UInt64, f_size = 8, string_length = None, offset = 0, f_primary_key = False,
      not_null = True, unique = False, auto_increment = False, default_value = None, vector_metadata = None,
      json_metadata = None\<rparr>"

definition sample_series :: TimeSeriesTableDef where
  "sample_series =
     \<lparr>ts_base = \<lparr>t_id = 1, t_name = ''s'', t_fields = [sample_field, sample_field], primary_key = [0],
        secondary_index = None, secondary_index_type = SortedArray, def_record_size = 16, max_records = 10,
        t_version = 1, created_at = 0, updated_at = 0\<rparr>,
      time_field = 0, value_field = 1, tag_fields = [],
      ts_config = \<lparr>partition_duration_secs = 3600, retention_period_secs = 7200, ts_compression = CNone,
        max_partitions = 2\<rparr>\<rparr>"

definition sample_floats :: float_ops where
  "sample_floats = \<lparr>f_add = (+), f_div = (\<lambda>a b. a), f_min = min, f_max = max\<rparr>"

definition sample_record :: "u64 \<Rightarrow> TimeSeriesRecord" where
  "sample_record t = \<lparr>ts_time = t, ts_value = 7, ts_tag_count = 0, ts_tags = replicate 8 0\<rparr>"

definition sample_table :: TimeSeriesTable where
  "sample_table =
     \<lparr>ts_def = sample_series, ts_partitions = PartitionManager_new 3600 2, ts_index = TimeSeriesIndex_new,
      ts_lifecycle = set_cleanup_callback (LifecycleManager_new 7200),
      pre_aggregation = \<lparr>pa_configs = [], pa_data = []\<rparr>\<rparr>"

lemma sample_table_reachable: "ts_reachable sample_floats sample_series TimeSeriesIndex_new sample_table"
  by (rule ts_reachable.created) (simp add: TimeSeriesTable_new_def sample_series_def sample_table_def)

lemma sample_config [simp]:
  "partition_duration_secs (ts_config sample_series) = 3600" "max_partitions (ts_config sample_series) = 2"
  by (simp_all add: sample_series_def)

theorem ts_partitions_bounded_witness:
  "get_partition_count (ts_partitions sample_table) \<le> 2"
  using ts_partitions_bounded [OF sample_table_reachable] by simp

theorem ts_write_query_witness:
  "\<exists>t'. batch_write sample_floats (Some [sample_record 10, sample_record 4000]) sample_table = Ok (2, t')
     \<and> mset (query_time_range 5 20 t') = {#sample_record 10#}"
proof -
  let ?rs = "[sample_record 10, sample_record 4000]"
  have e: "pm_partitions (ts_partitions sample_table) = []" "pa_configs (pre_aggregation sample_table) = []"
    by (simp_all add: sample_table_def PartitionManager_new_def)
  then have a: "all_records sample_table = []" "query_time_range 5 20 sample_table = []"
    by (simp_all add: all_records_def query_time_range_def get_partitions_in_range_def)
  have "card (bucket 3600 ` ts_time ` set ?rs) \<le> 2"
    using card_image_le [of "set ?rs" "bucket 3600 \<circ> ts_time"] card_length [of ?rs] by (simp add: image_comp)
  moreover have u: "unat (3600 :: u64) = 3600" by simp
  ultimately have "\<exists>t'. batch_write sample_floats (Some ?rs) sample_table = Ok (length ?rs, t')
      \<and> (\<forall>lo hi. mset (query_time_range lo hi t') = mset (query_time_range lo hi sample_table)
           + filter_mset (\<lambda>r. lo \<le> ts_time r \<and> ts_time r \<le> hi) (mset ?rs))"
    using e a by (intro ts_write_query [OF sample_table_reachable, of 3600]) (simp_all add: sample_record_def u)
  then obtain t' where "batch_write sample_floats (Some ?rs) sample_table = Ok (2, t')"
      "mset (query_time_range 5 20 t') = filter_mset (\<lambda>r. 5 \<le> ts_time r \<and> ts_time r \<le> 20) (mset ?rs)"
    using a by auto
  then show ?thesis by (simp add: sample_record_def)
qed

end
