(* ===== verification/TtlRing.thy ===== *)
theory TtlRing
  imports Prelude "HOL-Library.Product_Lexorder"
begin

text \<open>
  The ring buffer with expiring entries, \<^verbatim>\<open>src/src/pubsub/ttl_ringbuffer.rs\<close>.  The heap of expiry times
  is the sorted list of its entries, so that its least entry is the head.  A message released by a read or an
  eviction stays in the model's slot, where nothing reads it any more.  The clock is an argument; a read that
  skips slots asks it again at each position.
\<close>

section \<open>Data\<close>

datatype slot_state = SLOT_FREE | SLOT_WRITING | SLOT_ACTIVE | SLOT_DELETED

record Slot =
  sl_state :: slot_state
  sl_timestamp :: u64
  sl_data :: bytes

text \<open>\<open>(expire_time, slot_idx, logical_idx)\<close>, compared in this order.\<close>

type_synonym TTLHeapEntry = "u64 \<times> nat \<times> nat"

record TTLCircularBuffer =
  rb_buffer :: "Slot list"
  rb_mask :: nat
  current_read :: nat
  current_write :: nat
  rb_capacity :: nat
  ttl_heap :: "TTLHeapEntry list"

definition free_slot :: Slot where
  "free_slot = \<lparr>sl_state = SLOT_FREE, sl_timestamp = 0, sl_data = []\<rparr>"

fun pow2_from :: "nat \<Rightarrow> nat \<Rightarrow> nat \<Rightarrow> nat" where
  "pow2_from 0 p n = p"
| "pow2_from (Suc k) p n = (if n \<le> p then p else pow2_from k (2 * p) n)"

text \<open>\<open>usize::next_power_of_two\<close>: at most \<open>n\<close> doublings from 1.\<close>

definition next_power_of_two :: "nat \<Rightarrow> nat" where
  "next_power_of_two n = pow2_from n 1 n"

definition TTLCircularBuffer_new :: "nat \<Rightarrow> TTLCircularBuffer" where
  "TTLCircularBuffer_new capacity =
     (let c = next_power_of_two capacity in
      \<lparr>rb_buffer = replicate c free_slot, rb_mask = c - 1, current_read = 0, current_write = 0,
       rb_capacity = c, ttl_heap = []\<rparr>)"

section \<open>Eviction\<close>

definition slot_logical_idx :: "TTLCircularBuffer \<Rightarrow> nat \<Rightarrow> nat" where
  "slot_logical_idx b slot_idx =
     (let cur = current_write b AND rb_mask b in
      if slot_idx > cur then current_write b - (rb_capacity b - slot_idx + cur)
      else current_write b - (cur - slot_idx))"

definition mark_deleted :: "nat \<Rightarrow> TTLCircularBuffer \<Rightarrow> TTLCircularBuffer" where
  "mark_deleted i b =
     b\<lparr>rb_buffer := (rb_buffer b)[i := (rb_buffer b ! i)\<lparr>sl_state := SLOT_DELETED\<rparr>]\<rparr>"

text \<open>Does the entry still describe the message in its slot?\<close>

definition entry_live :: "TTLCircularBuffer \<Rightarrow> TTLHeapEntry \<Rightarrow> bool" where
  "entry_live b e =
     (case e of (expire, i, logical) \<Rightarrow>
        sl_state (rb_buffer b ! i) = SLOT_ACTIVE \<and> slot_logical_idx b i = logical
        \<and> sl_timestamp (rb_buffer b ! i) = expire)"

fun evict_loop :: "u64 \<Rightarrow> TTLHeapEntry list \<Rightarrow> TTLCircularBuffer \<Rightarrow> TTLCircularBuffer" where
  "evict_loop now [] b = b\<lparr>ttl_heap := []\<rparr>"
| "evict_loop now (e # es) b =
     (if fst e > now then b\<lparr>ttl_heap := e # es\<rparr>
      else evict_loop now es (if entry_live b e then mark_deleted (fst (snd e)) b else b))"

definition evict_expired :: "u64 \<Rightarrow> TTLCircularBuffer \<Rightarrow> bool \<times> TTLCircularBuffer" where
  "evict_expired now b = (True, evict_loop now (ttl_heap b) b)"

fun shortest_live :: "TTLCircularBuffer \<Rightarrow> TTLHeapEntry list \<Rightarrow> nat option" where
  "shortest_live b [] = None"
| "shortest_live b (e # es) = (if entry_live b e then Some (fst (snd e)) else shortest_live b es)"

text \<open>The linear scan over the unread positions; \<open>saturating_sub\<close> is truncated subtraction.\<close>

fun scan_shortest :: "u64 \<Rightarrow> TTLCircularBuffer \<Rightarrow> nat list \<Rightarrow> nat \<Rightarrow> nat option \<Rightarrow> nat option" where
  "scan_shortest now b [] shortest target = target"
| "scan_shortest now b (l # ls) shortest target =
     (let i = l AND rb_mask b; s = rb_buffer b ! i; remaining = unat (sl_timestamp s) - unat now in
      if sl_state s = SLOT_ACTIVE \<and> remaining < shortest then scan_shortest now b ls remaining (Some i)
      else scan_shortest now b ls shortest target)"

definition evict_shortest_ttl_fallback :: "u64 \<Rightarrow> TTLCircularBuffer \<Rightarrow> bool \<times> TTLCircularBuffer" where
  "evict_shortest_ttl_fallback now b =
     (case scan_shortest now b [current_read b..<current_write b] (2 ^ 64 - 1) None of
        Some i \<Rightarrow> (True, mark_deleted i b) | None \<Rightarrow> (False, b))"

definition evict_shortest_ttl :: "u64 \<Rightarrow> TTLCircularBuffer \<Rightarrow> bool \<times> TTLCircularBuffer" where
  "evict_shortest_ttl now b =
     (let b1 = snd (evict_expired now b) in
      case shortest_live b1 (ttl_heap b1) of
        Some i \<Rightarrow> (True, mark_deleted i b1) | None \<Rightarrow> evict_shortest_ttl_fallback now b1)"

section \<open>Writing and reading\<close>

definition slot_usable :: "Slot \<Rightarrow> bool" where
  "slot_usable s \<longleftrightarrow> sl_state s = SLOT_FREE \<or> sl_state s = SLOT_DELETED"

definition store_slot :: "bytes \<Rightarrow> u64 \<Rightarrow> TTLCircularBuffer \<Rightarrow> TTLCircularBuffer" where
  "store_slot d expire b =
     (let w = current_write b; i = w AND rb_mask b in
      b\<lparr>rb_buffer := (rb_buffer b)[i := \<lparr>sl_state = SLOT_ACTIVE, sl_timestamp = expire, sl_data = d\<rparr>],
        ttl_heap := insort (expire, i, w) (ttl_heap b),
        current_write := w + 1\<rparr>)"

text \<open>The slot is claimed by a compare-and-exchange from \<open>SLOT_FREE\<close> only.\<close>

definition rb_write :: "u64 \<Rightarrow> bytes \<Rightarrow> u64 \<Rightarrow> TTLCircularBuffer \<Rightarrow> bool \<times> TTLCircularBuffer" where
  "rb_write now d ttl b =
     (let i = current_write b AND rb_mask b;
          b1 = (if slot_usable (rb_buffer b ! i) then b else snd (evict_expired now b)) in
      if \<not> slot_usable (rb_buffer b1 ! i) then (False, b1)
      else if sl_state (rb_buffer b1 ! i) \<noteq> SLOT_FREE then (False, b1)
      else (True, store_slot d (now + ttl) b1))"

lemma evict_loop_frame [simp]:
  "current_write (evict_loop now es b) = current_write b" "current_read (evict_loop now es b) = current_read b"
  "rb_capacity (evict_loop now es b) = rb_capacity b" "rb_mask (evict_loop now es b) = rb_mask b"
  by (induction now es b rule: evict_loop.induct) (simp_all add: mark_deleted_def)

text \<open>
  A read into a buffer of \<open>n\<close> bytes gives the bytes copied; skipped positions recurse.  The code tests the two
  positions for equality; the read position never passes the write position (below).
\<close>

function rb_read :: "(nat \<Rightarrow> u64) \<Rightarrow> nat \<Rightarrow> TTLCircularBuffer \<Rightarrow> bytes option \<times> TTLCircularBuffer" where
  "rb_read clock n b =
     (let now = clock (current_read b); b1 = snd (evict_expired now b) in
      if current_read b1 \<ge> current_write b1 then (None, b1)
      else
        let i = current_read b1 AND rb_mask b1; s = rb_buffer b1 ! i;
            b2 = b1\<lparr>current_read := current_read b1 + 1\<rparr> in
        if sl_state s \<noteq> SLOT_ACTIVE then rb_read clock n b2
        else if sl_timestamp s \<le> now then rb_read clock n (mark_deleted i b2)
        else (Some (take n (sl_data s)), mark_deleted i b2))"
  by auto
termination
  by (relation "measure (\<lambda>(clock, n, b). current_write b - current_read b)")
    (auto simp: evict_expired_def mark_deleted_def)

declare rb_read.simps [simp del]

definition available_space :: "TTLCircularBuffer \<Rightarrow> nat" where
  "available_space b = rb_capacity b - (current_write b - current_read b)"

definition used_space :: "TTLCircularBuffer \<Rightarrow> nat" where
  "used_space b = current_write b - current_read b"

section \<open>The invariant\<close>

text \<open>
  Positions count from 0 and never wrap: slots before the write position have been written once and are
  active or deleted, slots behind it are free.
\<close>

definition rb_ok :: "TTLCircularBuffer \<Rightarrow> bool" where
  "rb_ok b \<longleftrightarrow> (\<exists>k. rb_capacity b = 2 ^ k) \<and> length (rb_buffer b) = rb_capacity b \<and> rb_mask b = rb_capacity b - 1
     \<and> current_read b \<le> current_write b \<and> current_write b \<le> rb_capacity b
     \<and> (\<forall>i < current_write b. sl_state (rb_buffer b ! i) \<in> {SLOT_ACTIVE, SLOT_DELETED})
     \<and> (\<forall>i. current_write b \<le> i \<and> i < rb_capacity b \<longrightarrow> sl_state (rb_buffer b ! i) = SLOT_FREE)
     \<and> (\<forall>e\<in>set (ttl_heap b). fst (snd e) < current_write b)"

lemma pow2_from_pow: "\<exists>j. pow2_from k p n = p * 2 ^ j"
proof (induction k arbitrary: p)
  case 0
  then show ?case by (auto intro: exI [of _ 0])
next
  case (Suc k)
  obtain j where "pow2_from k (2 * p) n = 2 * p * 2 ^ j" using Suc by blast
  then have "pow2_from k (2 * p) n = p * 2 ^ Suc j" by simp
  then show ?case by (auto intro: exI [of _ 0] simp del: power_Suc)
qed

lemma next_power_of_two_pow: "\<exists>k. next_power_of_two n = 2 ^ k"
  using pow2_from_pow [of n 1 n] by (simp add: next_power_of_two_def)

lemma mask_mod: "(x :: nat) AND (2 ^ k - 1) = x mod 2 ^ k"
  unfolding mask_eq_exp_minus_1 [symmetric] take_bit_eq_mask [symmetric] take_bit_eq_mod ..

lemma rb_index: "rb_ok b \<Longrightarrow> x AND rb_mask b = x mod rb_capacity b"
  by (auto simp: rb_ok_def mask_mod [unfolded One_nat_def])

lemma rb_ok_new: "rb_ok (TTLCircularBuffer_new n)"
  using next_power_of_two_pow [of n] by (simp add: rb_ok_def TTLCircularBuffer_new_def Let_def free_slot_def)

lemma mark_deleted_simps [simp]:
  "current_write (mark_deleted i b) = current_write b" "current_read (mark_deleted i b) = current_read b"
  "rb_capacity (mark_deleted i b) = rb_capacity b" "rb_mask (mark_deleted i b) = rb_mask b"
  "ttl_heap (mark_deleted i b) = ttl_heap b" "length (rb_buffer (mark_deleted i b)) = length (rb_buffer b)"
  by (simp_all add: mark_deleted_def)

lemma mark_deleted_ok: "rb_ok b \<Longrightarrow> i < current_write b \<Longrightarrow> rb_ok (mark_deleted i b)"
  by (auto simp: rb_ok_def mark_deleted_def nth_list_update)

lemma evict_loop_ok: "rb_ok b \<Longrightarrow> \<forall>e\<in>set es. fst (snd e) < current_write b \<Longrightarrow> rb_ok (evict_loop now es b)"
proof (induction now es b rule: evict_loop.induct)
  case (1 now b)
  then show ?case by (simp add: rb_ok_def)
next
  case (2 now e es b)
  show ?case
  proof (cases "fst e > now")
    case True
    then show ?thesis using "2.prems" by (simp add: rb_ok_def)
  next
    case False
    have "rb_ok (if entry_live b e then mark_deleted (fst (snd e)) b else b)"
      using "2.prems" mark_deleted_ok by auto
    then show ?thesis using 2 False by (simp del: split_paired_All)
  qed
qed

lemma evict_expired_ok: "rb_ok b \<Longrightarrow> rb_ok (snd (evict_expired now b))"
  using evict_loop_ok [of b "ttl_heap b" now] by (simp add: evict_expired_def) (simp add: rb_ok_def)

text \<open>An eviction deletes expired messages only.\<close>

definition evicted :: "u64 \<Rightarrow> Slot \<Rightarrow> Slot \<Rightarrow> bool" where
  "evicted now s s' \<longleftrightarrow> s' = s \<or> sl_state s = SLOT_ACTIVE \<and> sl_timestamp s \<le> now \<and> s' = s\<lparr>sl_state := SLOT_DELETED\<rparr>"

lemma evict_loop_slots:
  "\<forall>e\<in>set es. fst (snd e) < length (rb_buffer b) \<Longrightarrow>
    list_all2 (evicted now) (rb_buffer b) (rb_buffer (evict_loop now es b))"
proof (induction now es b rule: evict_loop.induct)
  case (1 now b)
  then show ?case by (simp add: list_all2_refl evicted_def)
next
  case (2 now e es b)
  show ?case
  proof (cases "fst e > now")
    case True
    then show ?thesis by (simp add: list_all2_refl evicted_def)
  next
    case False
    let ?i = "fst (snd e)" and ?b = "if entry_live b e then mark_deleted (fst (snd e)) b else b"
    have i: "?i < length (rb_buffer b)" using "2.prems" by simp
    have one: "list_all2 (evicted now) (rb_buffer b) (rb_buffer ?b)"
      using False i by (auto simp: list_all2_conv_all_nth evicted_def mark_deleted_def nth_list_update entry_live_def
          split: prod.splits)
    have "list_all2 (evicted now) (rb_buffer ?b) (rb_buffer (evict_loop now es ?b))"
      using 2 False by simp
    with one have "list_all2 (evicted now) (rb_buffer b) (rb_buffer (evict_loop now es ?b))"
      by (rule list_all2_trans [rotated]) (auto simp: evicted_def)
    then show ?thesis using False by simp
  qed
qed

section \<open>Writing\<close>

lemma set_insort_heap: "set (insort (e :: TTLHeapEntry) es) = insert e (set es)"
  by (rule set_insort_key)

lemma store_slot_ok:
  assumes "rb_ok b" "current_write b < rb_capacity b"
  shows "rb_ok (store_slot d e b)"
proof -
  have i: "current_write b AND rb_mask b = current_write b" using assms by (simp add: rb_index)
  show ?thesis
    using assms unfolding rb_ok_def store_slot_def Let_def i
    by (auto simp: nth_list_update less_Suc_eq set_insort_heap)
qed

lemma store_slot_simps [simp]:
  "current_write (store_slot d e b) = Suc (current_write b)" "rb_capacity (store_slot d e b) = rb_capacity b"
  by (simp_all add: store_slot_def Let_def)

lemma write_free:
  assumes "rb_ok b" "current_write b < rb_capacity b"
  shows "rb_write now d ttl b = (True, store_slot d (now + ttl) b)"
proof -
  have "current_write b AND rb_mask b = current_write b" using assms by (simp add: rb_index)
  moreover have "sl_state (rb_buffer b ! current_write b) = SLOT_FREE" using assms by (simp add: rb_ok_def)
  ultimately show ?thesis by (simp add: rb_write_def slot_usable_def Let_def)
qed

lemma write_full:
  assumes "rb_ok b" "current_write b = rb_capacity b"
  shows "fst (rb_write now d ttl b) = False \<and> rb_ok (snd (rb_write now d ttl b))
    \<and> current_write (snd (rb_write now d ttl b)) = current_write b
    \<and> rb_capacity (snd (rb_write now d ttl b)) = rb_capacity b"
proof -
  have i: "current_write b AND rb_mask b = 0" using assms by (simp add: rb_index)
  have c: "0 < rb_capacity b" using assms(1) by (auto simp: rb_ok_def)
  have "sl_state (rb_buffer b' ! 0) \<noteq> SLOT_FREE" if "rb_ok b'" "current_write b' = current_write b" for b'
    using that assms(2) c by (auto simp: rb_ok_def)
  then have "sl_state (rb_buffer b ! 0) \<noteq> SLOT_FREE"
      "sl_state (rb_buffer (snd (evict_expired now b)) ! 0) \<noteq> SLOT_FREE"
    using assms(1) evict_expired_ok [OF assms(1), of now] by (auto simp: evict_expired_def)
  then show ?thesis
    using assms(1) evict_expired_ok [OF assms(1), of now]
    unfolding rb_write_def Let_def i by (auto simp: evict_expired_def)
qed

section \<open>Reading\<close>

text \<open>The unread messages with their expiry times, in order, and those not expired at a time.\<close>

definition rb_queue :: "TTLCircularBuffer \<Rightarrow> (u64 \<times> bytes) list" where
  "rb_queue b = map (\<lambda>s. (sl_timestamp s, sl_data s))
     (filter (\<lambda>s. sl_state s = SLOT_ACTIVE) (drop (current_read b) (take (current_write b) (rb_buffer b))))"

definition live :: "u64 \<Rightarrow> TTLCircularBuffer \<Rightarrow> (u64 \<times> bytes) list" where
  "live now b = filter (\<lambda>(e, d). now < e) (rb_queue b)"

lemma filter_evicted:
  "list_all2 (evicted now) xs ys \<Longrightarrow>
    filter (\<lambda>s. sl_state s = SLOT_ACTIVE \<and> now < sl_timestamp s) ys = filter (\<lambda>s. sl_state s = SLOT_ACTIVE \<and> now < sl_timestamp s) xs"
  by (induction rule: list_all2_induct) (auto simp: evicted_def)

lemma live_alt:
  "live now b = map (\<lambda>s. (sl_timestamp s, sl_data s))
     (filter (\<lambda>s. sl_state s = SLOT_ACTIVE \<and> now < sl_timestamp s) (drop (current_read b) (take (current_write b) (rb_buffer b))))"
  by (simp add: live_def rb_queue_def filter_map comp_def conj_commute)

lemma live_evict:
  assumes "rb_ok b" and "now' \<le> now"
  shows "live now (snd (evict_expired now' b)) = live now b"
proof -
  have "list_all2 (evicted now') (rb_buffer b) (rb_buffer (evict_loop now' (ttl_heap b) b))"
    using assms(1) by (intro evict_loop_slots) (auto simp: rb_ok_def)
  then have "list_all2 (evicted now) (rb_buffer b) (rb_buffer (evict_loop now' (ttl_heap b) b))"
    by (rule list_all2_mono) (use assms(2) in \<open>auto simp: evicted_def\<close>)
  then have "list_all2 (evicted now) (drop r (take w (rb_buffer b))) (drop r (take w (rb_buffer (evict_loop now' (ttl_heap b) b))))" for r w
    by (intro list_all2_dropI list_all2_takeI)
  from filter_evicted [OF this] show ?thesis by (simp add: live_alt evict_expired_def)
qed

lemma live_step:
  assumes "rb_ok b" "current_read b < current_write b"
  shows "live now b =
    (let s = rb_buffer b ! current_read b; q = live now (b\<lparr>current_read := current_read b + 1\<rparr>) in
     if sl_state s = SLOT_ACTIVE \<and> now < sl_timestamp s then (sl_timestamp s, sl_data s) # q else q)"
proof -
  have "drop (current_read b) (take (current_write b) (rb_buffer b))
      = rb_buffer b ! current_read b # drop (current_read b + 1) (take (current_write b) (rb_buffer b))"
    using assms by (subst Cons_nth_drop_Suc [symmetric]) (auto simp: rb_ok_def)
  then show ?thesis by (simp add: live_alt Let_def)
qed

lemma live_read_mark:
  "i < current_read b \<Longrightarrow> live now (mark_deleted i b) = live now b"
  by (simp add: live_alt mark_deleted_def take_update_swap drop_update_cancel)

lemma rb_ok_advance: "rb_ok b \<Longrightarrow> current_read b < current_write b \<Longrightarrow> rb_ok (b\<lparr>current_read := current_read b + 1\<rparr>)"
  by (simp add: rb_ok_def)

lemma read_live:
  assumes "rb_ok b"
  shows "rb_ok (snd (rb_read (\<lambda>_. now) n b)) \<and> current_write (snd (rb_read (\<lambda>_. now) n b)) = current_write b
    \<and> rb_capacity (snd (rb_read (\<lambda>_. now) n b)) = rb_capacity b
    \<and> (case live now b of
         [] \<Rightarrow> fst (rb_read (\<lambda>_. now) n b) = None \<and> live now (snd (rb_read (\<lambda>_. now) n b)) = []
       | (e, d) # q \<Rightarrow> fst (rb_read (\<lambda>_. now) n b) = Some (take n d) \<and> live now (snd (rb_read (\<lambda>_. now) n b)) = q)"
  using assms
proof (induction "current_write b - current_read b" arbitrary: b rule: less_induct)
  case (less b)
  define b1 where "b1 = snd (evict_expired now b)"
  define b2 where "b2 = b1\<lparr>current_read := current_read b1 + 1\<rparr>"
  define s where "s = rb_buffer b1 ! current_read b1"
  have ok1: "rb_ok b1" unfolding b1_def by (rule evict_expired_ok [OF less.prems])
  have l1: "live now b1 = live now b" unfolding b1_def by (rule live_evict [OF less.prems order_refl])
  have f1: "current_write b1 = current_write b" "rb_capacity b1 = rb_capacity b" by (simp_all add: b1_def evict_expired_def)
  show ?case
  proof (cases "current_read b1 \<ge> current_write b1")
    case True
    then have "rb_read (\<lambda>_. now) n b = (None, b1)" by (subst rb_read.simps) (simp add: b1_def)
    moreover have "live now b1 = []" using True by (simp add: live_alt)
    ultimately show ?thesis using ok1 f1 l1 by simp
  next
    case False
    then have lt: "current_read b1 < current_write b1" by simp
    have i: "current_read b1 AND rb_mask b1 = current_read b1"
      using ok1 lt by (simp add: rb_index) (auto simp: rb_ok_def)
    have ok2: "rb_ok b2" unfolding b2_def by (rule rb_ok_advance [OF ok1 lt])
    have r: "rb_read (\<lambda>_. now) n b = (if sl_state s \<noteq> SLOT_ACTIVE then rb_read (\<lambda>_. now) n b2
        else if sl_timestamp s \<le> now then rb_read (\<lambda>_. now) n (mark_deleted (current_read b1) b2)
        else (Some (take n (sl_data s)), mark_deleted (current_read b1) b2))"
      using False by (subst rb_read.simps) (simp add: b1_def [symmetric] b2_def s_def i Let_def)
    have m: "rb_ok (mark_deleted (current_read b1) b2)" "live now (mark_deleted (current_read b1) b2) = live now b2"
      using mark_deleted_ok [OF ok2] lt by (auto simp: b2_def intro: live_read_mark)
    have st: "live now b = (if sl_state s = SLOT_ACTIVE \<and> now < sl_timestamp s
        then (sl_timestamp s, sl_data s) # live now b2 else live now b2)"
      using live_step [OF ok1 lt, of now] l1 by (simp add: s_def b2_def Let_def)
    have f2: "current_write b2 = current_write b" "rb_capacity b2 = rb_capacity b" using f1 by (simp_all add: b2_def)
    have d: "current_write b2 - current_read b2 < current_write b - current_read b"
      using lt by (simp add: b2_def b1_def evict_expired_def)
    consider "sl_state s \<noteq> SLOT_ACTIVE" | "sl_state s = SLOT_ACTIVE" "sl_timestamp s \<le> now"
      | "sl_state s = SLOT_ACTIVE" "now < sl_timestamp s" by fastforce
    then show ?thesis
    proof cases
      case 1
      have e: "rb_read (\<lambda>_. now) n b = rb_read (\<lambda>_. now) n b2" "live now b = live now b2" using r st 1 by simp_all
      show ?thesis unfolding e
        using less.hyps [OF d ok2] f2 by simp
    next
      case 2
      have e: "rb_read (\<lambda>_. now) n b = rb_read (\<lambda>_. now) n (mark_deleted (current_read b1) b2)" "live now b = live now b2"
        using r st 2 by (auto simp: not_le)
      show ?thesis unfolding e
        using less.hyps [of "mark_deleted (current_read b1) b2"] d m f2 by simp
    next
      case 3
      then have "\<not> sl_timestamp s \<le> now" by simp
      then show ?thesis using r st m f2 3 by simp
    qed
  qed
qed

section \<open>Properties\<close>

text \<open>The operations of a buffer, counting the writes that succeed.\<close>

inductive rb_run :: "nat \<Rightarrow> nat \<Rightarrow> TTLCircularBuffer \<Rightarrow> bool" for capacity where
  created: "rb_run capacity 0 (TTLCircularBuffer_new capacity)"
| wrote: "rb_run capacity k b \<Longrightarrow> rb_write now d ttl b = (ok, b') \<Longrightarrow> rb_run capacity (if ok then Suc k else k) b'"
| read: "rb_run capacity k b \<Longrightarrow> rb_run capacity k (snd (rb_read (\<lambda>_. now) n b))"
| expired: "rb_run capacity k b \<Longrightarrow> rb_run capacity k (snd (evict_expired now b))"
| shortest: "rb_run capacity k b \<Longrightarrow> rb_run capacity k (snd (evict_shortest_ttl now b))"

lemma scan_shortest_in:
  "scan_shortest now b ls sh t = Some i \<Longrightarrow> t = Some i \<or> i \<in> (\<lambda>l. l AND rb_mask b) ` set ls"
  by (induction now b ls sh t rule: scan_shortest.induct) (auto simp: Let_def split: if_splits)

lemma shortest_live_in: "shortest_live b es = Some i \<Longrightarrow> \<exists>e\<in>set es. fst (snd e) = i"
  by (induction b es rule: shortest_live.induct) (auto split: if_splits)

lemma evict_shortest_ok:
  assumes "rb_ok b"
  shows "rb_ok (snd (evict_shortest_ttl now b)) \<and> current_write (snd (evict_shortest_ttl now b)) = current_write b
    \<and> rb_capacity (snd (evict_shortest_ttl now b)) = rb_capacity b"
proof -
  define b1 where "b1 = snd (evict_expired now b)"
  have ok: "rb_ok b1" unfolding b1_def by (rule evict_expired_ok [OF assms])
  have f: "current_write b1 = current_write b" "rb_capacity b1 = rb_capacity b" by (simp_all add: b1_def evict_expired_def)
  have "i < current_write b1" if s: "shortest_live b1 (ttl_heap b1) = Some i" for i
    using shortest_live_in [OF s] ok by (auto simp: rb_ok_def)
  moreover have "i < current_write b1"
    if s: "scan_shortest now b1 [current_read b1..<current_write b1] (2 ^ 64 - 1) None = Some i" for i
  proof -
    obtain l where l: "i = l AND rb_mask b1" "l < current_write b1" using scan_shortest_in [OF s] by auto
    then have "i = l mod rb_capacity b1" using rb_index [OF ok] by simp
    moreover have "l < rb_capacity b1" using l ok by (auto simp: rb_ok_def)
    ultimately show ?thesis using l(2) by simp
  qed
  ultimately show ?thesis
    using ok f mark_deleted_ok [OF ok]
    by (auto simp: evict_shortest_ttl_def evict_shortest_ttl_fallback_def b1_def [symmetric] Let_def split: option.split)
qed

lemma rb_run_ok: "rb_run capacity k b \<Longrightarrow> rb_ok b \<and> current_write b = k \<and> rb_capacity b = next_power_of_two capacity"
proof (induction rule: rb_run.induct)
  case created
  then show ?case using rb_ok_new by (simp add: TTLCircularBuffer_new_def Let_def)
next
  case (wrote k b now d ttl ok b')
  show ?case
  proof (cases "current_write b < rb_capacity b")
    case True
    then have "ok" "b' = store_slot d (now + ttl) b" using wrote write_free by auto
    then show ?thesis using wrote store_slot_ok True by simp
  next
    case False
    then have "current_write b = rb_capacity b" using wrote by (auto simp: rb_ok_def)
    then show ?thesis using write_full [of b now d ttl] wrote by simp
  qed
next
  case (read k b now n)
  then show ?case using read_live [of b now n] by simp
next
  case (expired k b now)
  then show ?case using evict_expired_ok by (simp add: evict_expired_def)
next
  case (shortest k b now)
  then show ?case using evict_shortest_ok by simp
qed

text \<open>
  (C33) The ring buffer delivers its messages in order: in every reachable state a read returns the first
  unread message that has not expired, cut to the reader's buffer, and leaves the ones behind it; a write
  that succeeds appends its message.
\<close>

theorem ttl_buffer_fifo:
  assumes "rb_run capacity k b"
  shows "(case live now b of
         [] \<Rightarrow> fst (rb_read (\<lambda>_. now) n b) = None \<and> live now (snd (rb_read (\<lambda>_. now) n b)) = []
       | (e, d) # q \<Rightarrow> fst (rb_read (\<lambda>_. now) n b) = Some (take n d) \<and> live now (snd (rb_read (\<lambda>_. now) n b)) = q)
    \<and> (rb_write now d ttl b = (True, b') \<longrightarrow> rb_queue b' = rb_queue b @ [(now + ttl, d)])"
proof
  show "case live now b of
         [] \<Rightarrow> fst (rb_read (\<lambda>_. now) n b) = None \<and> live now (snd (rb_read (\<lambda>_. now) n b)) = []
       | (e, d) # q \<Rightarrow> fst (rb_read (\<lambda>_. now) n b) = Some (take n d) \<and> live now (snd (rb_read (\<lambda>_. now) n b)) = q"
    using read_live rb_run_ok [OF assms] by blast
  show "rb_write now d ttl b = (True, b') \<longrightarrow> rb_queue b' = rb_queue b @ [(now + ttl, d)]"
  proof
    assume w: "rb_write now d ttl b = (True, b')"
    have ok: "rb_ok b" using rb_run_ok [OF assms] by simp
    then have lt: "current_write b < rb_capacity b"
      using w write_full [OF ok, of now d ttl] by (auto simp: rb_ok_def le_less)
    have i: "current_write b AND rb_mask b = current_write b" using lt by (simp add: rb_index [OF ok])
    have b': "b' = store_slot d (now + ttl) b" using w write_free [OF ok lt] by simp
    have l: "current_write b < length (rb_buffer b)" "current_read b \<le> current_write b" using ok lt by (auto simp: rb_ok_def)
    have "take (Suc (current_write b)) ((rb_buffer b)[current_write b := x]) = take (current_write b) (rb_buffer b) @ [x]" for x
      using l(1) by (simp add: take_Suc_conv_app_nth)
    then show "rb_queue b' = rb_queue b @ [(now + ttl, d)]"
      using l by (simp add: b' rb_queue_def store_slot_def i Let_def)
  qed
qed

text \<open>
  Slots are never reused: over the whole life of a buffer the first \<open>next_power_of_two capacity\<close> writes
  succeed and every later one fails, however much was read or has expired in between.
\<close>

theorem ttl_buffer_exhausts:
  assumes "rb_run capacity k b"
  shows "k \<le> next_power_of_two capacity \<and> fst (rb_write now d ttl b) = (k < next_power_of_two capacity)"
proof -
  have ok: "rb_ok b" "current_write b = k" "rb_capacity b = next_power_of_two capacity" using rb_run_ok [OF assms] by simp_all
  then have "k \<le> next_power_of_two capacity" by (auto simp: rb_ok_def)
  then show ?thesis
    using write_free [OF ok(1), of now d ttl] write_full [OF ok(1), of now d ttl] ok(2,3) by (auto simp: le_less)
qed

theorem ttl_buffer_fifo_witness:
  "fst (rb_read (\<lambda>_. 5) 10 (snd (rb_write 3 [1, 2] 100 (TTLCircularBuffer_new 1)))) = Some [1, 2]"
proof -
  let ?b = "snd (rb_write 3 [1, 2] 100 (TTLCircularBuffer_new 1))"
  have w: "rb_write 3 [1, 2] 100 (TTLCircularBuffer_new 1) = (True, ?b)"
    by (simp add: rb_write_def TTLCircularBuffer_new_def next_power_of_two_def free_slot_def slot_usable_def Let_def)
  have r: "rb_run 1 (Suc 0) ?b" using rb_run.wrote [OF rb_run.created w] by simp
  have "rb_queue (TTLCircularBuffer_new 1) = []" by (simp add: rb_queue_def TTLCircularBuffer_new_def Let_def)
  then have "rb_queue ?b = [(103, [1, 2])]"
    using ttl_buffer_fifo [OF rb_run.created [of 1], of 3 0 "[1, 2]" 100 ?b] w by simp
  then have "live 5 ?b = [(103, [1, 2])]" by (simp add: live_def)
  then show ?thesis using ttl_buffer_fifo [OF r, of 5 10] by simp
qed

theorem ttl_buffer_exhausts_witness:
  "fst (rb_write 9 [3] 100 (snd (rb_write 3 [1, 2] 100 (TTLCircularBuffer_new 1)))) = False"
proof -
  let ?b = "snd (rb_write 3 [1, 2] 100 (TTLCircularBuffer_new 1))"
  have w: "rb_write 3 [1, 2] 100 (TTLCircularBuffer_new 1) = (True, ?b)"
    by (simp add: rb_write_def TTLCircularBuffer_new_def next_power_of_two_def free_slot_def slot_usable_def Let_def)
  have "rb_run 1 (Suc 0) ?b" using rb_run.wrote [OF rb_run.created w] by simp
  from ttl_buffer_exhausts [OF this, of 9 "[3]" 100] show ?thesis by (simp add: next_power_of_two_def)
qed

end
