(* ===== verification/TTreeIdx.thy ===== *)
theory TTreeIdx
  imports SortedIdx
begin

text \<open>
  The T-tree index of \<^verbatim>\<open>src/src/index.rs\<close>, on a pool of nodes as for the B-tree: pointers are positions in
  the pool and the link of a free node is a field of its own.  The insertion stops by itself at depth 100;
  walks through more nodes than the pool has, which only a cyclic tree could cause, and a stack of more than
  64 nodes are a \<open>Fault\<close>, as is an access behind the three keys of a node.  Range queries leave the access
  counters aside.
\<close>

section \<open>State\<close>

definition TTREE_ORDER :: nat where
  "TTREE_ORDER = 3"

record TTreeNode =
  tn_count :: nat
  tn_keys :: "SecondaryIndexItem list"
  tn_left :: "nat option"
  tn_middle :: "nat option"
  tn_right :: "nat option"
  tn_next :: "nat option"

record TTreeIndex =
  tt_def :: TableDef
  tt_root :: "nat option"
  tt_nodes :: "TTreeNode list"
  tt_free :: "nat option"
  tt_max_nodes :: nat
  tt_access :: nat
  tt_hit :: nat
  tt_items :: nat

definition tt_reset_item :: "SecondaryIndexItem \<Rightarrow> SecondaryIndexItem" where
  "tt_reset_item it = it\<lparr>si_key_size := 0, si_record_id := 0, si_key_data := replicate 64 0 @ drop 64 (si_key_data it)\<rparr>"

definition tt_reset_node :: "TTreeNode \<Rightarrow> TTreeNode" where
  "tt_reset_node nd =
     nd\<lparr>tn_count := 0, tn_keys := map tt_reset_item (tn_keys nd), tn_left := None, tn_middle := None, tn_right := None\<rparr>"

definition TTreeIndex_new :: "TableDef \<Rightarrow> TTreeNode list \<Rightarrow> TTreeIndex" where
  "TTreeIndex_new d mem =
     \<lparr>tt_def = d, tt_root = None,
      tt_nodes = map (\<lambda>i. (tt_reset_node (mem ! i))\<lparr>tn_next := (if Suc i < length mem then Some (Suc i) else None)\<rparr>)
        [0..<length mem],
      tt_free = (if mem = [] then None else Some 0), tt_max_nodes = length mem,
      tt_access = 0, tt_hit = 0, tt_items = 0\<rparr>"

definition tt_set :: "nat \<Rightarrow> TTreeNode \<Rightarrow> TTreeIndex \<Rightarrow> TTreeIndex" where
  "tt_set i nd x = x\<lparr>tt_nodes := (tt_nodes x)[i := nd]\<rparr>"

definition tt_allocate_node :: "TTreeIndex \<Rightarrow> (nat \<times> TTreeIndex) option" where
  "tt_allocate_node x =
     (case tt_free x of
        None \<Rightarrow> None
      | Some i \<Rightarrow>
          let nd = tt_nodes x ! i in
          Some (i, tt_set i (tt_reset_node nd) (x\<lparr>tt_free := tn_next nd\<rparr>)))"

definition tt_free_node :: "nat \<Rightarrow> TTreeIndex \<Rightarrow> TTreeIndex" where
  "tt_free_node i x = (tt_set i ((tt_nodes x ! i)\<lparr>tn_next := tt_free x\<rparr>) x)\<lparr>tt_free := Some i\<rparr>"

section \<open>Keys in a node\<close>

definition tt_compare_items :: "SecondaryIndexItem \<Rightarrow> SecondaryIndexItem \<Rightarrow> ordering" where
  "tt_compare_items a b =
     (if si_key_size a \<noteq> si_key_size b then cmp (si_key_size a) (si_key_size b) else compare_bytes a b)"

fun tt_position :: "SecondaryIndexItem \<Rightarrow> SecondaryIndexItem list \<Rightarrow> nat \<times> ordering" where
  "tt_position key [] = (0, Less)"
| "tt_position key (k # ks) =
     (if tt_compare_items k key = Less then (let (p, c) = tt_position key ks in (Suc p, c))
      else (0, tt_compare_items k key))"

definition tt_find_key_position :: "TTreeNode \<Rightarrow> SecondaryIndexItem \<Rightarrow> nat \<times> ordering" where
  "tt_find_key_position nd key = tt_position key (take (tn_count nd) (tn_keys nd))"

definition insert_into_node :: "nat \<Rightarrow> SecondaryIndexItem \<Rightarrow> TTreeIndex \<Rightarrow> TTreeIndex outcome" where
  "insert_into_node node key x =
     (let nd = tt_nodes x ! node; pos = fst (tt_find_key_position nd key) in
      if tn_count nd \<ge> length (tn_keys nd) then Fault
      else Ok ((tt_set node (nd\<lparr>tn_keys := (shift_up pos (tn_count nd) (tn_keys nd))[pos := key],
                                tn_count := tn_count nd + 1\<rparr>) x)\<lparr>tt_items := tt_items x + 1\<rparr>))"

text \<open>The keys of a full node with the new key in front of the first greater one.\<close>

fun merge_key :: "SecondaryIndexItem list \<Rightarrow> SecondaryIndexItem \<Rightarrow> SecondaryIndexItem list" where
  "merge_key [] key = [key]"
| "merge_key (k # ks) key = (if tt_compare_items k key = Greater then key # k # ks else k # merge_key ks key)"

definition tt_mid :: nat where
  "tt_mid = (TTREE_ORDER + 1) div 2"

definition left_part :: "SecondaryIndexItem list \<Rightarrow> TTreeNode \<Rightarrow> TTreeNode" where
  "left_part keys nd = nd\<lparr>tn_count := tt_mid, tn_keys := take tt_mid keys @ drop tt_mid (tn_keys nd)\<rparr>"

definition right_part :: "SecondaryIndexItem list \<Rightarrow> TTreeNode \<Rightarrow> TTreeNode" where
  "right_part keys nd =
     (let n = TTREE_ORDER + 1 - tt_mid in
      nd\<lparr>tn_count := n, tn_keys := take n (drop tt_mid keys) @ drop n (tn_keys nd)\<rparr>)"

section \<open>Insertion\<close>

datatype tt_child = CLeft | CMiddle | CRight

definition child_at :: "nat \<Rightarrow> TTreeNode \<Rightarrow> tt_child" where
  "child_at pos nd = (if pos = 0 then CLeft else if pos < tn_count nd then CMiddle else CRight)"

fun get_child :: "tt_child \<Rightarrow> TTreeNode \<Rightarrow> nat option" where
  "get_child CLeft nd = tn_left nd"
| "get_child CMiddle nd = tn_middle nd"
| "get_child CRight nd = tn_right nd"

fun set_child :: "tt_child \<Rightarrow> nat \<Rightarrow> TTreeNode \<Rightarrow> TTreeNode" where
  "set_child CLeft i nd = nd\<lparr>tn_left := Some i\<rparr>"
| "set_child CMiddle i nd = nd\<lparr>tn_middle := Some i\<rparr>"
| "set_child CRight i nd = nd\<lparr>tn_right := Some i\<rparr>"

text \<open>A full child: its keys go to itself and to a new node, and the second one is copied to the parent.\<close>

definition split_full_child :: "nat \<Rightarrow> nat \<Rightarrow> SecondaryIndexItem \<Rightarrow> TTreeIndex \<Rightarrow> (RemDbError option \<times> TTreeIndex) outcome" where
  "split_full_child node child key x =
     (let keys = merge_key (take TTREE_ORDER (tn_keys (tt_nodes x ! child))) key in
      case tt_allocate_node x of
        None \<Rightarrow> Ok (Some OutOfMemory, x)
      | Some (new, x1) \<Rightarrow>
          let x2 = tt_set child (left_part keys (tt_nodes x1 ! child)) x1;
              x3 = tt_set new (right_part keys (tt_nodes x2 ! new)) x2;
              promoted = keys ! (tt_mid - 1) in
          and_then (insert_into_node node promoted x3) (\<lambda>x4.
          let nd = tt_nodes x4 ! node; p = fst (tt_find_key_position nd promoted);
              nd' = (if p = 0 then nd\<lparr>tn_left := Some child, tn_middle := Some new\<rparr>
                     else if p < tn_count nd then nd\<lparr>tn_middle := Some child, tn_right := Some new\<rparr>
                     else nd\<lparr>tn_right := Some new\<rparr>) in
          Ok (None, tt_set node nd' x4)))"

text \<open>A full node without a child on the way: the upper half of its keys goes to a new child there.\<close>

definition split_full_node :: "nat \<Rightarrow> nat \<Rightarrow> SecondaryIndexItem \<Rightarrow> TTreeIndex \<Rightarrow> RemDbError option \<times> TTreeIndex" where
  "split_full_node node pos key x =
     (case tt_allocate_node x of
        None \<Rightarrow> (Some OutOfMemory, x)
      | Some (new, x1) \<Rightarrow>
          let keys = merge_key (take TTREE_ORDER (tn_keys (tt_nodes x1 ! node))) key;
              x2 = tt_set node (left_part keys (tt_nodes x1 ! node)) x1;
              x3 = tt_set new (right_part keys (tt_nodes x2 ! new)) x2;
              nd = tt_nodes x3 ! node in
          (None, tt_set node (set_child (child_at pos nd) new nd) x3))"

definition MAX_RECURSION_DEPTH :: nat where
  "MAX_RECURSION_DEPTH = 100"

text \<open>The first argument counts the levels left: \<open>MAX_RECURSION_DEPTH + 1 - depth\<close>.\<close>

fun insert_recursive_with_depth ::
  "nat \<Rightarrow> nat \<Rightarrow> SecondaryIndexItem \<Rightarrow> TTreeIndex \<Rightarrow> (RemDbError option \<times> TTreeIndex) outcome" where
  "insert_recursive_with_depth 0 node key x = Ok (None, x)"
| "insert_recursive_with_depth (Suc room) node key x =
     (let nd = tt_nodes x ! node; (pos, c) = tt_find_key_position nd key in
      if c = Equal then
        Ok (None, tt_set node (nd\<lparr>tn_keys := (tn_keys nd)[pos := (tn_keys nd ! pos)\<lparr>si_record_id := si_record_id key\<rparr>]\<rparr>) x)
      else
        case get_child (child_at pos nd) nd of
          Some child \<Rightarrow>
            if tn_count (tt_nodes x ! child) = TTREE_ORDER then split_full_child node child key x
            else insert_recursive_with_depth room child key x
        | None \<Rightarrow>
            if tn_count nd < TTREE_ORDER then and_then (insert_into_node node key x) (\<lambda>x'. Ok (None, x'))
            else Ok (split_full_node node pos key x))"

definition tt_insert :: "bytes \<Rightarrow> u16 \<Rightarrow> TTreeIndex \<Rightarrow> TTreeIndex outcome" where
  "tt_insert key rid x =
     (if length key > 64 then Err UnsupportedOperation
      else let new_item = make_item key rid in
        case tt_root x of
          None \<Rightarrow>
            (case tt_allocate_node x of
               None \<Rightarrow> Err OutOfMemory
             | Some (r, x1) \<Rightarrow>
                 let nd = tt_nodes x1 ! r in
                 Ok ((tt_set r (nd\<lparr>tn_keys := (tn_keys nd)[0 := new_item], tn_count := 1\<rparr>) x1)\<lparr>tt_root := Some r\<rparr>))
        | Some root \<Rightarrow>
            if tn_count (tt_nodes x ! root) = TTREE_ORDER then
              (case tt_allocate_node x of
                 None \<Rightarrow> Err OutOfMemory
               | Some (r, x1) \<Rightarrow>
                   let keys = merge_key (take TTREE_ORDER (tn_keys (tt_nodes x1 ! root))) new_item in
                   case tt_allocate_node x1 of
                     None \<Rightarrow> Err OutOfMemory
                   | Some (right, x2) \<Rightarrow>
                       let x3 = tt_set root (left_part keys (tt_nodes x2 ! root)) x2;
                           x4 = tt_set right (right_part keys (tt_nodes x3 ! right)) x3;
                           nd = tt_nodes x4 ! r in
                       Ok ((tt_set r (nd\<lparr>tn_keys := (tn_keys nd)[0 := keys ! (tt_mid - 1)], tn_count := 1,
                                         tn_left := Some root, tn_right := Some right\<rparr>) x4)\<lparr>tt_root := Some r\<rparr>))
            else
              and_then (insert_recursive_with_depth (MAX_RECURSION_DEPTH + 1) root new_item x) (\<lambda>(e, x'). Ok x'))"

section \<open>Lookup\<close>

fun tt_find_loop :: "nat \<Rightarrow> TTreeIndex \<Rightarrow> SecondaryIndexItem \<Rightarrow> nat option \<Rightarrow> u16 option outcome" where
  "tt_find_loop 0 x key current = Fault"
| "tt_find_loop (Suc fuel) x key current =
     (case current of
        None \<Rightarrow> Ok None
      | Some i \<Rightarrow>
          let nd = tt_nodes x ! i; (pos, c) = tt_find_key_position nd key in
          if c = Equal then Ok (Some (si_record_id (tn_keys nd ! pos)))
          else tt_find_loop fuel x key (get_child (child_at pos nd) nd))"

definition tt_find :: "bytes \<Rightarrow> TTreeIndex \<Rightarrow> u16 outcome \<times> TTreeIndex" where
  "tt_find key x =
     (let x1 = x\<lparr>tt_access := tt_access x + 1\<rparr> in
      if length key > 64 then (Err UnsupportedOperation, x1)
      else case tt_find_loop (tt_max_nodes x + 1) x (make_item key 0) (tt_root x) of
             Ok (Some r) \<Rightarrow> (Ok r, x1\<lparr>tt_hit := tt_hit x + 1\<rparr>)
           | Ok None \<Rightarrow> (Err RecordNotFound, x1)
           | Err e \<Rightarrow> (Err e, x1)
           | Fault \<Rightarrow> (Fault, x1))"

text \<open>A node and the chain of its left children onto the stack, which has 64 places.\<close>

definition STACK_SIZE :: nat where
  "STACK_SIZE = 64"

function push_left :: "TTreeIndex \<Rightarrow> nat list \<Rightarrow> nat option \<Rightarrow> nat list outcome" where
  "push_left x st current =
     (case current of
        None \<Rightarrow> Ok st
      | Some i \<Rightarrow> if length st \<ge> STACK_SIZE then Fault else push_left x (i # st) (tn_left (tt_nodes x ! i)))"
  by pat_completeness auto

termination by (relation "measure (\<lambda>(x, st, c). STACK_SIZE - length st)") auto

text \<open>The keys of a node in the range: the scan ends at the first key behind it.\<close>

fun range_keys :: "SecondaryIndexItem \<Rightarrow> SecondaryIndexItem \<Rightarrow> SecondaryIndexItem list \<Rightarrow> SecondaryIndexItem list" where
  "range_keys start stop [] = []"
| "range_keys start stop (k # ks) =
     (if tt_compare_items k stop = Greater then []
      else if tt_compare_items k start \<noteq> Less then k # range_keys start stop ks
      else range_keys start stop ks)"

fun tt_walk :: "nat \<Rightarrow> TTreeIndex \<Rightarrow> SecondaryIndexItem \<Rightarrow> SecondaryIndexItem \<Rightarrow> nat \<Rightarrow> nat list \<Rightarrow> SecondaryIndexItem list outcome" where
  "tt_walk fuel x start stop limit [] = Ok []"
| "tt_walk 0 x start stop limit (i # st) = Fault"
| "tt_walk (Suc fuel) x start stop limit (i # st) =
     (if limit = 0 then Ok []
      else
        let nd = tt_nodes x ! i;
            found = take limit (range_keys start stop (take (tn_count nd) (tn_keys nd))) in
        and_then (push_left x st (tn_right nd)) (\<lambda>st'.
        and_then (tt_walk fuel x start stop (limit - length found) st') (\<lambda>r. Ok (found @ r))))"

definition tt_range_items :: "bytes \<Rightarrow> bytes \<Rightarrow> nat \<Rightarrow> TTreeIndex \<Rightarrow> SecondaryIndexItem list outcome" where
  "tt_range_items lo hi limit x =
     (if length lo > 128 \<or> length hi > 128 then Fault
      else and_then (push_left x [] (tt_root x))
        (\<lambda>st. tt_walk (tt_max_nodes x + 1) x (make_item lo 0) (make_item hi 0) limit st))"

text \<open>\<open>find_range\<close> returns at the first match, before it goes on to the right.\<close>

fun tt_walk_first :: "nat \<Rightarrow> TTreeIndex \<Rightarrow> SecondaryIndexItem \<Rightarrow> SecondaryIndexItem \<Rightarrow> nat list \<Rightarrow> u16 outcome" where
  "tt_walk_first fuel x start stop [] = Err RecordNotFound"
| "tt_walk_first 0 x start stop (i # st) = Fault"
| "tt_walk_first (Suc fuel) x start stop (i # st) =
     (let nd = tt_nodes x ! i in
      case range_keys start stop (take (tn_count nd) (tn_keys nd)) of
        k # ks \<Rightarrow> Ok (si_record_id k)
      | [] \<Rightarrow> and_then (push_left x st (tn_right nd)) (tt_walk_first fuel x start stop))"

definition tt_find_range :: "bytes \<Rightarrow> bytes \<Rightarrow> TTreeIndex \<Rightarrow> u16 outcome" where
  "tt_find_range lo hi x =
     (if length lo > 128 \<or> length hi > 128 then Fault
      else and_then (push_left x [] (tt_root x))
        (tt_walk_first (tt_max_nodes x + 1) x (make_item lo 0) (make_item hi 0)))"

definition tt_find_range_all :: "bytes \<Rightarrow> bytes \<Rightarrow> nat option \<Rightarrow> TTreeIndex \<Rightarrow> u16 list outcome" where
  "tt_find_range_all lo hi out x =
     (case out of
        None \<Rightarrow> Err UnsupportedOperation
      | Some n \<Rightarrow> and_then (tt_range_items lo hi n x) (\<lambda>r. Ok (map si_record_id r)))"

definition tt_delete :: "bytes \<Rightarrow> TTreeIndex \<Rightarrow> TTreeIndex outcome" where
  "tt_delete key x = Err UnsupportedOperation"

end
