(* ===== verification/BTreeIdx.thy ===== *)
theory BTreeIdx
  imports SortedIdx
begin

text \<open>
  The B-tree index of \<^verbatim>\<open>src/src/index.rs\<close>.  Nodes live in a pool and pointers are positions in it; the
  link of a free node, which the code keeps in the bytes of its first key, is a field of its own.  Reading or
  writing behind the end of an array is a \<open>Fault\<close>, and so is a recursion through more nodes than the pool
  has, which only a cyclic tree could cause.  The errors that \<open>insert\<close> drops come with the state that goes on.
  Range queries leave the access counters aside.
\<close>

section \<open>State\<close>

definition BTREE_ORDER :: nat where
  "BTREE_ORDER = 4"

record BTreeNode =
  bn_leaf :: bool
  bn_count :: nat
  bn_keys :: "SecondaryIndexItem list"
  bn_children :: "nat option list"
  bn_next :: "nat option"

record BTreeIndex =
  bt_def :: TableDef
  bt_root :: "nat option"
  bt_nodes :: "BTreeNode list"
  bt_free :: "nat option"
  bt_max_nodes :: nat
  bt_access :: nat
  bt_hit :: nat
  bt_items :: nat

text \<open>Resetting a key clears its size, its record id and the first 64 bytes of its data.\<close>

definition reset_item :: "SecondaryIndexItem \<Rightarrow> SecondaryIndexItem" where
  "reset_item it = it\<lparr>si_key_size := 0, si_record_id := 0, si_key_data := replicate 64 0 @ drop 64 (si_key_data it)\<rparr>"

definition reset_node :: "BTreeNode \<Rightarrow> BTreeNode" where
  "reset_node nd =
     nd\<lparr>bn_leaf := True, bn_count := 0, bn_keys := map reset_item (bn_keys nd),
        bn_children := replicate (BTREE_ORDER + 1) None\<rparr>"

text \<open>All nodes of the given memory on the free list, in order.\<close>

definition BTreeIndex_new :: "TableDef \<Rightarrow> BTreeNode list \<Rightarrow> BTreeIndex" where
  "BTreeIndex_new d mem =
     \<lparr>bt_def = d, bt_root = None,
      bt_nodes = map (\<lambda>i. (reset_node (mem ! i))\<lparr>bn_next := (if Suc i < length mem then Some (Suc i) else None)\<rparr>)
        [0..<length mem],
      bt_free = (if mem = [] then None else Some 0), bt_max_nodes = length mem,
      bt_access = 0, bt_hit = 0, bt_items = 0\<rparr>"

definition bt_set :: "nat \<Rightarrow> BTreeNode \<Rightarrow> BTreeIndex \<Rightarrow> BTreeIndex" where
  "bt_set i nd x = x\<lparr>bt_nodes := (bt_nodes x)[i := nd]\<rparr>"

definition bt_allocate_node :: "BTreeIndex \<Rightarrow> (nat \<times> BTreeIndex) option" where
  "bt_allocate_node x =
     (case bt_free x of
        None \<Rightarrow> None
      | Some i \<Rightarrow>
          let nd = bt_nodes x ! i in
          Some (i, bt_set i (reset_node nd) (x\<lparr>bt_free := bn_next nd\<rparr>)))"

definition bt_free_node :: "nat \<Rightarrow> BTreeIndex \<Rightarrow> BTreeIndex" where
  "bt_free_node i x = (bt_set i ((bt_nodes x ! i)\<lparr>bn_next := bt_free x\<rparr>) x)\<lparr>bt_free := Some i\<rparr>"

section \<open>Insertion\<close>

fun position_from :: "(SecondaryIndexItem \<Rightarrow> bool) \<Rightarrow> SecondaryIndexItem list \<Rightarrow> nat" where
  "position_from lt [] = 0"
| "position_from lt (k # ks) = (if lt k then Suc (position_from lt ks) else 0)"

definition find_key_position :: "TableDef \<Rightarrow> BTreeNode \<Rightarrow> SecondaryIndexItem \<Rightarrow> nat" where
  "find_key_position d nd key =
     position_from (\<lambda>k. compare_items d k key = Less) (take (bn_count nd) (bn_keys nd))"

text \<open>Copying \<open>n\<close> elements from position \<open>from\<close> to the front of an array, element by element.\<close>

definition copy_range :: "'a list \<Rightarrow> nat \<Rightarrow> nat \<Rightarrow> 'a list \<Rightarrow> 'a list outcome" where
  "copy_range src from n dst =
     (if from + n > length src \<or> n > length dst then Fault
      else Ok (take n (drop from src) @ drop n dst))"

definition split_child :: "nat \<Rightarrow> nat \<Rightarrow> nat \<Rightarrow> BTreeIndex \<Rightarrow> (RemDbError option \<times> BTreeIndex) outcome" where
  "split_child parent idx child x =
     (case bt_allocate_node x of
        None \<Rightarrow> Ok (Some OutOfMemory, x)
      | Some (new, x1) \<Rightarrow>
          let half = BTREE_ORDER div 2; c = bt_nodes x1 ! child; nn = bt_nodes x1 ! new in
          and_then (copy_range (bn_keys c) (half + 1) half (bn_keys nn)) (\<lambda>nkeys.
          and_then (if bn_leaf c then Ok (bn_children nn)
                    else copy_range (bn_children c) (half + 1) (half + 1) (bn_children nn)) (\<lambda>nchildren.
          let x2 = bt_set new (nn\<lparr>bn_leaf := bn_leaf c, bn_count := half, bn_keys := nkeys, bn_children := nchildren\<rparr>)
                     (bt_set child (c\<lparr>bn_count := half\<rparr>) x1);
              p = bt_nodes x2 ! parent in
          if bn_count p \<ge> BTREE_ORDER \<or> idx > bn_count p then Fault
          else
            let keys = (shift_up idx (bn_count p) (bn_keys p))[idx := bn_keys c ! half];
                children = (shift_up (idx + 1) (bn_count p + 1) (bn_children p))[idx + 1 := Some new] in
            Ok (None, bt_set parent (p\<lparr>bn_keys := keys, bn_children := children, bn_count := bn_count p + 1\<rparr>) x2))))"

fun insert_non_full :: "nat \<Rightarrow> nat \<Rightarrow> SecondaryIndexItem \<Rightarrow> BTreeIndex \<Rightarrow> (RemDbError option \<times> BTreeIndex) outcome" where
  "insert_non_full 0 node key x = Fault"
| "insert_non_full (Suc fuel) node key x =
     (let nd = bt_nodes x ! node; pos = find_key_position (bt_def x) nd key in
      if bn_leaf nd then
        (if bn_count nd \<ge> length (bn_keys nd) then Fault
         else
           let keys = (shift_up pos (bn_count nd) (bn_keys nd))[pos := key] in
           Ok (None, (bt_set node (nd\<lparr>bn_keys := keys, bn_count := bn_count nd + 1\<rparr>) x)\<lparr>bt_items := bt_items x + 1\<rparr>))
      else
        case bn_children nd ! pos of
          None \<Rightarrow> Ok (Some (InvalidData ''Child node not found''), x)
        | Some child \<Rightarrow>
            if bn_count (bt_nodes x ! child) = BTREE_ORDER then
              (case split_child node pos child x of
                 Ok (Some e, x1) \<Rightarrow> Ok (Some e, x1)
               | Ok (None, x1) \<Rightarrow>
                   let nd1 = bt_nodes x1 ! node;
                       pos1 = (if compare_items (bt_def x) (bn_keys nd1 ! pos) key = Less then pos + 1 else pos) in
                   (case bn_children nd1 ! pos1 of
                      None \<Rightarrow> Ok (Some (InvalidData ''Child node not found after split''), x1)
                    | Some c \<Rightarrow> insert_non_full fuel c key x1)
               | Err e \<Rightarrow> Err e | Fault \<Rightarrow> Fault)
            else insert_non_full fuel child key x)"

definition bt_insert :: "bytes \<Rightarrow> u16 \<Rightarrow> BTreeIndex \<Rightarrow> BTreeIndex outcome" where
  "bt_insert key rid x =
     (if length key > 64 then Err UnsupportedOperation
      else let new_item = make_item key rid in
        case bt_root x of
          None \<Rightarrow>
            (case bt_allocate_node x of
               None \<Rightarrow> Err OutOfMemory
             | Some (r, x1) \<Rightarrow>
                 let nd = bt_nodes x1 ! r in
                 Ok ((bt_set r (nd\<lparr>bn_keys := (bn_keys nd)[0 := new_item], bn_count := 1\<rparr>) x1)\<lparr>bt_root := Some r\<rparr>))
        | Some root \<Rightarrow>
            if bn_count (bt_nodes x ! root) = BTREE_ORDER then
              (case bt_allocate_node x of
                 None \<Rightarrow> Err OutOfMemory
               | Some (r, x1) \<Rightarrow>
                   let nd = bt_nodes x1 ! r;
                       x2 = bt_set r (nd\<lparr>bn_leaf := False, bn_count := 0, bn_children := (bn_children nd)[0 := Some root]\<rparr>) x1 in
                   and_then (split_child r 0 root x2) (\<lambda>(e, x3).
                   and_then (insert_non_full (bt_max_nodes x + 1) r new_item x3) (\<lambda>(e', x4).
                     Ok (x4\<lparr>bt_root := Some r\<rparr>))))
            else
              and_then (insert_non_full (bt_max_nodes x + 1) root new_item x) (\<lambda>(e, x'). Ok x'))"

section \<open>Lookup\<close>

fun bt_find_loop :: "nat \<Rightarrow> BTreeIndex \<Rightarrow> SecondaryIndexItem \<Rightarrow> nat option \<Rightarrow> u16 option outcome" where
  "bt_find_loop 0 x key current = Fault"
| "bt_find_loop (Suc fuel) x key current =
     (case current of
        None \<Rightarrow> Ok None
      | Some i \<Rightarrow>
          let nd = bt_nodes x ! i; pos = find_key_position (bt_def x) nd key in
          if pos < bn_count nd \<and> compare_items (bt_def x) (bn_keys nd ! pos) key = Equal
          then Ok (Some (si_record_id (bn_keys nd ! pos)))
          else if bn_leaf nd then Ok None
          else bt_find_loop fuel x key (bn_children nd ! pos))"

definition bt_find :: "bytes \<Rightarrow> BTreeIndex \<Rightarrow> u16 outcome \<times> BTreeIndex" where
  "bt_find key x =
     (let x1 = x\<lparr>bt_access := bt_access x + 1\<rparr> in
      if length key > 64 then (Err UnsupportedOperation, x1)
      else case bt_find_loop (bt_max_nodes x + 1) x (make_item key 0) (bt_root x) of
             Ok (Some r) \<Rightarrow> (Ok r, x1\<lparr>bt_hit := bt_hit x + 1\<rparr>)
           | Ok None \<Rightarrow> (Err RecordNotFound, x1)
           | Err e \<Rightarrow> (Err e, x1)
           | Fault \<Rightarrow> (Fault, x1))"

text \<open>The way down to a leaf, on a stack of 64 nodes; the top of the stack is the head of the list.\<close>

fun bt_descend :: "BTreeIndex \<Rightarrow> SecondaryIndexItem \<Rightarrow> nat \<Rightarrow> nat list \<Rightarrow> nat option \<Rightarrow> nat list outcome" where
  "bt_descend x start 0 st current = (case current of None \<Rightarrow> Ok st | Some i \<Rightarrow> Fault)"
| "bt_descend x start (Suc room) st current =
     (case current of
        None \<Rightarrow> Ok st
      | Some i \<Rightarrow>
          let nd = bt_nodes x ! i in
          if bn_leaf nd then Ok (i # st)
          else bt_descend x start room (i # st) (bn_children nd ! find_key_position (bt_def x) nd start))"

definition not_after :: "TableDef \<Rightarrow> SecondaryIndexItem \<Rightarrow> SecondaryIndexItem \<Rightarrow> bool" where
  "not_after d stop k \<longleftrightarrow> compare_items d k stop \<noteq> Greater"

text \<open>The keys of one node behind its start position, and those of the leftmost path of a subtree.\<close>

definition node_matches :: "BTreeIndex \<Rightarrow> SecondaryIndexItem \<Rightarrow> SecondaryIndexItem \<Rightarrow> nat \<Rightarrow> SecondaryIndexItem list" where
  "node_matches x start stop i =
     (let nd = bt_nodes x ! i in
      filter (not_after (bt_def x) stop)
        (drop (find_key_position (bt_def x) nd start) (take (bn_count nd) (bn_keys nd))))"

fun left_path_matches :: "nat \<Rightarrow> BTreeIndex \<Rightarrow> SecondaryIndexItem \<Rightarrow> nat \<Rightarrow> nat option \<Rightarrow> SecondaryIndexItem list outcome" where
  "left_path_matches 0 x stop limit current = Fault"
| "left_path_matches (Suc fuel) x stop limit current =
     (case current of
        None \<Rightarrow> Ok []
      | Some i \<Rightarrow>
          let nd = bt_nodes x ! i;
              found = take limit (takeWhile (not_after (bt_def x) stop) (take (bn_count nd) (bn_keys nd))) in
          if bn_leaf nd \<or> length found \<ge> limit then Ok found
          else and_then (left_path_matches fuel x stop (limit - length found) (bn_children nd ! 0)) (\<lambda>r. Ok (found @ r)))"

fun bt_collect :: "BTreeIndex \<Rightarrow> SecondaryIndexItem \<Rightarrow> SecondaryIndexItem \<Rightarrow> nat \<Rightarrow> nat list \<Rightarrow> SecondaryIndexItem list outcome" where
  "bt_collect x start stop limit [] = Ok []"
| "bt_collect x start stop limit (i # st) =
     (if limit = 0 then Ok []
      else
        let nd = bt_nodes x ! i; found = take limit (node_matches x start stop i) in
        and_then (if bn_leaf nd \<or> length found \<ge> limit then Ok []
                  else left_path_matches (bt_max_nodes x + 1) x stop (limit - length found) (bn_children nd ! bn_count nd)) (\<lambda>r.
        and_then (bt_collect x start stop (limit - length found - length r) st) (\<lambda>r'. Ok (found @ r @ r'))))"

definition bt_range_items :: "bytes \<Rightarrow> bytes \<Rightarrow> nat \<Rightarrow> BTreeIndex \<Rightarrow> SecondaryIndexItem list outcome" where
  "bt_range_items lo hi limit x =
     (if length lo > 128 \<or> length hi > 128 then Fault
      else and_then (bt_descend x (make_item lo 0) 64 [] (bt_root x))
        (\<lambda>st. bt_collect x (make_item lo 0) (make_item hi 0) limit st))"

definition bt_find_range :: "bytes \<Rightarrow> bytes \<Rightarrow> BTreeIndex \<Rightarrow> u16 outcome" where
  "bt_find_range lo hi x =
     and_then (bt_range_items lo hi 1 x)
       (\<lambda>r. case r of [] \<Rightarrow> Err RecordNotFound | k # ks \<Rightarrow> Ok (si_record_id k))"

definition bt_find_range_all :: "bytes \<Rightarrow> bytes \<Rightarrow> nat option \<Rightarrow> BTreeIndex \<Rightarrow> u16 list outcome" where
  "bt_find_range_all lo hi out x =
     (case out of
        None \<Rightarrow> Err UnsupportedOperation
      | Some n \<Rightarrow> and_then (bt_range_items lo hi n x) (\<lambda>r. Ok (map si_record_id r)))"

definition bt_delete :: "bytes \<Rightarrow> BTreeIndex \<Rightarrow> BTreeIndex outcome" where
  "bt_delete key x = Err UnsupportedOperation"

end
