(* ===== verification/BTreeIdx_Inv.thy ===== *)
theory BTreeIdx_Inv
  imports BTreeIdx SortedIdx_Inv
begin

text \<open>
  The B-tree index holds one leaf of four keys.  Up to there it keeps them in order; the first split reads
  behind the end of the key array.
\<close>

section \<open>One leaf\<close>

text \<open>A pool of \<open>n\<close> nodes whose first node is the root, a leaf with the keys \<open>ks\<close>; the others are free.\<close>

definition leaf_state :: "nat \<Rightarrow> TableDef \<Rightarrow> SecondaryIndexItem list \<Rightarrow> BTreeIndex \<Rightarrow> bool" where
  "leaf_state n d ks x \<longleftrightarrow>
     bt_def x = d \<and> length (bt_nodes x) = n \<and> 0 < n \<and> bt_max_nodes x = n \<and> bt_root x = Some 0
     \<and> bt_free x = (if 1 < n then Some 1 else None)
     \<and> (\<forall>i. 1 \<le> i \<and> i < n \<longrightarrow> bn_next (bt_nodes x ! i) = (if Suc i < n then Some (Suc i) else None)
           \<and> length (bn_keys (bt_nodes x ! i)) = 4)
     \<and> bn_leaf (bt_nodes x ! 0) \<and> bn_count (bt_nodes x ! 0) = length ks \<and> length (bn_keys (bt_nodes x ! 0)) = 4
     \<and> take (length ks) (bn_keys (bt_nodes x ! 0)) = ks \<and> length ks \<le> 4
     \<and> (\<forall>k\<in>set ks. wf_item k) \<and> sorted_wrt item_le ks"

definition ins_item :: "SecondaryIndexItem \<Rightarrow> SecondaryIndexItem list \<Rightarrow> SecondaryIndexItem list" where
  "ins_item key ks = takeWhile (\<lambda>k. item_cmp k key = Less) ks @ key # dropWhile (\<lambda>k. item_cmp k key = Less) ks"

lemma position_from_takeWhile: "position_from P ks = length (takeWhile P ks)"
  by (induction ks) auto

lemma position_takeWhile:
  "\<forall>k\<in>set ks. wf_item k \<Longrightarrow> wf_item key \<Longrightarrow>
    position_from (\<lambda>k. compare_items d k key = Less) ks = length (takeWhile (\<lambda>k. item_cmp k key = Less) ks)"
  unfolding position_from_takeWhile by (rule arg_cong [of _ _ length]) (auto intro!: takeWhile_cong simp: compare_items_eq)

lemma ins_item_mset: "mset (ins_item key ks) = mset ks + {#key#}"
proof -
  have "mset (takeWhile P ks) + mset (dropWhile P ks) = mset ks" for P
    by (metis mset_append takeWhile_dropWhile_id)
  then show ?thesis by (simp add: ins_item_def)
qed

lemma item_le_iff: "item_le s k \<longleftrightarrow> item_cmp k s \<noteq> Less"
  using item_cmp_swap [of k s] by (cases "item_cmp s k") (auto simp: item_le_def)

lemma ins_item_sorted:
  assumes "sorted_wrt item_le ks"
  shows "sorted_wrt item_le (ins_item key ks)"
proof -
  let ?P = "\<lambda>k. item_cmp k key = Less"
  have s: "sorted_wrt item_le (takeWhile ?P ks @ dropWhile ?P ks)" using assms by simp
  have a: "item_le k key" if "k \<in> set (takeWhile ?P ks)" for k
    using set_takeWhileD [OF that] by (simp add: item_le_def)
  have b: "item_le key k" if m: "k \<in> set (dropWhile ?P ks)" for k
  proof -
    obtain h r where r: "dropWhile ?P ks = h # r" using m by (cases "dropWhile ?P ks") (simp_all del: dropWhile_eq_Nil_conv)
    have h: "\<not> ?P h" using hd_dropWhile [of ?P ks] r by simp
    then have "item_le key h" by (simp add: item_le_iff)
    moreover have "k = h \<or> item_le h k" using m s r by (auto simp: sorted_wrt_append)
    ultimately show ?thesis using item_le_trans by blast
  qed
  show ?thesis using s a b item_le_trans unfolding ins_item_def sorted_wrt_append by auto
qed

lemma insert_array:
  assumes "pos \<le> n" "n < length xs"
  shows "take (Suc n) ((shift_up pos n xs)[pos := key]) = take pos (take n xs) @ key # drop pos (take n xs)"
    and "length ((shift_up pos n xs)[pos := key]) = length xs"
proof -
  have u: "shift_up pos n xs = take pos xs @ xs ! pos # take (n - pos) (drop pos xs) @ drop (Suc n) xs"
    using shift_up_spec [OF assms] assms by (simp add: take_Suc_conv_app_nth)
  then have "(shift_up pos n xs)[pos := key] = take pos xs @ key # take (n - pos) (drop pos xs) @ drop (Suc n) xs"
    using assms by (simp add: list_update_append)
  then show "take (Suc n) ((shift_up pos n xs)[pos := key]) = take pos (take n xs) @ key # drop pos (take n xs)"
    using assms by (simp add: Suc_diff_le min_absorb1 drop_take)
  show "length ((shift_up pos n xs)[pos := key]) = length xs" using u assms by simp
qed

lemma leaf_position:
  "leaf_state n d ks x \<Longrightarrow> wf_item key \<Longrightarrow>
    find_key_position d (bt_nodes x ! 0) key = length (takeWhile (\<lambda>k. item_cmp k key = Less) ks)"
  by (simp add: find_key_position_def leaf_state_def position_takeWhile)

lemma leaf_insert:
  assumes "leaf_state n d ks x" "length ks < 4" "length key \<le> 64"
  shows "\<exists>x'. bt_insert key rid x = Ok x' \<and> leaf_state n d (ins_item (make_item key rid) ks) x'"
proof -
  let ?it = "make_item key rid" and ?nd = "bt_nodes x ! 0"
  let ?pos = "length (takeWhile (\<lambda>k. item_cmp k ?it = Less) ks)"
  have w: "wf_item ?it" using assms(3) by simp
  have p: "find_key_position (bt_def x) ?nd ?it = ?pos" using leaf_position [OF assms(1) w] assms(1) by (simp add: leaf_state_def)
  define keys where "keys = (shift_up ?pos (length ks) (bn_keys ?nd))[?pos := ?it]"
  define x' where "x' = (bt_set 0 (?nd\<lparr>bn_keys := keys, bn_count := length ks + 1\<rparr>) x)\<lparr>bt_items := bt_items x + 1\<rparr>"
  have l: "?pos \<le> length ks" "length ks < length (bn_keys ?nd)"
    using assms(1,2) length_takeWhile_le by (auto simp: leaf_state_def)
  have tk: "take (length ks) (bn_keys ?nd) = ks" "length (bn_keys ?nd) = 4" using assms(1) by (simp_all add: leaf_state_def)
  have k: "take (Suc (length ks)) keys = ins_item ?it ks"
    using insert_array(1) [OF l, of ?it] unfolding keys_def tk(1) ins_item_def
    by (simp only: takeWhile_eq_take [symmetric] dropWhile_eq_drop [symmetric])
  have kl: "length keys = 4" using insert_array(2) [OF l, of ?it] tk(2) by (simp add: keys_def)
  have r: "bt_root x = Some 0" "bn_count ?nd = length ks" "bn_leaf ?nd" "length (bn_keys ?nd) = 4"
    using assms(1) by (simp_all add: leaf_state_def)
  have "bt_insert key rid x = Ok x'"
    using assms(2,3) r p by (simp add: bt_insert_def BTREE_ORDER_def Let_def x'_def keys_def)
  moreover have "length (ins_item ?it ks) = Suc (length ks)" using arg_cong [OF ins_item_mset [of ?it ks], of size] by simp
  moreover have "set (ins_item ?it ks) = insert ?it (set ks)" using arg_cong [OF ins_item_mset [of ?it ks], of set_mset] by simp
  ultimately have "leaf_state n d (ins_item ?it ks) x'"
    using assms(1,2) k kl w ins_item_sorted [of ks ?it]
    by (auto simp: leaf_state_def x'_def bt_set_def nth_list_update)
  then show ?thesis using \<open>bt_insert key rid x = Ok x'\<close> by blast
qed

section \<open>Building the leaf\<close>

fun bt_insert_all :: "(bytes \<times> u16) list \<Rightarrow> BTreeIndex \<Rightarrow> BTreeIndex outcome" where
  "bt_insert_all [] x = Ok x"
| "bt_insert_all ((key, rid) # ps) x = and_then (bt_insert key rid x) (bt_insert_all ps)"

definition wf_pool :: "BTreeNode list \<Rightarrow> bool" where
  "wf_pool mem \<longleftrightarrow> mem \<noteq> [] \<and> (\<forall>nd\<in>set mem. length (bn_keys nd) = BTREE_ORDER)"

lemma length_reset_keys [simp]: "length (bn_keys (reset_node nd)) = length (bn_keys nd)"
  by (simp add: reset_node_def)

lemma first_insert:
  assumes "wf_pool mem" "length key \<le> 64"
  shows "\<exists>x. bt_insert key rid (BTreeIndex_new d mem) = Ok x \<and> leaf_state (length mem) d [make_item key rid] x"
proof -
  have k: "length (bn_keys (mem ! i)) = 4" if "i < length mem" for i
    using assms(1) that by (simp add: wf_pool_def BTREE_ORDER_def)
  have n: "0 < length mem" using assms(1) by (simp add: wf_pool_def)
  have "take 1 ((bn_keys (reset_node ((reset_node (mem ! 0))\<lparr>bn_next := q\<rparr>)))[0 := make_item key rid]) = [make_item key rid]" for q
    using k [OF n] by (cases "bn_keys (mem ! 0)") (auto simp: reset_node_def)
  then show ?thesis
    using assms n k
    by (auto simp: bt_insert_def BTreeIndex_new_def bt_allocate_node_def bt_set_def leaf_state_def Let_def
        nth_list_update reset_node_def wf_pool_def)
qed

lemma leaf_inserts:
  assumes "leaf_state n d ks x" "length ks + length ps \<le> 4" "\<forall>p\<in>set ps. length (fst p) \<le> 64"
  shows "\<exists>x' ks'. bt_insert_all ps x = Ok x' \<and> leaf_state n d ks' x'
    \<and> mset ks' = mset ks + mset (map (\<lambda>(key, rid). make_item key rid) ps)"
  using assms
proof (induction ps arbitrary: ks x)
  case Nil
  then show ?case by auto
next
  case (Cons p ps)
  obtain key rid where p: "p = (key, rid)" by fastforce
  obtain x1 where x1: "bt_insert key rid x = Ok x1" "leaf_state n d (ins_item (make_item key rid) ks) x1"
    using leaf_insert [OF Cons.prems(1), of key rid] Cons.prems p by auto
  have "length (ins_item (make_item key rid) ks) = Suc (length ks)"
    using arg_cong [OF ins_item_mset [of "make_item key rid" ks], of size] by simp
  then obtain x' ks' where "bt_insert_all ps x1 = Ok x'" "leaf_state n d ks' x'"
    "mset ks' = mset (ins_item (make_item key rid) ks) + mset (map (\<lambda>(key, rid). make_item key rid) ps)"
    using Cons.IH [OF x1(2)] Cons.prems by auto
  then show ?case using x1(1) p by (auto simp: ins_item_mset)
qed

lemma new_inserts:
  assumes "wf_pool mem" "ps \<noteq> []" "length ps \<le> 4" "\<forall>p\<in>set ps. length (fst p) \<le> 64"
  shows "\<exists>x ks. bt_insert_all ps (BTreeIndex_new d mem) = Ok x \<and> leaf_state (length mem) d ks x
    \<and> mset ks = mset (map (\<lambda>(key, rid). make_item key rid) ps)"
proof -
  obtain key rid qs where p: "ps = (key, rid) # qs" using assms(2) by (metis list.exhaust surj_pair)
  obtain x1 where x1: "bt_insert key rid (BTreeIndex_new d mem) = Ok x1" "leaf_state (length mem) d [make_item key rid] x1"
    using first_insert [OF assms(1), of key rid d] assms(4) p by auto
  show ?thesis using leaf_inserts [OF x1(2), of qs] assms(3,4) p x1(1) by auto
qed

section \<open>Queries on the leaf\<close>

lemma wf_pool_fuel: "leaf_state n d ks x \<Longrightarrow> bt_max_nodes x + 1 = Suc n"
  by (simp add: leaf_state_def)

lemma sorted_drop_filter:
  assumes "sorted_wrt item_le ks"
  shows "dropWhile (\<lambda>k. item_cmp k s = Less) ks = filter (item_le s) ks"
  using assms
proof (induction ks)
  case (Cons k ks)
  have q: "item_cmp k s = Less \<longleftrightarrow> \<not> item_le s k" for k
    by (simp add: item_le_iff)
  show ?case
  proof (cases "item_cmp k s = Less")
    case True
    then show ?thesis using Cons q by simp
  next
    case False
    then have "item_le s j" if "j \<in> set ks" for j using Cons.prems that q item_le_trans by auto
    then show ?thesis using False q by (simp add: filter_id_conv [symmetric])
  qed
qed simp

lemma leaf_matches:
  assumes "leaf_state n d ks x" "wf_item s" "wf_item e"
  shows "node_matches x s e 0 = filter (\<lambda>k. item_le s k \<and> item_le k e) ks"
proof -
  have w: "filter (not_after d e) js = filter (\<lambda>k. item_le k e) js" if "set js \<subseteq> set ks" for js
    using assms(1,3) that by (intro filter_cong) (auto simp: leaf_state_def not_after_def item_le_def compare_items_eq)
  have "drop (length (takeWhile (\<lambda>k. item_cmp k s = Less) ks)) ks = filter (item_le s) ks"
    using assms(1) sorted_drop_filter [of ks s] by (simp add: leaf_state_def dropWhile_eq_drop)
  then have "node_matches x s e 0 = filter (not_after d e) (filter (item_le s) ks)"
    using leaf_position [OF assms(1,2)] assms(1) by (simp add: node_matches_def leaf_state_def Let_def)
  then show ?thesis using w [of "filter (item_le s) ks"] by (auto simp: conj_commute)
qed

lemma leaf_range:
  assumes "leaf_state n d ks x" "length lo \<le> 128" "length hi \<le> 128"
  shows "bt_range_items lo hi m x = Ok (take m (filter (\<lambda>k. item_le (make_item lo 0) k \<and> item_le k (make_item hi 0)) ks))"
proof -
  have "bt_descend x (make_item lo 0) 64 [] (bt_root x) = Ok [0]"
    using assms(1) by (simp add: leaf_state_def numeral_eq_Suc Let_def)
  then show ?thesis
    using assms leaf_matches [OF assms(1), of "make_item lo 0" "make_item hi 0"]
    by (simp add: bt_range_items_def leaf_state_def Let_def)
qed

lemma leaf_find:
  assumes "leaf_state n d ks x" "length key \<le> 64"
  shows "fst (bt_find key x) = (if \<exists>k\<in>set ks. key_of k = key \<and> si_record_id k = 0 then Ok 0 else Err RecordNotFound)"
proof -
  let ?s = "make_item key 0" and ?P = "\<lambda>k. item_cmp k (make_item key 0) = Less"
  let ?pos = "length (takeWhile ?P ks)" and ?nd = "bt_nodes x ! 0"
  have w: "wf_item ?s" using assms(2) by simp
  have k: "bn_keys ?nd ! i = ks ! i" if "i < length ks" for i
    using assms(1) that by (metis leaf_state_def nth_take)
  have e: "item_cmp j ?s = Equal \<longleftrightarrow> key_of j = key \<and> si_record_id j = 0" for j
    using assms(2) by (simp add: item_cmp_Equal)
  have lt: "?pos < length ks \<longleftrightarrow> dropWhile ?P ks \<noteq> []"
    by (metis add.right_neutral length_0_conv length_append less_add_same_cancel1 length_greater_0_conv takeWhile_dropWhile_id)
  have hd: "ks ! ?pos = hd (dropWhile ?P ks)" if "?pos < length ks"
    using that by (simp add: dropWhile_eq_drop hd_drop_conv_nth)
  have f: "dropWhile ?P ks = filter (item_le ?s) ks" using assms(1) sorted_drop_filter by (simp add: leaf_state_def)
  have found: "(?pos < length ks \<and> item_cmp (ks ! ?pos) ?s = Equal) \<longleftrightarrow> (\<exists>j\<in>set ks. item_cmp j ?s = Equal)"
  proof
    assume "\<exists>j\<in>set ks. item_cmp j ?s = Equal"
    then obtain j where j: "j \<in> set ks" "item_cmp j ?s = Equal" by blast
    then have "item_le ?s j" by (simp add: item_le_iff)
    then have m: "j \<in> set (dropWhile ?P ks)" using j f by simp
    then have l: "?pos < length ks" using lt by (metis empty_iff list.set(1))
    obtain h r where h: "dropWhile ?P ks = h # r" using m by (cases "dropWhile ?P ks") (simp_all del: dropWhile_eq_Nil_conv)
    have "sorted_wrt item_le (h # r)" using assms(1) h f by (metis leaf_state_def sorted_wrt_filter)
    then have "item_le h j" using m h item_le_linear [of h h] by auto
    moreover have "item_cmp h ?s \<noteq> Less" using hd_dropWhile [of ?P ks] h by simp
    ultimately have "item_cmp h ?s = Equal" using item_cmp_cong [OF j(2), of h] by (cases "item_cmp h ?s") (auto simp: item_le_def)
    then show "?pos < length ks \<and> item_cmp (ks ! ?pos) ?s = Equal" using l hd h by simp
  qed (metis nth_mem)
  have c: "compare_items d (bn_keys ?nd ! ?pos) ?s = item_cmp (ks ! ?pos) ?s" if "?pos < length ks"
    using k [OF that] that assms(1) w by (simp add: leaf_state_def compare_items_eq)
  have r: "bt_root x = Some 0" "bt_max_nodes x = n" using assms(1) by (simp_all add: leaf_state_def)
  have "bt_find_loop (Suc n) x ?s (Some 0) = (if \<exists>j\<in>set ks. item_cmp j ?s = Equal then Ok (Some 0) else Ok None)"
    using leaf_position [OF assms(1) w] assms(1) found c k [of ?pos] e
    by (auto simp: leaf_state_def Let_def)
  then show ?thesis
    using assms(2) e by (simp add: bt_find_def r Let_def del: bt_find_loop.simps)
qed

lemma sorted_filter_takeWhile:
  assumes "sorted_wrt item_le ks"
  shows "filter (\<lambda>k. item_le k e) ks = takeWhile (\<lambda>k. item_le k e) ks"
  using assms
proof (induction ks)
  case (Cons k ks)
  have "\<not> item_le j e" if "\<not> item_le k e" "j \<in> set ks" for j using Cons.prems that item_le_trans by auto
  then show ?case using Cons by (auto simp: filter_empty_conv)
qed simp

section \<open>The fifth key\<close>

lemma full_leaf_one:
  assumes "leaf_state 1 d ks x" "length ks = 4" "length key \<le> 64"
  shows "bt_insert key rid x = Err OutOfMemory"
  using assms by (simp add: bt_insert_def leaf_state_def BTREE_ORDER_def bt_allocate_node_def Let_def)

lemma full_leaf_split:
  assumes "leaf_state n d ks x" "2 < n" "length ks = 4" "length key \<le> 64"
  shows "bt_insert key rid x = Fault"
proof -
  have "split_child r 0 0 y = Fault"
    if "bt_free y = Some i" "length (bt_nodes y) = n" "i \<noteq> 0" "i < n" "length (bn_keys (bt_nodes y ! 0)) = 4" for r i y
    using that by (simp add: split_child_def bt_allocate_node_def bt_set_def Let_def BTREE_ORDER_def copy_range_def)
  then show ?thesis
    using assms
    by (simp add: bt_insert_def leaf_state_def BTREE_ORDER_def bt_allocate_node_def bt_set_def Let_def numeral_2_eq_2 nth_list_update)
qed

text \<open>With two nodes the split fails for want of a node and the new root stays without a key.\<close>

definition lost_state :: "nat \<Rightarrow> BTreeIndex \<Rightarrow> BTreeIndex \<Rightarrow> bool" where
  "lost_state n x y \<longleftrightarrow>
     bt_def y = bt_def x \<and> bt_max_nodes y = n \<and> bt_root y = Some 1 \<and> bt_nodes y ! 0 = bt_nodes x ! 0
     \<and> \<not> bn_leaf (bt_nodes y ! 1) \<and> bn_count (bt_nodes y ! 1) = 0 \<and> bn_children (bt_nodes y ! 1) ! 0 = Some 0"

lemma full_leaf_two:
  assumes "leaf_state 2 d ks x" "length ks = 4" "length key \<le> 64"
  shows "\<exists>y. bt_insert key rid x = Ok y \<and> lost_state 2 x y"
  using assms
  by (auto simp: bt_insert_def leaf_state_def lost_state_def BTREE_ORDER_def bt_allocate_node_def bt_set_def Let_def
      split_child_def find_key_position_def reset_node_def nth_list_update numeral_2_eq_2)

lemma lost_find:
  assumes "leaf_state 2 d ks x" "lost_state 2 x y"
  shows "fst (bt_find key y) = fst (bt_find key x)"
proof -
  have z: "bt_find_loop (Suc m) y s (Some 0) = bt_find_loop (Suc m') x s (Some 0)" for m m' s
    using assms by (simp add: leaf_state_def lost_state_def Let_def)
  have "bt_find_loop (Suc (Suc m)) y s (Some 1) = bt_find_loop (Suc m) y s (Some 0)" for m s
    using assms(2) by (subst bt_find_loop.simps(2)) (simp add: lost_state_def find_key_position_def Let_def)
  then have "bt_find_loop (bt_max_nodes y + 1) y s (bt_root y) = bt_find_loop (bt_max_nodes x + 1) x s (bt_root x)" for s
    using assms z [of 1 s 2] by (simp add: lost_state_def leaf_state_def numeral_2_eq_2 del: bt_find_loop.simps)
  then show ?thesis by (simp add: bt_find_def Let_def split: outcome.split option.split)
qed

lemma lost_range:
  assumes "leaf_state 2 d ks x" "lost_state 2 x y" "length lo \<le> 128" "length hi \<le> 128"
  shows "bt_range_items lo hi m y =
    Ok (take m (filter (\<lambda>k. item_le (make_item lo 0) k \<and> item_le k (make_item hi 0)) ks
          @ takeWhile (\<lambda>k. item_le k (make_item hi 0)) ks))"
proof -
  let ?s = "make_item lo 0" and ?e = "make_item hi 0"
  have d: "bt_descend y ?s 64 [] (bt_root y) = Ok [0, 1]"
    using assms(1,2) by (simp add: leaf_state_def lost_state_def numeral_eq_Suc find_key_position_def Let_def)
  have a: "node_matches y ?s ?e 0 = filter (\<lambda>k. item_le ?s k \<and> item_le k ?e) ks"
    using leaf_matches [OF assms(1), of ?s ?e] assms(2-4) by (simp add: node_matches_def lost_state_def)
  have "takeWhile (not_after d ?e) ks = takeWhile (\<lambda>k. item_le k ?e) ks"
    using assms(1,4) by (intro takeWhile_cong) (auto simp: leaf_state_def not_after_def item_le_def compare_items_eq)
  then have b: "left_path_matches (Suc f) y ?e l (Some 0) = Ok (take l (takeWhile (\<lambda>k. item_le k ?e) ks))" for f l
    using assms(1,2) by (simp add: leaf_state_def lost_state_def Let_def)
  have c: "node_matches y ?s ?e 1 = []" using assms(2) by (simp add: node_matches_def lost_state_def find_key_position_def Let_def)
  show ?thesis
    using assms d a b [of 2] c
    by (auto simp: bt_range_items_def leaf_state_def lost_state_def Let_def numeral_2_eq_2 min_def)
qed

lemma lost_range_twice:
  assumes "leaf_state 2 d ks x" "lost_state 2 x y" "length ks = 4" "length lo \<le> 128" "length hi \<le> 128"
  shows "\<exists>once again. bt_range_items lo hi BTREE_ORDER x = Ok once \<and> set once \<subseteq> set again
    \<and> bt_range_items lo hi m y = Ok (take m (once @ again))"
proof -
  let ?once = "filter (\<lambda>k. item_le (make_item lo 0) k \<and> item_le k (make_item hi 0)) ks"
  let ?again = "takeWhile (\<lambda>k. item_le k (make_item hi 0)) ks"
  have "length ?once \<le> 4" using length_filter_le [of _ ks] assms(3) by metis
  then have "bt_range_items lo hi BTREE_ORDER x = Ok ?once"
    using leaf_range [OF assms(1,4,5), of BTREE_ORDER] by (simp add: BTREE_ORDER_def)
  moreover have "set ?once \<subseteq> set ?again"
    using assms(1) sorted_filter_takeWhile [of ks "make_item hi 0", symmetric] by (auto simp: leaf_state_def)
  ultimately show ?thesis using lost_range [OF assms(1,2,4,5), of m] by blast
qed

section \<open>Properties\<close>

text \<open>
  (C34) A B-tree index of four keys or fewer is a sorted multiset.  Inserting up to four pairs into a new index
  succeeds and a range query returns the record ids of the items from \<open>(lo, 0)\<close> to \<open>(hi, 0)\<close> in the order of
  the keys, cut off at the length of the buffer; a lookup finds a key only if its record has id 0, because
  the item it searches for carries record id 0.
\<close>

theorem btree_leaf_refines:
  assumes "wf_pool mem" "ps \<noteq> []" "length ps \<le> BTREE_ORDER" "\<forall>p\<in>set ps. length (fst p) \<le> 64"
  shows "\<exists>x ks. bt_insert_all ps (BTreeIndex_new d mem) = Ok x
    \<and> mset ks = mset (map (\<lambda>(key, rid). make_item key rid) ps) \<and> sorted_wrt item_le ks
    \<and> (\<forall>lo hi m. length lo \<le> 128 \<and> length hi \<le> 128 \<longrightarrow>
         bt_find_range_all lo hi (Some m) x =
           Ok (map si_record_id (take m (filter (\<lambda>k. item_le (make_item lo 0) k \<and> item_le k (make_item hi 0)) ks))))
    \<and> (\<forall>key. length key \<le> 64 \<longrightarrow>
         fst (bt_find key x) = (if (key, 0) \<in> set ps then Ok 0 else Err RecordNotFound))"
proof -
  obtain x ks where x: "bt_insert_all ps (BTreeIndex_new d mem) = Ok x" "leaf_state (length mem) d ks x"
    "mset ks = mset (map (\<lambda>(key, rid). make_item key rid) ps)"
    using new_inserts [OF assms(1,2), of d] assms(3,4) unfolding BTREE_ORDER_def by blast
  have "(\<lambda>k. (key_of k, si_record_id k)) ` set ks = set ps"
  proof -
    have k: "set ks = (\<lambda>(key, rid). make_item key rid) ` set ps" using x(3) by (metis set_map set_mset_mset)
    have "(\<lambda>k. (key_of k, si_record_id k)) ` set ks = (\<lambda>p. p) ` set ps"
      unfolding k image_image using assms(4) by (intro image_cong) auto
    then show ?thesis by simp
  qed
  then have m: "(\<exists>k\<in>set ks. key_of k = key \<and> si_record_id k = 0) \<longleftrightarrow> (key, 0) \<in> set ps" for key
    by (force simp: image_iff)
  have s: "sorted_wrt item_le ks" using x(2) by (simp add: leaf_state_def)
  show ?thesis
    using x(1,3) s leaf_range [OF x(2)] leaf_find [OF x(2)] m
    by (intro exI [of _ x] exI [of _ ks]) (simp add: bt_find_range_all_def)
qed

text \<open>
  The fifth key never arrives.  With one node the insertion reports \<open>OutOfMemory\<close>; with two it reports
  success, drops the key, and from then on a range query returns the first leaf a second time; with three or
  more the split of the full root reads the fifth of four keys.
\<close>

theorem btree_fifth_key:
  assumes "wf_pool mem" "length ps = BTREE_ORDER" "\<forall>p\<in>set ps. length (fst p) \<le> 64" "length key \<le> 64"
  shows "\<exists>x. bt_insert_all ps (BTreeIndex_new d mem) = Ok x
    \<and> (length mem = 1 \<longrightarrow> bt_insert key rid x = Err OutOfMemory)
    \<and> (length mem = 2 \<longrightarrow> (\<exists>y. bt_insert key rid x = Ok y
         \<and> (\<forall>k. fst (bt_find k y) = fst (bt_find k x))
         \<and> (\<forall>lo hi m. length lo \<le> 128 \<and> length hi \<le> 128 \<longrightarrow> (\<exists>once again.
              bt_range_items lo hi BTREE_ORDER x = Ok once \<and> set once \<subseteq> set again
              \<and> bt_range_items lo hi m y = Ok (take m (once @ again))))))
    \<and> (2 < length mem \<longrightarrow> bt_insert key rid x = Fault)"
proof -
  obtain x ks where x: "bt_insert_all ps (BTreeIndex_new d mem) = Ok x" "leaf_state (length mem) d ks x"
    "mset ks = mset (map (\<lambda>(key, rid). make_item key rid) ps)"
    using new_inserts [OF assms(1), of ps d] assms(2,3) unfolding BTREE_ORDER_def by fastforce
  have l: "length ks = 4" using arg_cong [OF x(3), of size] assms(2) by (simp add: BTREE_ORDER_def)
  have "\<exists>y. bt_insert key rid x = Ok y \<and> (\<forall>k. fst (bt_find k y) = fst (bt_find k x))
      \<and> (\<forall>lo hi m. length lo \<le> 128 \<and> length hi \<le> 128 \<longrightarrow> (\<exists>once again.
           bt_range_items lo hi BTREE_ORDER x = Ok once \<and> set once \<subseteq> set again
           \<and> bt_range_items lo hi m y = Ok (take m (once @ again))))" if n: "length mem = 2"
  proof -
    have x2: "leaf_state 2 d ks x" using x(2) n by simp
    obtain y where y: "bt_insert key rid x = Ok y" "lost_state 2 x y" using full_leaf_two [OF x2 l assms(4)] by blast
    show ?thesis
      using y(1) lost_find [OF x2 y(2)] lost_range_twice [OF x2 y(2) l] by (intro exI [of _ y]) blast
  qed
  then show ?thesis
    using x(1,2) l full_leaf_one [of d ks x key] full_leaf_split [OF x(2) _ l assms(4)] assms(4) by (intro exI [of _ x]) auto
qed

section \<open>Concrete indexes\<close>

definition demo_pool :: "nat \<Rightarrow> BTreeNode list" where
  "demo_pool n = replicate n \<lparr>bn_leaf = False, bn_count = 7, bn_keys = replicate 4 SecondaryIndexItem_default,
     bn_children = [], bn_next = None\<rparr>"

lemma demo_pool_wf: "0 < n \<Longrightarrow> wf_pool (demo_pool n)"
  by (simp add: wf_pool_def demo_pool_def BTREE_ORDER_def)

theorem btree_leaf_refines_witness:
  "\<exists>x. bt_insert_all [([7], 3), ([5], 0)] (BTreeIndex_new (si_def demo_sorted) (demo_pool 2)) = Ok x
    \<and> fst (bt_find [5] x) = Ok 0 \<and> fst (bt_find [7] x) = Err RecordNotFound"
proof -
  have w: "wf_pool (demo_pool 2)" "[([7], 3), ([5], 0)] \<noteq> ([] :: (bytes \<times> u16) list)"
    "length [([7], 3), ([5], 0)] \<le> BTREE_ORDER" "\<forall>p\<in>set [([7], 3), ([5], 0)]. length (fst p) \<le> 64"
    by (simp_all add: demo_pool_wf BTREE_ORDER_def)
  from btree_leaf_refines [OF w, of "si_def demo_sorted"]
  obtain x where x: "bt_insert_all [([7], 3), ([5], 0)] (BTreeIndex_new (si_def demo_sorted) (demo_pool 2)) = Ok x"
    "\<forall>key. length key \<le> 64 \<longrightarrow>
       fst (bt_find key x) = (if (key, 0) \<in> set [([7], 3), ([5], 0 :: u16)] then Ok 0 else Err RecordNotFound)"
    by blast
  show ?thesis using x(1) x(2) [rule_format, of "[5]"] x(2) [rule_format, of "[7]"] by (intro exI [of _ x]) simp
qed

theorem btree_fifth_key_witness:
  "\<exists>x. bt_insert_all [([4], 4), ([3], 3), ([2], 2), ([1], 1)] (BTreeIndex_new (si_def demo_sorted) (demo_pool 3)) = Ok x
    \<and> bt_insert [5] 5 x = Fault"
proof -
  have w: "wf_pool (demo_pool 3)" "length [([4], 4), ([3], 3), ([2], 2), ([1], 1)] = BTREE_ORDER"
    "\<forall>p\<in>set [([4], 4), ([3], 3), ([2], 2), ([1], 1)]. length (fst p) \<le> 64" "length [5 :: u8] \<le> 64"
    by (simp_all add: demo_pool_wf BTREE_ORDER_def)
  have "2 < length (demo_pool 3)" by (simp add: demo_pool_def)
  then show ?thesis using btree_fifth_key [OF w, of "si_def demo_sorted" 5] by blast
qed

end
