(* ===== verification/TTreeIdx_Inv.thy ===== *)
theory TTreeIdx_Inv
  imports TTreeIdx BTreeIdx_Inv
begin

text \<open>
  The T-tree index is exact on its first node of three keys.  The split of the root copies a key, and the
  middle subtrees that later splits make are on the way of a lookup but not of a range query.
\<close>

section \<open>Positions\<close>

lemma tt_compare_eq:
  assumes "wf_item a" "wf_item b"
  shows "tt_compare_items a b = item_cmp a b"
proof -
  define d :: TableDef where "d = (si_def demo_sorted)\<lparr>secondary_index := None\<rparr>"
  have "\<not> string_index d" by (simp add: d_def string_index_def)
  then have "compare_items d a b = tt_compare_items a b" by (simp add: compare_items_def tt_compare_items_def)
  then show ?thesis using compare_items_eq [OF assms, of d] by simp
qed

definition wf_items :: "SecondaryIndexItem list \<Rightarrow> bool" where
  "wf_items ks \<longleftrightarrow> (\<forall>k\<in>set ks. wf_item k) \<and> sorted_wrt item_le ks"

lemma tt_position_fst:
  "\<forall>k\<in>set ks. wf_item k \<Longrightarrow> wf_item key \<Longrightarrow> fst (tt_position key ks) = length (takeWhile (\<lambda>k. item_cmp k key = Less) ks)"
  by (induction ks) (auto simp: tt_compare_eq split: prod.split)

lemma tt_position_snd:
  "\<forall>k\<in>set ks. wf_item k \<and> item_cmp k key \<noteq> Equal \<Longrightarrow> wf_item key \<Longrightarrow> snd (tt_position key ks) \<noteq> Equal"
  by (induction ks) (auto simp: tt_compare_eq split: prod.split)

lemma merge_key_ins:
  assumes "wf_items ks" "wf_item key" "\<forall>k\<in>set ks. item_cmp k key \<noteq> Equal"
  shows "merge_key ks key = ins_item key ks"
  using assms
proof (induction ks)
  case Nil
  then show ?case by (simp add: ins_item_def)
next
  case (Cons k ks)
  then have "tt_compare_items k key = item_cmp k key" "merge_key ks key = ins_item key ks"
    by (simp_all add: tt_compare_eq wf_items_def)
  then show ?case using Cons.prems(3) by (cases "item_cmp k key") (auto simp: ins_item_def)
qed

lemma range_keys_filter:
  assumes "wf_items ks" "wf_item s" "wf_item e"
  shows "range_keys s e ks = filter (\<lambda>k. item_le s k \<and> item_le k e) ks"
  using assms
proof (induction ks)
  case (Cons k ks)
  have c: "tt_compare_items k e = item_cmp k e" "tt_compare_items k s = item_cmp k s"
    using Cons.prems by (simp_all add: tt_compare_eq wf_items_def)
  have "\<not> item_le j e" if "item_cmp k e = Greater" "j \<in> set ks" for j
    using Cons.prems that item_le_trans [of k j e] by (auto simp: wf_items_def item_le_def)
  then show ?case
    using Cons c by (cases "item_cmp k e = Greater") (auto simp: wf_items_def item_le_iff [of s] item_le_def [of k e] filter_empty_conv)
qed simp

section \<open>One node\<close>

definition wf_tpool :: "TTreeNode list \<Rightarrow> bool" where
  "wf_tpool mem \<longleftrightarrow> mem \<noteq> [] \<and> (\<forall>nd\<in>set mem. length (tn_keys nd) = TTREE_ORDER)"

definition tt_leaf :: "nat \<Rightarrow> SecondaryIndexItem list \<Rightarrow> TTreeIndex \<Rightarrow> bool" where
  "tt_leaf n ks x \<longleftrightarrow>
     length (tt_nodes x) = n \<and> 0 < n \<and> tt_max_nodes x = n \<and> tt_root x = Some 0
     \<and> tt_free x = (if 1 < n then Some 1 else None)
     \<and> (\<forall>i. 1 \<le> i \<and> i < n \<longrightarrow> tn_next (tt_nodes x ! i) = (if Suc i < n then Some (Suc i) else None)
           \<and> length (tn_keys (tt_nodes x ! i)) = 3)
     \<and> tn_left (tt_nodes x ! 0) = None \<and> tn_middle (tt_nodes x ! 0) = None \<and> tn_right (tt_nodes x ! 0) = None
     \<and> tn_count (tt_nodes x ! 0) = length ks \<and> length (tn_keys (tt_nodes x ! 0)) = 3
     \<and> take (length ks) (tn_keys (tt_nodes x ! 0)) = ks \<and> length ks \<le> 3 \<and> wf_items ks"

fun tt_insert_all :: "(bytes \<times> u16) list \<Rightarrow> TTreeIndex \<Rightarrow> TTreeIndex outcome" where
  "tt_insert_all [] x = Ok x"
| "tt_insert_all ((key, rid) # ps) x = and_then (tt_insert key rid x) (tt_insert_all ps)"

lemma tt_first_insert:
  assumes "wf_tpool mem" "length key \<le> 64"
  shows "\<exists>x. tt_insert key rid (TTreeIndex_new d mem) = Ok x \<and> tt_leaf (length mem) [make_item key rid] x"
proof -
  have k: "length (tn_keys (mem ! i)) = 3" if "i < length mem" for i
    using assms(1) that by (simp add: wf_tpool_def TTREE_ORDER_def)
  have n: "0 < length mem" using assms(1) by (simp add: wf_tpool_def)
  have "take 1 ((tn_keys (tt_reset_node ((tt_reset_node (mem ! 0))\<lparr>tn_next := q\<rparr>)))[0 := make_item key rid]) = [make_item key rid]" for q
    using k [OF n] by (cases "tn_keys (mem ! 0)") (auto simp: tt_reset_node_def)
  then show ?thesis
    using assms n k
    by (auto simp: tt_insert_def TTreeIndex_new_def tt_allocate_node_def tt_set_def tt_leaf_def Let_def
        nth_list_update tt_reset_node_def wf_tpool_def wf_items_def)
qed

lemma tt_leaf_insert:
  assumes "tt_leaf n ks x" "length ks < 3" "length key \<le> 64" "\<forall>k\<in>set ks. item_cmp k (make_item key rid) \<noteq> Equal"
  shows "\<exists>x'. tt_insert key rid x = Ok x' \<and> tt_leaf n (ins_item (make_item key rid) ks) x'"
proof -
  let ?it = "make_item key rid" and ?nd = "tt_nodes x ! 0"
  let ?pos = "length (takeWhile (\<lambda>k. item_cmp k ?it = Less) ks)"
  have w: "wf_item ?it" "\<forall>k\<in>set ks. wf_item k" using assms(1,3) by (simp_all add: tt_leaf_def wf_items_def)
  have t: "take (tn_count ?nd) (tn_keys ?nd) = ks" using assms(1) by (simp add: tt_leaf_def)
  obtain c where p: "tt_find_key_position ?nd ?it = (?pos, c)" "c \<noteq> Equal"
    using tt_position_fst [OF w(2,1)] tt_position_snd [OF _ w(1), of ks] w(2) assms(4)
    by (metis prod.collapse t tt_find_key_position_def)
  define keys where "keys = (shift_up ?pos (length ks) (tn_keys ?nd))[?pos := ?it]"
  define x' where "x' = (tt_set 0 (?nd\<lparr>tn_keys := keys, tn_count := length ks + 1\<rparr>) x)\<lparr>tt_items := tt_items x + 1\<rparr>"
  have l: "?pos \<le> length ks" "length ks < length (tn_keys ?nd)"
    using assms(1,2) length_takeWhile_le by (auto simp: tt_leaf_def)
  have tk: "take (length ks) (tn_keys ?nd) = ks" "length (tn_keys ?nd) = 3" using assms(1) by (simp_all add: tt_leaf_def)
  have k: "take (Suc (length ks)) keys = ins_item ?it ks"
    using insert_array(1) [OF l, of ?it] unfolding keys_def tk(1) ins_item_def
    by (simp only: takeWhile_eq_take [symmetric] dropWhile_eq_drop [symmetric])
  have kl: "length keys = 3" using insert_array(2) [OF l, of ?it] tk(2) by (simp add: keys_def)
  have r: "tt_root x = Some 0" "tn_count ?nd = length ks" "get_child (child_at ?pos ?nd) ?nd = None"
    using assms(1) by (simp_all add: tt_leaf_def child_at_def)
  have "tt_insert key rid x = Ok x'"
    using assms(2,3) r p tk(2)
    by (simp add: tt_insert_def TTREE_ORDER_def Let_def x'_def keys_def insert_into_node_def)
  moreover have "length (ins_item ?it ks) = Suc (length ks)" using arg_cong [OF ins_item_mset [of ?it ks], of size] by simp
  moreover have "set (ins_item ?it ks) = insert ?it (set ks)" using arg_cong [OF ins_item_mset [of ?it ks], of set_mset] by simp
  ultimately have "tt_leaf n (ins_item ?it ks) x'"
    using assms(1,2) k kl w ins_item_sorted [of ks ?it]
    by (auto simp: tt_leaf_def x'_def tt_set_def nth_list_update wf_items_def)
  then show ?thesis using \<open>tt_insert key rid x = Ok x'\<close> by blast
qed

lemma tt_leaf_inserts:
  assumes "tt_leaf n ks x" "length ks + length ps \<le> 3" "\<forall>p\<in>set ps. length (fst p) \<le> 64"
    "distinct ((map (\<lambda>k. (key_of k, si_record_id k)) ks) @ ps)"
  shows "\<exists>x' ks'. tt_insert_all ps x = Ok x' \<and> tt_leaf n ks' x'
    \<and> mset ks' = mset ks + mset (map (\<lambda>(key, rid). make_item key rid) ps)"
  using assms
proof (induction ps arbitrary: ks x)
  case Nil
  then show ?case by auto
next
  case (Cons p ps)
  obtain key rid where p: "p = (key, rid)" by fastforce
  let ?it = "make_item key rid"
  have l: "length key \<le> 64" using Cons.prems(3) p by simp
  have "\<forall>k\<in>set ks. item_cmp k ?it \<noteq> Equal"
    using Cons.prems(4) p l by (auto simp: item_cmp_Equal image_iff)
  then obtain x1 where x1: "tt_insert key rid x = Ok x1" "tt_leaf n (ins_item ?it ks) x1"
    using tt_leaf_insert [OF Cons.prems(1), of key rid] Cons.prems(2) l by auto
  have m: "mset (ins_item ?it ks) = mset (ks @ [?it])" by (simp add: ins_item_mset)
  have len: "length (ins_item ?it ks) = Suc (length ks)" using arg_cong [OF m, of size] by simp
  have "mset (map (\<lambda>k. (key_of k, si_record_id k)) (ins_item ?it ks) @ ps)
      = mset (map (\<lambda>k. (key_of k, si_record_id k)) ks @ p # ps)"
    using l p by (simp add: ins_item_mset)
  then have "distinct (map (\<lambda>k. (key_of k, si_record_id k)) (ins_item ?it ks) @ ps)"
    using mset_eq_imp_distinct_iff Cons.prems(4) by blast
  then obtain x' ks' where "tt_insert_all ps x1 = Ok x'" "tt_leaf n ks' x'"
    "mset ks' = mset (ins_item ?it ks) + mset (map (\<lambda>(key, rid). make_item key rid) ps)"
    using Cons.IH [OF x1(2)] Cons.prems(2,3) len by auto
  then show ?case using x1(1) p by (auto simp: ins_item_mset)
qed

lemma tt_new_inserts:
  assumes "wf_tpool mem" "ps \<noteq> []" "length ps \<le> 3" "\<forall>p\<in>set ps. length (fst p) \<le> 64" "distinct ps"
  shows "\<exists>x ks. tt_insert_all ps (TTreeIndex_new d mem) = Ok x \<and> tt_leaf (length mem) ks x
    \<and> mset ks = mset (map (\<lambda>(key, rid). make_item key rid) ps)"
proof -
  obtain key rid qs where p: "ps = (key, rid) # qs" using assms(2) by (metis list.exhaust surj_pair)
  obtain x1 where x1: "tt_insert key rid (TTreeIndex_new d mem) = Ok x1" "tt_leaf (length mem) [make_item key rid] x1"
    using tt_first_insert [OF assms(1), of key rid d] assms(4) p by auto
  show ?thesis using tt_leaf_inserts [OF x1(2), of qs] assms(3-5) p x1(1) by auto
qed

section \<open>The split of the root\<close>

definition tt_split_state :: "nat \<Rightarrow> SecondaryIndexItem list \<Rightarrow> TTreeIndex \<Rightarrow> bool" where
  "tt_split_state n ks x \<longleftrightarrow>
     3 \<le> n \<and> tt_max_nodes x = n \<and> tt_root x = Some 1 \<and> length ks = 4
     \<and> tn_left (tt_nodes x ! 1) = Some 0 \<and> tn_right (tt_nodes x ! 1) = Some 2
     \<and> tn_left (tt_nodes x ! 0) = None \<and> tn_right (tt_nodes x ! 0) = None
     \<and> tn_left (tt_nodes x ! 2) = None \<and> tn_right (tt_nodes x ! 2) = None
     \<and> take (tn_count (tt_nodes x ! 0)) (tn_keys (tt_nodes x ! 0)) = take 2 ks
     \<and> take (tn_count (tt_nodes x ! 1)) (tn_keys (tt_nodes x ! 1)) = [ks ! 1]
     \<and> take (tn_count (tt_nodes x ! 2)) (tn_keys (tt_nodes x ! 2)) = drop 2 ks"

lemma tt_root_split:
  assumes "tt_leaf n ks x" "length ks = 3" "3 \<le> n" "length key \<le> 64" "\<forall>k\<in>set ks. item_cmp k (make_item key rid) \<noteq> Equal"
  shows "\<exists>x'. tt_insert key rid x = Ok x' \<and> tt_split_state n (ins_item (make_item key rid) ks) x'"
proof -
  let ?m = "ins_item (make_item key rid) ks"
  have t: "take 3 (tn_keys (tt_nodes x ! 0)) = ks" using assms(1,2) by (simp add: tt_leaf_def)
  have m: "merge_key ks (make_item key rid) = ?m" using merge_key_ins [of ks "make_item key rid"] assms by (simp add: tt_leaf_def)
  have l: "length ?m = 4" using arg_cong [OF ins_item_mset [of "make_item key rid" ks], of size] assms(2) by simp
  have k1: "length (tn_keys (tt_nodes x ! 1)) = 3" "length (tn_keys (tt_nodes x ! 2)) = 3"
    "tn_next (tt_nodes x ! 1) = Some 2"
    using assms(1,3) by (auto simp: tt_leaf_def)
  have "take 1 ((map tt_reset_item (tn_keys (tt_nodes x ! 1)))[0 := ?m ! 1]) = [?m ! 1]"
    using k1(1) by (cases "tn_keys (tt_nodes x ! 1)") auto
  then show ?thesis
    using assms(1-4) t m l k1
    by (auto simp: tt_insert_def tt_leaf_def tt_split_state_def TTREE_ORDER_def tt_mid_def tt_allocate_node_def tt_set_def
        Let_def left_part_def right_part_def tt_reset_node_def nth_list_update)
qed

lemma tt_split_range:
  assumes "tt_split_state n ks x" "wf_items ks" "length lo \<le> 128" "length hi \<le> 128"
  shows "tt_range_items lo hi m x = Ok (take m (filter (\<lambda>k. item_le (make_item lo 0) k \<and> item_le k (make_item hi 0))
    (take 2 ks @ [ks ! 1] @ drop 2 ks)))"
proof -
  let ?s = "make_item lo 0" and ?e = "make_item hi 0"
  let ?F = "filter (\<lambda>k. item_le ?s k \<and> item_le k ?e)"
  have w: "wf_items (take 2 ks)" "wf_items (drop 2 ks)" "wf_items [ks ! 1]"
    using assms(1,2) by (auto simp: wf_items_def tt_split_state_def dest: in_set_takeD in_set_dropD intro: sorted_wrt_take sorted_wrt_drop)
  have r: "range_keys ?s ?e js = ?F js" if "wf_items js" for js using range_keys_filter [OF that] assms(3,4) by simp
  have p: "push_left x [] (tt_root x) = Ok [0, 1]" "push_left x [1] None = Ok [1]" "push_left x [] (Some 2) = Ok [2]"
    "push_left x [] None = Ok []"
    using assms(1) by (simp_all add: tt_split_state_def STACK_SIZE_def)
  obtain j where j: "n = Suc (Suc (Suc j))" using assms(1) by (metis tt_split_state_def add_Suc add_0 le_iff_add numeral_3_eq_3)
  have "tt_walk (n + 1) x ?s ?e m [0, 1] = Ok (take m (?F (take 2 ks) @ ?F [ks ! 1] @ ?F (drop 2 ks)))"
    using assms(1) p(2-4) r w unfolding j
    by (auto simp: tt_split_state_def Let_def simp del: push_left.simps filter.simps range_keys.simps)
  then have "tt_walk (n + 1) x ?s ?e m [0, 1] = Ok (take m (?F (take 2 ks @ [ks ! 1] @ drop 2 ks)))"
    unfolding filter_append .
  moreover have "tt_max_nodes x = n" using assms(1) by (simp add: tt_split_state_def)
  ultimately show ?thesis using assms(3,4) p(1) unfolding tt_range_items_def by (simp only: outcome.case and_then.simps) simp
qed

lemma tt_insert_all_append: "tt_insert_all (ps @ qs) x = and_then (tt_insert_all ps x) (tt_insert_all qs)"
proof (induction ps arbitrary: x)
  case (Cons p ps)
  then show ?case by (cases p; cases "tt_insert (fst p) (snd p) x") auto
qed simp

section \<open>Properties\<close>

text \<open>
  (C35) The fourth key of a T-tree index.  After four different pairs all of them are in the index, but the split
  of the root leaves the second smallest in the left child as well as in the new root: a range query that
  covers it returns its record id twice.
\<close>

theorem ttree_split_duplicates:
  assumes "wf_tpool mem" "3 \<le> length mem" "length ps = 4" "distinct ps" "\<forall>p\<in>set ps. length (fst p) \<le> 64"
  shows "\<exists>x ks. tt_insert_all ps (TTreeIndex_new d mem) = Ok x
    \<and> mset ks = mset (map (\<lambda>(key, rid). make_item key rid) ps) \<and> sorted_wrt item_le ks
    \<and> (\<forall>lo hi m. length lo \<le> 128 \<and> length hi \<le> 128 \<longrightarrow>
         tt_find_range_all lo hi (Some m) x =
           Ok (map si_record_id (take m (filter (\<lambda>k. item_le (make_item lo 0) k \<and> item_le k (make_item hi 0))
             (take 2 ks @ [ks ! 1] @ drop 2 ks)))))"
proof -
  obtain qs key rid where ps: "ps = qs @ [(key, rid)]" using assms(3) by (metis surj_pair length_0_conv rev_exhaust zero_neq_numeral)
  have q: "qs \<noteq> []" "length qs = 3" "length key \<le> 64" "(key, rid) \<notin> set qs" using assms(3-5) ps by auto
  obtain x1 ks where x1: "tt_insert_all qs (TTreeIndex_new d mem) = Ok x1" "tt_leaf (length mem) ks x1"
    "mset ks = mset (map (\<lambda>(key, rid). make_item key rid) qs)"
    using tt_new_inserts [OF assms(1) q(1), of d] assms(4,5) q(2) ps by auto
  let ?it = "make_item key rid"
  have l: "length ks = 3" using arg_cong [OF x1(3), of size] q(2) by simp
  have w: "wf_items ks" using x1(2) by (simp add: tt_leaf_def)
  have "set ks = (\<lambda>(key, rid). make_item key rid) ` set qs" using x1(3) by (metis set_map set_mset_mset)
  then have ne: "\<forall>k\<in>set ks. item_cmp k ?it \<noteq> Equal"
    using q(3,4) assms(5) ps by (fastforce simp: item_cmp_Equal)
  obtain x where x: "tt_insert key rid x1 = Ok x" "tt_split_state (length mem) (ins_item ?it ks) x"
    using tt_root_split [OF x1(2) l assms(2) q(3) ne] by blast
  have "set (ins_item ?it ks) = insert ?it (set ks)" using arg_cong [OF ins_item_mset [of ?it ks], of set_mset] by simp
  then have wi: "wf_items (ins_item ?it ks)" using w q(3) ins_item_sorted by (auto simp: wf_items_def)
  have "tt_insert_all ps (TTreeIndex_new d mem) = Ok x" using x1(1) x(1) by (simp add: ps tt_insert_all_append)
  then show ?thesis
    using tt_split_range [OF x(2) wi] wi x1(3) ps
    by (intro exI [of _ x] exI [of _ "ins_item ?it ks"]) (simp add: tt_find_range_all_def ins_item_mset wf_items_def)
qed

section \<open>Concrete indexes\<close>

definition demo_tpool :: "nat \<Rightarrow> TTreeNode list" where
  "demo_tpool n = replicate n \<lparr>tn_count = 0, tn_keys = replicate 3 SecondaryIndexItem_default,
     tn_left = None, tn_middle = None, tn_right = None, tn_next = None\<rparr>"

theorem ttree_split_duplicates_witness:
  "\<exists>x ks. tt_insert_all [([4], 4), ([3], 3), ([2], 2), ([1], 1)] (TTreeIndex_new (si_def demo_sorted) (demo_tpool 3)) = Ok x
    \<and> tt_find_range_all [0] [9] (Some 10) x =
        Ok (map si_record_id (take 10 (filter (\<lambda>k. item_le (make_item [0] 0) k \<and> item_le k (make_item [9] 0))
          (take 2 ks @ [ks ! 1] @ drop 2 ks))))"
proof -
  have w: "wf_tpool (demo_tpool 3)" "3 \<le> length (demo_tpool 3)"
    "length [([4], 4), ([3], 3), ([2], 2), ([1], 1)] = 4" "distinct [([4 :: u8], 4 :: u16), ([3], 3), ([2], 2), ([1], 1)]"
    "\<forall>p\<in>set [([4], 4), ([3], 3), ([2], 2), ([1], 1)]. length (fst p) \<le> 64"
    by (simp_all add: wf_tpool_def demo_tpool_def TTREE_ORDER_def)
  have l: "length [0 :: u8] \<le> 128 \<and> length [9 :: u8] \<le> 128" by simp
  show ?thesis using ttree_split_duplicates [OF w, of "si_def demo_sorted"] l by blast
qed

text \<open>
  A range query of the T-tree passes over middle children.  After the keys 1 to 6 the key 3 is found by its
  key, and is missing from the result of the query for all keys, which has the 2 twice.
\<close>

theorem ttree_range_skips_middle:
  "\<exists>x. tt_insert_all [([1], 1), ([2], 2), ([3], 0), ([4], 4), ([5], 5), ([6], 6)]
         (TTreeIndex_new (si_def demo_sorted) (demo_tpool 4)) = Ok x
    \<and> fst (tt_find [3] x) = Ok 0 \<and> tt_find_range_all [0] [9] (Some 10) x = Ok [1, 2, 2, 4, 5, 6]"
proof -
  have "case tt_insert_all [([1], 1), ([2], 2), ([3], 0), ([4], 4), ([5], 5), ([6], 6)]
         (TTreeIndex_new (si_def demo_sorted) (demo_tpool 4)) of
      Ok x \<Rightarrow> fst (tt_find [3] x) = Ok 0 \<and> tt_find_range_all [0] [9] (Some 10) x = Ok [1, 2, 2, 4, 5, 6]
    | _ \<Rightarrow> False"
    by code_simp
  then show ?thesis by (auto split: outcome.splits)
qed

end
