(* ===== verification/HaProto.thy ===== *)
theory HaProto
  imports Protocol
begin

text \<open>
  The messages of \<^verbatim>\<open>src/src/ha/protocol.rs\<close> between master and slave, and the heartbeat packet of
  \<^verbatim>\<open>src/src/ha/heartbeat.rs\<close>, which takes 24 bytes with three bytes of padding behind the role.  Every message
  is read back from its encoding, and a heartbeat with one changed byte is noticed.
\<close>

section \<open>Synchronisation messages\<close>

datatype SyncType = FullSync | IncrementalSync

fun sync_type_code :: "SyncType \<Rightarrow> u8" where
  "sync_type_code FullSync = 0"
| "sync_type_code IncrementalSync = 1"

definition sync_type_from :: "u8 \<Rightarrow> SyncType" where
  "sync_type_from v = (if v = 1 then IncrementalSync else FullSync)"

record SyncRequest =
  sr_slave_id :: u8
  sr_sync_type :: SyncType
  sr_last_log_index :: u32

definition new_full :: "u8 \<Rightarrow> SyncRequest" where
  "new_full i = \<lparr>sr_slave_id = i, sr_sync_type = FullSync, sr_last_log_index = 0\<rparr>"

definition new_incremental :: "u8 \<Rightarrow> u32 \<Rightarrow> SyncRequest" where
  "new_incremental i n = \<lparr>sr_slave_id = i, sr_sync_type = IncrementalSync, sr_last_log_index = n\<rparr>"

definition encode_request :: "SyncRequest \<Rightarrow> bytes" where
  "encode_request r =
     [sr_slave_id r, sync_type_code (sr_sync_type r)]
     @ (if sr_sync_type r = IncrementalSync then to_le 4 (unat (sr_last_log_index r)) else [])"

definition decode_request :: "bytes \<Rightarrow> SyncRequest option" where
  "decode_request bs =
     (if length bs < 2 then None
      else let st = sync_type_from (bs ! 1) in
        if st = IncrementalSync then
          (if length bs < 6 then None
           else Some \<lparr>sr_slave_id = bs ! 0, sr_sync_type = st, sr_last_log_index = of_nat (read_le 4 bs 2)\<rparr>)
        else Some \<lparr>sr_slave_id = bs ! 0, sr_sync_type = st, sr_last_log_index = 0\<rparr>)"

record SyncDataBegin =
  sb_sync_type :: SyncType
  sb_total_size :: u64
  sb_chunk_count :: u32
  sb_table_count :: u8
  sb_log_count :: u32

definition new_snapshot :: "u64 \<Rightarrow> u32 \<Rightarrow> u8 \<Rightarrow> SyncDataBegin" where
  "new_snapshot ts cc tc =
     \<lparr>sb_sync_type = FullSync, sb_total_size = ts, sb_chunk_count = cc, sb_table_count = tc, sb_log_count = 0\<rparr>"

definition new_wal :: "u64 \<Rightarrow> u32 \<Rightarrow> u32 \<Rightarrow> SyncDataBegin" where
  "new_wal ts cc lc =
     \<lparr>sb_sync_type = IncrementalSync, sb_total_size = ts, sb_chunk_count = cc, sb_table_count = 0, sb_log_count = lc\<rparr>"

definition encode_begin :: "SyncDataBegin \<Rightarrow> bytes" where
  "encode_begin b =
     [sync_type_code (sb_sync_type b)] @ to_le 8 (unat (sb_total_size b)) @ to_le 4 (unat (sb_chunk_count b))
     @ [sb_table_count b] @ to_le 4 (unat (sb_log_count b))"

definition decode_begin :: "bytes \<Rightarrow> SyncDataBegin option" where
  "decode_begin bs =
     (if length bs < 18 then None
      else Some \<lparr>sb_sync_type = sync_type_from (bs ! 0), sb_total_size = of_nat (read_le 8 bs 1),
                 sb_chunk_count = of_nat (read_le 4 bs 9), sb_table_count = bs ! 13,
                 sb_log_count = of_nat (read_le 4 bs 14)\<rparr>)"

definition MAX_CHUNK_DATA_SIZE :: nat where
  "MAX_CHUNK_DATA_SIZE = 60000"

record SyncDataChunk =
  sc_chunk_index :: u32
  sc_data_size :: u16
  sc_data :: bytes

definition SyncDataChunk_new :: "u32 \<Rightarrow> bytes \<Rightarrow> SyncDataChunk" where
  "SyncDataChunk_new i ds = \<lparr>sc_chunk_index = i, sc_data_size = of_nat (length ds), sc_data = ds\<rparr>"

definition encode_chunk :: "SyncDataChunk \<Rightarrow> bytes" where
  "encode_chunk c = to_le 4 (unat (sc_chunk_index c)) @ to_le 2 (unat (sc_data_size c)) @ sc_data c"

definition decode_chunk :: "bytes \<Rightarrow> SyncDataChunk option" where
  "decode_chunk bs =
     (if length bs < 6 then None
      else let n = read_le 2 bs 4 in
        if length bs < 6 + n then None
        else Some \<lparr>sc_chunk_index = of_nat (read_le 4 bs 0), sc_data_size = of_nat n, sc_data = bytes_at bs 6 n\<rparr>)"

record SyncDataEnd =
  se_total_chunks :: u32
  se_checksum :: u32

definition SyncDataEnd_new :: "u32 \<Rightarrow> u32 \<Rightarrow> SyncDataEnd" where
  "SyncDataEnd_new n c = \<lparr>se_total_chunks = n, se_checksum = c\<rparr>"

definition encode_end :: "SyncDataEnd \<Rightarrow> bytes" where
  "encode_end e = to_le 4 (unat (se_total_chunks e)) @ to_le 4 (unat (se_checksum e))"

definition decode_end :: "bytes \<Rightarrow> SyncDataEnd option" where
  "decode_end bs =
     (if length bs < 8 then None
      else Some \<lparr>se_total_chunks = of_nat (read_le 4 bs 0), se_checksum = of_nat (read_le 4 bs 4)\<rparr>)"

record SyncAck =
  sa_slave_id :: u8
  sa_success :: bool
  sa_chunks_received :: u32

definition SyncAck_new :: "u8 \<Rightarrow> bool \<Rightarrow> u32 \<Rightarrow> SyncAck" where
  "SyncAck_new i s n = \<lparr>sa_slave_id = i, sa_success = s, sa_chunks_received = n\<rparr>"

definition encode_ack :: "SyncAck \<Rightarrow> bytes" where
  "encode_ack a = [sa_slave_id a, if sa_success a then 1 else 0] @ to_le 4 (unat (sa_chunks_received a))"

definition decode_ack :: "bytes \<Rightarrow> SyncAck option" where
  "decode_ack bs =
     (if length bs < 6 then None
      else Some \<lparr>sa_slave_id = bs ! 0, sa_success = (bs ! 1 \<noteq> 0), sa_chunks_received = of_nat (read_le 4 bs 2)\<rparr>)"

section \<open>Heartbeats\<close>

datatype HARole = Master | Slave | AutoRole

fun role_code :: "HARole \<Rightarrow> u8" where
  "role_code Master = 0"
| "role_code Slave = 1"
| "role_code AutoRole = 2"

definition role_from :: "u8 \<Rightarrow> HARole" where
  "role_from v = (if v = 0 then Master else if v = 1 then Slave else AutoRole)"

record HeartbeatPacket =
  hp_node_id :: u64
  hp_timestamp :: u64
  hp_role :: u8
  hp_crc32 :: u32

text \<open>The bytes under the checksum: the fields, and zeroes for the checksum itself.\<close>

definition crc_data :: "HeartbeatPacket \<Rightarrow> bytes" where
  "crc_data p = to_le 8 (unat (hp_node_id p)) @ to_le 8 (unat (hp_timestamp p)) @ [hp_role p] @ replicate 4 0"

definition update_crc :: "HeartbeatPacket \<Rightarrow> HeartbeatPacket" where
  "update_crc p = p\<lparr>hp_crc32 := calculate_crc32 (crc_data p)\<rparr>"

definition verify_crc :: "HeartbeatPacket \<Rightarrow> bool" where
  "verify_crc p \<longleftrightarrow> calculate_crc32 (crc_data p) = hp_crc32 p"

definition HeartbeatPacket_new :: "u64 \<Rightarrow> u64 \<Rightarrow> HARole \<Rightarrow> HeartbeatPacket" where
  "HeartbeatPacket_new now_us node r =
     update_crc \<lparr>hp_node_id = node, hp_timestamp = now_us div 1000, hp_role = role_code r, hp_crc32 = 0\<rparr>"

definition heartbeat_to_bytes :: "HeartbeatPacket \<Rightarrow> bytes" where
  "heartbeat_to_bytes p =
     to_le 8 (unat (hp_node_id p)) @ to_le 8 (unat (hp_timestamp p)) @ [hp_role p] @ replicate 3 0
     @ to_le 4 (unat (hp_crc32 p))"

definition heartbeat_from_bytes :: "bytes \<Rightarrow> HeartbeatPacket option" where
  "heartbeat_from_bytes bs =
     (if length bs \<noteq> 24 then None
      else Some \<lparr>hp_node_id = of_nat (read_le 8 bs 0), hp_timestamp = of_nat (read_le 8 bs 8),
                 hp_role = bs ! 16, hp_crc32 = of_nat (read_le 4 bs 20)\<rparr>)"

definition heartbeat_role :: "HeartbeatPacket \<Rightarrow> HARole" where
  "heartbeat_role p = role_from (hp_role p)"

section \<open>Lemmas\<close>

lemma sync_type_roundtrip [simp]: "sync_type_from (sync_type_code t) = t"
  by (cases t) (simp_all add: sync_type_from_def)

lemma role_roundtrip [simp]: "role_from (role_code r) = r"
  by (cases r) (simp_all add: role_from_def)

lemma unat_mod_u64: "unat (w :: u64) mod 18446744073709551616 = unat w"
proof -
  have "unat w < 18446744073709551616" using unsigned_less [of w] by simp
  then show ?thesis by simp
qed

lemmas wire_simps = read_le_def bytes_at_skip bytes_at_Cons bytes_at_0 unat_mod_width unat_mod_u64 nth_append

lemma decode_chunk_rest:
  assumes "length ds < 65536"
  shows "decode_chunk (encode_chunk (SyncDataChunk_new i ds) @ rest) = Some (SyncDataChunk_new i ds)"
  using assms by (simp add: decode_chunk_def encode_chunk_def SyncDataChunk_new_def Let_def wire_simps unat_of_nat)

lemma heartbeat_roundtrip: "heartbeat_from_bytes (heartbeat_to_bytes p) = Some p"
  by (simp add: heartbeat_from_bytes_def heartbeat_to_bytes_def wire_simps)

lemma verify_new: "verify_crc (HeartbeatPacket_new t n r)"
  by (simp add: verify_crc_def HeartbeatPacket_new_def update_crc_def crc_data_def)

lemma heartbeat_bytes_of:
  assumes "heartbeat_from_bytes bs = Some p"
  shows "crc_data p = take 17 bs @ replicate 4 0" "hp_crc32 p = of_nat (le_nat (take 4 (drop 20 bs)))"
proof -
  have l: "length bs = 24" using assms by (simp add: heartbeat_from_bytes_def split: if_splits)
  have b: "to_le 8 (unat (of_nat (read_le 8 bs i) :: u64)) = take 8 (drop i bs)" if "i \<le> 8" for i
  proof -
    have m: "length (take 8 (drop i bs)) = 8" using l that by simp
    have "le_nat (take 8 (drop i bs)) < 2 ^ 64" using le_nat_bound [of "take 8 (drop i bs)"] m by simp
    then have "unat (of_nat (le_nat (take 8 (drop i bs))) :: u64) = le_nat (take 8 (drop i bs))" by (simp add: unat_of_nat)
    then show ?thesis using to_le_le_nat [of "take 8 (drop i bs)"] m by (simp add: read_le_def bytes_at_def)
  qed
  have "take 17 bs = take 8 bs @ take 8 (drop 8 bs) @ [bs ! 16]"
  proof -
    have "take 17 bs = take 16 bs @ [bs ! 16]" using l take_Suc_conv_app_nth [of 16 bs] by simp
    moreover have "take 16 bs = take 8 bs @ take 8 (drop 8 bs)" using take_add [of 8 8 bs] by simp
    ultimately show ?thesis by simp
  qed
  then show "crc_data p = take 17 bs @ replicate 4 0"
    using assms l b [of 0] b [of 8] by (auto simp: heartbeat_from_bytes_def crc_data_def)
  show "hp_crc32 p = of_nat (le_nat (take 4 (drop 20 bs)))"
    using assms by (auto simp: heartbeat_from_bytes_def read_le_def bytes_at_def split: if_splits)
qed

lemma heartbeat_data_changed:
  assumes "heartbeat_from_bytes bs = Some p" "verify_crc p" "i < 17" "b \<noteq> bs ! i"
  shows "\<exists>q. heartbeat_from_bytes (bs[i := b]) = Some q \<and> \<not> verify_crc q"
proof -
  have l: "length bs = 24" using assms(1) by (simp add: heartbeat_from_bytes_def split: if_splits)
  obtain q where q: "heartbeat_from_bytes (bs[i := b]) = Some q" using l by (simp add: heartbeat_from_bytes_def)
  note P = heartbeat_bytes_of [OF assms(1)] and Q = heartbeat_bytes_of [OF q]
  have c: "hp_crc32 q = hp_crc32 p" using P(2) Q(2) assms(3) by simp
  have i: "i < length (take 17 bs)" using assms(3) l by simp
  have "take 17 bs = take i (take 17 bs) @ bs ! i # drop (Suc i) (take 17 bs)"
    using id_take_nth_drop [OF i] assms(3) by simp
  moreover have "take 17 (bs[i := b]) = take i (take 17 bs) @ b # drop (Suc i) (take 17 bs)"
    using upd_conv_take_nth_drop [OF i, of b] by (simp add: take_update_swap)
  ultimately have "calculate_crc32 (crc_data q) \<noteq> calculate_crc32 (crc_data p)"
    using crc_byte_changed [OF assms(4), of "take i (take 17 bs)" "drop (Suc i) (take 17 bs) @ replicate 4 0"] P(1) Q(1)
    by (metis append.assoc append_Cons)
  then show ?thesis using q c assms(2) by (metis verify_crc_def)
qed

lemma heartbeat_crc_changed:
  assumes "heartbeat_from_bytes bs = Some p" "verify_crc p" "20 \<le> i" "i < 24" "b \<noteq> bs ! i"
  shows "\<exists>q. heartbeat_from_bytes (bs[i := b]) = Some q \<and> \<not> verify_crc q"
proof -
  have l: "length bs = 24" using assms(1) by (simp add: heartbeat_from_bytes_def split: if_splits)
  obtain q where q: "heartbeat_from_bytes (bs[i := b]) = Some q" using l by (simp add: heartbeat_from_bytes_def)
  note P = heartbeat_bytes_of [OF assms(1)] and Q = heartbeat_bytes_of [OF q]
  have c: "crc_data q = crc_data p" using P(1) Q(1) assms(3) by simp
  let ?old = "take 4 (drop 20 bs)" and ?new = "take 4 (drop 20 (bs[i := b]))"
  have len: "length ?old = 4" "length ?new = 4" using l by simp_all
  have "?new ! (i - 20) \<noteq> ?old ! (i - 20)" using assms(3-5) l by simp
  then have "le_nat ?new \<noteq> le_nat ?old" using le_nat_inject [of ?new ?old] len by auto
  moreover have "le_nat ?new < 2 ^ 32" "le_nat ?old < 2 ^ 32" using le_nat_bound [of ?new] le_nat_bound [of ?old] len by simp_all
  then have "unat (of_nat (le_nat ?new) :: u32) = le_nat ?new" "unat (of_nat (le_nat ?old) :: u32) = le_nat ?old"
    by (simp_all add: unat_of_nat)
  ultimately have "hp_crc32 q \<noteq> hp_crc32 p" using P(2) Q(2) by metis
  then show ?thesis using q c assms(2) by (metis verify_crc_def)
qed

section \<open>Properties\<close>

text \<open>
  Messages of the synchronisation protocol.  Every request, announcement, chunk, end mark and
  acknowledgement is read back exactly from its encoding; the size field of a chunk is wide enough for the
  largest chunk the master sends.
\<close>

theorem ha_messages_roundtrip:
  "decode_request (encode_request (new_full i)) = Some (new_full i)
   \<and> decode_request (encode_request (new_incremental i n)) = Some (new_incremental i n)
   \<and> decode_begin (encode_begin b) = Some b \<and> decode_end (encode_end e) = Some e \<and> decode_ack (encode_ack a) = Some a
   \<and> (length ds \<le> MAX_CHUNK_DATA_SIZE \<longrightarrow>
        decode_chunk (encode_chunk (SyncDataChunk_new n ds)) = Some (SyncDataChunk_new n ds))"
proof (intro conjI impI)
  show "decode_chunk (encode_chunk (SyncDataChunk_new n ds)) = Some (SyncDataChunk_new n ds)"
    if "length ds \<le> MAX_CHUNK_DATA_SIZE"
    using decode_chunk_rest [of ds n "[]"] that by (simp add: MAX_CHUNK_DATA_SIZE_def)
  show "decode_begin (encode_begin b) = Some b" by (simp add: decode_begin_def encode_begin_def wire_simps)
qed (simp_all add: decode_request_def encode_request_def new_full_def new_incremental_def decode_end_def encode_end_def decode_ack_def encode_ack_def sync_type_from_def wire_simps)

theorem ha_messages_roundtrip_witness:
  "length [1, 2, 3 :: u8] \<le> MAX_CHUNK_DATA_SIZE
   \<and> decode_chunk (encode_chunk (SyncDataChunk_new 7 [1, 2, 3])) = Some (SyncDataChunk_new 7 [1, 2, 3])"
  using ha_messages_roundtrip [of 0 7 "new_wal 0 0 0" "SyncDataEnd_new 0 0" "SyncAck_new 0 True 0" "[1, 2, 3]"]
  by (simp add: MAX_CHUNK_DATA_SIZE_def)

text \<open>
  A damaged heartbeat is noticed.  When one byte of a packet is changed on the way, other than the three
  bytes of padding, the receiver's check of the checksum fails; an unchanged packet passes it.
\<close>

theorem heartbeat_damage_detected:
  assumes "i < 24" "i \<notin> {17, 18, 19}" "b \<noteq> heartbeat_to_bytes (HeartbeatPacket_new t n r) ! i"
  shows "heartbeat_from_bytes (heartbeat_to_bytes (HeartbeatPacket_new t n r)) = Some (HeartbeatPacket_new t n r)
    \<and> verify_crc (HeartbeatPacket_new t n r)
    \<and> (\<exists>q. heartbeat_from_bytes ((heartbeat_to_bytes (HeartbeatPacket_new t n r))[i := b]) = Some q \<and> \<not> verify_crc q)"
proof -
  have "i < 17 \<or> 20 \<le> i" using assms(2) by auto
  then show ?thesis
    using heartbeat_roundtrip verify_new assms(1,3)
      heartbeat_data_changed [OF heartbeat_roundtrip verify_new] heartbeat_crc_changed [OF heartbeat_roundtrip verify_new]
    by blast
qed

theorem heartbeat_damage_detected_witness:
  "\<exists>q. heartbeat_from_bytes ((heartbeat_to_bytes (HeartbeatPacket_new 5000 3 Slave))[16 := 0]) = Some q \<and> \<not> verify_crc q"
proof -
  have "(0 :: u8) \<noteq> heartbeat_to_bytes (HeartbeatPacket_new 5000 3 Slave) ! 16"
    by (simp add: heartbeat_to_bytes_def HeartbeatPacket_new_def update_crc_def nth_append)
  from heartbeat_damage_detected [OF _ _ this] show ?thesis by simp
qed

end
