(* ===== verification/HaSync.thy ===== *)
theory HaSync
  imports SysTables_Inv PubSub HaProto
begin

text \<open>
  The start-up synchronisation of a slave: \<^verbatim>\<open>src/src/ha/sync_handler.rs\<close> makes a snapshot of the master's tables
  and publishes it in chunks, \<^verbatim>\<open>src/src/ha/sync_receiver.rs\<close> collects them and writes the records into the
  tables of the same name.  The global publish/subscribe instance and the global database are arguments that may be
  missing; \<open>sock\<close> is what the socket answers to a frame.  Slicing behind the end of the data is a \<open>Fault\<close>, and so
  is copying a record into a slot that is too small for it.
\<close>

section \<open>Topics and the global publisher\<close>

definition SYNC_REQUEST_TOPIC :: u16 where "SYNC_REQUEST_TOPIC = 2"
definition SYNC_DATA_BEGIN_TOPIC :: u16 where "SYNC_DATA_BEGIN_TOPIC = 5"
definition SYNC_DATA_CHUNK_TOPIC :: u16 where "SYNC_DATA_CHUNK_TOPIC = 6"
definition SYNC_DATA_END_TOPIC :: u16 where "SYNC_DATA_END_TOPIC = 7"
definition SYNC_ACK_TOPIC :: u16 where "SYNC_ACK_TOPIC = 8"

lemmas topic_defs = SYNC_REQUEST_TOPIC_def SYNC_DATA_BEGIN_TOPIC_def SYNC_DATA_CHUNK_TOPIC_def
  SYNC_DATA_END_TOPIC_def SYNC_ACK_TOPIC_def

datatype HAError = HaInitFailed | HaNetworkError | HaInvalidParameter | HaRoleConflict | HaSyncFailed
  | HaHeartbeatTimeout | HaReplicationError | HaUnsupportedOperation

type_synonym socket = "ProtocolFrame \<Rightarrow> PubSubError option"

definition g_publish ::
  "socket \<Rightarrow> u64 \<Rightarrow> u16 \<Rightarrow> bytes \<Rightarrow> PubSub option \<Rightarrow> (PubSubError + unit) \<times> PubSub option" where
  "g_publish sock now tid ds gp =
     (case gp of
        None \<Rightarrow> (Inl InitFailed, None)
      | Some ps \<Rightarrow>
          let answer = (case fst (create_frame now tid ds (ps_publisher ps)) of Inr f \<Rightarrow> sock f | Inl e \<Rightarrow> None);
              (r, ps') = publish answer now tid ds ps in
          (r, Some ps'))"

section \<open>The master: snapshot and chunks\<close>

definition field_bytes :: "FieldDef \<Rightarrow> bytes" where
  "field_bytes f =
     [of_nat (length (f_name f))] @ str_bytes (f_name f) @ [data_type_code (data_type f)] @ to_le 2 (offset f)
     @ to_le 2 (case vector_metadata f of Some vm \<Rightarrow> unat (dimension vm) | None \<Rightarrow> 0)"

definition record_bytes :: "MemoryTable \<Rightarrow> nat \<Rightarrow> bytes" where
  "record_bytes t i = (if slot_status t i = Used then [1] @ to_le 4 i @ data t ! i else [])"

definition table_bytes :: "MemoryTable \<Rightarrow> bytes" where
  "table_bytes t =
     (let d = tdef t in
      [of_nat (length (t_name d))] @ str_bytes (t_name d)
      @ to_le 4 (record_size t) @ to_le 4 (record_count t) @ to_le 4 (max_records d)
      @ [of_nat (length (t_fields d))] @ concat (map field_bytes (t_fields d))
      @ [of_nat (length (primary_key d))] @ map of_nat (primary_key d)
      @ concat (map (record_bytes t) [0..<max_records d]) @ [0])"

definition create_database_snapshot :: "Database option \<Rightarrow> HAError + bytes" where
  "create_database_snapshot gdb =
     (case gdb of
        None \<Rightarrow> Inl HaSyncFailed
      | Some db \<Rightarrow> Inr ([of_nat (length (tables db))]
          @ concat (map (\<lambda>t. case t of Some t \<Rightarrow> table_bytes t | None \<Rightarrow> []) (tables db))))"

definition get_wal_logs_since :: "u32 \<Rightarrow> HAError + bytes" where
  "get_wal_logs_since i = Inr []"

definition div_ceil :: "nat \<Rightarrow> nat \<Rightarrow> nat" where
  "div_ceil a b = (a + b - 1) div b"

function send_chunks ::
  "socket \<Rightarrow> u64 \<Rightarrow> u32 \<Rightarrow> bytes \<Rightarrow> PubSub option \<Rightarrow> (HAError + unit) \<times> PubSub option" where
  "send_chunks sock now i rest gp =
     (if rest = [] then (Inr (), gp)
      else
        case g_publish sock now SYNC_DATA_CHUNK_TOPIC (encode_chunk (SyncDataChunk_new i (take MAX_CHUNK_DATA_SIZE rest))) gp of
          (Inl e, gp') \<Rightarrow> (Inl HaSyncFailed, gp')
        | (Inr u, gp') \<Rightarrow> send_chunks sock now (i + 1) (drop MAX_CHUNK_DATA_SIZE rest) gp')"
  by pat_completeness auto

termination by (relation "measure (\<lambda>(sock, now, i, rest, gp). length rest)") (auto simp: MAX_CHUNK_DATA_SIZE_def)

definition send_data :: "socket \<Rightarrow> u64 \<Rightarrow> SyncDataBegin \<Rightarrow> bytes \<Rightarrow> PubSub option \<Rightarrow> (HAError + unit) \<times> PubSub option" where
  "send_data sock now begin ds gp =
     (case g_publish sock now SYNC_DATA_BEGIN_TOPIC (encode_begin begin) gp of
        (Inl e, gp1) \<Rightarrow> (Inl HaSyncFailed, gp1)
      | (Inr u, gp1) \<Rightarrow>
          (case send_chunks sock now 0 ds gp1 of
             (Inl e, gp2) \<Rightarrow> (Inl e, gp2)
           | (Inr u, gp2) \<Rightarrow>
               (case g_publish sock now SYNC_DATA_END_TOPIC (encode_end (SyncDataEnd_new (sb_chunk_count begin) 0)) gp2 of
                  (Inl e, gp3) \<Rightarrow> (Inl HaSyncFailed, gp3)
                | (Inr u, gp3) \<Rightarrow> (Inr (), gp3))))"

definition send_snapshot_chunks :: "socket \<Rightarrow> u64 \<Rightarrow> bytes \<Rightarrow> PubSub option \<Rightarrow> (HAError + unit) \<times> PubSub option" where
  "send_snapshot_chunks sock now ds gp =
     send_data sock now
       (new_snapshot (of_nat (length ds)) (of_nat (div_ceil (length ds) MAX_CHUNK_DATA_SIZE)) (if ds \<noteq> [] then ds ! 0 else 0))
       ds gp"

text \<open>\<open>log_size\<close> is the size of a log item in memory.\<close>

definition send_wal_chunks :: "nat \<Rightarrow> socket \<Rightarrow> u64 \<Rightarrow> bytes \<Rightarrow> PubSub option \<Rightarrow> (HAError + unit) \<times> PubSub option" where
  "send_wal_chunks log_size sock now ds gp =
     send_data sock now
       (new_wal (of_nat (length ds)) (of_nat (div_ceil (length ds) MAX_CHUNK_DATA_SIZE)) (of_nat (length ds div log_size)))
       ds gp"

definition process_full_sync_request :: "socket \<Rightarrow> u64 \<Rightarrow> Database option \<Rightarrow> PubSub option \<Rightarrow> PubSub option" where
  "process_full_sync_request sock now gdb gp =
     (case create_database_snapshot gdb of Inl e \<Rightarrow> gp | Inr ds \<Rightarrow> snd (send_snapshot_chunks sock now ds gp))"

definition process_incremental_sync_request :: "nat \<Rightarrow> socket \<Rightarrow> u64 \<Rightarrow> SyncRequest \<Rightarrow> PubSub option \<Rightarrow> PubSub option" where
  "process_incremental_sync_request log_size sock now r gp =
     (case get_wal_logs_since (sr_last_log_index r) of
        Inl e \<Rightarrow> gp | Inr ds \<Rightarrow> snd (send_wal_chunks log_size sock now ds gp))"

definition handle_sync_request_callback ::
  "nat \<Rightarrow> socket \<Rightarrow> u64 \<Rightarrow> Database option \<Rightarrow> u16 \<Rightarrow> bytes \<Rightarrow> PubSub option \<Rightarrow> bool \<times> PubSub option" where
  "handle_sync_request_callback log_size sock now gdb tid ds gp =
     (if tid \<noteq> SYNC_REQUEST_TOPIC then (False, gp)
      else case decode_request ds of
        None \<Rightarrow> (False, gp)
      | Some r \<Rightarrow>
          (True, case sr_sync_type r of
             FullSync \<Rightarrow> process_full_sync_request sock now gdb gp
           | IncrementalSync \<Rightarrow> process_incremental_sync_request log_size sock now r gp))"

definition handle_sync_ack_callback :: "u16 \<Rightarrow> bytes \<Rightarrow> bool" where
  "handle_sync_ack_callback tid ds \<longleftrightarrow> tid = SYNC_ACK_TOPIC \<and> decode_ack ds \<noteq> None"

section \<open>The slave: reading the snapshot\<close>

definition take_byte :: "bytes \<Rightarrow> (nat \<times> bytes) outcome" where
  "take_byte bs = (case bs of [] \<Rightarrow> Fault | b # r \<Rightarrow> Ok (unat b, r))"

definition take_slice :: "nat \<Rightarrow> bytes \<Rightarrow> (bytes \<times> bytes) outcome" where
  "take_slice n bs = (if length bs < n then Fault else Ok (take n bs, drop n bs))"

definition take_u32 :: "bytes \<Rightarrow> (nat \<times> bytes) outcome" where
  "take_u32 bs = and_then (take_slice 4 bs) (\<lambda>(b, r). Ok (le_nat b, r))"

text \<open>Field definitions are skipped: name, type, offset and dimension.\<close>

fun skip_fields :: "nat \<Rightarrow> bytes \<Rightarrow> bytes outcome" where
  "skip_fields 0 bs = Ok bs"
| "skip_fields (Suc n) bs = and_then (take_byte bs) (\<lambda>(l, r). skip_fields n (drop (l + 1 + 2 + 2) r))"

definition apply_record :: "nat \<Rightarrow> bytes \<Rightarrow> MemoryTable \<Rightarrow> MemoryTable outcome" where
  "apply_record i rd t =
     (if \<not> i < cap t then Ok t
      else if length rd > record_size t then Fault
      else
        let t1 = t\<lparr>data := (data t)[i := rd @ drop (length rd) (data t ! i)]\<rparr>;
            t2 = (if slot_status t i \<noteq> Used then t1\<lparr>record_count := record_count t + 1\<rparr> else t1) in
        Ok (set_status Used i t2))"

function apply_records :: "nat \<Rightarrow> MemoryTable \<Rightarrow> bytes \<Rightarrow> (MemoryTable \<times> bytes) outcome" where
  "apply_records n t [] = Fault"
| "apply_records n t (f # r) =
     (if f = 0 then Ok (t, r)
      else if length r < 4 + n then Fault
      else case apply_record (le_nat (take 4 r)) (take n (drop 4 r)) t of
             Ok t' \<Rightarrow> apply_records n t' (drop (4 + n) r)
           | Err e \<Rightarrow> Err e | Fault \<Rightarrow> Fault)"
  by pat_completeness auto

termination by (relation "measure (\<lambda>(n, t, bs). length bs)") auto

function skip_records :: "nat \<Rightarrow> bytes \<Rightarrow> bytes outcome" where
  "skip_records n [] = Fault"
| "skip_records n (f # r) = (if f = 0 then Ok r else skip_records n (drop (4 + n) r))"
  by pat_completeness auto

termination by (relation "measure (\<lambda>(n, bs). length bs)") auto

text \<open>One table: whether its name was text, the database and the rest of the data.\<close>

definition apply_table :: "Database \<Rightarrow> bytes \<Rightarrow> (bool \<times> Database \<times> bytes) outcome" where
  "apply_table db bs =
     and_then (take_byte bs) (\<lambda>(nl, r1).
     and_then (take_slice nl r1) (\<lambda>(nm, r2).
     if \<not> from_utf8_ok nm then Ok (False, db, r2)
     else
       and_then (take_u32 r2) (\<lambda>(rs, r3).
       and_then (take_u32 r3) (\<lambda>(rc, r4).
       and_then (take_u32 r4) (\<lambda>(mx, r5).
       and_then (take_byte r5) (\<lambda>(fc, r6).
       and_then (skip_fields fc r6) (\<lambda>r7.
       and_then (take_byte r7) (\<lambda>(pk, r8).
       let r9 = drop pk r8 in
       case position_name (bytes_str nm) (tables db) of
         Some k \<Rightarrow>
           (case tables db ! k of
              Some t \<Rightarrow> and_then (apply_records rs t r9) (\<lambda>(t', r10). Ok (True, put_table k t' db, r10))
            | None \<Rightarrow> Ok (True, db, r9))
       | None \<Rightarrow> and_then (skip_records rs r9) (\<lambda>r10. Ok (True, db, r10))))))))))"

fun apply_tables :: "nat \<Rightarrow> Database \<Rightarrow> bytes \<Rightarrow> (bool \<times> Database) outcome" where
  "apply_tables 0 db bs = Ok (True, db)"
| "apply_tables (Suc n) db bs =
     and_then (apply_table db bs) (\<lambda>(ok, db', r). if ok then apply_tables n db' r else Ok (False, db'))"

definition apply_snapshot :: "bytes \<Rightarrow> Database option \<Rightarrow> (bool \<times> Database option) outcome" where
  "apply_snapshot ds gdb =
     (if ds = [] then Ok (True, gdb)
      else case gdb of
        None \<Rightarrow> Ok (False, None)
      | Some db \<Rightarrow> and_then (apply_tables (unat (ds ! 0)) db (drop 1 ds)) (\<lambda>(ok, db'). Ok (ok, Some db')))"

definition apply_wal_logs :: "bytes \<Rightarrow> bool" where
  "apply_wal_logs ds = True"

section \<open>The slave: collecting the chunks\<close>

datatype SyncState = SyncIdle | Syncing | Synced | SyncFailed

text \<open>The global variables of the receiver, and the receiver itself.\<close>

record SyncGlobals =
  sg_state :: SyncState
  sg_data :: "bytes option"
  sg_expected :: u32
  sg_received :: u32
  sg_begin :: "SyncDataBegin option"

record SyncReceiver =
  rv_state :: SyncState
  rv_slave_id :: u8
  rv_expected :: u32
  rv_received :: u32
  rv_data :: bytes
  rv_begin :: "SyncDataBegin option"

definition SyncGlobals_init :: SyncGlobals where
  "SyncGlobals_init = \<lparr>sg_state = SyncIdle, sg_data = None, sg_expected = 0, sg_received = 0, sg_begin = None\<rparr>"

definition SyncReceiver_new :: "u8 \<Rightarrow> SyncReceiver" where
  "SyncReceiver_new i =
     \<lparr>rv_state = SyncIdle, rv_slave_id = i, rv_expected = 0, rv_received = 0, rv_data = [], rv_begin = None\<rparr>"

definition start_sync :: "SyncReceiver \<times> SyncGlobals \<Rightarrow> SyncReceiver \<times> SyncGlobals" where
  "start_sync s =
     ((fst s)\<lparr>rv_state := Syncing, rv_expected := 0, rv_received := 0, rv_data := [], rv_begin := None\<rparr>,
      \<lparr>sg_state = Syncing, sg_data = Some [], sg_expected = 0, sg_received = 0, sg_begin = None\<rparr>)"

definition receiver_shutdown :: "SyncReceiver \<times> SyncGlobals \<Rightarrow> SyncReceiver \<times> SyncGlobals" where
  "receiver_shutdown s =
     ((fst s)\<lparr>rv_state := SyncIdle, rv_data := [], rv_begin := None\<rparr>,
      (snd s)\<lparr>sg_state := SyncIdle, sg_data := None, sg_begin := None\<rparr>)"

text \<open>
  Waiting for the end: the states that are read one after the other until the time is up.
\<close>

fun wait_for_completion :: "SyncState list \<Rightarrow> SyncReceiver \<Rightarrow> (HAError + unit) \<times> SyncReceiver" where
  "wait_for_completion [] r = (Inl HaSyncFailed, r\<lparr>rv_state := SyncFailed\<rparr>)"
| "wait_for_completion (s # ss) r =
     (case s of
        Synced \<Rightarrow> (Inr (), r\<lparr>rv_state := Synced\<rparr>)
      | SyncFailed \<Rightarrow> (Inl HaSyncFailed, r\<lparr>rv_state := SyncFailed\<rparr>)
      | Syncing \<Rightarrow> wait_for_completion ss r
      | SyncIdle \<Rightarrow> (Inl HaSyncFailed, r\<lparr>rv_state := SyncFailed\<rparr>))"

definition handle_sync_begin :: "u16 \<Rightarrow> bytes \<Rightarrow> SyncGlobals \<Rightarrow> bool \<times> SyncGlobals" where
  "handle_sync_begin tid ds g =
     (if tid \<noteq> SYNC_DATA_BEGIN_TOPIC then (False, g)
      else case decode_begin ds of
        None \<Rightarrow> (False, g\<lparr>sg_state := SyncFailed\<rparr>)
      | Some b \<Rightarrow> (True, g\<lparr>sg_begin := Some b, sg_expected := sb_chunk_count b, sg_received := 0\<rparr>))"

definition handle_sync_chunk :: "u16 \<Rightarrow> bytes \<Rightarrow> SyncGlobals \<Rightarrow> bool \<times> SyncGlobals" where
  "handle_sync_chunk tid ds g =
     (if tid \<noteq> SYNC_DATA_CHUNK_TOPIC then (False, g)
      else case decode_chunk ds of
        None \<Rightarrow> (False, g\<lparr>sg_state := SyncFailed\<rparr>)
      | Some c \<Rightarrow> (True, g\<lparr>sg_data := map_option (\<lambda>acc. acc @ sc_data c) (sg_data g), sg_received := sg_received g + 1\<rparr>))"

text \<open>\<open>slave_id\<close> is the id the replication manager of the slave answers with.\<close>

definition send_ack :: "socket \<Rightarrow> u64 \<Rightarrow> u8 \<Rightarrow> bool \<Rightarrow> u32 \<Rightarrow> PubSub option \<Rightarrow> PubSub option" where
  "send_ack sock now slave_id success n gp =
     snd (g_publish sock now SYNC_ACK_TOPIC (encode_ack (SyncAck_new slave_id success n)) gp)"

record slave_node =
  sn_globals :: SyncGlobals
  sn_db :: "Database option"
  sn_pubsub :: "PubSub option"

definition handle_sync_end :: "socket \<Rightarrow> u64 \<Rightarrow> u8 \<Rightarrow> u16 \<Rightarrow> bytes \<Rightarrow> slave_node \<Rightarrow> (bool \<times> slave_node) outcome" where
  "handle_sync_end sock now slave_id tid ds s =
     (let g = sn_globals s in
      if tid \<noteq> SYNC_DATA_END_TOPIC then Ok (False, s)
      else case decode_end ds of
        None \<Rightarrow> Ok (False, s\<lparr>sn_globals := g\<lparr>sg_state := SyncFailed\<rparr>\<rparr>)
      | Some e \<Rightarrow>
          if sg_received g \<noteq> sg_expected g \<or> se_total_chunks e \<noteq> sg_expected g
          then Ok (False, s\<lparr>sn_globals := g\<lparr>sg_state := SyncFailed\<rparr>\<rparr>)
          else
            let acc = (case sg_data g of Some a \<Rightarrow> a | None \<Rightarrow> []);
                g1 = g\<lparr>sg_data := None, sg_begin := None\<rparr> in
            case sg_begin g of
              None \<Rightarrow> Ok (True, s\<lparr>sn_globals := g1\<lparr>sg_state := SyncFailed\<rparr>\<rparr>)
            | Some b \<Rightarrow>
                and_then (case sb_sync_type b of
                            FullSync \<Rightarrow> apply_snapshot acc (sn_db s)
                          | IncrementalSync \<Rightarrow> Ok (apply_wal_logs acc, sn_db s)) (\<lambda>(ok, db').
                Ok (True, \<lparr>sn_globals = g1\<lparr>sg_state := (if ok then Synced else SyncFailed)\<rparr>, sn_db = db',
                           sn_pubsub = send_ack sock now slave_id ok (sg_received g) (sn_pubsub s)\<rparr>)))"

text \<open>A message handed to the callback that is subscribed to its topic.\<close>

definition sync_receive :: "socket \<Rightarrow> u64 \<Rightarrow> u8 \<Rightarrow> u16 \<times> bytes \<Rightarrow> slave_node \<Rightarrow> slave_node outcome" where
  "sync_receive sock now slave_id m s =
     (let (tid, ds) = m in
      if tid = SYNC_DATA_BEGIN_TOPIC then Ok (s\<lparr>sn_globals := snd (handle_sync_begin tid ds (sn_globals s))\<rparr>)
      else if tid = SYNC_DATA_CHUNK_TOPIC then Ok (s\<lparr>sn_globals := snd (handle_sync_chunk tid ds (sn_globals s))\<rparr>)
      else and_then (handle_sync_end sock now slave_id tid ds s) (\<lambda>(b, s'). Ok s'))"

fun sync_receive_all :: "socket \<Rightarrow> u64 \<Rightarrow> u8 \<Rightarrow> (u16 \<times> bytes) list \<Rightarrow> slave_node \<Rightarrow> slave_node outcome" where
  "sync_receive_all sock now slave_id [] s = Ok s"
| "sync_receive_all sock now slave_id (m # ms) s =
     and_then (sync_receive sock now slave_id m s) (sync_receive_all sock now slave_id ms)"

end
