(* ===== verification/HaCore.thy ===== *)
theory HaCore
  imports HaSync
begin

text \<open>
  Roles, heartbeats, replication and their manager: \<^verbatim>\<open>src/src/ha/role.rs\<close>, \<^verbatim>\<open>heartbeat.rs\<close>, \<^verbatim>\<open>replication.rs\<close>
  (all but the application of log items, which nothing calls), \<^verbatim>\<open>manager.rs\<close> and \<^verbatim>\<open>mod.rs\<close>.  Times are those of the platform clock in microseconds;
  the wait for an acknowledgement gets the readings of the clock as a list.  The global publish/subscribe instance
  is threaded through; \<open>made\<close> is what creating it gives.  Callbacks that are subscribed are represented by the
  answer they give; only that of the end of a synchronisation depends on the state, and is an argument.
\<close>

section \<open>The global publish/subscribe instance\<close>

definition g_subscribe ::
  "u64 \<Rightarrow> u16 \<Rightarrow> (u16 \<Rightarrow> bytes \<Rightarrow> bool) \<Rightarrow> PubSub option \<Rightarrow> (PubSubError + nat) \<times> PubSub option" where
  "g_subscribe now tid cb gp =
     (case gp of
        None \<Rightarrow> (Inl InitFailed, None)
      | Some ps \<Rightarrow> let (r, m) = subscribe now tid cb (ps_subscribers ps) in (r, Some (ps\<lparr>ps_subscribers := m\<rparr>)))"

definition g_get_topic_id :: "string \<Rightarrow> PubSub option \<Rightarrow> u16 option" where
  "g_get_topic_id nm gp = (case gp of None \<Rightarrow> None | Some ps \<Rightarrow> get_topic_id nm (ps_subscribers ps))"

definition g_init :: "PubSubError + PubSub \<Rightarrow> PubSub option \<Rightarrow> (PubSubError + unit) \<times> PubSub option" where
  "g_init made gp =
     (case gp of
        Some ps \<Rightarrow> (Inr (), gp)
      | None \<Rightarrow>
          (case made of
             Inl e \<Rightarrow> (Inl e, None)
           | Inr ps \<Rightarrow>
               (case register_predefined_topics (ps_subscribers ps) of
                  Inl e \<Rightarrow> (Inl e, None)
                | Inr m \<Rightarrow> (Inr (), Some (ps\<lparr>ps_subscribers := m\<rparr>)))))"

section \<open>Roles\<close>

definition ROLE_CHANGE_TOPIC :: u16 where "ROLE_CHANGE_TOPIC = 4"

definition handle_role_change :: "(HARole \<Rightarrow> bool) option \<Rightarrow> u16 \<Rightarrow> bytes \<Rightarrow> bool" where
  "handle_role_change cb tid ds \<longleftrightarrow>
     tid = ROLE_CHANGE_TOPIC \<and> ds \<noteq> [] \<and> (case cb of Some f \<Rightarrow> f (role_from (ds ! 0)) | None \<Rightarrow> True)"

definition RoleManager_new :: "HARole \<Rightarrow> u8" where
  "RoleManager_new r = role_code r"

definition role_init :: "u64 \<Rightarrow> (HARole \<Rightarrow> bool) option \<Rightarrow> PubSub option \<Rightarrow> PubSub option" where
  "role_init now cb gp = snd (g_subscribe now ROLE_CHANGE_TOPIC (handle_role_change cb) gp)"

definition set_role :: "socket \<Rightarrow> u64 \<Rightarrow> HARole \<Rightarrow> u8 \<times> PubSub option \<Rightarrow> u8 \<times> PubSub option" where
  "set_role sock now r s =
     (if role_from (fst s) = r then s
      else (role_code r, snd (g_publish sock now ROLE_CHANGE_TOPIC [role_code r] (snd s))))"

section \<open>Heartbeats\<close>

definition HEARTBEAT_TOPIC :: u16 where "HEARTBEAT_TOPIC = 3"

record HeartbeatMonitor =
  hm_node_id :: u64
  hm_role :: HARole
  hm_interval :: u64
  hm_failure_time :: u64
  hm_last :: u64
  hm_master_alive :: bool
  hm_receiver_running :: bool
  hm_sender_running :: bool

definition HeartbeatMonitor_new :: "u64 \<Rightarrow> u64 \<Rightarrow> u64 \<Rightarrow> HeartbeatMonitor" where
  "HeartbeatMonitor_new now interval fail =
     \<lparr>hm_node_id = 0, hm_role = AutoRole, hm_interval = interval, hm_failure_time = fail, hm_last = now div 1000,
      hm_master_alive = True, hm_receiver_running = False, hm_sender_running = False\<rparr>"

definition start_heartbeat_sender :: "HeartbeatMonitor \<Rightarrow> HeartbeatMonitor" where
  "start_heartbeat_sender h = (if hm_sender_running h then h else h\<lparr>hm_sender_running := True\<rparr>)"

definition handle_heartbeat_callback :: "u16 \<Rightarrow> bytes \<Rightarrow> bool" where
  "handle_heartbeat_callback tid ds \<longleftrightarrow> tid = HEARTBEAT_TOPIC"

definition start_heartbeat_receiver ::
  "u64 \<Rightarrow> HeartbeatMonitor \<times> PubSub option \<Rightarrow> HeartbeatMonitor \<times> PubSub option" where
  "start_heartbeat_receiver now s =
     (if hm_receiver_running (fst s) then s
      else ((fst s)\<lparr>hm_receiver_running := True\<rparr>, snd (g_subscribe now HEARTBEAT_TOPIC handle_heartbeat_callback (snd s))))"

definition handle_heartbeat :: "u64 \<Rightarrow> bytes \<Rightarrow> HeartbeatMonitor \<Rightarrow> HeartbeatMonitor" where
  "handle_heartbeat now ds h =
     (case heartbeat_from_bytes ds of
        None \<Rightarrow> h
      | Some p \<Rightarrow> if \<not> verify_crc p then h else h\<lparr>hm_last := now div 1000, hm_master_alive := True\<rparr>)"

definition heartbeat_check_status :: "u64 \<Rightarrow> HeartbeatMonitor \<Rightarrow> (HAError + unit) \<times> HeartbeatMonitor" where
  "heartbeat_check_status now h =
     (if hm_role h \<noteq> Slave then (Inr (), h)
      else if now div 1000 - hm_last h > hm_failure_time h then (Inl HaHeartbeatTimeout, h\<lparr>hm_master_alive := False\<rparr>)
      else (Inr (), h))"

definition send_heartbeat :: "socket \<Rightarrow> u64 \<Rightarrow> HeartbeatMonitor \<Rightarrow> PubSub option \<Rightarrow> (HAError + unit) \<times> PubSub option" where
  "send_heartbeat sock now h gp =
     (case g_publish sock now HEARTBEAT_TOPIC (heartbeat_to_bytes (HeartbeatPacket_new now (hm_node_id h) (hm_role h))) gp of
        (Inl e, gp') \<Rightarrow> (Inl HaNetworkError, gp')
      | (Inr u, gp') \<Rightarrow> (Inr (), gp'))"

definition heartbeat_shutdown :: "HeartbeatMonitor \<Rightarrow> HeartbeatMonitor" where
  "heartbeat_shutdown h = h\<lparr>hm_sender_running := False, hm_receiver_running := False\<rparr>"

section \<open>Replication\<close>

datatype ReplicationMode = SyncMode | AsyncMode

definition ACK_TOPIC :: u16 where "ACK_TOPIC = 3"

record ReplicationManager =
  rp_mode :: ReplicationMode
  rp_confirmed :: nat
  rp_total :: nat
  rp_last_index :: u32
  rp_last_timestamp :: u64
  rp_acks :: "bool list"
  rp_delay :: u64
  rp_slave_id :: u8

definition ReplicationManager_new :: "ReplicationMode \<Rightarrow> ReplicationManager" where
  "ReplicationManager_new m =
     \<lparr>rp_mode = m, rp_confirmed = 0, rp_total = 0, rp_last_index = 0, rp_last_timestamp = 0,
      rp_acks = replicate 16 False, rp_delay = 0, rp_slave_id = 0\<rparr>"

definition handle_slave_ack :: "u16 \<Rightarrow> bytes \<Rightarrow> bool" where
  "handle_slave_ack tid ds \<longleftrightarrow> tid = ACK_TOPIC"

definition handle_wal_log_callback :: "u16 \<Rightarrow> bytes \<Rightarrow> bool" where
  "handle_wal_log_callback tid ds = True"

definition replication_init_master :: "u64 \<Rightarrow> PubSub option \<Rightarrow> PubSub option" where
  "replication_init_master now gp = snd (g_subscribe now SYNC_REQUEST_TOPIC handle_slave_ack gp)"

definition subscribe_wal :: "u64 \<Rightarrow> PubSub option \<Rightarrow> (HAError + unit) \<times> PubSub option" where
  "subscribe_wal now gp =
     (case g_get_topic_id ''wal'' gp of
        None \<Rightarrow> (Inl HaReplicationError, gp)
      | Some tid \<Rightarrow>
          (case g_subscribe now tid handle_wal_log_callback gp of
             (Inl e, gp') \<Rightarrow> (Inl HaReplicationError, gp')
           | (Inr u, gp') \<Rightarrow> (Inr (), gp')))"

definition replication_init_slave :: "u64 \<Rightarrow> PubSub option \<Rightarrow> PubSub option" where
  "replication_init_slave now gp = snd (subscribe_wal now gp)"

definition send_slave_ack :: "socket \<Rightarrow> u64 \<Rightarrow> ReplicationManager \<Rightarrow> PubSub option \<Rightarrow> PubSub option" where
  "send_slave_ack sock now r gp =
     snd (g_publish sock now ACK_TOPIC ([rp_slave_id r] @ to_le 4 (unat (rp_last_index r))) gp)"

definition ACK_TIMEOUT :: u64 where "ACK_TIMEOUT = 1000000"

text \<open>The elapsed time is read before every turn of the loop; the readings end when the time is up.\<close>

fun wait_loop :: "u64 list \<Rightarrow> ReplicationManager \<Rightarrow> HAError + unit" where
  "wait_loop [] r = Inl HaSyncFailed"
| "wait_loop (t # ts) r =
     (if \<not> t < ACK_TIMEOUT then Inl HaSyncFailed
      else if rp_confirmed r > 0 then Inr ()
      else wait_loop ts r)"

definition wait_for_slave_ack :: "u64 list \<Rightarrow> ReplicationManager \<Rightarrow> (HAError + unit) \<times> ReplicationManager" where
  "wait_for_slave_ack clock r =
     (let r1 = r\<lparr>rp_confirmed := 0, rp_acks := replicate 16 False\<rparr> in (wait_loop clock r1, r1))"

text \<open>\<open>raw\<close> is the memory of the log item, \<open>stamp\<close> its timestamp.\<close>

definition replicate_wal ::
  "socket \<Rightarrow> u64 \<Rightarrow> u64 list \<Rightarrow> u64 \<Rightarrow> bytes \<Rightarrow> ReplicationManager \<times> PubSub option
     \<Rightarrow> (HAError + unit) \<times> ReplicationManager \<times> PubSub option" where
  "replicate_wal sock now clock stamp bs s =
     (let (r, gp) = s; r1 = r\<lparr>rp_last_index := rp_last_index r + 1, rp_last_timestamp := stamp\<rparr> in
      case g_get_topic_id ''wal'' gp of
        None \<Rightarrow> (Inl HaReplicationError, r1, gp)
      | Some tid \<Rightarrow>
          (case g_publish sock now tid bs gp of
             (Inl e, gp') \<Rightarrow> (Inl HaReplicationError, r1, gp')
           | (Inr u, gp') \<Rightarrow>
               (case rp_mode r1 of
                  SyncMode \<Rightarrow> let (w, r2) = wait_for_slave_ack clock r1 in (w, r2, gp')
                | AsyncMode \<Rightarrow> (Inr (), r1, gp'))))"

definition replication_check_status :: "ReplicationManager \<Rightarrow> HAError + unit" where
  "replication_check_status r = Inr ()"

definition request_sync :: "socket \<Rightarrow> u64 \<Rightarrow> SyncRequest \<Rightarrow> PubSub option \<Rightarrow> (HAError + unit) \<times> PubSub option" where
  "request_sync sock now req gp =
     (case g_publish sock now SYNC_REQUEST_TOPIC (encode_request req) gp of
        (Inl e, gp') \<Rightarrow> (Inl HaSyncFailed, gp')
      | (Inr u, gp') \<Rightarrow> (Inr (), gp'))"

definition request_full_sync :: "socket \<Rightarrow> u64 \<Rightarrow> ReplicationManager \<Rightarrow> PubSub option \<Rightarrow> (HAError + unit) \<times> PubSub option" where
  "request_full_sync sock now r gp = request_sync sock now (new_full (rp_slave_id r)) gp"

definition request_incremental_sync ::
  "socket \<Rightarrow> u64 \<Rightarrow> u32 \<Rightarrow> ReplicationManager \<Rightarrow> PubSub option \<Rightarrow> (HAError + unit) \<times> PubSub option" where
  "request_incremental_sync sock now n r gp = request_sync sock now (new_incremental (rp_slave_id r) n) gp"

section \<open>The handler and the receiver subscribe\<close>

fun subscribe_all ::
  "u64 \<Rightarrow> (u16 \<times> (u16 \<Rightarrow> bytes \<Rightarrow> bool)) list \<Rightarrow> PubSub option \<Rightarrow> (HAError + unit) \<times> PubSub option" where
  "subscribe_all now [] gp = (Inr (), gp)"
| "subscribe_all now ((tid, cb) # cs) gp =
     (case g_subscribe now tid cb gp of
        (Inl e, gp') \<Rightarrow> (Inl HaInitFailed, gp')
      | (Inr i, gp') \<Rightarrow> subscribe_all now cs gp')"

definition sync_handler_init :: "u64 \<Rightarrow> PubSub option \<Rightarrow> (HAError + unit) \<times> PubSub option" where
  "sync_handler_init now gp =
     subscribe_all now
       [(SYNC_REQUEST_TOPIC, \<lambda>tid ds. tid = SYNC_REQUEST_TOPIC \<and> decode_request ds \<noteq> None),
        (SYNC_ACK_TOPIC, handle_sync_ack_callback)] gp"

definition sync_receiver_init :: "(u16 \<Rightarrow> bytes \<Rightarrow> bool) \<Rightarrow> u64 \<Rightarrow> PubSub option \<Rightarrow> (HAError + unit) \<times> PubSub option" where
  "sync_receiver_init end_cb now gp =
     subscribe_all now
       [(SYNC_DATA_BEGIN_TOPIC, \<lambda>tid ds. tid = SYNC_DATA_BEGIN_TOPIC \<and> decode_begin ds \<noteq> None),
        (SYNC_DATA_CHUNK_TOPIC, \<lambda>tid ds. tid = SYNC_DATA_CHUNK_TOPIC \<and> decode_chunk ds \<noteq> None),
        (SYNC_DATA_END_TOPIC, end_cb)] gp"

section \<open>The manager\<close>

record HAConfig =
  hc_node_id :: u32
  hc_role :: HARole
  hc_mode :: ReplicationMode
  hc_heartbeat_interval :: u64
  hc_failure_detection :: u64
  hc_sync_timeout :: u64
  hc_master_address :: "string option"
  hc_master_port :: "u16 option"
  hc_replication_port :: u16

definition HAConfig_default :: HAConfig where
  "HAConfig_default =
     \<lparr>hc_node_id = 1, hc_role = AutoRole, hc_mode = AsyncMode, hc_heartbeat_interval = 1000, hc_failure_detection = 3000,
      hc_sync_timeout = 2000, hc_master_address = None, hc_master_port = None, hc_replication_port = 5556\<rparr>"

text \<open>The handler keeps no state that anything changes; it is there or not.\<close>

record HAManager =
  ha_config :: "HAConfig option"
  ha_role :: u8
  ha_replication :: ReplicationManager
  ha_heartbeat :: HeartbeatMonitor
  ha_has_handler :: bool
  ha_receiver :: "SyncReceiver option"

type_synonym ha_state = "HAManager \<times> PubSub option"

definition HAManager_new :: "u64 \<Rightarrow> HAConfig option \<Rightarrow> HAError + HAManager" where
  "HAManager_new now cfg =
     (case cfg of
        None \<Rightarrow> Inl HaInvalidParameter
      | Some c \<Rightarrow> Inr \<lparr>ha_config = cfg, ha_role = RoleManager_new (hc_role c),
            ha_replication = ReplicationManager_new (hc_mode c),
            ha_heartbeat = (HeartbeatMonitor_new now (hc_heartbeat_interval c) (hc_failure_detection c))
              \<lparr>hm_node_id := ucast (hc_node_id c)\<rparr>,
            ha_has_handler = False, ha_receiver = None\<rparr>)"

definition ha_get_role :: "HAManager \<Rightarrow> HARole" where
  "ha_get_role h = role_from (ha_role h)"

fun pubsub_to_ha :: "PubSubError \<Rightarrow> HAError" where
  "pubsub_to_ha InitFailed = HaInitFailed"
| "pubsub_to_ha NetworkError = HaNetworkError"
| "pubsub_to_ha InvalidParameter = HaInvalidParameter"
| "pubsub_to_ha e = HaInitFailed"

definition ha_init_master :: "u64 \<Rightarrow> ha_state \<Rightarrow> (HAError + unit) \<times> ha_state" where
  "ha_init_master now s =
     (let (h, gp) = s;
          h1 = h\<lparr>ha_heartbeat := start_heartbeat_sender (ha_heartbeat h)\<rparr> in
      case sync_handler_init now (replication_init_master now gp) of
        (Inl e, gp') \<Rightarrow> (Inl e, h1, gp')
      | (Inr u, gp') \<Rightarrow> (Inr (), h1\<lparr>ha_has_handler := True\<rparr>, gp'))"

definition connect_to_master :: "socket \<Rightarrow> u64 \<Rightarrow> ha_state \<Rightarrow> (HAError + unit) \<times> PubSub option" where
  "connect_to_master sock now s =
     (case ha_config (fst s) of
        None \<Rightarrow> (Inl HaInvalidParameter, snd s)
      | Some c \<Rightarrow>
          if hc_master_address c = None \<or> hc_master_port c = None then (Inr (), snd s)
          else request_full_sync sock now (ha_replication (fst s)) (snd s))"

definition ha_init_slave :: "socket \<Rightarrow> u64 \<Rightarrow> (u16 \<Rightarrow> bytes \<Rightarrow> bool) \<Rightarrow> ha_state \<Rightarrow> (HAError + unit) \<times> ha_state" where
  "ha_init_slave sock now end_cb s =
     (let (h, gp) = s;
          (hb, gp1) = start_heartbeat_receiver now (ha_heartbeat h, replication_init_slave now gp);
          h1 = h\<lparr>ha_heartbeat := hb\<rparr> in
      case ha_config h of
        None \<Rightarrow> (Inl HaInvalidParameter, h1, gp1)
      | Some c \<Rightarrow>
          (case sync_receiver_init end_cb now gp1 of
             (Inl e, gp2) \<Rightarrow> (Inl e, h1, gp2)
           | (Inr u, gp2) \<Rightarrow>
               let h2 = h1\<lparr>ha_receiver := Some (SyncReceiver_new (ucast (hc_node_id c)))\<rparr>;
                   (r, gp3) = connect_to_master sock now (h2, gp2) in
               (r, h2, gp3)))"

definition PROBE_TOPIC :: u16 where "PROBE_TOPIC = 99"

text \<open>The probe goes out and its answer is not awaited: no cluster is ever found.\<close>

definition detect_existing_cluster :: "socket \<Rightarrow> u64 \<Rightarrow> PubSub option \<Rightarrow> bool \<times> PubSub option" where
  "detect_existing_cluster sock now gp = (False, snd (g_publish sock now PROBE_TOPIC [0] gp))"

definition ha_set_role :: "socket \<Rightarrow> u64 \<Rightarrow> HARole \<Rightarrow> ha_state \<Rightarrow> ha_state" where
  "ha_set_role sock now r s = (let (c, gp) = set_role sock now r (ha_role (fst s), snd s) in ((fst s)\<lparr>ha_role := c\<rparr>, gp))"

definition ha_init_auto :: "socket \<Rightarrow> u64 \<Rightarrow> (u16 \<Rightarrow> bytes \<Rightarrow> bool) \<Rightarrow> ha_state \<Rightarrow> (HAError + unit) \<times> ha_state" where
  "ha_init_auto sock now end_cb s =
     (let (found, gp) = detect_existing_cluster sock now (snd s) in
      if found then ha_init_slave sock now end_cb (ha_set_role sock now Slave (fst s, gp))
      else ha_init_master now (ha_set_role sock now Master (fst s, gp)))"

definition ha_init ::
  "PubSubError + PubSub \<Rightarrow> socket \<Rightarrow> u64 \<Rightarrow> (HARole \<Rightarrow> bool) option \<Rightarrow> (u16 \<Rightarrow> bytes \<Rightarrow> bool) \<Rightarrow> ha_state
     \<Rightarrow> (HAError + unit) \<times> ha_state" where
  "ha_init made sock now cb end_cb s =
     (if ha_config (fst s) = None then (Inl HaInvalidParameter, s)
      else case g_init made (snd s) of
        (Inl e, gp) \<Rightarrow> (Inl (pubsub_to_ha e), fst s, gp)
      | (Inr u, gp) \<Rightarrow>
          let s1 = (fst s, role_init now cb gp) in
          (case ha_get_role (fst s1) of
             Master \<Rightarrow> ha_init_master now s1
           | Slave \<Rightarrow> ha_init_slave sock now end_cb s1
           | AutoRole \<Rightarrow> ha_init_auto sock now end_cb s1))"

definition ha_replicate_wal ::
  "socket \<Rightarrow> u64 \<Rightarrow> u64 list \<Rightarrow> u64 \<Rightarrow> bytes \<Rightarrow> ha_state \<Rightarrow> (HAError + unit) \<times> ha_state" where
  "ha_replicate_wal sock now clock stamp bs s =
     (if ha_get_role (fst s) \<noteq> Master then (Inr (), s)
      else let (r, rp, gp) = replicate_wal sock now clock stamp bs (ha_replication (fst s), snd s) in
        (r, (fst s)\<lparr>ha_replication := rp\<rparr>, gp))"

definition handle_heartbeat_timeout :: "HAManager \<Rightarrow> HAError + unit" where
  "handle_heartbeat_timeout h = Inr ()"

definition ha_check_status :: "u64 \<Rightarrow> HAManager \<Rightarrow> (HAError + unit) \<times> HAManager" where
  "ha_check_status now h =
     (let (r, hb) = heartbeat_check_status now (ha_heartbeat h); h1 = h\<lparr>ha_heartbeat := hb\<rparr> in
      case r of
        Inl HaHeartbeatTimeout \<Rightarrow>
          (case handle_heartbeat_timeout h1 of Inl e \<Rightarrow> (Inl e, h1) | Inr u \<Rightarrow> (replication_check_status (ha_replication h1), h1))
      | Inl e \<Rightarrow> (Inl e, h1)
      | Inr u \<Rightarrow> (replication_check_status (ha_replication h1), h1))"

definition promote_to_master :: "socket \<Rightarrow> u64 \<Rightarrow> ha_state \<Rightarrow> (HAError + unit) \<times> ha_state" where
  "promote_to_master sock now s =
     (if ha_get_role (fst s) = Master then (Inr (), s)
      else let (h, gp) = ha_set_role sock now Master s in
        ha_init_master now (h\<lparr>ha_heartbeat := (ha_heartbeat h)\<lparr>hm_role := Master\<rparr>\<rparr>, gp))"

definition demote_to_slave :: "socket \<Rightarrow> u64 \<Rightarrow> (u16 \<Rightarrow> bytes \<Rightarrow> bool) \<Rightarrow> ha_state \<Rightarrow> (HAError + unit) \<times> ha_state" where
  "demote_to_slave sock now end_cb s =
     (if ha_get_role (fst s) = Slave then (Inr (), s)
      else let (h, gp) = ha_set_role sock now Slave s in
        (Inr (), snd (ha_init_slave sock now end_cb (h\<lparr>ha_heartbeat := (ha_heartbeat h)\<lparr>hm_role := Slave\<rparr>\<rparr>, gp))))"

definition get_sync_state :: "HAManager \<Rightarrow> SyncState" where
  "get_sync_state h =
     (if ha_has_handler h then SyncIdle else case ha_receiver h of Some r \<Rightarrow> rv_state r | None \<Rightarrow> SyncIdle)"

text \<open>The parts are shut down in turn; \<open>closed\<close> is the answer of closing the publish/subscribe system.\<close>

definition ha_shutdown :: "PubSubError option \<Rightarrow> HAManager \<times> SyncGlobals \<Rightarrow> (HAError + unit) \<times> HAManager \<times> SyncGlobals" where
  "ha_shutdown closed s =
     (let (h, g) = s;
          (rv, g1) = (case ha_receiver h of
                        None \<Rightarrow> (None, g)
                      | Some r \<Rightarrow> let (r', g') = receiver_shutdown (r, g) in (Some r', g'));
          h1 = h\<lparr>ha_receiver := rv, ha_heartbeat := heartbeat_shutdown (ha_heartbeat h)\<rparr> in
      (case closed of
         None \<Rightarrow> Inr ()
       | Some e \<Rightarrow>
           Inl (case e of InitFailed \<Rightarrow> HaInitFailed | NetworkError \<Rightarrow> HaNetworkError | InvalidParameter \<Rightarrow> HaInvalidParameter
                | _ \<Rightarrow> HaReplicationError), h1, g1))"

section \<open>The global manager\<close>

definition ha_global_init ::
  "PubSubError + PubSub \<Rightarrow> socket \<Rightarrow> u64 \<Rightarrow> (HARole \<Rightarrow> bool) option \<Rightarrow> (u16 \<Rightarrow> bytes \<Rightarrow> bool) \<Rightarrow> HAConfig option
     \<Rightarrow> HAManager option \<times> PubSub option \<Rightarrow> (HAError + unit) \<times> HAManager option \<times> PubSub option" where
  "ha_global_init made sock now cb end_cb cfg s =
     (if fst s \<noteq> None then (Inl HaInitFailed, s)
      else if cfg = None then (Inr (), s)
      else case HAManager_new now cfg of
        Inl e \<Rightarrow> (Inl e, s)
      | Inr h \<Rightarrow>
          (case ha_init made sock now cb end_cb (h, snd s) of
             (Inl e, h', gp) \<Rightarrow> (Inl e, None, gp)
           | (Inr u, h', gp) \<Rightarrow> (Inr (), Some h', gp)))"

definition ha_global_shutdown ::
  "PubSubError option \<Rightarrow> HAManager option \<times> SyncGlobals \<Rightarrow> HAManager option \<times> SyncGlobals" where
  "ha_global_shutdown closed s =
     (case fst s of None \<Rightarrow> s | Some h \<Rightarrow> (None, snd (snd (ha_shutdown closed (h, snd s)))))"

definition ha_global_promote ::
  "socket \<Rightarrow> u64 \<Rightarrow> HAManager option \<times> PubSub option \<Rightarrow> (HAError + unit) \<times> HAManager option \<times> PubSub option" where
  "ha_global_promote sock now s =
     (case fst s of
        None \<Rightarrow> (Inl HaInitFailed, s)
      | Some h \<Rightarrow> let (r, h', gp) = promote_to_master sock now (h, snd s) in (r, Some h', gp))"

definition ha_global_demote ::
  "socket \<Rightarrow> u64 \<Rightarrow> (u16 \<Rightarrow> bytes \<Rightarrow> bool) \<Rightarrow> HAManager option \<times> PubSub option
     \<Rightarrow> (HAError + unit) \<times> HAManager option \<times> PubSub option" where
  "ha_global_demote sock now end_cb s =
     (case fst s of
        None \<Rightarrow> (Inl HaInitFailed, s)
      | Some h \<Rightarrow> let (r, h', gp) = demote_to_slave sock now end_cb (h, snd s) in (r, Some h', gp))"

definition ha_global_check :: "u64 \<Rightarrow> HAManager option \<Rightarrow> (HAError + unit) \<times> HAManager option" where
  "ha_global_check now s =
     (case s of
        None \<Rightarrow> (Inl HaInitFailed, None)
      | Some h \<Rightarrow> let (r, h') = ha_check_status now h in (r, Some h'))"

definition ha_global_role :: "HAManager option \<Rightarrow> HAError + HARole" where
  "ha_global_role h = (case h of Some m \<Rightarrow> Inr (ha_get_role m) | None \<Rightarrow> Inl HaInitFailed)"

definition ha_global_mode :: "HAManager option \<Rightarrow> HAError + ReplicationMode" where
  "ha_global_mode h = (case h of Some m \<Rightarrow> Inr (rp_mode (ha_replication m)) | None \<Rightarrow> Inl HaInitFailed)"

end
