(* ===== verification/HaCore_Inv.thy ===== *)
theory HaCore_Inv
  imports HaCore
begin

text \<open>
  The manager of the cluster role as a state machine: what its steps keep, and that neither a lost master nor a missing
  acknowledgement leads where the comments say.
\<close>

section \<open>Effects on the role\<close>

lemma role_of_set_role [simp]: "role_from (fst (set_role sock now r s)) = r"
  by (simp add: set_role_def)

lemma ha_set_role_frame [simp]:
  "ha_get_role (fst (ha_set_role sock now r s)) = r" "ha_heartbeat (fst (ha_set_role sock now r s)) = ha_heartbeat (fst s)"
  "ha_config (fst (ha_set_role sock now r s)) = ha_config (fst s)"
  "ha_has_handler (fst (ha_set_role sock now r s)) = ha_has_handler (fst s)"
  using role_of_set_role [of sock now r "(ha_role (fst s), snd s)"]
  by (cases "set_role sock now r (ha_role (fst s), snd s)"; simp add: ha_set_role_def ha_get_role_def)+

lemma sender_role [simp]: "hm_role (start_heartbeat_sender h) = hm_role h"
  by (simp add: start_heartbeat_sender_def)

lemma receiver_role [simp]: "hm_role (fst (start_heartbeat_receiver now s)) = hm_role (fst s)"
  by (simp add: start_heartbeat_receiver_def)

lemma init_master_frame [simp]:
  "ha_role (fst (snd (ha_init_master now s))) = ha_role (fst s)"
  "hm_role (ha_heartbeat (fst (snd (ha_init_master now s)))) = hm_role (ha_heartbeat (fst s))"
  by (auto simp: ha_init_master_def Let_def split: prod.split sum.split)

lemma init_master_handler: "fst (ha_init_master now s) = Inr () \<Longrightarrow> ha_has_handler (fst (snd (ha_init_master now s)))"
  by (auto simp: ha_init_master_def Let_def split: prod.splits sum.splits)

lemma init_slave_frame [simp]:
  "ha_role (fst (snd (ha_init_slave sock now cb s))) = ha_role (fst s)"
  "hm_role (ha_heartbeat (fst (snd (ha_init_slave sock now cb s)))) = hm_role (ha_heartbeat (fst s))"
proof -
  obtain hb gp where hb: "start_heartbeat_receiver now (ha_heartbeat (fst s), replication_init_slave now (snd s)) = (hb, gp)"
    by fastforce
  then have "hm_role hb = hm_role (ha_heartbeat (fst s))"
    using receiver_role [of now "(ha_heartbeat (fst s), replication_init_slave now (snd s))"] by simp
  then show "ha_role (fst (snd (ha_init_slave sock now cb s))) = ha_role (fst s)"
    "hm_role (ha_heartbeat (fst (snd (ha_init_slave sock now cb s)))) = hm_role (ha_heartbeat (fst s))"
    using hb by (auto simp: ha_init_slave_def Let_def split: prod.splits sum.splits option.splits)
qed

lemma get_role_cong: "ha_role h = ha_role h' \<Longrightarrow> ha_get_role h = ha_get_role h'"
  by (simp add: ha_get_role_def)

lemma init_auto_role:
  "ha_get_role (fst (snd (ha_init_auto sock now cb s))) = Master"
  "hm_role (ha_heartbeat (fst (snd (ha_init_auto sock now cb s)))) = hm_role (ha_heartbeat (fst s))"
  using get_role_cong [OF init_master_frame(1)] by (simp_all add: ha_init_auto_def detect_existing_cluster_def)

lemma ha_init_role:
  assumes "ha_init made sock now rcb cb s = (r, s')"
  shows "hm_role (ha_heartbeat (fst s')) = hm_role (ha_heartbeat (fst s))"
    "ha_get_role (fst s') = ha_get_role (fst s) \<or> ha_get_role (fst s) = AutoRole \<and> ha_get_role (fst s') = Master"
proof -
  have f: "hm_role (ha_heartbeat (fst (snd (ha_init made sock now rcb cb s)))) = hm_role (ha_heartbeat (fst s))"
    by (simp add: ha_init_def init_auto_role(2) Let_def split: prod.split sum.split HARole.split)
  then show "hm_role (ha_heartbeat (fst s')) = hm_role (ha_heartbeat (fst s))" using assms by simp
  have g: "ha_get_role (fst (snd (ha_init made sock now rcb cb s))) = ha_get_role (fst s)
      \<or> ha_get_role (fst s) = AutoRole \<and> ha_get_role (fst (snd (ha_init made sock now rcb cb s))) = Master"
  proof (cases "ha_get_role (fst s)")
    case AutoRole
    then show ?thesis by (simp add: ha_init_def init_auto_role(1) Let_def split: prod.split sum.split)
  next
    case Master
    then show ?thesis
      using get_role_cong [OF init_master_frame(1)] by (simp add: ha_init_def Let_def split: prod.split sum.split)
  next
    case Slave
    then show ?thesis
      using get_role_cong [OF init_slave_frame(1)] by (simp add: ha_init_def Let_def split: prod.split sum.split)
  qed
  then show "ha_get_role (fst s') = ha_get_role (fst s) \<or> ha_get_role (fst s) = AutoRole \<and> ha_get_role (fst s') = Master"
    using assms by simp
qed

lemma promote_role:
  assumes "promote_to_master sock now s = (r, s')"
  shows "ha_get_role (fst s') = Master \<and> (s' = s \<or> hm_role (ha_heartbeat (fst s')) = Master)"
proof (cases "ha_get_role (fst s) = Master")
  case True
  then show ?thesis using assms by (simp add: promote_to_master_def)
next
  case False
  obtain h gp where q: "ha_set_role sock now Master s = (h, gp)" by fastforce
  let ?x = "(h\<lparr>ha_heartbeat := (ha_heartbeat h)\<lparr>hm_role := Master\<rparr>\<rparr>, gp)"
  have "ha_init_master now ?x = (r, s')" using False assms q by (simp add: promote_to_master_def)
  then show ?thesis
    using ha_set_role_frame(1) [of sock now Master s] q init_master_frame [of now ?x] by (simp add: ha_get_role_def)
qed

lemma demote_role:
  assumes "demote_to_slave sock now cb s = (r, s')"
  shows "ha_get_role (fst s') = Slave \<and> (s' = s \<or> hm_role (ha_heartbeat (fst s')) = Slave)"
proof (cases "ha_get_role (fst s) = Slave")
  case True
  then show ?thesis using assms by (simp add: demote_to_slave_def)
next
  case False
  obtain h gp where q: "ha_set_role sock now Slave s = (h, gp)" by fastforce
  let ?x = "(h\<lparr>ha_heartbeat := (ha_heartbeat h)\<lparr>hm_role := Slave\<rparr>\<rparr>, gp)"
  have "s' = snd (ha_init_slave sock now cb ?x)" using False assms q by (simp add: demote_to_slave_def)
  then show ?thesis
    using ha_set_role_frame(1) [of sock now Slave s] q init_slave_frame [of sock now cb ?x] by (simp add: ha_get_role_def)
qed

lemma check_status_eq:
  "fst (ha_check_status now h) = Inr ()" "ha_get_role (snd (ha_check_status now h)) = ha_get_role h"
  "hm_role (ha_heartbeat (snd (ha_check_status now h))) = hm_role (ha_heartbeat h)"
  "hm_role (ha_heartbeat h) \<noteq> Slave \<Longrightarrow> snd (ha_check_status now h) = h"
  by (auto simp: ha_check_status_def heartbeat_check_status_def replication_check_status_def handle_heartbeat_timeout_def
      ha_get_role_def Let_def)

lemma replicate_frame:
  assumes "ha_replicate_wal sock now clock stamp bs s = (r, s')"
  shows "ha_role (fst s') = ha_role (fst s)" "ha_heartbeat (fst s') = ha_heartbeat (fst s)"
  using assms by (auto simp: ha_replicate_wal_def Let_def split: prod.splits if_splits)

lemma wait_loop_none: "rp_confirmed r = 0 \<Longrightarrow> wait_loop clock r = Inl HaSyncFailed"
  by (induction clock) auto

section \<open>The state machine\<close>

inductive ha_step :: "ha_state \<Rightarrow> ha_state \<Rightarrow> bool" where
  init: "ha_init made sock now rcb cb s = (r, s') \<Longrightarrow> ha_step s s'"
| promote: "promote_to_master sock now s = (r, s') \<Longrightarrow> ha_step s s'"
| demote: "demote_to_slave sock now cb s = (r, s') \<Longrightarrow> ha_step s s'"
| check: "ha_check_status now h = (r, h') \<Longrightarrow> ha_step (h, gp) (h', gp)"
| replicate: "ha_replicate_wal sock now clock stamp bs s = (r, s') \<Longrightarrow> ha_step s s'"
| beat: "ha_step (h, gp) (h\<lparr>ha_heartbeat := handle_heartbeat now ds (ha_heartbeat h)\<rparr>, gp)"

inductive_cases ha_stepE: "ha_step s s'"

inductive ha_reachable :: "ha_state \<Rightarrow> bool" where
  new: "HAManager_new now cfg = Inr h \<Longrightarrow> ha_reachable (h, gp)"
| step: "ha_reachable s \<Longrightarrow> ha_step s s' \<Longrightarrow> ha_reachable s'"

lemma heartbeat_role [simp]: "hm_role (handle_heartbeat now ds h) = hm_role h"
  by (simp add: handle_heartbeat_def split: option.split)

definition roles_agree :: "HAManager \<Rightarrow> bool" where
  "roles_agree h \<longleftrightarrow> hm_role (ha_heartbeat h) = AutoRole \<or> hm_role (ha_heartbeat h) = ha_get_role h"

lemma step_roles_agree:
  assumes "ha_step s s'" "roles_agree (fst s)"
  shows "roles_agree (fst s')"
  using assms
proof (cases rule: ha_step.cases)
  case (init made sock now rcb cb r)
  then show ?thesis using ha_init_role [OF init] assms(2) by (auto simp: roles_agree_def)
next
  case (promote sock now r)
  then show ?thesis using promote_role [OF promote] assms(2) by (auto simp: roles_agree_def)
next
  case (demote sock now cb r)
  then show ?thesis using demote_role [OF demote] assms(2) by (auto simp: roles_agree_def)
next
  case (check now h r h' gp)
  then show ?thesis using check_status_eq(2,3) [of now h] assms(2) by (simp add: roles_agree_def)
next
  case (replicate sock now clock stamp bs r)
  then show ?thesis using replicate_frame [OF replicate] assms(2) by (simp add: roles_agree_def ha_get_role_def)
next
  case (beat h gp now ds)
  then show ?thesis using assms(2) by (simp add: roles_agree_def ha_get_role_def)
qed

lemma step_keeps_role_set:
  assumes "ha_step s s'" "ha_get_role (fst s) \<noteq> AutoRole"
  shows "ha_get_role (fst s') \<noteq> AutoRole"
  using assms
proof (cases rule: ha_step.cases)
  case (init made sock now rcb cb r)
  then show ?thesis using ha_init_role(2) [OF init] assms(2) by auto
next
  case (promote sock now r)
  then show ?thesis using promote_role [OF promote] by simp
next
  case (demote sock now cb r)
  then show ?thesis using demote_role [OF demote] by simp
next
  case (check now h r h' gp)
  then show ?thesis using check_status_eq(2) [of now h] assms(2) by simp
next
  case (replicate sock now clock stamp bs r)
  then show ?thesis using replicate_frame [OF replicate] assms(2) by (simp add: ha_get_role_def)
next
  case (beat h gp now ds)
  then show ?thesis using assms(2) by (simp add: ha_get_role_def)
qed

section \<open>Properties\<close>

text \<open>
  (C9) The roles stay consistent.  Whatever is initialised, promoted, demoted, checked, replicated or received, and
  whether it fails or not, the heartbeat monitor has either no role yet or the role of the manager, and a node
  that has taken a role never goes back to deciding it.
\<close>

theorem ha_roles_consistent:
  assumes "ha_reachable s"
  shows "roles_agree (fst s) \<and> (\<forall>s'. ha_step s s' \<and> ha_get_role (fst s) \<noteq> AutoRole \<longrightarrow> ha_get_role (fst s') \<noteq> AutoRole)"
proof -
  have "roles_agree (fst s)"
    using assms
  proof (induction rule: ha_reachable.induct)
    case (new now cfg h gp)
    then show ?case by (auto simp: HAManager_new_def HeartbeatMonitor_new_def roles_agree_def split: option.splits)
  next
    case (step s s')
    then show ?case using step_roles_agree by blast
  qed
  then show ?thesis using step_keeps_role_set by blast
qed


text \<open>
  Two nodes in automatic mode are two masters.  The probe for an existing cluster is sent but never answered: a node
  that starts in automatic mode becomes master, whatever else is on the network.
\<close>

theorem ha_auto_becomes_master:
  assumes "HAManager_new t0 (Some c) = Inr h" "hc_role c = AutoRole" "ha_init made sock t1 rcb cb (h, gp) = (Inr (), h', gp')"
  shows "ha_get_role h' = Master \<and> ha_has_handler h' \<and> ha_receiver h' = None"
proof -
  have n: "ha_get_role h = AutoRole" "ha_config h = Some c" "ha_receiver h = None"
    using assms(1,2) by (auto simp: HAManager_new_def RoleManager_new_def ha_get_role_def role_from_def)
  obtain gp1 where g: "g_init made gp = (Inr (), gp1)"
    using assms(3) n(2) by (cases "g_init made gp") (auto simp: ha_init_def split: sum.splits)
  let ?s = "ha_set_role sock t1 Master (h, snd (g_publish sock t1 PROBE_TOPIC [0] (role_init t1 rcb gp1)))"
  have m: "ha_init_master t1 ?s = (Inr (), h', gp')"
    using assms(3) n(1,2) g by (simp add: ha_init_def ha_init_auto_def detect_existing_cluster_def)
  have "ha_receiver (fst ?s) = None" using n(3) by (auto simp: ha_set_role_def Let_def split: prod.split)
  then have "ha_receiver h' = None"
    using m by (auto simp: ha_init_master_def Let_def split: prod.splits sum.splits)
  moreover have "ha_get_role h' = Master"
    using get_role_cong [OF init_master_frame(1) [of t1 ?s]] m by simp
  ultimately show ?thesis using init_master_handler [of t1 ?s] m by simp
qed

text \<open>
  Synchronous replication never succeeds.  The wait resets the count of acknowledgements and nothing counts them up
  while it holds the manager: on a master in synchronous mode the replication of every log item fails, after the item
  has been published.  In asynchronous mode it succeeds whenever the item is published.
\<close>

theorem ha_sync_replication_fails:
  assumes "ha_get_role h = Master"
  shows "if rp_mode (ha_replication h) = SyncMode then fst (ha_replicate_wal sock now clock stamp bs (h, gp)) \<noteq> Inr ()
    else (fst (ha_replicate_wal sock now clock stamp bs (h, gp)) = Inr () \<longleftrightarrow>
      (\<exists>tid. g_get_topic_id ''wal'' gp = Some tid \<and> fst (g_publish sock now tid bs gp) = Inr ()))"
proof (cases "rp_mode (ha_replication h)")
  case SyncMode
  then show ?thesis
    using assms
    by (auto simp: ha_replicate_wal_def replicate_wal_def wait_for_slave_ack_def wait_loop_none Let_def
        split: prod.splits sum.splits option.splits)
next
  case AsyncMode
  then show ?thesis
    using assms by (auto simp: ha_replicate_wal_def replicate_wal_def Let_def split: prod.splits sum.splits option.splits)
qed

section \<open>Concrete managers\<close>

definition demo_ha :: "HARole \<Rightarrow> ReplicationMode \<Rightarrow> HAManager" where
  "demo_ha r m =
     \<lparr>ha_config = Some (HAConfig_default\<lparr>hc_role := r, hc_mode := m\<rparr>), ha_role = role_code r,
      ha_replication = ReplicationManager_new m,
      ha_heartbeat = (HeartbeatMonitor_new 0 1000 3000)\<lparr>hm_node_id := 1\<rparr>, ha_has_handler = False, ha_receiver = None\<rparr>"

lemma demo_ha_new: "HAManager_new 0 (Some (HAConfig_default\<lparr>hc_role := r, hc_mode := m\<rparr>)) = Inr (demo_ha r m)"
  by (simp add: HAManager_new_def demo_ha_def HAConfig_default_def RoleManager_new_def)

theorem ha_roles_consistent_witness: "roles_agree (demo_ha Slave AsyncMode)"
  using ha_roles_consistent [OF ha_reachable.new [OF demo_ha_new, of Slave AsyncMode None]] by simp


definition demo_net :: PubSub where
  "demo_net = \<lparr>ps_subscribers = \<lparr>max_topics = 16, max_subscribers_per_topic = 4, subscribers = replicate 16 [], wildcard_subscribers = [],
     next_subscription_id = 1, global_subscribers = [], topic_map = Map.empty, id_map = [], expected_seq_nums = replicate 16 1\<rparr>,
     ps_publisher = Publisher_new True 100 3, heartbeat_interval = 10, outbox = [], delivered = []\<rparr>"

theorem ha_auto_becomes_master_witness:
  "\<exists>h' gp'. ha_init (Inl NetworkError) (\<lambda>f. None) 1 None (\<lambda>t d. True) (demo_ha AutoRole AsyncMode, Some demo_net) = (Inr (), h', gp')
    \<and> ha_get_role h' = Master"
proof -
  obtain r h' gp' where i: "ha_init (Inl NetworkError) (\<lambda>f. None) 1 None (\<lambda>t d. True) (demo_ha AutoRole AsyncMode, Some demo_net) = (r, h', gp')"
    using prod_cases3 by blast
  have "fst (ha_init (Inl NetworkError) (\<lambda>f. None) 1 None (\<lambda>t d. True) (demo_ha AutoRole AsyncMode, Some demo_net)) = Inr ()"
    by (simp add: ha_init_def demo_ha_def g_init_def role_init_def g_subscribe_def demo_net_def subscribe_def place_def
        WILDCARD_TOPIC_ID_def ROLE_CHANGE_TOPIC_def ha_get_role_def role_from_def ha_init_auto_def detect_existing_cluster_def
        ha_set_role_def set_role_def g_publish_def publish_def create_frame_def new_data_frame_def MAX_DATA_LEN_def
        Publisher_new_def PROBE_TOPIC_def ha_init_master_def sync_handler_init_def replication_init_master_def topic_defs Let_def)
  then have r: "r = Inr ()" using i by simp
  have "hc_role (HAConfig_default\<lparr>hc_role := AutoRole, hc_mode := AsyncMode\<rparr>) = AutoRole" by simp
  from ha_auto_becomes_master [OF demo_ha_new this i [unfolded r]] i r show ?thesis by blast
qed

theorem ha_sync_replication_fails_witness:
  "fst (ha_replicate_wal (\<lambda>f. None) 1 [0, 10] 0 [] (demo_ha Master SyncMode, Some demo_net)) \<noteq> Inr ()"
proof -
  have "ha_get_role (demo_ha Master SyncMode) = Master" by (simp add: ha_get_role_def demo_ha_def role_from_def)
  from ha_sync_replication_fails [OF this, of "\<lambda>f. None" 1 "[0, 10]" 0 "[]" "Some demo_net"] show ?thesis
    by (simp add: demo_ha_def ReplicationManager_new_def)
qed

end
