(* ===== verification/HaSync_Inv.thy ===== *)
theory HaSync_Inv
  imports HaSync Demo
begin

text \<open>
  A snapshot is read back by the slave, record for record; what the limits of the publisher and the state of the
  receiver make of the transfer.
\<close>

section \<open>Reading back a table\<close>

definition field_ok :: "FieldDef \<Rightarrow> bool" where
  "field_ok f \<longleftrightarrow> length (f_name f) < 256"

text \<open>A table whose sizes fit the fields of the snapshot.\<close>

definition sync_ok :: "MemoryTable \<Rightarrow> bool" where
  "sync_ok t \<longleftrightarrow>
     wf_table t \<and> length (t_name (tdef t)) < 256 \<and> from_utf8_ok (str_bytes (t_name (tdef t)))
     \<and> record_size t < 2 ^ 32 \<and> cap t < 2 ^ 32
     \<and> length (t_fields (tdef t)) < 256 \<and> (\<forall>f\<in>set (t_fields (tdef t)). field_ok f) \<and> length (primary_key (tdef t)) < 256"

lemma take_byte_simps [simp]: "take_byte (b # r) = Ok (unat b, r)"
  by (simp add: take_byte_def)

lemma take_slice_app [simp]: "length xs = n \<Longrightarrow> take_slice n (xs @ r) = Ok (xs, r)"
  by (simp add: take_slice_def)

lemma take_u32_app [simp]: "n < 2 ^ 32 \<Longrightarrow> take_u32 (to_le 4 n @ r) = Ok (n, r)"
  by (simp add: take_u32_def)

lemma unat_of_nat_u8: "n < 256 \<Longrightarrow> unat (of_nat n :: u8) = n"
  by (simp add: unat_of_nat)

lemma skip_fields_ok:
  "\<forall>f\<in>set fs. field_ok f \<Longrightarrow> skip_fields (length fs) (concat (map field_bytes fs) @ rest) = Ok rest"
proof (induction fs)
  case (Cons f fs)
  have "drop (length (f_name f) + 1 + 2 + 2) (drop 1 (field_bytes f) @ xs) = xs" for xs
    by (simp add: field_bytes_def)
  moreover have "field_bytes f = of_nat (length (f_name f)) # drop 1 (field_bytes f)" by (simp add: field_bytes_def)
  ultimately show ?case
    using Cons unat_of_nat_u8 [of "length (f_name f)"]
    by (metis (no_types, lifting) and_then.simps(1) append.assoc append_Cons case_prod_conv concat.simps(2) field_ok_def
        length_Cons list.set_intros(1,2) list.simps(9) skip_fields.simps(2) take_byte_simps)
qed simp

text \<open>What copying the records of a table does to a table of the slave.\<close>

definition copy_slot :: "MemoryTable \<Rightarrow> nat \<Rightarrow> MemoryTable \<Rightarrow> MemoryTable" where
  "copy_slot mt i st =
     (if slot_status mt i = Used then (case apply_record i (data mt ! i) st of Ok t \<Rightarrow> t | _ \<Rightarrow> st) else st)"

definition copy_table :: "MemoryTable \<Rightarrow> MemoryTable \<Rightarrow> MemoryTable" where
  "copy_table mt st = fold (copy_slot mt) [0..<cap mt] st"

lemma copy_slot_frame [simp]:
  "tdef (copy_slot mt i st) = tdef st" "record_size (copy_slot mt i st) = record_size st"
  "free_slots (copy_slot mt i st) = free_slots st" "free_slot_count (copy_slot mt i st) = free_slot_count st"
  "length (data (copy_slot mt i st)) = length (data st)"
  "length (status_array (copy_slot mt i st)) = length (status_array st)"
  by (auto simp: copy_slot_def apply_record_def set_status_def Let_def split: outcome.split)

lemma copy_fold_frame [simp]:
  "tdef (fold (copy_slot mt) is st) = tdef st" "record_size (fold (copy_slot mt) is st) = record_size st"
  "free_slots (fold (copy_slot mt) is st) = free_slots st" "free_slot_count (fold (copy_slot mt) is st) = free_slot_count st"
  "length (data (fold (copy_slot mt) is st)) = length (data st)"
  "length (status_array (fold (copy_slot mt) is st)) = length (status_array st)"
  by (induction "is" arbitrary: st) auto

lemma apply_record_total: "length rd \<le> record_size t \<Longrightarrow> \<exists>t'. apply_record i rd t = Ok t'"
  by (simp add: apply_record_def Let_def)

lemma apply_records_ok:
  assumes "\<forall>i\<in>set is. i < 2 ^ 32 \<and> (slot_status mt i = Used \<longrightarrow> length (data mt ! i) = n)" "n \<le> record_size st"
  shows "apply_records n st (concat (map (record_bytes mt) is) @ 0 # rest) = Ok (fold (copy_slot mt) is st, rest)"
  using assms
proof (induction "is" arbitrary: st)
  case (Cons i "is")
  show ?case
  proof (cases "slot_status mt i = Used")
    case True
    have l: "length (data mt ! i) = n" "i < 2 ^ 32" using Cons.prems True by auto
    obtain t where t: "apply_record i (data mt ! i) st = Ok t"
      using Cons.prems(2) l apply_record_total by blast
    have "apply_records n st (record_bytes mt i @ xs) = apply_records n t xs" for xs
      using True t l by (simp add: record_bytes_def)
    moreover have "fold (copy_slot mt) (i # is) st = fold (copy_slot mt) is t" using True t by (simp add: copy_slot_def)
    moreover have "record_size t = record_size st" using copy_slot_frame(2) [of mt i st] True t by (simp add: copy_slot_def)
    ultimately show ?thesis using Cons.IH [of t] Cons.prems by simp
  next
    case False
    then show ?thesis using Cons by (simp add: record_bytes_def copy_slot_def)
  qed
qed simp

lemma skip_records_ok:
  assumes "\<forall>i\<in>set is. slot_status mt i = Used \<longrightarrow> length (data mt ! i) = n"
  shows "skip_records n (concat (map (record_bytes mt) is) @ 0 # rest) = Ok rest"
  using assms by (induction "is") (simp_all add: record_bytes_def)

definition sync_table :: "MemoryTable \<Rightarrow> Database \<Rightarrow> Database" where
  "sync_table mt db =
     (case position_name (t_name (tdef mt)) (tables db) of
        None \<Rightarrow> db
      | Some k \<Rightarrow> (case tables db ! k of Some st \<Rightarrow> put_table k (copy_table mt st) db | None \<Rightarrow> db))"

definition room_for :: "Database \<Rightarrow> MemoryTable \<Rightarrow> bool" where
  "room_for db mt \<longleftrightarrow>
     (\<forall>k st. position_name (t_name (tdef mt)) (tables db) = Some k \<and> tables db ! k = Some st \<longrightarrow> record_size mt \<le> record_size st)"

lemma position_name_Some:
  "position_name nm ts = Some k \<Longrightarrow> k < length ts \<and> (\<exists>t. ts ! k = Some t \<and> t_name (tdef t) = nm)"
proof (induction ts arbitrary: k)
  case (Cons x xs)
  then show ?case by (cases x) (auto split: if_splits)
qed simp

lemma apply_table_ok:
  assumes "sync_ok mt" "room_for db mt"
  shows "apply_table db (table_bytes mt @ rest) = Ok (True, sync_table mt db, rest)"
proof -
  let ?d = "tdef mt"
  let ?recs = "concat (map (record_bytes mt) [0..<cap mt]) @ 0 # rest"
  have w: "wf_table mt" using assms(1) by (simp add: sync_ok_def)
  have c: "record_count mt < 2 ^ 32"
  proof -
    have "record_count mt \<le> cap mt"
      using w card_mono [OF finite_lessThan used_slots_subset [of mt]] by (simp add: wf_table_def)
    then show ?thesis using assms(1) by (simp add: sync_ok_def)
  qed
  have len: "\<forall>i\<in>set [0..<cap mt]. i < 2 ^ 32 \<and> (slot_status mt i = Used \<longrightarrow> length (data mt ! i) = record_size mt)"
    using w assms(1) by (auto simp: wf_table_def sync_ok_def)
  have pk: "drop (length (primary_key ?d)) (map of_nat (primary_key ?d) @ xs) = xs" for xs :: bytes by simp
  have "table_bytes mt @ rest = of_nat (length (t_name ?d)) # str_bytes (t_name ?d) @ to_le 4 (record_size mt)
      @ to_le 4 (record_count mt) @ to_le 4 (cap mt) @ of_nat (length (t_fields ?d)) # concat (map field_bytes (t_fields ?d))
      @ of_nat (length (primary_key ?d)) # map of_nat (primary_key ?d) @ ?recs"
    by (simp add: table_bytes_def Let_def)
  moreover have "apply_records (record_size mt) st ?recs = Ok (copy_table mt st, rest)"
    if "record_size mt \<le> record_size st" for st
    unfolding copy_table_def using that len by (intro apply_records_ok) auto
  moreover have "skip_records (record_size mt) ?recs = Ok rest" using len by (intro skip_records_ok) auto
  moreover have "record_size mt \<le> record_size st"
    if "position_name (t_name ?d) (tables db) = Some k" "tables db ! k = Some st" for k st
    using that assms(2) by (simp add: room_for_def)
  ultimately show ?thesis
    using assms(1) c pk skip_fields_ok [of "t_fields ?d"]
    by (auto simp: apply_table_def sync_ok_def unat_of_nat_u8 sync_table_def Let_def split: option.split
        dest: position_name_Some)
qed

section \<open>All tables\<close>

text \<open>What copying never changes: the definitions and record sizes of the tables.\<close>

definition shape :: "Database \<Rightarrow> (TableDef \<times> nat) option list" where
  "shape db = map (map_option (\<lambda>t. (tdef t, record_size t))) (tables db)"

fun shape_position :: "string \<Rightarrow> (TableDef \<times> nat) option list \<Rightarrow> nat option" where
  "shape_position nm [] = None"
| "shape_position nm (x # xs) =
     (if (case x of Some (d, n) \<Rightarrow> t_name d = nm | None \<Rightarrow> False) then Some 0 else map_option Suc (shape_position nm xs))"

lemma shape_position: "position_name nm ts = shape_position nm (map (map_option (\<lambda>t. (tdef t, record_size t))) ts)"
proof (induction ts)
  case (Cons x xs)
  then show ?case by (cases x) simp_all
qed simp

lemma position_name_shape: "shape db = shape db' \<Longrightarrow> position_name nm (tables db) = position_name nm (tables db')"
  by (simp add: shape_position shape_def)

lemma room_for_shape:
  assumes "shape db = shape db'" "room_for db mt"
  shows "room_for db' mt"
proof -
  have "record_size mt \<le> record_size st"
    if p: "position_name (t_name (tdef mt)) (tables db') = Some k" "tables db' ! k = Some st" for k st
  proof -
    have k: "k < length (tables db')" "length (tables db) = length (tables db')"
      using position_name_Some [OF p(1)] arg_cong [OF assms(1), of length] by (simp_all add: shape_def)
    have "shape db ! k = shape db' ! k" using assms(1) by simp
    then obtain t where "tables db ! k = Some t" "record_size t = record_size st" using k p(2) by (auto simp: shape_def)
    then show ?thesis using assms(2) p(1) position_name_shape [OF assms(1)] unfolding room_for_def by metis
  qed
  then show ?thesis by (simp add: room_for_def)
qed

lemma sync_table_shape [simp]: "shape (sync_table mt db) = shape db"
  by (auto simp: sync_table_def shape_def put_table_def copy_table_def map_update split: option.split
      dest!: position_name_Some intro!: list_update_same_conv [THEN iffD2])

lemma sync_fold_shape [simp]: "shape (fold sync_table ts db) = shape db"
  by (induction ts arbitrary: db) simp_all

lemma apply_tables_ok:
  assumes "\<forall>mt\<in>set ts. sync_ok mt \<and> room_for db mt"
  shows "apply_tables (length ts + n) db (concat (map table_bytes ts) @ rest) = apply_tables n (fold sync_table ts db) rest"
  using assms
proof (induction ts arbitrary: db)
  case (Cons mt ts)
  have "\<forall>t\<in>set ts. sync_ok t \<and> room_for (sync_table mt db) t"
    using Cons.prems room_for_shape [of db "sync_table mt db"] by auto
  then show ?case using Cons.IH [of "sync_table mt db"] apply_table_ok [of mt db] Cons.prems by simp
qed simp

lemma sync_table_other:
  assumes "position_name nm (tables db) = Some k" "t_name (tdef mt) \<noteq> nm"
  shows "tables (sync_table mt db) ! k = tables db ! k"
proof (cases "position_name (t_name (tdef mt)) (tables db)")
  case (Some j)
  then have "j \<noteq> k" using position_name_Some [OF assms(1)] position_name_Some [OF Some] assms(2) by auto
  then show ?thesis using Some by (simp add: sync_table_def put_table_def split: option.split)
qed (simp add: sync_table_def)

lemma sync_tables_other:
  assumes "position_name nm (tables db) = Some k" "nm \<notin> (\<lambda>t. t_name (tdef t)) ` set ts"
  shows "tables (fold sync_table ts db) ! k = tables db ! k"
  using assms
proof (induction ts arbitrary: db)
  case (Cons mt ts)
  have "position_name nm (tables (sync_table mt db)) = Some k"
    using Cons.prems(1) position_name_shape [of "sync_table mt db" db] by simp
  then show ?case using Cons sync_table_other [OF Cons.prems(1), of mt] by auto
qed simp

lemma sync_tables_at:
  assumes "mt \<in> set ts" "distinct (map (\<lambda>t. t_name (tdef t)) ts)"
    "position_name (t_name (tdef mt)) (tables db) = Some k" "tables db ! k = Some st"
  shows "tables (fold sync_table ts db) ! k = Some (copy_table mt st)"
  using assms
proof (induction ts arbitrary: db)
  case (Cons t ts)
  have p: "position_name (t_name (tdef mt)) (tables (sync_table t db)) = Some k"
    using Cons.prems(3) position_name_shape [of "sync_table t db" db] by simp
  have k: "k < length (tables db)" using position_name_Some [OF Cons.prems(3)] by simp
  show ?case
  proof (cases "t = mt")
    case True
    then have "tables (sync_table t db) ! k = Some (copy_table mt st)"
      using Cons.prems(3,4) k by (simp add: sync_table_def put_table_def)
    then show ?thesis using True Cons.prems(2) sync_tables_other [OF p, of ts] by simp
  next
    case False
    then have m: "mt \<in> set ts" using Cons.prems(1) by simp
    then have "t_name (tdef t) \<noteq> t_name (tdef mt)" using Cons.prems(2) by force
    then have "tables (sync_table t db) ! k = Some st" using sync_table_other [OF Cons.prems(3)] Cons.prems(4) by simp
    then show ?thesis using Cons.IH [OF m _ p] Cons.prems(2) by simp
  qed
qed simp

section \<open>The records of a copied table\<close>

definition fits :: "MemoryTable \<Rightarrow> MemoryTable \<Rightarrow> bool" where
  "fits mt st \<longleftrightarrow> wf_table st \<and> wf_table mt \<and> record_size st = record_size mt \<and> cap st = cap mt"

lemma copy_slot_at:
  assumes "length (data st) = cap st" "length (status_array st) = cap st" "j < cap st" "i < cap st"
    "length (data st ! i) = record_size st" "slot_status mt i = Used \<longrightarrow> length (data mt ! i) = record_size st"
  shows "slot_status (copy_slot mt i st) j = (if j = i \<and> slot_status mt i = Used then Used else slot_status st j)"
    and "data (copy_slot mt i st) ! j = (if j = i \<and> slot_status mt i = Used then data mt ! i else data st ! j)"
  using assms by (auto simp: copy_slot_def apply_record_def set_status_def Let_def nth_list_update)

lemma copy_fold_at:
  assumes "length (data st) = cap st" "length (status_array st) = cap st" "j < cap st" "\<forall>i\<in>set is. i < cap st" "distinct is"
    "\<forall>i<cap st. length (data st ! i) = record_size st"
    "\<forall>i<cap st. slot_status mt i = Used \<longrightarrow> length (data mt ! i) = record_size st"
  shows "slot_status (fold (copy_slot mt) is st) j = (if j \<in> set is \<and> slot_status mt j = Used then Used else slot_status st j)
    \<and> data (fold (copy_slot mt) is st) ! j = (if j \<in> set is \<and> slot_status mt j = Used then data mt ! j else data st ! j)"
  using assms
proof (induction "is" arbitrary: st)
  case (Cons i "is")
  have i: "i < cap st" using Cons.prems(4) by simp
  have d: "length (data st ! i) = record_size st" "slot_status mt i = Used \<longrightarrow> length (data mt ! i) = record_size st"
    using Cons.prems(6,7) i by blast+
  note at = copy_slot_at [OF Cons.prems(1,2) _ i d]
  have "length (data (copy_slot mt i st) ! l) = record_size st" if "l < cap st" for l
    using at(2) [OF that] Cons.prems(6,7) that by auto
  then have "slot_status (fold (copy_slot mt) is (copy_slot mt i st)) j =
      (if j \<in> set is \<and> slot_status mt j = Used then Used else slot_status (copy_slot mt i st) j)
    \<and> data (fold (copy_slot mt) is (copy_slot mt i st)) ! j =
      (if j \<in> set is \<and> slot_status mt j = Used then data mt ! j else data (copy_slot mt i st) ! j)"
    using Cons.prems Cons.IH [of "copy_slot mt i st"] by simp
  then show ?case using at [OF Cons.prems(3)] Cons.prems(5) by auto
qed simp

lemma copy_table_contents:
  assumes "fits mt st"
  shows "contents (copy_table mt st) i = (if i \<in> used_slots mt then contents mt i else contents st i)"
proof (cases "i < cap st")
  case True
  have "slot_status (copy_table mt st) i = (if slot_status mt i = Used then Used else slot_status st i)
    \<and> data (copy_table mt st) ! i = (if slot_status mt i = Used then data mt ! i else data st ! i)"
    unfolding copy_table_def using copy_fold_at [of st i "[0..<cap mt]" mt] True assms by (auto simp: fits_def wf_table_def)
  moreover have "tdef (copy_table mt st) = tdef st" by (simp add: copy_table_def)
  ultimately show ?thesis using True assms by (auto simp: contents_def used_slots_def fits_def)
next
  case False
  then show ?thesis using assms by (auto simp: contents_def used_slots_def fits_def copy_table_def)
qed

section \<open>The transfer\<close>

definition message :: "ProtocolFrame \<Rightarrow> u16 \<times> bytes" where
  "message f = (topic_id f, payload f)"

lemma g_publish_ok:
  assumes "length ds \<le> MAX_DATA_LEN" "\<forall>f. sock f = None"
  shows "\<exists>ps' f. g_publish sock now tid ds (Some ps) = (Inr (), Some ps') \<and> outbox ps' = outbox ps @ [f] \<and> message f = (tid, ds)"
  using assms by (simp add: g_publish_def publish_def create_frame_def new_data_frame_def Let_def message_def)

lemma g_publish_long:
  assumes "length ds > MAX_DATA_LEN"
  shows "\<exists>ps'. g_publish sock now tid ds (Some ps) = (Inl InvalidParameter, Some ps') \<and> outbox ps' = outbox ps"
  using assms by (simp add: g_publish_def publish_def create_frame_def new_data_frame_def Let_def)

lemma length_encodings [simp]:
  "length (encode_begin b) = 18" "length (encode_end e) = 8" "length (encode_chunk c) = 6 + length (sc_data c)"
  by (simp_all add: encode_begin_def encode_end_def encode_chunk_def)

lemma chunk_count_one: "ds \<noteq> [] \<Longrightarrow> length ds \<le> MAX_CHUNK_DATA_SIZE \<Longrightarrow> div_ceil (length ds) MAX_CHUNK_DATA_SIZE = 1"
proof -
  assume a: "ds \<noteq> []" "length ds \<le> MAX_CHUNK_DATA_SIZE"
  obtain n where n: "length ds = Suc n" using a(1) by (cases ds) auto
  then show ?thesis using a(2) by (simp add: div_ceil_def MAX_CHUNK_DATA_SIZE_def div_nat_eqI)
qed

definition snapshot_messages :: "bytes \<Rightarrow> (u16 \<times> bytes) list" where
  "snapshot_messages ds =
     [(SYNC_DATA_BEGIN_TOPIC, encode_begin (new_snapshot (of_nat (length ds)) 1 (ds ! 0))),
      (SYNC_DATA_CHUNK_TOPIC, encode_chunk (SyncDataChunk_new 0 ds)),
      (SYNC_DATA_END_TOPIC, encode_end (SyncDataEnd_new 1 0))]"

lemma send_small:
  assumes "ds \<noteq> []" "length ds + 6 \<le> MAX_DATA_LEN" "\<forall>f. sock f = None"
  shows "\<exists>ps' fs. send_snapshot_chunks sock now ds (Some ps) = (Inr (), Some ps') \<and> outbox ps' = outbox ps @ fs
    \<and> map message fs = snapshot_messages ds"
proof -
  let ?b = "new_snapshot (of_nat (length ds)) 1 (ds ! 0)"
  have l: "length ds \<le> MAX_CHUNK_DATA_SIZE" using assms(2) by (simp add: MAX_DATA_LEN_def MAX_CHUNK_DATA_SIZE_def)
  obtain p1 f1 where 1: "g_publish sock now SYNC_DATA_BEGIN_TOPIC (encode_begin ?b) (Some ps) = (Inr (), Some p1)"
    "outbox p1 = outbox ps @ [f1]" "message f1 = (SYNC_DATA_BEGIN_TOPIC, encode_begin ?b)"
    using g_publish_ok [of "encode_begin ?b" sock now SYNC_DATA_BEGIN_TOPIC ps] assms(3) by (auto simp: MAX_DATA_LEN_def)
  obtain p2 f2 where 2: "g_publish sock now SYNC_DATA_CHUNK_TOPIC (encode_chunk (SyncDataChunk_new 0 ds)) (Some p1) = (Inr (), Some p2)"
    "outbox p2 = outbox p1 @ [f2]" "message f2 = (SYNC_DATA_CHUNK_TOPIC, encode_chunk (SyncDataChunk_new 0 ds))"
    using g_publish_ok [of "encode_chunk (SyncDataChunk_new 0 ds)" sock now SYNC_DATA_CHUNK_TOPIC p1] assms(2,3) by (auto simp: SyncDataChunk_new_def)
  obtain p3 f3 where 3: "g_publish sock now SYNC_DATA_END_TOPIC (encode_end (SyncDataEnd_new 1 0)) (Some p2) = (Inr (), Some p3)"
    "outbox p3 = outbox p2 @ [f3]" "message f3 = (SYNC_DATA_END_TOPIC, encode_end (SyncDataEnd_new 1 0))"
    using g_publish_ok [of "encode_end (SyncDataEnd_new 1 0)" sock now SYNC_DATA_END_TOPIC p2] assms(3) by (auto simp: MAX_DATA_LEN_def)
  have "send_chunks sock now 0 ds (Some p1) = (Inr (), Some p2)"
    using assms(1) l 2(1) by (subst send_chunks.simps) simp
  then have "send_snapshot_chunks sock now ds (Some ps) = (Inr (), Some p3)"
    using 1(1) 3(1) chunk_count_one [OF assms(1) l] assms(1)
    by (simp add: send_snapshot_chunks_def send_data_def new_snapshot_def del: send_chunks.simps)
  then show ?thesis using 1 2 3 by (intro exI [of _ p3] exI [of _ "[f1, f2, f3]"]) (simp add: snapshot_messages_def)
qed

text \<open>The receiver on the three messages, with what it has collected before.\<close>

lemma decode_messages [simp]:
  "decode_begin (encode_begin b) = Some b" "decode_end (encode_end e) = Some e"
  by (simp_all add: decode_begin_def encode_begin_def decode_end_def encode_end_def wire_simps)

lemma receive_small:
  assumes "length ds < 65536" "apply_snapshot (case sg_data (sn_globals s) of Some a \<Rightarrow> a @ ds | None \<Rightarrow> []) (sn_db s) = Ok (True, db')"
  shows "\<exists>s'. sync_receive_all sock now sid (snapshot_messages ds) s = Ok s' \<and> sg_state (sn_globals s') = Synced
    \<and> sn_db s' = db'"
  using assms decode_chunk_rest [OF assms(1), of 0 "[]"]
  by (cases "sg_data (sn_globals s)")
    (simp_all add: snapshot_messages_def sync_receive_def handle_sync_begin_def handle_sync_chunk_def handle_sync_end_def
      topic_defs new_snapshot_def SyncDataEnd_new_def SyncDataChunk_new_def Let_def)

lemma snapshot_tables:
  assumes "tables db = map Some ts"
  shows "create_database_snapshot (Some db) = Inr (of_nat (length ts) # concat (map table_bytes ts))"
  using assms by (simp add: create_database_snapshot_def comp_def)

lemma apply_snapshot_ok:
  assumes "\<forall>mt\<in>set ts. sync_ok mt \<and> room_for db mt" "length ts < 256"
  shows "apply_snapshot (of_nat (length ts) # concat (map table_bytes ts)) (Some db) = Ok (True, Some (fold sync_table ts db))"
  using apply_tables_ok [of ts db 0 "[]"] assms by (simp add: apply_snapshot_def unat_of_nat_u8)

section \<open>Properties\<close>


text \<open>
  A snapshot of more than 4090 bytes is never sent.  Chunks are cut at 60000 bytes, but a frame carries at most
  4096: the announcement goes out, the first chunk is refused and the synchronisation fails.
\<close>

theorem large_snapshot_fails:
  assumes "length ds + 6 > MAX_DATA_LEN" "\<forall>f. sock f = None"
  shows "\<exists>ps' f. send_snapshot_chunks sock now ds (Some ps) = (Inl HaSyncFailed, Some ps') \<and> outbox ps' = outbox ps @ [f]
    \<and> topic_id f = SYNC_DATA_BEGIN_TOPIC"
proof -
  let ?b = "new_snapshot (of_nat (length ds)) (of_nat (div_ceil (length ds) MAX_CHUNK_DATA_SIZE)) (if ds \<noteq> [] then ds ! 0 else 0)"
  let ?c = "encode_chunk (SyncDataChunk_new 0 (take MAX_CHUNK_DATA_SIZE ds))"
  obtain p1 f where 1: "g_publish sock now SYNC_DATA_BEGIN_TOPIC (encode_begin ?b) (Some ps) = (Inr (), Some p1)"
    "outbox p1 = outbox ps @ [f]" "message f = (SYNC_DATA_BEGIN_TOPIC, encode_begin ?b)"
    using g_publish_ok [of "encode_begin ?b" sock now SYNC_DATA_BEGIN_TOPIC ps] assms(2) by (auto simp: MAX_DATA_LEN_def)
  have "length ?c > MAX_DATA_LEN"
    using assms(1) by (simp add: SyncDataChunk_new_def MAX_DATA_LEN_def MAX_CHUNK_DATA_SIZE_def)
  then obtain p2 where 2: "g_publish sock now SYNC_DATA_CHUNK_TOPIC ?c (Some p1) = (Inl InvalidParameter, Some p2)"
    "outbox p2 = outbox p1"
    using g_publish_long by blast
  have "ds \<noteq> []" using assms(1) by (auto simp: MAX_DATA_LEN_def)
  then have "send_chunks sock now 0 ds (Some p1) = (Inl HaSyncFailed, Some p2)" using 2(1) by (subst send_chunks.simps) simp
  then have "send_snapshot_chunks sock now ds (Some ps) = (Inl HaSyncFailed, Some p2)"
    using 1(1) by (simp add: send_snapshot_chunks_def send_data_def del: send_chunks.simps)
  then show ?thesis using 1 2(2) by (intro exI [of _ p2] exI [of _ f]) (simp add: message_def)
qed

text \<open>
  A receiver that was not started reports success without the data.  The high-availability manager subscribes the
  receiver but never calls \<open>start_sync\<close>: the chunks are counted and dropped, nothing is written to the database,
  and the state is \<open>Synced\<close>.
\<close>

theorem unstarted_sync_is_empty:
  assumes "sg_data g = None" "length ds < 65536"
  shows "\<exists>s'. sync_receive_all sock now sid (snapshot_messages ds) \<lparr>sn_globals = g, sn_db = gdb, sn_pubsub = gp\<rparr> = Ok s'
    \<and> sg_state (sn_globals s') = Synced \<and> sn_db s' = gdb"
  using receive_small [OF assms(2), of "\<lparr>sn_globals = g, sn_db = gdb, sn_pubsub = gp\<rparr>"] assms(1)
  by (simp add: apply_snapshot_def)


text \<open>
  A database that has dropped a table counts its empty place in the snapshot but writes nothing for it: the slave reads
  behind the end of the data.
\<close>

theorem dropped_table_panics:
  assumes "\<forall>mt. Some mt \<in> set (tables db) \<longrightarrow> sync_ok mt \<and> room_for sdb mt" "None \<in> set (tables db)" "length (tables db) < 256"
    "create_database_snapshot (Some db) = Inr ds"
  shows "apply_snapshot ds (Some sdb) = Fault"
proof -
  let ?ts = "map the (filter (\<lambda>t. t \<noteq> None) (tables db))"
  have "concat (map (\<lambda>t. case t of Some t \<Rightarrow> table_bytes t | None \<Rightarrow> []) xs) = concat (map table_bytes (map the (filter (\<lambda>t. t \<noteq> None) xs)))"
    for xs by (induction xs) (auto split: option.split)
  then have ds: "ds = of_nat (length (tables db)) # concat (map table_bytes ?ts) @ []"
    using assms(4) by (simp add: create_database_snapshot_def)
  have "length (filter (\<lambda>t. t \<noteq> None) (tables db)) < length (tables db)" using assms(2) length_filter_less by fastforce
  then obtain n where n: "length (tables db) = length ?ts + Suc n" by (metis add_Suc_right length_map less_iff_Suc_add)
  have f: "apply_tables (Suc n) db' [] = Fault" for db' by (simp add: apply_table_def take_byte_def)
  have "\<forall>mt\<in>set ?ts. sync_ok mt \<and> room_for sdb mt" using assms(1) by auto
  from apply_tables_ok [OF this, of "Suc n" "[]"] have "apply_tables (length (tables db)) sdb (concat (map table_bytes ?ts) @ []) = Fault"
    unfolding n f .
  then show ?thesis using assms(3) unfolding ds apply_snapshot_def by (simp add: unat_of_nat_u8)
qed

section \<open>A concrete master and slave\<close>

definition demo_master :: MemoryTable where
  "demo_master = demo_table\<lparr>data := [demo_record 1 7, replicate 8 0, replicate 8 0],
     status_array := [zero_header\<lparr>status := Used\<rparr>, zero_header, zero_header], record_count := 1, free_slot_count := 2\<rparr>"

definition demo_master_db :: Database where
  "demo_master_db = \<lparr>tables = [Some demo_master], primary_indices = [Some demo_index]\<rparr>"

definition demo_ps :: PubSub where
  "demo_ps = \<lparr>ps_subscribers = \<lparr>max_topics = 16, max_subscribers_per_topic = 1, subscribers = [], wildcard_subscribers = [],
     next_subscription_id = 1, global_subscribers = [], topic_map = Map.empty, id_map = [], expected_seq_nums = []\<rparr>,
     ps_publisher = Publisher_new True 100 3, heartbeat_interval = 10, outbox = [], delivered = []\<rparr>"

definition demo_snapshot :: bytes where
  "demo_snapshot = 1 # table_bytes demo_master"

lemma less_3: "i < (3 :: nat) \<longleftrightarrow> i = 0 \<or> i = 1 \<or> i = 2"
  by auto

lemma demo_master_used: "used_slots demo_master = {0}"
  by (auto simp: used_slots_def demo_master_def demo_table_def demo_def_def zero_header_def less_3)

lemma demo_master_wf: "wf_table demo_master"
proof -
  have "{1, 2} = {..<3} - {0 :: nat}" by auto
  then show ?thesis
    using demo_master_used
    by (auto simp: wf_table_def free_stack_def demo_master_def demo_table_def demo_def_def demo_record_def less_3)
qed

lemma demo_sync_ok: "sync_ok demo_master" "fits demo_master demo_table"
proof -
  show "sync_ok demo_master"
    using demo_master_wf
    by (simp add: sync_ok_def demo_master_def demo_table_def demo_def_def demo_fields_def field_ok_def FieldDef_default_def
        str_bytes_def of_char_def)
  show "fits demo_master demo_table"
    using demo_master_wf demo_table_facts(1) by (simp add: fits_def demo_master_def)
qed

lemma demo_snapshot_ok:
  "create_database_snapshot (Some demo_master_db) = Inr demo_snapshot" "length demo_snapshot + 6 \<le> MAX_DATA_LEN"
proof -
  show "create_database_snapshot (Some demo_master_db) = Inr demo_snapshot"
    using snapshot_tables [of demo_master_db "[demo_master]"] by (simp add: demo_master_db_def demo_snapshot_def)
  show "length demo_snapshot + 6 \<le> MAX_DATA_LEN"
    by (simp add: demo_snapshot_def table_bytes_def field_bytes_def record_bytes_def demo_master_def demo_table_def demo_def_def
        demo_fields_def FieldDef_default_def zero_header_def demo_record_def Let_def MAX_DATA_LEN_def upt_rec)
qed


theorem large_snapshot_fails_witness:
  "length (replicate 5000 0 :: bytes) + 6 > MAX_DATA_LEN
    \<and> fst (send_snapshot_chunks (\<lambda>f. None) 5 (replicate 5000 0) (Some demo_ps)) = Inl HaSyncFailed"
proof -
  have "length (replicate 5000 0 :: bytes) + 6 > MAX_DATA_LEN" by (simp add: MAX_DATA_LEN_def)
  then show ?thesis using large_snapshot_fails [of "replicate 5000 0" "\<lambda>f. None" 5 demo_ps] by auto
qed

theorem unstarted_sync_is_empty_witness:
  "sg_data SyncGlobals_init = None
    \<and> (\<exists>s'. sync_receive_all (\<lambda>f. None) 6 0 (snapshot_messages [0]) \<lparr>sn_globals = SyncGlobals_init, sn_db = Some demo_db, sn_pubsub = None\<rparr> = Ok s'
      \<and> sg_state (sn_globals s') = Synced \<and> sn_db s' = Some demo_db)"
proof -
  have g: "sg_data SyncGlobals_init = None" by (simp add: SyncGlobals_init_def)
  show ?thesis using unstarted_sync_is_empty [OF g, of "[0]" "\<lambda>f. None" 6 0 "Some demo_db" None] g by simp
qed


end
