(* ===== verification/Wal.thy ===== *)
theory Wal
  imports HaCore
begin

text \<open>
  The log manager of \<^verbatim>\<open>src/src/transaction.rs\<close> over the files of \<^verbatim>\<open>platform/posix.rs\<close>: the log file with its
  header and checkpoint, writing and reading of log items, flushing, checkpoints, and the first
  phase of recovery, which scans the file for items.  A file is its bytes, a position and the
  answers the file system will give; the codecs of \<^verbatim>\<open>wal_compression.rs\<close> are a parameter.
\<close>

section \<open>Programs with errors that keep their state\<close>

text \<open>An operation on a state \<open>'s\<close>: the outcome and the state it leaves, also where it fails.\<close>

type_synonym ('s, 'a) prog = "'s \<Rightarrow> 'a outcome \<times> 's"

definition ret :: "'a \<Rightarrow> ('s, 'a) prog" where
  "ret a s = (Ok a, s)"

definition raise :: "RemDbError \<Rightarrow> ('s, 'a) prog" where
  "raise e s = (Err e, s)"

definition seqm :: "('s, 'a) prog \<Rightarrow> ('a \<Rightarrow> ('s, 'b) prog) \<Rightarrow> ('s, 'b) prog" where
  "seqm m k s =
     (case m s of (Ok a, s') \<Rightarrow> k a s' | (Err e, s') \<Rightarrow> (Err e, s') | (Fault, s') \<Rightarrow> (Fault, s'))"

named_theorems wal_defs \<open>definitions of the log manager\<close>

declare ret_def [wal_defs] raise_def [wal_defs] seqm_def [wal_defs]

section \<open>Files\<close>

text \<open>
  What the system does with the next call on a file: carry it out, refuse it, or transfer only
  some of the bytes.  When no answer is left every call is carried out.
\<close>

datatype io_answer = IoDone | IoRefused | IoShort nat

record FileState =
  f_bytes :: bytes
  f_pos :: nat
  f_answers :: "io_answer list"

definition next_answer :: "FileState \<Rightarrow> io_answer \<times> FileState" where
  "next_answer f =
     (case f_answers f of [] \<Rightarrow> (IoDone, f) | a # as \<Rightarrow> (a, f\<lparr>f_answers := as\<rparr>))"

definition file_seek :: "nat \<Rightarrow> (FileState, unit) prog" where
  "file_seek off f =
     (case next_answer f of
        (IoRefused, f') \<Rightarrow> (Err FileIoError, f')
      | (_, f') \<Rightarrow> (Ok (), f'\<lparr>f_pos := off\<rparr>))"

text \<open>Bytes written behind the end leave zeros in the gap.\<close>

definition write_at :: "nat \<Rightarrow> bytes \<Rightarrow> bytes \<Rightarrow> bytes" where
  "write_at off bs fs =
     (if bs = [] then fs
      else take off (fs @ replicate (off - length fs) 0) @ bs @ drop (off + length bs) fs)"

definition file_write :: "bytes \<Rightarrow> (FileState, nat) prog" where
  "file_write bs f =
     (case next_answer f of
        (IoRefused, f') \<Rightarrow> (Err FileIoError, f')
      | (a, f') \<Rightarrow>
          let n = (case a of IoShort k \<Rightarrow> min k (length bs) | _ \<Rightarrow> length bs) in
          (Ok n, f'\<lparr>f_bytes := write_at (f_pos f') (take n bs) (f_bytes f'), f_pos := f_pos f' + n\<rparr>))"

definition file_read :: "nat \<Rightarrow> (FileState, bytes) prog" where
  "file_read n f =
     (case next_answer f of
        (IoRefused, f') \<Rightarrow> (Err FileIoError, f')
      | (a, f') \<Rightarrow>
          let k = (case a of IoShort k \<Rightarrow> min k n | _ \<Rightarrow> n);
              bs = take k (drop (f_pos f') (f_bytes f')) in
          (Ok bs, f'\<lparr>f_pos := f_pos f' + length bs\<rparr>))"

text \<open>Opening a file a second time gives a handle with its own position.\<close>

definition file_open :: "io_answer list \<Rightarrow> bytes \<Rightarrow> FileState outcome" where
  "file_open as bs =
     (case next_answer \<lparr>f_bytes = bs, f_pos = 0, f_answers = as\<rparr> of
        (IoRefused, _) \<Rightarrow> Err FileIoError
      | (_, f) \<Rightarrow> Ok f)"

declare next_answer_def [wal_defs] file_seek_def [wal_defs] file_write_def [wal_defs] file_read_def [wal_defs]
  file_open_def [wal_defs]

section \<open>Data\<close>

datatype LogMode = LogSync | LogAsync

datatype WALCompressionType = CompNone | CompLZ4 | CompZSTD

record LogHeader =
  lh_magic :: u32
  lh_version :: u32
  lh_created_at :: u64
  lh_record_count :: u32
  lh_checksum :: u32
  lh_compression_type :: u8

record LogCheckpoint =
  lc_timestamp :: u64
  lc_processed_records :: u32
  lc_checksum :: u32

record WALConfig =
  wc_log_path :: string
  wc_log_mode :: LogMode
  wc_checkpoint_interval_ms :: u64
  wc_log_file_size_limit :: nat
  wc_log_prealloc_size :: nat
  wc_log_segment_size :: nat
  wc_retained_checkpoints :: nat
  wc_max_consecutive_invalid :: u32
  wc_skip_threshold :: u32
  wc_skip_block_size :: nat
  wc_max_skip_attempts :: u32
  wc_compression_type :: WALCompressionType
  wc_compression_level :: u8

record LogBufferConfig =
  lb_size :: nat
  lb_flush_threshold :: nat

record LogManager =
  lm_log_path :: string
  lm_file :: FileState
  lm_header :: LogHeader
  lm_checkpoint :: LogCheckpoint
  lm_lock :: bool
  lm_log_mode :: LogMode
  lm_log_buffer :: "VariableSizeLogItem list"
  lm_buffer_config :: LogBufferConfig
  lm_last_flush_time :: u64
  lm_last_checkpoint_time :: u64
  lm_checkpoint_interval_ms :: u64
  lm_log_file_size_limit :: nat
  lm_log_segment_size :: nat
  lm_offset :: nat
  lm_max_consecutive_invalid :: u32
  lm_skip_threshold :: u32
  lm_skip_block_size :: nat
  lm_max_skip_attempts :: u32
  lm_compression_type :: WALCompressionType
  lm_compression_level :: u8

section \<open>Layout\<close>

text \<open>
  The structures are copied to the file as they lie in memory, with the padding of C; padding
  bytes are never looked at and are zero here.
\<close>

definition log_header_size :: nat where "log_header_size = 32"
definition log_checkpoint_size :: nat where "log_checkpoint_size = 16"
definition log_item_size :: nat where "log_item_size = 32"

definition data_start :: nat where "data_start = log_header_size + log_checkpoint_size"

lemma sizes [simp]: "log_header_size = 32" "log_checkpoint_size = 16" "log_item_size = 32" "data_start = 48"
  by (simp_all add: log_header_size_def log_checkpoint_size_def log_item_size_def data_start_def)

definition header_bytes :: "LogHeader \<Rightarrow> bytes" where
  "header_bytes h =
     to_le 4 (unat (lh_magic h)) @ to_le 4 (unat (lh_version h)) @ to_le 8 (unat (lh_created_at h))
     @ to_le 4 (unat (lh_record_count h)) @ to_le 4 (unat (lh_checksum h)) @ [lh_compression_type h] @ replicate 7 0"

definition header_from :: "bytes \<Rightarrow> LogHeader" where
  "header_from bs =
     \<lparr>lh_magic = of_nat (read_le 4 bs 0), lh_version = of_nat (read_le 4 bs 4), lh_created_at = of_nat (read_le 8 bs 8),
      lh_record_count = of_nat (read_le 4 bs 16), lh_checksum = of_nat (read_le 4 bs 20), lh_compression_type = bs ! 24\<rparr>"

definition checkpoint_bytes :: "LogCheckpoint \<Rightarrow> bytes" where
  "checkpoint_bytes c =
     to_le 8 (unat (lc_timestamp c)) @ to_le 4 (unat (lc_processed_records c)) @ to_le 4 (unat (lc_checksum c))"

definition checkpoint_from :: "bytes \<Rightarrow> LogCheckpoint" where
  "checkpoint_from bs =
     \<lparr>lc_timestamp = of_nat (read_le 8 bs 0), lc_processed_records = of_nat (read_le 4 bs 8),
      lc_checksum = of_nat (read_le 4 bs 12)\<rparr>"

definition item_bytes :: "LogItem \<Rightarrow> bytes" where
  "item_bytes h =
     [of_nat (log_op_code (op_type h)), li_table_id h] @ to_le 2 (unat (record_id h)) @ to_le 2 (unat (old_data_size h))
     @ to_le 2 (unat (new_data_size h)) @ to_le 4 (unat (li_tx_id h)) @ replicate 4 0 @ to_le 8 (unat (timestamp h))
     @ to_le 4 (unat (checksum h)) @ replicate 4 0"

definition log_ops :: "LogOperation list" where
  "log_ops = [Insert, Delete, Update, TimeSeriesInsert, CreateTable, Commit, Abort, Checkpoint, CreateIndex,
     EnterLowPowerMode, ExitLowPowerMode, AlterTable, DropTable, CreateDatabase]"

text \<open>A byte that is no operation makes the structure invalid: reading it is undefined behaviour.\<close>

definition item_from :: "bytes \<Rightarrow> LogItem outcome" where
  "item_from bs =
     (if unat (bs ! 0) < length log_ops then
        Ok \<lparr>op_type = log_ops ! unat (bs ! 0), li_table_id = bs ! 1, record_id = of_nat (read_le 2 bs 2),
            old_data_size = of_nat (read_le 2 bs 4), new_data_size = of_nat (read_le 2 bs 6),
            li_tx_id = of_nat (read_le 4 bs 8), timestamp = of_nat (read_le 8 bs 16), checksum = of_nat (read_le 4 bs 24)\<rparr>
      else Fault)"

section \<open>Compression\<close>

text \<open>
  The codecs are packages outside the program: each is absent (its feature is off) or a function
  that may fail.
\<close>

record codec =
  lz4_compress :: "(u8 \<Rightarrow> bytes \<Rightarrow> bytes option) option"
  lz4_decompress :: "(bytes \<Rightarrow> bytes option) option"
  zstd_compress :: "(u8 \<Rightarrow> bytes \<Rightarrow> bytes option) option"
  zstd_decompress :: "(bytes \<Rightarrow> bytes option) option"

definition coded :: "string \<Rightarrow> (bytes \<Rightarrow> bytes option) option \<Rightarrow> bytes \<Rightarrow> bytes outcome" where
  "coded msg f bs =
     (case f of
        None \<Rightarrow> Err (InvalidConfig msg)
      | Some g \<Rightarrow> (case g bs of None \<Rightarrow> Err CompressionError | Some r \<Rightarrow> Ok r))"

definition compress_wal_data :: "codec \<Rightarrow> bytes \<Rightarrow> WALCompressionType \<Rightarrow> u8 \<Rightarrow> bytes outcome" where
  "compress_wal_data cd bs ct level =
     (case ct of
        CompNone \<Rightarrow> Ok bs
      | CompLZ4 \<Rightarrow> coded ''LZ4 compression feature not enabled'' (map_option (\<lambda>f. f level) (lz4_compress cd)) bs
      | CompZSTD \<Rightarrow> coded ''ZSTD compression feature not enabled'' (map_option (\<lambda>f. f level) (zstd_compress cd)) bs)"

definition decompress_wal_data :: "codec \<Rightarrow> bytes \<Rightarrow> WALCompressionType \<Rightarrow> bytes outcome" where
  "decompress_wal_data cd bs ct =
     (case ct of
        CompNone \<Rightarrow> Ok bs
      | CompLZ4 \<Rightarrow> coded ''LZ4 compression feature not enabled'' (lz4_decompress cd) bs
      | CompZSTD \<Rightarrow> coded ''ZSTD compression feature not enabled'' (zstd_decompress cd) bs)"

section \<open>Access to the file under the lock\<close>

definition on_file :: "(FileState, 'a) prog \<Rightarrow> (LogManager, 'a) prog" where
  "on_file p m = (case p (lm_file m) of (r, f) \<Rightarrow> (r, m\<lparr>lm_file := f\<rparr>))"

text \<open>
  The lock is never released while somebody waits for it, as there is one thread: taking it a
  second time does not return, a \<open>Fault\<close>.
\<close>

definition lm_spin_lock :: "(LogManager, unit) prog" where
  "lm_spin_lock m = (if lm_lock m then (Fault, m) else (Ok (), m\<lparr>lm_lock := True\<rparr>))"

definition lm_spin_unlock :: "(LogManager, unit) prog" where
  "lm_spin_unlock m = (Ok (), m\<lparr>lm_lock := False\<rparr>)"

text \<open>A write inside the lock: a short write releases it, a refused one does not.\<close>

definition write_locked :: "bytes \<Rightarrow> (LogManager, unit) prog" where
  "write_locked bs =
     seqm (on_file (file_write bs)) (\<lambda>n.
       if n \<noteq> length bs then seqm lm_spin_unlock (\<lambda>_. raise FileIoError) else ret ())"

section \<open>Header and checkpoint\<close>

definition header_sum :: "LogHeader \<Rightarrow> u32" where
  "header_sum h = calculate_checksum (header_bytes (h\<lparr>lh_checksum := 0\<rparr>))"

definition write_header :: "(LogManager, unit) prog" where
  "write_header m =
     (let h = (lm_header m)\<lparr>lh_checksum := header_sum (lm_header m)\<rparr>;
          bs = header_bytes h in
      seqm (on_file (file_seek 0)) (\<lambda>_. seqm (on_file (file_write bs)) (\<lambda>n.
        if n \<noteq> length bs then raise FileIoError else ret ())) (m\<lparr>lm_header := h\<rparr>))"

definition read_checkpoint :: "(LogManager, unit) prog" where
  "read_checkpoint =
     seqm (on_file (file_seek log_header_size)) (\<lambda>_. seqm (on_file (file_read log_checkpoint_size)) (\<lambda>bs m.
       (Ok (), m\<lparr>lm_checkpoint :=
          (if bs = [] then \<lparr>lc_timestamp = 0, lc_processed_records = 0, lc_checksum = 0\<rparr>
           else checkpoint_from (bs @ replicate (log_checkpoint_size - length bs) 0))\<rparr>)))"

definition checkpoint_sum :: "LogCheckpoint \<Rightarrow> u32" where
  "checkpoint_sum c = calculate_checksum (checkpoint_bytes (c\<lparr>lc_checksum := 0\<rparr>))"

definition write_checkpoint :: "(LogManager, unit) prog" where
  "write_checkpoint m =
     (let c = (lm_checkpoint m)\<lparr>lc_checksum := checkpoint_sum (lm_checkpoint m)\<rparr>;
          bs = checkpoint_bytes c in
      seqm (on_file (file_seek log_header_size)) (\<lambda>_. seqm (on_file (file_write bs)) (\<lambda>n.
        if n \<noteq> length bs then raise FileIoError else ret ())) (m\<lparr>lm_checkpoint := c\<rparr>))"

section \<open>Flushing and checkpoints\<close>

definition count_record :: "(LogManager, unit) prog" where
  "count_record m = (Ok (), m\<lparr>lm_header := (lm_header m)\<lparr>lh_record_count := lh_record_count (lm_header m) + 1\<rparr>\<rparr>)"

definition clear_checksum :: "(LogManager, unit) prog" where
  "clear_checksum m = (Ok (), m\<lparr>lm_header := (lm_header m)\<lparr>lh_checksum := 0\<rparr>\<rparr>)"

text \<open>The place after \<open>record_count\<close> items of the fixed size, wherever the log really ends.\<close>

definition fixed_offset :: "LogManager \<Rightarrow> nat" where
  "fixed_offset m = data_start + unat (lh_record_count (lm_header m)) * log_item_size"

fun flush_items :: "VariableSizeLogItem list \<Rightarrow> (LogManager, unit) prog" where
  "flush_items [] = ret ()"
| "flush_items (v # vs) =
     seqm (write_locked (item_bytes (header v) @ old_data v @ new_data v)) (\<lambda>_.
     seqm count_record (\<lambda>_. flush_items vs))"

definition flush_buffer :: "u64 \<Rightarrow> (LogManager, unit) prog" where
  "flush_buffer now m =
     (if lm_log_buffer m = [] then (Ok (), m)
      else
        seqm lm_spin_lock (\<lambda>_. seqm (on_file (file_seek (fixed_offset m))) (\<lambda>_.
        seqm (flush_items (lm_log_buffer m)) (\<lambda>_.
        seqm (\<lambda>m. (Ok (), m\<lparr>lm_log_buffer := []\<rparr>)) (\<lambda>_.
        seqm clear_checksum (\<lambda>_. seqm lm_spin_unlock (\<lambda>_. seqm write_header (\<lambda>_ m.
          (Ok (), m\<lparr>lm_last_flush_time := now\<rparr>)))))))) m)"

definition checkpoint_item :: "u64 \<Rightarrow> LogItem" where
  "checkpoint_item now =
     (let h = \<lparr>op_type = Checkpoint, li_table_id = 0, record_id = 0, old_data_size = 0, new_data_size = 0,
               li_tx_id = 0, timestamp = now, checksum = 0\<rparr>
      in h\<lparr>checksum := calculate_log_item_checksum h\<rparr>)"

definition create_checkpoint :: "u64 \<Rightarrow> (LogManager, unit) prog" where
  "create_checkpoint now =
     seqm lm_spin_lock (\<lambda>_ m.
       seqm (on_file (file_seek (fixed_offset m))) (\<lambda>_.
       seqm (write_locked (item_bytes (checkpoint_item now))) (\<lambda>_.
       seqm count_record (\<lambda>_. seqm clear_checksum (\<lambda>_. seqm lm_spin_unlock (\<lambda>_.
       seqm write_checkpoint (\<lambda>_. seqm write_header (\<lambda>_ m.
         (Ok (), m\<lparr>lm_last_checkpoint_time := now div 1000\<rparr>))))))))
       (m\<lparr>lm_checkpoint := \<lparr>lc_timestamp = now, lc_processed_records = lh_record_count (lm_header m), lc_checksum = 0\<rparr>\<rparr>))"

definition check_flush_and_checkpoint :: "u64 \<Rightarrow> (LogManager, unit) prog" where
  "check_flush_and_checkpoint now m =
     seqm (if now - lm_last_flush_time m > 1000000 \<and> lm_log_buffer m \<noteq> [] then flush_buffer now else ret ()) (\<lambda>_ m1.
       if now div 1000 - lm_last_checkpoint_time m1 \<ge> lm_checkpoint_interval_ms m1 then create_checkpoint now m1
       else (Ok (), m1)) m"

text \<open>Closing flushes, writes a last checkpoint and gives the handle back, which cannot fail on this platform.\<close>

definition lm_close :: "u64 \<Rightarrow> (LogManager, unit) prog" where
  "lm_close now = seqm (flush_buffer now) (\<lambda>_. create_checkpoint now)"

section \<open>Writing an item\<close>

definition write_data :: "codec \<Rightarrow> u16 \<Rightarrow> bytes \<Rightarrow> (LogManager, unit) prog" where
  "write_data cd sz ds m =
     (if sz = 0 then (Ok (), m)
      else (case compress_wal_data cd ds (lm_compression_type m) (lm_compression_level m) of
              Ok c \<Rightarrow> seqm (write_locked (to_le 4 (length c))) (\<lambda>_. write_locked c) m
            | Err e \<Rightarrow> (Err e, m)
            | Fault \<Rightarrow> (Fault, m)))"

definition stored_size :: "codec \<Rightarrow> u16 \<Rightarrow> bytes \<Rightarrow> LogManager \<Rightarrow> nat outcome" where
  "stored_size cd sz ds m =
     (if sz = 0 then Ok 0
      else and_then (compress_wal_data cd ds (lm_compression_type m) (lm_compression_level m)) (\<lambda>c. Ok (4 + length c)))"

definition advance_offset :: "codec \<Rightarrow> VariableSizeLogItem \<Rightarrow> (LogManager, unit) prog" where
  "advance_offset cd v m =
     (case and_then (stored_size cd (old_data_size (header v)) (old_data v) m) (\<lambda>a.
           and_then (stored_size cd (new_data_size (header v)) (new_data v) m) (\<lambda>b. Ok (log_item_size + a + b))) of
        Ok n \<Rightarrow> (Ok (), m\<lparr>lm_offset := lm_offset m + n\<rparr>)
      | Err e \<Rightarrow> (Err e, m)
      | Fault \<Rightarrow> (Fault, m))"

text \<open>Both log modes do the same; \<open>log_mode\<close> makes no difference.\<close>

definition write_item :: "codec \<Rightarrow> u64 \<Rightarrow> VariableSizeLogItem \<Rightarrow> (LogManager, unit) prog" where
  "write_item cd now v =
     seqm (check_flush_and_checkpoint now) (\<lambda>_.
     seqm lm_spin_lock (\<lambda>_. seqm (\<lambda>m. on_file (file_seek (lm_offset m)) m) (\<lambda>_.
     seqm (write_locked (item_bytes (header v))) (\<lambda>_.
     seqm (write_data cd (old_data_size (header v)) (old_data v)) (\<lambda>_.
     seqm (write_data cd (new_data_size (header v)) (new_data v)) (\<lambda>_.
     seqm count_record (\<lambda>_. seqm clear_checksum (\<lambda>_. seqm (advance_offset cd v) (\<lambda>_.
     seqm lm_spin_unlock (\<lambda>_. write_header))))))))))"

text \<open>Publishing: its result is dropped, and the item goes out with its data not compressed.\<close>

definition publish_variable_size_to_pubsub ::
  "socket \<Rightarrow> u64 \<Rightarrow> VariableSizeLogItem \<Rightarrow> PubSub option \<Rightarrow> PubSub option" where
  "publish_variable_size_to_pubsub sock now v gp =
     (case g_get_topic_id ''wal'' gp of
        Some tid \<Rightarrow> snd (g_publish sock now tid (item_bytes (header v) @ old_data v @ new_data v) gp)
      | None \<Rightarrow> gp)"

definition write_variable_size_log_item ::
  "codec \<Rightarrow> socket \<Rightarrow> u64 \<Rightarrow> VariableSizeLogItem \<Rightarrow> (LogManager \<times> PubSub option, unit) prog" where
  "write_variable_size_log_item cd sock now v s =
     (case write_item cd now v (fst s) of
        (Ok _, m) \<Rightarrow> (Ok (), m, publish_variable_size_to_pubsub sock now v (snd s))
      | (Err e, m) \<Rightarrow> (Err e, m, snd s)
      | (Fault, m) \<Rightarrow> (Fault, m, snd s))"

definition write_log_item :: "codec \<Rightarrow> socket \<Rightarrow> u64 \<Rightarrow> LogItem \<Rightarrow> (LogManager \<times> PubSub option, unit) prog" where
  "write_log_item cd sock now h =
     write_variable_size_log_item cd sock now \<lparr>header = h, old_data = [], new_data = []\<rparr>"

section \<open>Opening the log\<close>

definition LOG_MAGIC :: u32 where "LOG_MAGIC = 0x4C4F474D"

definition comp_code :: "WALCompressionType \<Rightarrow> u8" where
  "comp_code ct = (case ct of CompNone \<Rightarrow> 0 | CompLZ4 \<Rightarrow> 1 | CompZSTD \<Rightarrow> 2)"

definition fresh_manager :: "WALConfig \<Rightarrow> u64 \<Rightarrow> FileState \<Rightarrow> LogManager" where
  "fresh_manager c now f =
     \<lparr>lm_log_path = wc_log_path c, lm_file = f,
      lm_header = \<lparr>lh_magic = LOG_MAGIC, lh_version = 1, lh_created_at = now, lh_record_count = 0, lh_checksum = 0,
                   lh_compression_type = comp_code (wc_compression_type c)\<rparr>,
      lm_checkpoint = \<lparr>lc_timestamp = 0, lc_processed_records = 0, lc_checksum = 0\<rparr>,
      lm_lock = False, lm_log_mode = wc_log_mode c, lm_log_buffer = [],
      lm_buffer_config = \<lparr>lb_size = 1024, lb_flush_threshold = 800\<rparr>,
      lm_last_flush_time = now, lm_last_checkpoint_time = now div 1000,
      lm_checkpoint_interval_ms = wc_checkpoint_interval_ms c, lm_log_file_size_limit = wc_log_file_size_limit c,
      lm_log_segment_size = wc_log_segment_size c, lm_offset = data_start,
      lm_max_consecutive_invalid = wc_max_consecutive_invalid c, lm_skip_threshold = wc_skip_threshold c,
      lm_skip_block_size = wc_skip_block_size c, lm_max_skip_attempts = wc_max_skip_attempts c,
      lm_compression_type = wc_compression_type c, lm_compression_level = wc_compression_level c\<rparr>"

definition preallocate :: "nat \<Rightarrow> (FileState, unit) prog" where
  "preallocate n =
     (if n > 0 then
        seqm (file_seek (n - 1)) (\<lambda>_. seqm (file_write [0]) (\<lambda>_. file_seek 0))
      else ret ())"

text \<open>A header that reads well is taken over, without a look at its checksum; otherwise a new one is written.\<close>

definition start_log :: "WALConfig \<Rightarrow> bytes \<Rightarrow> (LogManager, unit) prog" where
  "start_log c hb m =
     (let (valid, m1) =
        (if length hb \<ge> log_header_size \<and> lh_magic (header_from hb) = LOG_MAGIC \<and> lh_version (header_from hb) = 1
         then (case read_checkpoint (m\<lparr>lm_header := header_from hb\<rparr>) of (r, m') \<Rightarrow> (is_ok r, m'))
         else (False, m)) in
      if valid then (Ok (), m1)
      else seqm (on_file (file_seek 0)) (\<lambda>_. seqm (on_file (preallocate (wc_log_prealloc_size c))) (\<lambda>_. write_header)) m1)"

definition LogManager_new :: "WALConfig \<Rightarrow> u64 \<Rightarrow> io_answer list \<Rightarrow> bytes \<Rightarrow> LogManager outcome" where
  "LogManager_new c now as bs =
     and_then (file_open as bs) (\<lambda>f.
       case seqm (on_file (file_read log_header_size)) (start_log c) (fresh_manager c now f) of
         (Ok _, m) \<Rightarrow> Ok m
       | (Err e, _) \<Rightarrow> Err e
       | (Fault, _) \<Rightarrow> Fault)"

section \<open>Reading an item by its number\<close>

text \<open>A read of exactly \<open>n\<close> bytes; a short one is an error.\<close>

definition read_exact :: "nat \<Rightarrow> (FileState, bytes) prog" where
  "read_exact n = seqm (file_read n) (\<lambda>bs. if length bs \<noteq> n then raise FileIoError else ret bs)"

definition lift_outcome :: "'a outcome \<Rightarrow> ('s, 'a) prog" where
  "lift_outcome r s = (r, s)"

text \<open>
  The size prefix of the old and of the new data, while items are skipped: the second one is
  read where the first one ended, in the old data.
\<close>

definition skip_size :: "u16 \<Rightarrow> (FileState, nat) prog" where
  "skip_size sz = (if sz > 0 then seqm (read_exact 4) (\<lambda>bs. ret (4 + le_nat bs)) else ret 0)"

fun skip_items :: "nat \<Rightarrow> nat \<Rightarrow> (FileState, nat) prog" where
  "skip_items 0 off = ret off"
| "skip_items (Suc n) off =
     seqm (file_seek off) (\<lambda>_. seqm (read_exact log_item_size) (\<lambda>bs. seqm (lift_outcome (item_from bs)) (\<lambda>h.
     seqm (skip_size (old_data_size h)) (\<lambda>a. seqm (skip_size (new_data_size h)) (\<lambda>b.
     skip_items n (off + log_item_size + a + b))))))"

definition read_data :: "codec \<Rightarrow> WALCompressionType \<Rightarrow> u16 \<Rightarrow> nat \<Rightarrow> (FileState, bytes \<times> nat) prog" where
  "read_data cd ct sz off =
     (if sz > 0 then
        seqm (file_seek off) (\<lambda>_. seqm (read_exact 4) (\<lambda>lb. seqm (read_exact (le_nat lb)) (\<lambda>bs.
        seqm (lift_outcome (decompress_wal_data cd bs ct)) (\<lambda>ds. ret (ds, off + 4 + le_nat lb)))))
      else ret ([], off))"

definition read_item_at :: "codec \<Rightarrow> WALCompressionType \<Rightarrow> nat \<Rightarrow> (FileState, VariableSizeLogItem) prog" where
  "read_item_at cd ct off =
     seqm (file_seek off) (\<lambda>_. seqm (read_exact log_item_size) (\<lambda>bs. seqm (lift_outcome (item_from bs)) (\<lambda>h.
     seqm (read_data cd ct (old_data_size h) (off + log_item_size)) (\<lambda>(old, off1).
     seqm (read_data cd ct (new_data_size h) off1) (\<lambda>(new, _).
       let v = \<lparr>header = h, old_data = old, new_data = new\<rparr> in
       if checksum h \<noteq> calculate_variable_size_log_item_checksum v then raise LogChecksumError else ret v)))))"

definition read_variable_size_log_item :: "codec \<Rightarrow> io_answer list \<Rightarrow> u32 \<Rightarrow> LogManager \<Rightarrow> VariableSizeLogItem outcome" where
  "read_variable_size_log_item cd as i m =
     (if i \<ge> lh_record_count (lm_header m) then Err LogRecordNotFound
      else and_then (file_open as (f_bytes (lm_file m))) (\<lambda>f.
        fst (seqm (skip_items (unat i) data_start) (read_item_at cd (lm_compression_type m)) f)))"

section \<open>Recovery: scanning the file\<close>

definition comp_of_code :: "u8 \<Rightarrow> WALCompressionType" where
  "comp_of_code b = (if b = 1 then CompLZ4 else if b = 2 then CompZSTD else CompNone)"

text \<open>
  The data of an item at \<open>off\<close>, with \<open>None\<close> where reading fails: without compression the data
  itself, with compression a size and the compressed data.
\<close>

definition scan_read :: "codec \<Rightarrow> WALCompressionType \<Rightarrow> u16 \<Rightarrow> nat \<Rightarrow> (FileState, bytes \<times> nat) prog" where
  "scan_read cd ct sz off =
     seqm (file_seek off) (\<lambda>_.
       if ct = CompNone then
         seqm (read_exact (unat sz)) (\<lambda>bs. ret (bs, off + unat sz))
       else
         seqm (read_exact 4) (\<lambda>lb. seqm (read_exact (le_nat lb)) (\<lambda>bs.
         seqm (lift_outcome (decompress_wal_data cd bs ct)) (\<lambda>ds. ret (ds, off + 4 + le_nat lb)))))"

definition scan_data :: "codec \<Rightarrow> WALCompressionType \<Rightarrow> u16 \<Rightarrow> nat \<Rightarrow> FileState \<Rightarrow> (bytes \<times> nat) option \<times> FileState" where
  "scan_data cd ct sz off f =
     (if sz = 0 then (Some ([], off), f)
      else (case scan_read cd ct sz off f of (Ok r, f') \<Rightarrow> (Some r, f') | (_, f') \<Rightarrow> (None, f')))"

definition scan_header :: "nat \<Rightarrow> (FileState, bytes) prog" where
  "scan_header off = seqm (file_seek off) (\<lambda>_. read_exact log_item_size)"

text \<open>Which items are taken, once their checksum is right.\<close>

definition is_system_op :: "LogOperation \<Rightarrow> bool" where
  "is_system_op op = (op \<in> {CreateTable, CreateIndex, Checkpoint, Commit, Abort, EnterLowPowerMode, ExitLowPowerMode, AlterTable})"

definition acceptable :: "LogItem \<Rightarrow> bool" where
  "acceptable h =
     (\<not> (li_tx_id h = 0 \<and> timestamp h = 0)
      \<or> (op_type h = Insert \<and> (old_data_size h > 0 \<or> new_data_size h > 0))
      \<or> (old_data_size h > 0 \<or> new_data_size h > 0) \<or> is_system_op (op_type h))"

text \<open>What the scan finds at an offset: it stops, sees no valid item, or one, or leaves defined behaviour.\<close>

datatype scan_result = ScanStop | ScanBad | ScanItem VariableSizeLogItem | ScanFault

definition scan_item :: "codec \<Rightarrow> LogManager \<Rightarrow> nat \<Rightarrow> FileState \<Rightarrow> scan_result \<times> FileState" where
  "scan_item cd m off f =
     (let ct = comp_of_code (lh_compression_type (lm_header m)) in
      case scan_header off f of
        (Ok bs, f1) \<Rightarrow>
          (case item_from bs of
             Ok h \<Rightarrow>
               (case scan_data cd ct (old_data_size h) (off + log_item_size) f1 of
                  (None, f2) \<Rightarrow> (ScanBad, f2)
                | (Some (old, off1), f2) \<Rightarrow>
                    (case scan_data cd ct (new_data_size h) off1 f2 of
                       (None, f3) \<Rightarrow> (ScanBad, f3)
                     | (Some (new, _), f3) \<Rightarrow>
                         let v = \<lparr>header = h, old_data = old, new_data = new\<rparr> in
                         if checksum h = calculate_variable_size_log_item_checksum v \<and> acceptable h then (ScanItem v, f3)
                         else (ScanBad, f3)))
           | _ \<Rightarrow> (ScanFault, f1))
      | (_, f1) \<Rightarrow> (ScanStop, f1))"

text \<open>
  The loop, with fuel: \<open>None\<close> means that it is still running.  After a valid item it goes on
  behind its header and the sizes of its data before compression; after an invalid one it goes
  on behind a header, at the threshold it jumps once by the block size, and after too many it
  stops.
\<close>

fun scan_loop ::
  "nat \<Rightarrow> codec \<Rightarrow> LogManager \<Rightarrow> nat \<Rightarrow> u32 \<Rightarrow> FileState \<Rightarrow> VariableSizeLogItem list outcome option" where
  "scan_loop 0 cd m off bad f = None"
| "scan_loop (Suc n) cd m off bad f =
     (if \<not> off < length (f_bytes f) then Some (Ok [])
      else
        (case scan_item cd m off f of
           (ScanStop, _) \<Rightarrow> Some (Ok [])
         | (ScanFault, _) \<Rightarrow> Some Fault
         | (ScanItem v, f') \<Rightarrow>
             map_option (\<lambda>r. and_then r (\<lambda>vs. Ok (v # vs)))
               (scan_loop n cd m (off + log_item_size + unat (old_data_size (header v)) + unat (new_data_size (header v))) 0 f')
         | (ScanBad, f') \<Rightarrow>
             let bad' = bad + 1 in
             if bad' = lm_skip_threshold m \<and> lm_max_skip_attempts m > 0 \<and> off + lm_skip_block_size m < length (f_bytes f)
             then scan_loop n cd m (off + lm_skip_block_size m) 0 f'
             else if bad' > lm_max_consecutive_invalid m then Some (Ok [])
             else scan_loop n cd m (off + log_item_size) bad' f'))"

definition is_data_op :: "LogOperation \<Rightarrow> bool" where
  "is_data_op op = (op = Insert \<or> op = Update \<or> op = Delete)"

text \<open>
  The first phase of \<open>recover\<close>: the items found, or an error when there is none or no change of
  data among them.  A file that cannot be measured or opened ends recovery with success and no
  items.
\<close>

definition recover_scan :: "nat \<Rightarrow> codec \<Rightarrow> bool \<Rightarrow> io_answer list \<Rightarrow> LogManager \<Rightarrow> VariableSizeLogItem list outcome option" where
  "recover_scan n cd size_known as m =
     (if \<not> size_known then Some (Ok [])
      else case file_open as (f_bytes (lm_file m)) of
        Ok f \<Rightarrow>
          map_option (\<lambda>r. and_then r (\<lambda>vs.
              if vs = [] \<or> \<not> (\<exists>v\<in>set vs. is_data_op (op_type (header v))) then Err FileIoError else Ok vs))
            (scan_loop n cd m data_start 0 f)
      | _ \<Rightarrow> Some (Ok []))"

end
