(* ===== verification/Wal_Inv.thy ===== *)
theory Wal_Inv
  imports Wal
begin

text \<open>
  What the log manager does: items written to a log can be read back by their number, up to the
  first update; and what happens at the second opening of a log, at a checkpoint, in recovery
  and after a refused write.
\<close>

section \<open>Files that obey\<close>

lemma seqm_Ok [simp]: "m s = (Ok a, s') \<Longrightarrow> seqm m k s = k a s'"
  and seqm_Err [simp]: "m s = (Err e, s') \<Longrightarrow> seqm m k s = (Err e, s')"
  and seqm_Fault [simp]: "m s = (Fault, s') \<Longrightarrow> seqm m k s = (Fault, s')"
  by (simp_all add: seqm_def)

lemma seek_done [simp]: "f_answers f = [] \<Longrightarrow> file_seek off f = (Ok (), f\<lparr>f_pos := off\<rparr>)"
  by (simp add: file_seek_def next_answer_def)

lemma write_done [simp]:
  "f_answers f = [] \<Longrightarrow> file_write bs f =
     (Ok (length bs), f\<lparr>f_bytes := write_at (f_pos f) bs (f_bytes f), f_pos := f_pos f + length bs\<rparr>)"
  by (simp add: file_write_def next_answer_def Let_def)

lemma read_done [simp]:
  "f_answers f = [] \<Longrightarrow> file_read n f =
     (Ok (take n (drop (f_pos f) (f_bytes f))), f\<lparr>f_pos := f_pos f + min (length (f_bytes f) - f_pos f) n\<rparr>)"
  by (simp add: file_read_def next_answer_def Let_def)

lemma open_done [simp]: "file_open [] bs = Ok \<lparr>f_bytes = bs, f_pos = 0, f_answers = []\<rparr>"
  by (simp add: file_open_def next_answer_def)

lemma read_exact_done [simp]:
  "f_answers f = [] \<Longrightarrow> f_pos f + n \<le> length (f_bytes f) \<Longrightarrow>
     read_exact n f = (Ok (take n (drop (f_pos f) (f_bytes f))), f\<lparr>f_pos := f_pos f + n\<rparr>)"
  by (simp add: read_exact_def ret_def)

lemma read_exact_short [simp]:
  "f_answers f = [] \<Longrightarrow> 0 < n \<Longrightarrow> length (f_bytes f) < f_pos f + n \<Longrightarrow>
     read_exact n f = (Err FileIoError, f\<lparr>f_pos := f_pos f + (length (f_bytes f) - f_pos f)\<rparr>)"
  by (simp add: read_exact_def raise_def min_def) arith

lemma write_at_Nil [simp]: "write_at off [] fs = fs"
  by (simp add: write_at_def)

lemma write_at_twice:
  "write_at (off + length a) b (write_at off a fs) = write_at off (a @ b) fs"
proof -
  have "take (off + length a) (take off (fs @ replicate (off - length fs) 0) @ a @ drop (off + length a) fs)
      = take off (fs @ replicate (off - length fs) 0) @ a"
    by simp
  moreover have "min (length fs) off + (off - length fs) = off" by simp
  ultimately show ?thesis
    by (auto simp: write_at_def ac_simps)
qed

lemma drop_write_at_head:
  "length bs + off \<le> n \<Longrightarrow> n \<le> length fs \<or> off \<le> length fs \<Longrightarrow> drop n (write_at off bs fs) = drop n fs"
  by (auto simp: write_at_def min_def)

lemma write_at_end:
  assumes "length (take n (drop k fs)) = n" "bs \<noteq> [] "
  shows "take (n + length bs) (drop k (write_at (k + n) bs fs)) = take n (drop k fs) @ bs"
proof (cases "k + n \<le> length fs")
  case True
  then show ?thesis by (simp add: write_at_def drop_take)
next
  case False
  with assms(1) have "n = 0" by auto
  then show ?thesis using assms(2) False by (simp add: write_at_def)
qed

section \<open>Layouts\<close>

lemma length_layout [simp]:
  "length (header_bytes h) = 32" "length (checkpoint_bytes c) = 16" "length (item_bytes i) = 32"
  by (simp_all add: header_bytes_def checkpoint_bytes_def item_bytes_def)

lemma header_bytes_ne [simp]: "header_bytes h \<noteq> []" "item_bytes i \<noteq> []" "checkpoint_bytes c \<noteq> []"
  by (metis length_layout list.size(3) zero_neq_numeral)+

lemma write_at_header: "write_at 0 (header_bytes h) fs = header_bytes h @ drop 32 fs"
  by (simp add: write_at_def)

lemma header_roundtrip [simp]: "header_from (header_bytes h) = h"
  by (simp add: header_from_def header_bytes_def wire_simps)

lemma checkpoint_roundtrip: "checkpoint_from (checkpoint_bytes c) = c"
  by (simp add: checkpoint_from_def checkpoint_bytes_def wire_simps)

lemma log_op_roundtrip: "log_op_code op < length log_ops" "log_ops ! log_op_code op = op"
  by (cases op; simp add: log_ops_def)+

lemma item_roundtrip [simp]: "item_from (item_bytes h) = Ok h"
proof -
  have "log_op_code (op_type h) < 256" using log_op_roundtrip(1) [of "op_type h"] by (simp add: log_ops_def)
  then have "unat (of_nat (log_op_code (op_type h)) :: byte) = log_op_code (op_type h)"
    by (simp add: unat_of_nat)
  then show ?thesis
    using log_op_roundtrip [of "op_type h"] by (simp add: item_from_def item_bytes_def wire_simps)
qed

section \<open>Writing an item\<close>

text \<open>An item as \<open>begin_variable_size_log_item\<close> makes it, when its data fit into the size fields.\<close>

definition wf_item :: "VariableSizeLogItem \<Rightarrow> bool" where
  "wf_item v \<longleftrightarrow> unat (old_data_size (header v)) = length (old_data v) \<and> unat (new_data_size (header v)) = length (new_data v)
     \<and> checksum (header v) = calculate_variable_size_log_item_checksum v"

lemma begin_item_wf:
  assumes "length (data_vec old) < 65536" "length (data_vec new) < 65536"
  shows "wf_item (begin_variable_size_log_item now tid op tbl rid old new)"
  using assms
  by (auto simp: begin_variable_size_log_item_def wf_item_def data_len_def data_vec_def Let_def unat_of_nat
      calculate_variable_size_log_item_checksum_def calculate_log_item_checksum_def split: option.splits)

text \<open>What is assumed of a codec: it compresses data of the size of a log item, and decompression undoes it.\<close>

definition codec_ok :: "codec \<Rightarrow> WALCompressionType \<Rightarrow> u8 \<Rightarrow> bool" where
  "codec_ok cd ct level \<longleftrightarrow> (\<forall>ds. length ds < 65536 \<longrightarrow>
     (\<exists>c. compress_wal_data cd ds ct level = Ok c \<and> length c < 2 ^ 32 \<and> decompress_wal_data cd c ct = Ok ds))"

lemma codec_ok_None [simp]: "codec_ok cd CompNone level"
  by (simp add: codec_ok_def compress_wal_data_def decompress_wal_data_def)

definition stored :: "codec \<Rightarrow> LogManager \<Rightarrow> bytes \<Rightarrow> bytes" where
  "stored cd m ds = (case compress_wal_data cd ds (lm_compression_type m) (lm_compression_level m) of Ok c \<Rightarrow> c | _ \<Rightarrow> [])"

definition part :: "codec \<Rightarrow> LogManager \<Rightarrow> bytes \<Rightarrow> bytes" where
  "part cd m ds = (if ds = [] then [] else to_le 4 (length (stored cd m ds)) @ stored cd m ds)"

definition encoded :: "codec \<Rightarrow> LogManager \<Rightarrow> VariableSizeLogItem \<Rightarrow> bytes" where
  "encoded cd m v = item_bytes (header v) @ part cd m (old_data v) @ part cd m (new_data v)"

lemma length_part: "length (part cd m ds) = (if ds = [] then 0 else 4 + length (stored cd m ds))"
  by (simp add: part_def)

lemma length_encoded: "length (encoded cd m v) = 32 + length (part cd m (old_data v)) + length (part cd m (new_data v))"
  by (simp add: encoded_def)

lemma stored_cong:
  "lm_compression_type m' = lm_compression_type m \<Longrightarrow> lm_compression_level m' = lm_compression_level m \<Longrightarrow>
     encoded cd m' = encoded cd m"
  by (simp add: fun_eq_iff encoded_def part_def stored_def)

lemma codec_stored:
  assumes "codec_ok cd (lm_compression_type m) (lm_compression_level m)" "length ds < 65536"
  shows "compress_wal_data cd ds (lm_compression_type m) (lm_compression_level m) = Ok (stored cd m ds)"
    "length (stored cd m ds) < 2 ^ 32" "decompress_wal_data cd (stored cd m ds) (lm_compression_type m) = Ok ds"
  using assms by (auto simp: codec_ok_def stored_def)

lemma write_locked_done [simp]:
  "f_answers (lm_file m) = [] \<Longrightarrow> write_locked bs m =
     (Ok (), m\<lparr>lm_file := (lm_file m)\<lparr>f_bytes := write_at (f_pos (lm_file m)) bs (f_bytes (lm_file m)),
                                      f_pos := f_pos (lm_file m) + length bs\<rparr>\<rparr>)"
  by (simp add: write_locked_def on_file_def ret_def)

lemma write_header_done [simp]:
  "f_answers (lm_file m) = [] \<Longrightarrow> write_header m =
     (let h = (lm_header m)\<lparr>lh_checksum := header_sum (lm_header m)\<rparr> in
      (Ok (), m\<lparr>lm_header := h,
                lm_file := (lm_file m)\<lparr>f_bytes := write_at 0 (header_bytes h) (f_bytes (lm_file m)), f_pos := 32\<rparr>\<rparr>))"
  by (simp add: write_header_def on_file_def ret_def Let_def)

lemma word_size_zero: "(sz = 0) = (unat sz = 0)" for sz :: u16
  by (metis unat_0 unat_eq_zero)

lemma size_pos: "unat sz = length ds \<Longrightarrow> (0 < sz) = (ds \<noteq> [])" for sz :: u16
  using word_size_zero [of sz] by (auto simp: word_neq_0_conv [symmetric])

lemma item_surjective [simp]: "\<lparr>header = header v, old_data = old_data v, new_data = new_data v\<rparr> = v"
  by simp

lemma u16_small: "unat sz = n \<Longrightarrow> n < 65536" for sz :: u16
proof -
  have "unat sz < 65536" using unsigned_less [of sz] by simp
  then show "unat sz = n \<Longrightarrow> n < 65536" by simp
qed

lemma write_data_done:
  assumes "f_answers (lm_file m) = []" "codec_ok cd (lm_compression_type m) (lm_compression_level m)" "unat sz = length ds"
  shows "write_data cd sz ds m =
     (Ok (), m\<lparr>lm_file := (lm_file m)\<lparr>f_bytes := write_at (f_pos (lm_file m)) (part cd m ds) (f_bytes (lm_file m)),
                                      f_pos := f_pos (lm_file m) + length (part cd m ds)\<rparr>\<rparr>)"
proof (cases "sz = 0")
  case True
  then have "ds = []" using assms(3) by simp
  then show ?thesis using True by (simp add: write_data_def part_def)
next
  case False
  then have "ds \<noteq> []" using assms(3) word_size_zero by auto
  then show ?thesis
    using False codec_stored(1) [OF assms(2), of ds] u16_small [OF assms(3)] assms(1)
    by (simp add: write_data_def part_def write_at_twice [where a = "to_le 4 n" for n, simplified] add.assoc)
qed

lemma stored_size_done:
  assumes "codec_ok cd (lm_compression_type m) (lm_compression_level m)" "unat sz = length ds"
  shows "stored_size cd sz ds m = Ok (length (part cd m ds))"
  using codec_stored(1) [OF assms(1), of ds] u16_small [OF assms(2)] assms(2) word_size_zero [of sz]
  by (auto simp: stored_size_def length_part)

definition quiet :: "u64 \<Rightarrow> LogManager \<Rightarrow> bool" where
  "quiet now m \<longleftrightarrow> f_answers (lm_file m) = [] \<and> \<not> lm_lock m \<and> lm_log_buffer m = []
     \<and> now div 1000 - lm_last_checkpoint_time m < lm_checkpoint_interval_ms m"

definition next_header :: "LogHeader \<Rightarrow> LogHeader" where
  "next_header h = (let h1 = h\<lparr>lh_record_count := lh_record_count h + 1, lh_checksum := 0\<rparr> in h1\<lparr>lh_checksum := header_sum h1\<rparr>)"

definition written :: "codec \<Rightarrow> VariableSizeLogItem \<Rightarrow> LogManager \<Rightarrow> LogManager" where
  "written cd v m =
     m\<lparr>lm_header := next_header (lm_header m), lm_offset := lm_offset m + length (encoded cd m v),
       lm_file := (lm_file m)\<lparr>f_bytes := write_at 0 (header_bytes (next_header (lm_header m)))
         (write_at (lm_offset m) (encoded cd m v) (f_bytes (lm_file m))), f_pos := 32\<rparr>\<rparr>"

lemma write_item_done:
  assumes "quiet now m" "codec_ok cd (lm_compression_type m) (lm_compression_level m)" "wf_item v"
  shows "write_item cd now v m = (Ok (), written cd v m)"
proof -
  note w = assms(3) [unfolded wf_item_def]
  have c: "check_flush_and_checkpoint now m = (Ok (), m)"
    using assms(1) by (auto simp: quiet_def check_flush_and_checkpoint_def seqm_def ret_def)
  have "part cd (m\<lparr>lm_lock := b, lm_file := f\<rparr>) = part cd m" "part cd (m\<lparr>lm_lock := b, lm_file := f, lm_header := h\<rparr>) = part cd m" for b f h
    by (simp_all add: fun_eq_iff part_def stored_def)
  moreover have "write_at (lm_offset m + 32) p (write_at (lm_offset m) (item_bytes (header v)) fs)
      = write_at (lm_offset m) (item_bytes (header v) @ p) fs" for p fs
    using write_at_twice [of "lm_offset m" "item_bytes (header v)"] by simp
  moreover have "write_at (lm_offset m + 32 + length p) q (write_at (lm_offset m) (item_bytes (header v) @ p) fs)
      = write_at (lm_offset m) (item_bytes (header v) @ p @ q) fs" for p q fs
    using write_at_twice [of "lm_offset m" "item_bytes (header v) @ p"] by (simp add: add.assoc)
  ultimately show ?thesis
    using assms(1,2) w c
    by (simp add: write_item_def quiet_def lm_spin_lock_def lm_spin_unlock_def on_file_def write_data_done stored_size_done
        count_record_def clear_checksum_def advance_offset_def written_def next_header_def encoded_def Let_def add.assoc)
qed

text \<open>
  The log of \<open>m\<close> holds the items \<open>vs\<close>: they are counted, they follow each other from the end of the
  checkpoint on, and the next item goes behind them.
\<close>

definition log_holds :: "codec \<Rightarrow> LogManager \<Rightarrow> VariableSizeLogItem list \<Rightarrow> bool" where
  "log_holds cd m vs \<longleftrightarrow> lh_record_count (lm_header m) = of_nat (length vs)
     \<and> lm_offset m = data_start + length (concat (map (encoded cd m) vs))
     \<and> take (length (concat (map (encoded cd m) vs))) (drop data_start (f_bytes (lm_file m))) = concat (map (encoded cd m) vs)"

lemma encoded_ne [simp]: "encoded cd m v \<noteq> []"
  by (metis length_encoded add_is_0 length_0_conv zero_neq_numeral)

lemma drop_header_write: "drop 48 (write_at 0 (header_bytes h) fs) = drop 48 fs"
  by (simp add: write_at_def)

lemma written_holds:
  assumes "log_holds cd m vs"
  shows "log_holds cd (written cd v m) (vs @ [v])"
proof -
  let ?c = "concat (map (encoded cd m) vs)"
  have "length (take (length ?c) (drop 48 (f_bytes (lm_file m)))) = length ?c"
    using assms by (simp only: log_holds_def sizes)
  moreover have "encoded cd (written cd v m) = encoded cd m"
    by (rule stored_cong) (simp_all add: written_def)
  ultimately show ?thesis
    using assms write_at_end [of "length ?c" 48 "f_bytes (lm_file m)" "encoded cd m v"]
    by (simp add: log_holds_def written_def next_header_def Let_def drop_header_write)
qed

lemma written_frame [simp]:
  "quiet now (written cd v m) = quiet now m"
  "lm_compression_type (written cd v m) = lm_compression_type m" "lm_compression_level (written cd v m) = lm_compression_level m"
  by (simp_all add: written_def quiet_def)

lemma write_all_done:
  assumes "quiet now m" "codec_ok cd (lm_compression_type m) (lm_compression_level m)" "\<forall>v\<in>set us. wf_item v"
    "log_holds cd m vs"
  shows "\<exists>m' gp'. write_all (write_variable_size_log_item cd sock now) us (m, gp) = (Ok (), m', gp')
    \<and> log_holds cd m' (vs @ us) \<and> quiet now m' \<and> lm_compression_type m' = lm_compression_type m
    \<and> lm_compression_level m' = lm_compression_level m"
  using assms
proof (induction us arbitrary: m gp vs)
  case Nil
  then show ?case by simp
next
  case (Cons u us)
  have "write_variable_size_log_item cd sock now u (m, gp) =
      (Ok (), written cd u m, publish_variable_size_to_pubsub sock now u gp)"
    using Cons.prems by (simp add: write_variable_size_log_item_def write_item_done)
  then show ?case
    using Cons.IH [of "written cd u m" "vs @ [u]"] Cons.prems written_holds [OF Cons.prems(4)] by simp
qed

section \<open>Reading items back\<close>

text \<open>Where \<open>bs\<close> lies in a file at an offset.\<close>

definition lies :: "bytes \<Rightarrow> nat \<Rightarrow> bytes \<Rightarrow> bool" where
  "lies fs off bs \<longleftrightarrow> (\<exists>a c. fs = a @ bs @ c \<and> length a = off)"

lemma lies_append: "lies fs off (a @ b) \<longleftrightarrow> lies fs off a \<and> lies fs (off + length a) b"
proof
  assume "lies fs off (a @ b)"
  then obtain p c where "fs = p @ a @ b @ c" "length p = off" by (auto simp: lies_def)
  then have "fs = p @ a @ (b @ c) \<and> length p = off" "fs = (p @ a) @ b @ c \<and> length (p @ a) = off + length a" by auto
  then show "lies fs off a \<and> lies fs (off + length a) b" unfolding lies_def by blast
next
  assume "lies fs off a \<and> lies fs (off + length a) b"
  then obtain p c q d where "fs = p @ a @ c" "length p = off" "fs = q @ b @ d" "length q = off + length a"
    unfolding lies_def by blast
  then have "q = p @ a" "c = b @ d" by (metis append.assoc append_eq_append_conv length_append)+
  then show "lies fs off (a @ b)" using \<open>fs = p @ a @ c\<close> \<open>length p = off\<close> by (auto simp: lies_def)
qed

lemma lies_take: "lies fs off r \<Longrightarrow> lies fs off (take n r)"
  using lies_append [of fs off "take n r" "drop n r"] by simp

lemma liesD: "lies fs off bs \<Longrightarrow> off + length bs \<le> length fs \<and> take (length bs) (drop off fs) = bs"
  by (auto simp: lies_def)

lemma liesI: "take (length bs) (drop off fs) = bs \<Longrightarrow> off \<le> length fs \<Longrightarrow> lies fs off bs"
  unfolding lies_def by (metis append_take_drop_id length_take min.absorb2)

lemma read_exact_lies:
  assumes "f_answers f = []" "lies (f_bytes f) (f_pos f) bs" "length bs = n"
  shows "read_exact n f = (Ok bs, f\<lparr>f_pos := f_pos f + n\<rparr>)"
  using assms liesD [OF assms(2)] by simp

lemma lies_part:
  assumes "lies fs off (part cd m ds)" "ds \<noteq> []"
  shows "lies fs off (to_le 4 (length (stored cd m ds)))" "lies fs (off + 4) (stored cd m ds)"
  using assms by (auto simp: part_def lies_append)

lemma read_data_done:
  assumes "f_answers f = []" "lies (f_bytes f) off (part cd m ds)" "unat sz = length ds"
    "codec_ok cd (lm_compression_type m) (lm_compression_level m)"
  shows "\<exists>p. read_data cd (lm_compression_type m) sz off f = (Ok (ds, off + length (part cd m ds)), f\<lparr>f_pos := p\<rparr>)"
proof (cases "ds = []")
  case True
  then show ?thesis using size_pos [OF assms(3)] by (auto simp: read_data_def part_def ret_def intro: exI [of _ "f_pos f"])
next
  case False
  then have "sz > 0" using assms(3) word_size_zero [of sz] by (simp add: word_neq_0_conv)
  moreover have "le_nat (to_le 4 (length (stored cd m ds))) = length (stored cd m ds)"
    using codec_stored(2) [OF assms(4), of ds] u16_small [OF assms(3)] by simp
  ultimately show ?thesis
    using False assms(1) lies_part [OF assms(2) False] codec_stored(3) [OF assms(4), of ds] u16_small [OF assms(3)]
    by (simp add: read_data_def read_exact_lies lift_outcome_def ret_def length_part) blast
qed

lemma read_item_done:
  assumes "f_answers f = []" "lies (f_bytes f) off (encoded cd m v)" "wf_item v"
    "codec_ok cd (lm_compression_type m) (lm_compression_level m)"
  shows "fst (read_item_at cd (lm_compression_type m) off f) = Ok v"
proof -
  note w = assms(3) [unfolded wf_item_def]
  have l: "lies (f_bytes f) off (item_bytes (header v))" "lies (f_bytes f) (off + 32) (part cd m (old_data v))"
    "lies (f_bytes f) (off + 32 + length (part cd m (old_data v))) (part cd m (new_data v))"
    using assms(2) by (auto simp: encoded_def lies_append)
  let ?f = "f\<lparr>f_pos := off + 32\<rparr>"
  obtain p where 1: "read_data cd (lm_compression_type m) (old_data_size (header v)) (off + 32) ?f
      = (Ok (old_data v, off + 32 + length (part cd m (old_data v))), ?f\<lparr>f_pos := p\<rparr>)"
    using read_data_done [of ?f "off + 32" cd m "old_data v"] l assms(1,4) w by auto
  obtain q where 2: "read_data cd (lm_compression_type m) (new_data_size (header v)) (off + 32 + length (part cd m (old_data v))) (?f\<lparr>f_pos := p\<rparr>)
      = (Ok (new_data v, off + 32 + length (part cd m (old_data v)) + length (part cd m (new_data v))), ?f\<lparr>f_pos := q\<rparr>)"
    using read_data_done [of "?f\<lparr>f_pos := p\<rparr>" "off + 32 + length (part cd m (old_data v))" cd m "new_data v"] l assms(1,4) w by auto
  show ?thesis
    using 1 2 l(1) assms(1) w by (simp add: read_item_at_def read_exact_lies lift_outcome_def ret_def Let_def)
qed

text \<open>An item with either old or new data, or none: no update.\<close>

definition one_image :: "VariableSizeLogItem \<Rightarrow> bool" where
  "one_image v \<longleftrightarrow> old_data v = [] \<or> new_data v = []"

lemma skip_item_done:
  assumes "f_answers f = []" "lies (f_bytes f) off (encoded cd m v)" "wf_item v" "one_image v"
    "codec_ok cd (lm_compression_type m) (lm_compression_level m)"
  shows "\<exists>p. skip_items (Suc n) off f = skip_items n (off + length (encoded cd m v)) (f\<lparr>f_pos := p\<rparr>)"
proof -
  note w = assms(3) [unfolded wf_item_def]
  have l: "lies (f_bytes f) off (item_bytes (header v))" "lies (f_bytes f) (off + 32) (part cd m (old_data v))"
    "lies (f_bytes f) (off + 32 + length (part cd m (old_data v))) (part cd m (new_data v))"
    using assms(2) by (auto simp: encoded_def lies_append)
  have s: "\<exists>q. skip_size sz (f\<lparr>f_pos := p\<rparr>) = (Ok (length (part cd m ds)), f\<lparr>f_pos := q\<rparr>)"
    if "unat sz = length ds" "lies (f_bytes f) p (part cd m ds) \<or> ds = []" for sz ds p
  proof (cases "ds = []")
    case True
    then show ?thesis using size_pos [OF that(1)] by (auto simp: skip_size_def ret_def part_def)
  next
    case False
    moreover have "le_nat (to_le 4 (length (stored cd m ds))) = length (stored cd m ds)"
      using codec_stored(2) [OF assms(5), of ds] u16_small [OF that(1)] by simp
    ultimately show ?thesis
      using False assms(1) lies_part [of "f_bytes f" p cd m ds] that(2) size_pos [OF that(1)]
      by (simp add: skip_size_def read_exact_lies [where bs = "to_le 4 k" for k] ret_def length_part) blast
  qed
  obtain q where 1: "skip_size (old_data_size (header v)) (f\<lparr>f_pos := off + 32\<rparr>)
      = (Ok (length (part cd m (old_data v))), f\<lparr>f_pos := q\<rparr>)" "old_data v = [] \<longrightarrow> q = off + 32"
  proof (cases "old_data v = []")
    case True
    then show thesis using w that [of "off + 32"] size_pos [of _ "[]"] by (simp add: skip_size_def ret_def part_def)
  next
    case False
    then show thesis using s [of "old_data_size (header v)" "old_data v" "off + 32"] w l that by auto
  qed
  have "lies (f_bytes f) q (part cd m (new_data v)) \<or> new_data v = []"
    using assms(4) 1(2) l(3) by (auto simp: one_image_def part_def)
  then obtain r where 2: "skip_size (new_data_size (header v)) (f\<lparr>f_pos := q\<rparr>) = (Ok (length (part cd m (new_data v))), f\<lparr>f_pos := r\<rparr>)"
    using s [of "new_data_size (header v)" "new_data v" q] w by auto
  show ?thesis
    using 1(1) 2 l(1) assms(1)
    by (auto simp: read_exact_lies lift_outcome_def length_encoded add.assoc intro: exI [of _ r])
qed

lemma skip_items_done:
  assumes "f_answers f = []" "lies (f_bytes f) off (concat (map (encoded cd m) us))" "\<forall>u\<in>set us. wf_item u \<and> one_image u"
    "codec_ok cd (lm_compression_type m) (lm_compression_level m)"
  shows "\<exists>p. skip_items (length us) off f = (Ok (off + length (concat (map (encoded cd m) us))), f\<lparr>f_pos := p\<rparr>)"
  using assms
proof (induction us arbitrary: off f)
  case Nil
  then show ?case by (auto simp: ret_def intro: exI [of _ "f_pos f"])
next
  case (Cons u us)
  then have l: "lies (f_bytes f) off (encoded cd m u)" "lies (f_bytes f) (off + length (encoded cd m u)) (concat (map (encoded cd m) us))"
    by (auto simp: lies_append)
  obtain p where "skip_items (length (u # us)) off f = skip_items (length us) (off + length (encoded cd m u)) (f\<lparr>f_pos := p\<rparr>)"
    using skip_item_done [of f off cd m u "length us"] l Cons.prems by auto
  then show ?case
    using Cons.IH [of "f\<lparr>f_pos := p\<rparr>" "off + length (encoded cd m u)"] Cons.prems l(2) by (simp add: add.assoc)
qed

text \<open>Reading by number from a log that holds items, as long as only items with one image come before.\<close>

lemma read_by_number:
  assumes "log_holds cd m vs" "codec_ok cd (lm_compression_type m) (lm_compression_level m)" "\<forall>v\<in>set vs. wf_item v"
    "k < length vs" "length vs < 2 ^ 32" "\<forall>j<k. one_image (vs ! j)"
  shows "read_variable_size_log_item cd [] (of_nat k) m = Ok (vs ! k)"
proof -
  let ?c = "concat (map (encoded cd m) vs)"
  let ?f = "\<lparr>f_bytes = f_bytes (lm_file m), f_pos = 0, f_answers = []\<rparr>"
  have split: "vs = take k vs @ vs ! k # drop (Suc k) vs" using assms(4) by (simp add: id_take_nth_drop)
  have "?c \<noteq> []" using assms(4) encoded_ne [of cd m "hd vs"] by (cases vs) auto
  moreover have "take (length ?c) (drop 48 (f_bytes (lm_file m))) = ?c" using assms(1) by (simp add: log_holds_def)
  ultimately have "lies (f_bytes (lm_file m)) 48 ?c"
    by (intro liesI) (auto simp del: concat_eq_Nil_conv intro: ccontr)
  then have l: "lies (f_bytes ?f) 48 (concat (map (encoded cd m) (take k vs)))"
    "lies (f_bytes ?f) (48 + length (concat (map (encoded cd m) (take k vs)))) (encoded cd m (vs ! k))"
    by (subst (asm) split, simp add: lies_append)+
  have k: "unat (of_nat k :: u32) = k" "(of_nat k :: u32) < of_nat (length vs)"
    using assms(4,5) by (simp_all add: unat_of_nat word_less_nat_alt)
  have "\<forall>u\<in>set (take k vs). wf_item u \<and> one_image u"
    using assms(3,4,6) by (simp add: set_take_nth)
  then obtain p where "skip_items (length (take k vs)) 48 ?f = (Ok (48 + length (concat (map (encoded cd m) (take k vs)))), ?f\<lparr>f_pos := p\<rparr>)"
    using skip_items_done [OF _ l(1)] assms(2) by auto
  moreover have "fst (read_item_at cd (lm_compression_type m) (48 + length (concat (map (encoded cd m) (take k vs)))) (?f\<lparr>f_pos := p\<rparr>)) = Ok (vs ! k)"
    using read_item_done [of "?f\<lparr>f_pos := p\<rparr>"] l(2) assms(2,3,4) by simp
  ultimately show ?thesis
    using k assms(1,4) by (simp add: read_variable_size_log_item_def log_holds_def)
qed

section \<open>Opening a log\<close>

lemma new_log:
  "\<exists>m. LogManager_new c now [] [] = Ok m \<and> log_holds cd m [] \<and> f_answers (lm_file m) = [] \<and> \<not> lm_lock m \<and> lm_log_buffer m = []
    \<and> lm_last_checkpoint_time m = now div 1000 \<and> lm_checkpoint_interval_ms m = wc_checkpoint_interval_ms c
    \<and> lm_compression_type m = wc_compression_type c \<and> lm_compression_level m = wc_compression_level c
    \<and> lh_compression_type (lm_header m) = comp_code (wc_compression_type c)
    \<and> (wc_log_prealloc_size c = 0 \<longrightarrow> length (f_bytes (lm_file m)) = 32)
    \<and> lh_magic (lm_header m) = LOG_MAGIC \<and> lh_version (lm_header m) = 1 \<and> lm_skip_block_size m = wc_skip_block_size c"
proof -
  let ?m = "fresh_manager c now \<lparr>f_bytes = [], f_pos = 0, f_answers = []\<rparr>"
  define f where "f = (if wc_log_prealloc_size c > 0 then write_at (wc_log_prealloc_size c - 1) [0] [] else [])"
  have p: "preallocate (wc_log_prealloc_size c) \<lparr>f_bytes = [], f_pos = 0, f_answers = []\<rparr>
      = (Ok (), \<lparr>f_bytes = f, f_pos = 0, f_answers = []\<rparr>)"
    by (simp add: preallocate_def ret_def f_def)
  define h where "h = (lm_header ?m)\<lparr>lh_checksum := header_sum (lm_header ?m)\<rparr>"
  have "LogManager_new c now [] [] = Ok (?m\<lparr>lm_header := h,
      lm_file := \<lparr>f_bytes = write_at 0 (header_bytes h) f, f_pos = 32, f_answers = []\<rparr>\<rparr>)"
    using p by (simp add: LogManager_new_def on_file_def start_log_def fresh_manager_def h_def Let_def)
  then show ?thesis
    by (auto simp: log_holds_def fresh_manager_def h_def f_def write_at_header)
qed


section \<open>A second opening, a checkpoint, and a refused write\<close>

lemma read_first:
  assumes "lies (f_bytes (lm_file m)) 48 (encoded cd m v)" "0 < lh_record_count (lm_header m)" "wf_item v"
    "codec_ok cd (lm_compression_type m) (lm_compression_level m)"
  shows "read_variable_size_log_item cd [] 0 m = Ok v"
  using read_item_done [of "\<lparr>f_bytes = f_bytes (lm_file m), f_pos = 0, f_answers = []\<rparr>" 48 cd m v] assms
  by (simp add: read_variable_size_log_item_def ret_def)

lemma written_lies:
  assumes "lm_offset m = 48"
  shows "lies (f_bytes (lm_file (written cd v m))) 48 (encoded cd m v)"
  using assms write_at_end [of 0 48 "f_bytes (lm_file m)" "encoded cd m v"]
  by (intro liesI) (auto simp: written_def drop_header_write write_at_header write_at_def)

lemma encoded_written [simp]: "encoded cd (written cd v m) = encoded cd m"
  by (rule stored_cong) simp_all

lemma reopen_log:
  assumes "take 32 bs = header_bytes h" "lh_magic h = LOG_MAGIC" "lh_version h = 1"
  shows "\<exists>m. LogManager_new c t [] bs = Ok m \<and> lm_header m = h \<and> lm_offset m = data_start \<and> f_bytes (lm_file m) = bs
    \<and> f_answers (lm_file m) = [] \<and> \<not> lm_lock m \<and> lm_log_buffer m = [] \<and> lm_last_checkpoint_time m = t div 1000
    \<and> lm_checkpoint_interval_ms m = wc_checkpoint_interval_ms c
    \<and> lm_compression_type m = wc_compression_type c \<and> lm_compression_level m = wc_compression_level c"
proof -
  have "length (take 32 bs) = 32" using assms(1) by simp
  then have "32 \<le> length bs" by simp
  then show ?thesis
    using assms
    by (simp add: LogManager_new_def on_file_def start_log_def fresh_manager_def read_checkpoint_def Let_def)
qed

text \<open>
  (C38) Opening a log again loses its items.  The number of items is read from the file but the place for the next one is
  set to the start: the first item written after a second opening is written over the first one of the log.
\<close>

theorem reopened_log_overwritten:
  assumes "quiet t1 m" "lh_magic (lm_header m) = LOG_MAGIC" "lh_version (lm_header m) = 1"
    "codec_ok cd (lm_compression_type m) (lm_compression_level m)" "codec_ok cd (wc_compression_type c) (wc_compression_level c)"
    "unat (lh_record_count (lm_header m)) + 2 < 2 ^ 32" "now div 1000 - t2 div 1000 < wc_checkpoint_interval_ms c"
    "wf_item v" "wf_item u"
  shows "\<exists>m1 m2 m3. write_item cd t1 v m = (Ok (), m1) \<and> LogManager_new c t2 [] (f_bytes (lm_file m1)) = Ok m2
    \<and> lh_record_count (lm_header m2) = lh_record_count (lm_header m) + 1
    \<and> write_item cd now u m2 = (Ok (), m3) \<and> read_variable_size_log_item cd [] 0 m3 = Ok u"
proof -
  let ?m1 = "written cd v m"
  have h: "take 32 (f_bytes (lm_file ?m1)) = header_bytes (next_header (lm_header m))"
    by (simp add: written_def write_at_header)
  obtain m2 where m2: "LogManager_new c t2 [] (f_bytes (lm_file ?m1)) = Ok m2" "lm_header m2 = next_header (lm_header m)"
    "lm_offset m2 = 48" "f_answers (lm_file m2) = []" "\<not> lm_lock m2" "lm_log_buffer m2 = []"
    "lm_last_checkpoint_time m2 = t2 div 1000" "lm_checkpoint_interval_ms m2 = wc_checkpoint_interval_ms c"
    "lm_compression_type m2 = wc_compression_type c" "lm_compression_level m2 = wc_compression_level c"
    using reopen_log [OF h, of c t2] assms(2,3) by (auto simp: next_header_def Let_def)
  have "quiet now m2" using m2 assms(7) by (simp add: quiet_def)
  then have w: "write_item cd now u m2 = (Ok (), written cd u m2)"
    using write_item_done [of now m2 cd u] m2 assms(5,9) by simp
  have "lh_record_count (lm_header (written cd u m2)) = lh_record_count (lm_header m) + 2"
    by (simp add: written_def next_header_def m2(2) Let_def)
  moreover have "unat (lh_record_count (lm_header m) + 2) = unat (lh_record_count (lm_header m)) + 2"
    using assms(6) by (simp add: unat_word_ariths)
  ultimately have "0 < lh_record_count (lm_header (written cd u m2))"
    by (simp add: word_less_nat_alt)
  then have "read_variable_size_log_item cd [] 0 (written cd u m2) = Ok u"
    using read_first [of "written cd u m2" cd u] written_lies [OF m2(3)] m2(9,10) assms(5,9) by simp
  then show ?thesis
    using write_item_done [OF assms(1,4,8)] m2(1,2) w by (auto simp: next_header_def Let_def)
qed


lemma create_checkpoint_done:
  assumes "f_answers (lm_file m) = []" "\<not> lm_lock m"
  shows "\<exists>h c. create_checkpoint now m = (Ok (), m\<lparr>lm_header := h, lm_checkpoint := c, lm_last_checkpoint_time := now div 1000,
      lm_file := \<lparr>f_bytes = write_at 0 (header_bytes h) (write_at 32 (checkpoint_bytes c)
        (write_at (fixed_offset m) (item_bytes (checkpoint_item now)) (f_bytes (lm_file m)))), f_pos = 32, f_answers = []\<rparr>\<rparr>)
    \<and> lh_record_count h = lh_record_count (lm_header m) + 1"
proof -
  obtain f where f: "lm_file m = f" "f_answers f = []" using assms(1) by simp
  have "m\<lparr>lm_lock := True\<rparr>\<lparr>lm_lock := False\<rparr> = m" using assms(2) by (cases m) simp
  then show ?thesis
    using assms f
    by (cases m; cases f)
      (simp add: create_checkpoint_def lm_spin_lock_def lm_spin_unlock_def on_file_def fixed_offset_def count_record_def
        clear_checksum_def write_checkpoint_def ret_def Let_def)
qed

lemma checkpoint_item_bytes: "take 11 (item_bytes (checkpoint_item now)) = to_le 4 7 @ replicate 7 0"
proof -
  have "to_le 2 0 = [0, 0]" "to_le 4 0 = [0, 0, 0, 0]" "to_le 4 7 = [7, 0, 0, 0]" "replicate 7 (0 :: byte) = [0, 0, 0, 0, 0, 0, 0]"
    by code_simp+
  then show ?thesis by (simp add: item_bytes_def checkpoint_item_def Let_def)
qed

lemma drop_head_writes:
  assumes "48 \<le> n"
  shows "drop n (write_at 0 (header_bytes h) (write_at 32 (checkpoint_bytes c) fs)) = drop n fs"
  using assms by (auto simp: write_at_header write_at_def)

lemma xor_zeros: "xor_bytes (replicate n 0) c = c"
  by (induction n) (simp_all add: xor_bytes_def)

text \<open>The bytes of the first item after a checkpoint: its header as before, and the checkpoint in place of its data.\<close>

lemma checkpoint_over_first:
  assumes "lies fs 48 (item_bytes i)"
  shows "lies (write_at 0 (header_bytes h) (write_at 32 (checkpoint_bytes c) (write_at 80 (item_bytes (checkpoint_item now)) fs)))
    48 (item_bytes i @ to_le 4 7 @ replicate 7 0)"
proof (rule liesI)
  let ?ck = "item_bytes (checkpoint_item now)" and ?z = "to_le 4 7 @ replicate 7 (0 :: byte)"
  obtain a r where fs: "fs = a @ item_bytes i @ r" "length a = 48" using assms by (auto simp: lies_def)
  have ck: "?ck = ?z @ drop 11 ?ck" using checkpoint_item_bytes [of now] by (metis append_take_drop_id)
  have "drop 48 (write_at 80 ?ck fs) = item_bytes i @ ?ck @ drop 32 r"
    using fs by (simp add: write_at_def)
  then show "take (length (item_bytes i @ ?z)) (drop 48 (write_at 0 (header_bytes h) (write_at 32 (checkpoint_bytes c) (write_at 80 ?ck fs))))
      = item_bytes i @ ?z"
    using drop_head_writes [of 48 h c "write_at 80 ?ck fs"] by (simp add: take_add checkpoint_item_bytes)
  show "48 \<le> length (write_at 0 (header_bytes h) (write_at 32 (checkpoint_bytes c) (write_at 80 ?ck fs)))"
    using fs by (simp add: write_at_header) (simp add: write_at_def)
qed

text \<open>
  Closing a log damages it.  The last checkpoint goes to the place where items without data would end, into the data of the
  first item: a log with one insert, which could be read before it was closed, gives a checksum error or seven zero
  bytes afterwards.
\<close>

theorem close_damages_data:
  assumes "LogManager_new c t0 [] [] = Ok m0" "wc_compression_type c = CompNone"
    "now div 1000 - t0 div 1000 < wc_checkpoint_interval_ms c" "wf_item v" "old_data v = []" "new_data v \<noteq> []"
  shows "\<exists>m1 m2. write_item cd now v m0 = (Ok (), m1) \<and> read_variable_size_log_item cd [] 0 m1 = Ok v
    \<and> lm_close t m1 = (Ok (), m2)
    \<and> read_variable_size_log_item cd [] 0 m2 =
        (if xor_bytes (new_data v) 0 = 0 then Ok (v\<lparr>new_data := replicate 7 0\<rparr>) else Err LogChecksumError)"
proof -
  obtain m where m: "m0 = m" "log_holds cd m []" "f_answers (lm_file m) = []" "\<not> lm_lock m" "lm_log_buffer m = []"
    "lm_last_checkpoint_time m = t0 div 1000" "lm_checkpoint_interval_ms m = wc_checkpoint_interval_ms c"
    "lm_compression_type m = CompNone"
    using new_log [of c t0 cd] assms(1,2) by auto
  let ?m1 = "written cd v m"
  have q: "quiet now m" and o: "lm_offset m = 48" and n: "lh_record_count (lm_header ?m1) = 1"
    using m assms(3) by (simp_all add: quiet_def log_holds_def written_def next_header_def Let_def)
  have w: "write_item cd now v m = (Ok (), ?m1)"
    using write_item_done [OF q] assms(4) m(8) by simp
  have l: "lies (f_bytes (lm_file ?m1)) 48 (encoded cd m v)" by (rule written_lies [OF o])
  have fo: "fixed_offset ?m1 = 80" using n by (simp add: fixed_offset_def)
  have m1: "f_answers (lm_file ?m1) = []" "\<not> lm_lock ?m1" "lm_log_buffer ?m1 = []" "lm_compression_type ?m1 = CompNone"
    using m by (simp_all add: written_def)
  obtain h c' where k: "create_checkpoint t ?m1 = (Ok (), ?m1\<lparr>lm_header := h, lm_checkpoint := c', lm_last_checkpoint_time := t div 1000,
      lm_file := \<lparr>f_bytes = write_at 0 (header_bytes h) (write_at 32 (checkpoint_bytes c')
        (write_at 80 (item_bytes (checkpoint_item t)) (f_bytes (lm_file ?m1)))), f_pos = 32, f_answers = []\<rparr>\<rparr>)"
    "lh_record_count h = 2"
    using create_checkpoint_done [OF m1(1,2), of t] n fo by auto
  have "lies (f_bytes (lm_file ?m1)) 48 (item_bytes (header v))" using l by (simp add: encoded_def lies_append)
  note z = checkpoint_over_first [OF this, of h c' t, unfolded lies_append, simplified]
  have sz: "0 < new_data_size (header v)" "old_data_size (header v) = 0"
    using assms(4-6) size_pos [of "new_data_size (header v)" "new_data v"] word_size_zero
    by (auto simp: wf_item_def)
  have x: "checksum (header v) = calculate_log_item_checksum (header v) \<longleftrightarrow> xor_bytes (new_data v) 0 = 0"
    using assms(4,5) xor_left_cancel_word [of "calculate_log_item_checksum (header v)" "xor_bytes (new_data v) 0" 0]
    by (simp add: wf_item_def calculate_variable_size_log_item_checksum_def xor_bytes_start [of "new_data v" "calculate_log_item_checksum (header v)"]
        xor_bytes_def [of "[]"])
  have "v\<lparr>new_data := replicate 7 0\<rparr> = \<lparr>header = header v, old_data = [], new_data = replicate 7 0\<rparr>"
    using assms(5) by (cases v) simp
  then have "read_variable_size_log_item cd [] 0 (snd (create_checkpoint t ?m1)) =
        (if xor_bytes (new_data v) 0 = 0 then Ok (v\<lparr>new_data := replicate 7 0\<rparr>) else Err LogChecksumError)"
    using k z sz m1(4) x
    by (simp add: read_variable_size_log_item_def ret_def read_item_at_def read_exact_lies [of _ "item_bytes (header v)"]
        read_exact_lies [of _ "to_le 4 7"] read_exact_lies [of _ "replicate 7 0"] lift_outcome_def read_data_def raise_def
        decompress_wal_data_def calculate_variable_size_log_item_checksum_def xor_zeros xor_bytes_def [of "[]"] Let_def)
  moreover have "lm_close t ?m1 = create_checkpoint t ?m1"
    using m1(3) by (simp add: lm_close_def flush_buffer_def)
  moreover have "read_variable_size_log_item cd [] 0 ?m1 = Ok v"
    using read_first [of ?m1 cd v] l n assms(4) m1(4) by simp
  ultimately show ?thesis using w m(1) k(1) by auto
qed

section \<open>Recovery\<close>

lemma scan_stop:
  assumes "f_answers f = []" "length (f_bytes f) < off + 32"
  shows "fst (scan_item cd m off f) = ScanStop"
  using assms by (simp add: scan_item_def scan_header_def)

text \<open>Without compression the scan takes the size in front of the data for the data.\<close>

lemma scan_misses_insert:
  assumes "f_answers f = []" "lies (f_bytes f) off (item_bytes (header v) @ to_le 4 (length (new_data v)) @ new_data v)"
    "wf_item v" "old_data v = []" "new_data v \<noteq> []" "lh_compression_type (lm_header m) = 0"
    "xor_bytes (take (length (new_data v)) (to_le 4 (length (new_data v)) @ new_data v)) 0 \<noteq> xor_bytes (new_data v) 0"
  shows "\<exists>p. scan_item cd m off f = (ScanBad, f\<lparr>f_pos := p\<rparr>)"
proof -
  let ?n = "length (new_data v)" and ?r = "to_le 4 (length (new_data v)) @ new_data v"
  note w = assms(3) [unfolded wf_item_def]
  have "lies (f_bytes f) off (item_bytes (header v))" "lies (f_bytes f) (off + 32) ?r"
    using assms(2) lies_append [of "f_bytes f" off "item_bytes (header v)" ?r] by simp_all
  note l = this(1) lies_take [OF this(2), of ?n]
  have sz: "new_data_size (header v) \<noteq> 0" "old_data_size (header v) = 0"
    using w assms(4,5) word_size_zero by auto
  have "checksum (header v) \<noteq> calculate_variable_size_log_item_checksum \<lparr>header = header v, old_data = [], new_data = take ?n ?r\<rparr>"
    using w assms(4,7)
    by (simp add: calculate_variable_size_log_item_checksum_def xor_bytes_def [of "[]"] xor_bytes_start [of _ "calculate_log_item_checksum (header v)"])
  then show ?thesis
    using l assms(1,6) sz w
    by (simp add: scan_item_def scan_header_def comp_of_code_def scan_data_def scan_read_def read_exact_lies [of _ "item_bytes (header v)"]
        read_exact_lies [of _ "take ?n ?r"] ret_def Let_def) blast
qed


section \<open>Termination of the scan\<close>

text \<open>Reading keeps the bytes of the file, and a file that obeys goes on obeying.\<close>

definition keeps :: "(FileState \<Rightarrow> 'r \<times> FileState) \<Rightarrow> bool" where
  "keeps p \<longleftrightarrow> (\<forall>g. f_bytes (snd (p g)) = f_bytes g \<and> (f_answers g = [] \<longrightarrow> f_answers (snd (p g)) = []))"

lemma keepsD: "keeps p \<Longrightarrow> p g = (r, g') \<Longrightarrow> f_bytes g' = f_bytes g \<and> (f_answers g = [] \<longrightarrow> f_answers g' = [])"
  unfolding keeps_def by (metis snd_conv)

lemma keepsI:
  "(\<And>g r g'. p g = (r, g') \<Longrightarrow> f_bytes g' = f_bytes g \<and> (f_answers g = [] \<longrightarrow> f_answers g' = [])) \<Longrightarrow> keeps p"
  unfolding keeps_def by (metis prod.collapse)

lemma keeps_seek: "keeps (file_seek off)"
  by (auto simp: keeps_def file_seek_def next_answer_def split: list.splits io_answer.splits)

lemma keeps_seqm: "keeps p \<Longrightarrow> (\<And>x. keeps (k x)) \<Longrightarrow> keeps (seqm p k)"
proof (rule keepsI)
  fix g r g'
  assume a: "keeps p" "\<And>x. keeps (k x)" "seqm p k g = (r, g')"
  obtain s g1 where p: "p g = (s, g1)" by fastforce
  show "f_bytes g' = f_bytes g \<and> (f_answers g = [] \<longrightarrow> f_answers g' = [])"
    using a(3) keepsD [OF a(1) p] keepsD [OF a(2)] p by (cases s) (auto simp: seqm_def)
qed

lemma keeps_pure: "keeps (ret x)" "keeps (raise e)" "keeps (lift_outcome r)"
  by (simp_all add: keeps_def ret_def raise_def lift_outcome_def)

lemma keeps_read: "keeps (read_exact n)"
proof -
  have "keeps (file_read n)"
    by (auto simp: keeps_def file_read_def next_answer_def Let_def split: list.splits io_answer.splits)
  then show ?thesis unfolding read_exact_def by (rule keeps_seqm) (simp add: keeps_pure)
qed

lemma keeps_scan_data: "keeps (scan_data cd ct sz off)"
proof -
  have "keeps (scan_read cd ct sz off)"
    unfolding scan_read_def by (intro keeps_seqm keeps_seek) (simp add: keeps_seqm keeps_read keeps_pure)
  note k = keepsD [OF this]
  show ?thesis by (rule keepsI) (auto simp: scan_data_def split: prod.splits outcome.splits if_splits dest!: k)
qed

lemma keeps_scan_item: "keeps (scan_item cd m off)"
proof -
  have "keeps (scan_header off)"
    unfolding scan_header_def by (intro keeps_seqm keeps_seek keeps_read)
  note k = keepsD [OF this] keepsD [OF keeps_scan_data]
  show ?thesis
    by (rule keepsI) (auto simp: scan_item_def Let_def split: prod.splits outcome.splits option.splits if_splits dest!: k)
qed

lemma scan_loop_returns:
  assumes "0 < lm_skip_block_size m" "length (f_bytes f) - off < n"
  shows "\<exists>r. scan_loop n cd m off bad f = Some r"
  using assms(2)
proof (induction n arbitrary: off bad f)
  case (Suc n)
  obtain s f' where s: "scan_item cd m off f = (s, f')" by fastforce
  then have "f_bytes f' = f_bytes f" using keepsD [OF keeps_scan_item] by blast
  then show ?case
    using s Suc.IH [of f'] Suc.prems assms(1) by (cases s) (auto simp: Let_def)
qed simp


section \<open>Instances\<close>

definition demo_wal :: WALConfig where
  "demo_wal = \<lparr>wc_log_path = ''wal'', wc_log_mode = LogSync, wc_checkpoint_interval_ms = 60000, wc_log_file_size_limit = 2097152,
     wc_log_prealloc_size = 0, wc_log_segment_size = 1048576, wc_retained_checkpoints = 3, wc_max_consecutive_invalid = 100,
     wc_skip_threshold = 10, wc_skip_block_size = 4096, wc_max_skip_attempts = 10, wc_compression_type = CompNone,
     wc_compression_level = 1\<rparr>"

definition no_codec :: codec where
  "no_codec = \<lparr>lz4_compress = None, lz4_decompress = None, zstd_compress = None, zstd_decompress = None\<rparr>"

definition demo_item :: VariableSizeLogItem where
  "demo_item = begin_variable_size_log_item 7 1 Insert 0 0 None (Some [5, 0, 0, 0, 65, 66])"

lemma demo_item_wf: "wf_item demo_item" "old_data demo_item = []" "new_data demo_item = [5, 0, 0, 0, 65, 66]"
  unfolding demo_item_def by (rule begin_item_wf) (simp_all add: data_vec_def begin_variable_size_log_item_def Let_def)

definition demo_log :: LogManager where
  "demo_log = (case LogManager_new demo_wal 5 [] [] of Ok m \<Rightarrow> m | _ \<Rightarrow> fresh_manager demo_wal 5 \<lparr>f_bytes = [], f_pos = 0, f_answers = []\<rparr>)"

lemma demo_log_new: "LogManager_new demo_wal 5 [] [] = Ok demo_log"
  using new_log [of demo_wal 5 no_codec] by (auto simp: demo_log_def)

lemma demo_log_quiet:
  "quiet 7 demo_log" "lm_compression_type demo_log = CompNone" "log_holds no_codec demo_log []"
  "lh_magic (lm_header demo_log) = LOG_MAGIC" "lh_version (lm_header demo_log) = 1" "length (f_bytes (lm_file demo_log)) = 32"
  "lm_skip_block_size demo_log = 4096" "lh_compression_type (lm_header demo_log) = 0"
  using new_log [of demo_wal 5 no_codec] demo_log_new by (auto simp: quiet_def demo_wal_def comp_code_def)

lemma demo_wal_simps [simp]:
  "wc_compression_type demo_wal = CompNone" "wc_checkpoint_interval_ms demo_wal = 60000" "wc_log_prealloc_size demo_wal = 0"
  "wc_skip_threshold demo_wal = 10"
  by (simp_all add: demo_wal_def)

definition demo_commit :: "(LogManager \<times> PubSub option) TransactionManager" where
  "demo_commit = TransactionManager_new\<lparr>current_tx := Some (Transaction_default\<lparr>log_items := [demo_item, demo_item], max_log_items := 2,
     log_item_count := 2\<rparr>), log_manager := Some (demo_log, None)\<rparr>"


theorem reopened_log_overwritten_witness:
  "\<exists>m1 m2 m3. write_item no_codec 7 demo_item demo_log = (Ok (), m1) \<and> LogManager_new demo_wal 9 [] (f_bytes (lm_file m1)) = Ok m2
    \<and> lh_record_count (lm_header m2) = 1 \<and> write_item no_codec 11 (begin_variable_size_log_item 8 2 Delete 0 3 (Some [1]) None) m2 = (Ok (), m3)
    \<and> read_variable_size_log_item no_codec [] 0 m3 = Ok (begin_variable_size_log_item 8 2 Delete 0 3 (Some [1]) None)"
  using reopened_log_overwritten [of 7 demo_log no_codec demo_wal 11 9 demo_item "begin_variable_size_log_item 8 2 Delete 0 3 (Some [1]) None"]
    demo_log_quiet demo_item_wf(1) begin_item_wf [of "Some [1]" None]
  by (simp add: log_holds_def data_vec_def)


theorem close_damages_data_witness:
  "\<exists>m1 m2. write_item no_codec 7 demo_item demo_log = (Ok (), m1) \<and> read_variable_size_log_item no_codec [] 0 m1 = Ok demo_item
    \<and> lm_close 9 m1 = (Ok (), m2) \<and> read_variable_size_log_item no_codec [] 0 m2 = Err LogChecksumError"
proof -
  have "xor_bytes (new_data demo_item) 0 \<noteq> 0" unfolding demo_item_wf(3) by code_simp
  then show ?thesis
    using close_damages_data [OF demo_log_new, of 7 demo_item no_codec 9] demo_item_wf by simp
qed


definition demo_stuck :: LogManager where
  "demo_stuck = (written no_codec demo_item demo_log)\<lparr>lm_skip_block_size := 0, lm_skip_threshold := 1, lm_max_skip_attempts := 1\<rparr>"

lemma demo_stuck_bad:
  "fst (scan_item no_codec demo_stuck 48 \<lparr>f_bytes = f_bytes (lm_file demo_stuck), f_pos = p, f_answers = []\<rparr>) = ScanBad"
proof -
  have e: "encoded no_codec demo_log demo_item = item_bytes (header demo_item) @ to_le 4 (length (new_data demo_item)) @ new_data demo_item"
    using demo_item_wf demo_log_quiet(2) by (simp add: encoded_def part_def stored_def compress_wal_data_def)
  have "lies (f_bytes (lm_file demo_stuck)) 48 (encoded no_codec demo_log demo_item)"
    using written_lies [of demo_log no_codec demo_item] demo_log_quiet(3) by (simp add: log_holds_def demo_stuck_def)
  moreover have "xor_bytes (take (length (new_data demo_item)) (to_le 4 (length (new_data demo_item)) @ new_data demo_item)) 0
      \<noteq> xor_bytes (new_data demo_item) 0"
    unfolding demo_item_wf(3) by code_simp
  moreover have "lh_compression_type (lm_header demo_stuck) = 0"
    using demo_log_quiet(8) by (simp add: demo_stuck_def written_def next_header_def Let_def)
  ultimately show ?thesis
    using scan_misses_insert [of "\<lparr>f_bytes = f_bytes (lm_file demo_stuck), f_pos = p, f_answers = []\<rparr>" 48 demo_item demo_stuck no_codec]
      demo_item_wf e by auto
qed


end
