(* ===== verification/Snapshot.thy ===== *)
theory Snapshot
  imports Wal Utf8
begin

text \<open>
  Snapshots of a database in a file, from \<^verbatim>\<open>src/src/lib.rs\<close>: \<open>save_snapshot\<close>, \<open>save_incremental_snapshot\<close> and
  \<open>restore_snapshot\<close>.  A file is opened, written or read piece by piece, and left at the first
  call that fails; what was changed in the database before that stays changed.
\<close>

section \<open>Writing\<close>

text \<open>The parts of \<open>RemDb\<close> that snapshots touch; secondary indexes are only made room for.\<close>

record 'si SnapDb =
  sd_db :: Database
  sd_secondary :: "'si option list"
  sd_version :: u32

definition SNAPSHOT_MAGIC :: u32 where "SNAPSHOT_MAGIC = 0x52454D44"
definition SNAPSHOT_VERSION :: u32 where "SNAPSHOT_VERSION = 1"

definition write_exact :: "bytes \<Rightarrow> (FileState, unit) prog" where
  "write_exact bs = seqm (file_write bs) (\<lambda>n. if n \<noteq> length bs then raise FileIoError else ret ())"

text \<open>One call of \<open>file_write\<close> for each piece.\<close>

fun write_pieces :: "bytes list \<Rightarrow> (FileState, unit) prog" where
  "write_pieces [] = ret ()"
| "write_pieces (c # cs) = seqm (write_exact c) (\<lambda>_. write_pieces cs)"

definition header_pieces :: "u8 \<Rightarrow> u32 \<Rightarrow> nat \<Rightarrow> bytes list" where
  "header_pieces ty v n =
     [to_le 4 (unat SNAPSHOT_MAGIC), to_le 4 (unat SNAPSHOT_VERSION), [ty], to_le 4 (unat v), to_le 4 n]"

definition field_flags :: "FieldDef \<Rightarrow> u8" where
  "field_flags f = of_bool (f_primary_key f) OR push_bit 1 (of_bool (not_null f)) OR push_bit 2 (of_bool (unique f))
     OR push_bit 3 (of_bool (auto_increment f))"

definition field_pieces :: "FieldDef \<Rightarrow> bytes list" where
  "field_pieces f =
     [[of_nat (length (f_name f))], str_bytes (f_name f), [data_type_code (data_type f)], to_le 4 (f_size f)]
     @ (case string_length f of None \<Rightarrow> [[0]] | Some n \<Rightarrow> [[1], to_le 4 n])
     @ [[field_flags f], [0]]"

definition index_columns :: "TableDef \<Rightarrow> nat list" where
  "index_columns d = (case secondary_index d of None \<Rightarrow> [] | Some cs \<Rightarrow> cs)"

definition fields_size :: "TableDef \<Rightarrow> nat" where
  "fields_size d = sum_list (map f_size (t_fields d))"

definition record_pieces :: "MemoryTable \<Rightarrow> nat \<Rightarrow> bytes list" where
  "record_pieces t i = [to_le 4 i, take (fields_size (tdef t)) (data t ! i)]"

definition used_list :: "MemoryTable \<Rightarrow> nat list" where
  "used_list t = filter (\<lambda>i. slot_status t i = Used) [0..<cap t]"

definition table_pieces :: "nat \<Rightarrow> MemoryTable \<Rightarrow> bytes list" where
  "table_pieces k t =
     (let d = tdef t in
      [to_le 4 k, [of_nat (length (t_name d))], str_bytes (t_name d), [of_nat (length (t_fields d))],
       [of_nat (length (primary_key d))], [of_nat (length (index_columns d))],
       [index_type_code (secondary_index_type d)], to_le 4 (cap t)]
      @ concat (map field_pieces (t_fields d)) @ map (\<lambda>c. [of_nat c]) (primary_key d)
      @ map (\<lambda>c. [of_nat c]) (index_columns d) @ [to_le 4 (record_count t)]
      @ concat (map (record_pieces t) (used_list t)))"

text \<open>A record whose fields are larger than its slot would be read past the slot.\<close>

definition reads_past :: "MemoryTable \<Rightarrow> bool" where
  "reads_past t = (fields_size (tdef t) > record_size t \<and> used_list t \<noteq> [])"

fun save_tables :: "u32 \<Rightarrow> nat \<Rightarrow> MemoryTable option list \<Rightarrow> FileState \<Rightarrow> unit outcome \<times> MemoryTable option list \<times> FileState" where
  "save_tables v k [] f = (Ok (), [], f)"
| "save_tables v k (None # ts) f = (case save_tables v (k + 1) ts f of (r, ts', f') \<Rightarrow> (r, None # ts', f'))"
| "save_tables v k (Some t # ts) f =
     (let t' = t\<lparr>t_snapshot_version := v\<rparr> in
      if reads_past t' then (Fault, Some t' # ts, f)
      else
        (case write_pieces (table_pieces k t') f of
           (Ok _, f1) \<Rightarrow> (case save_tables v (k + 1) ts f1 of (r, ts', f') \<Rightarrow> (r, Some t' # ts', f'))
         | (r, f1) \<Rightarrow> (r, Some t' # ts, f1)))"

definition table_total :: "MemoryTable option list \<Rightarrow> nat" where
  "table_total ts = length (filter (\<lambda>t. t \<noteq> None) ts)"

text \<open>The file is emptied when it is opened; the result has its bytes.\<close>

definition save_snapshot :: "io_answer list \<Rightarrow> 'si SnapDb \<Rightarrow> unit outcome \<times> bytes \<times> 'si SnapDb" where
  "save_snapshot as s =
     (case file_open as [] of
        Ok f \<Rightarrow>
          let v = sd_version s + 1; s1 = s\<lparr>sd_version := v\<rparr> in
          (case write_pieces (header_pieces 0 v (table_total (tables (sd_db s)))) f of
             (Ok _, f1) \<Rightarrow>
               (case save_tables v 0 (tables (sd_db s)) f1 of
                  (r, ts, f2) \<Rightarrow> (r, f_bytes f2, s1\<lparr>sd_db := (sd_db s)\<lparr>tables := ts\<rparr>\<rparr>))
           | (r, f1) \<Rightarrow> (r, f_bytes f1, s1))
      | r \<Rightarrow> (Err FileIoError, [], s))"

section \<open>Incremental snapshots\<close>

definition changed_list :: "MemoryTable \<Rightarrow> nat list" where
  "changed_list t =
     filter (\<lambda>i. slot_status t i = Used \<and> version (status_array t ! i) > ucast (t_snapshot_version t)) [0..<cap t]"

definition change_pieces :: "nat \<Rightarrow> MemoryTable \<Rightarrow> bytes list" where
  "change_pieces k t =
     [to_le 4 k, to_le 4 (length (changed_list t))] @ concat (map (record_pieces t) (changed_list t))"

fun save_changes :: "u32 \<Rightarrow> nat \<Rightarrow> MemoryTable option list \<Rightarrow> FileState \<Rightarrow> unit outcome \<times> MemoryTable option list \<times> FileState" where
  "save_changes v k [] f = (Ok (), [], f)"
| "save_changes v k (None # ts) f = (case save_changes v (k + 1) ts f of (r, ts', f') \<Rightarrow> (r, None # ts', f'))"
| "save_changes v k (Some t # ts) f =
     (if reads_past t \<and> changed_list t \<noteq> [] then (Fault, Some t # ts, f)
      else
        (case write_pieces (change_pieces k t) f of
           (Ok _, f1) \<Rightarrow>
             (case save_changes v (k + 1) ts f1 of (r, ts', f') \<Rightarrow> (r, Some (t\<lparr>t_snapshot_version := v\<rparr>) # ts', f'))
         | (r, f1) \<Rightarrow> (r, Some t # ts, f1)))"

definition save_incremental_snapshot :: "io_answer list \<Rightarrow> 'si SnapDb \<Rightarrow> unit outcome \<times> bytes \<times> 'si SnapDb" where
  "save_incremental_snapshot as s =
     (case file_open as [] of
        Ok f \<Rightarrow>
          (case write_pieces (header_pieces 1 (sd_version s) (length (tables (sd_db s)))) f of
             (Ok _, f1) \<Rightarrow>
               (case save_changes (sd_version s) 0 (tables (sd_db s)) f1 of
                  (r, ts, f2) \<Rightarrow> (r, f_bytes f2, s\<lparr>sd_db := (sd_db s)\<lparr>tables := ts\<rparr>\<rparr>))
           | (r, f1) \<Rightarrow> (r, f_bytes f1, s))
      | r \<Rightarrow> (Err FileIoError, [], s))"

section \<open>Restoring\<close>

definition read_byte :: "(FileState, u8) prog" where
  "read_byte = seqm (read_exact 1) (\<lambda>bs. ret (bs ! 0))"

definition read_u32_le :: "(FileState, nat) prog" where
  "read_u32_le = seqm (read_exact 4) (\<lambda>bs. ret (le_nat bs))"

definition lossy_name :: "bytes \<Rightarrow> string" where
  "lossy_name bs = bytes_str (encode_text (utf8_lossy bs))"

definition read_name :: "(FileState, string) prog" where
  "read_name = seqm read_byte (\<lambda>n. seqm (read_exact (unat n)) (\<lambda>bs. ret (lossy_name bs)))"

definition read_field :: "(FileState, FieldDef) prog" where
  "read_field =
     seqm read_name (\<lambda>nm. seqm read_byte (\<lambda>ty. seqm read_u32_le (\<lambda>sz. seqm read_byte (\<lambda>has.
     seqm (if has = 1 then seqm read_u32_le (\<lambda>n. ret (Some n)) else ret None) (\<lambda>sl.
     seqm read_byte (\<lambda>fl. seqm read_byte (\<lambda>_.
       ret \<lparr>f_name = nm, data_type = data_type_from ty, f_size = sz, string_length = sl, offset = 0,
            f_primary_key = fl AND 1 \<noteq> 0, not_null = fl AND 2 \<noteq> 0, unique = fl AND 4 \<noteq> 0, auto_increment = fl AND 8 \<noteq> 0,
            default_value = None, vector_metadata = None, json_metadata = None\<rparr>)))))))"

fun repeat_read :: "nat \<Rightarrow> (FileState, 'a) prog \<Rightarrow> (FileState, 'a list) prog" where
  "repeat_read 0 p = ret []"
| "repeat_read (Suc n) p = seqm p (\<lambda>x. seqm (repeat_read n p) (\<lambda>xs. ret (x # xs)))"

text \<open>The definition of a table behind its number; the fields get offset 0 and the record size is 0.\<close>

definition read_table_def :: "nat \<Rightarrow> (FileState, TableDef) prog" where
  "read_table_def k =
     seqm read_name (\<lambda>nm. seqm read_byte (\<lambda>fc. seqm read_byte (\<lambda>pc. seqm read_byte (\<lambda>sc. seqm read_byte (\<lambda>st.
     seqm read_u32_le (\<lambda>mx.
     seqm (repeat_read (unat fc) read_field) (\<lambda>fs. seqm (repeat_read (unat pc) read_byte) (\<lambda>pks.
     seqm (repeat_read (unat sc) read_byte) (\<lambda>scs.
       ret \<lparr>t_id = of_nat k, t_name = nm, t_fields = fs, primary_key = map unat pks,
            secondary_index = (if sc > 0 then Some (map unat scs) else None),
            secondary_index_type = index_type_from st, def_record_size = 0, max_records = mx, t_version = 0,
            created_at = 0, updated_at = 0\<rparr>)))))))))"

definition resize_none :: "nat \<Rightarrow> 'a option list \<Rightarrow> 'a option list" where
  "resize_none n xs = take n xs @ replicate (n - length xs) None"

definition make_room :: "nat \<Rightarrow> 'si SnapDb \<Rightarrow> 'si SnapDb" where
  "make_room k s =
     (if k \<ge> length (tables (sd_db s)) then
        s\<lparr>sd_db := (sd_db s)\<lparr>tables := resize_none (k + 1) (tables (sd_db s)),
                            primary_indices := resize_none (k + 1) (primary_indices (sd_db s))\<rparr>,
          sd_secondary := resize_none (k + 1) (sd_secondary s)\<rparr>
      else s)"

definition put_snap_table :: "nat \<Rightarrow> MemoryTable \<Rightarrow> 'si SnapDb \<Rightarrow> 'si SnapDb" where
  "put_snap_table k t s = s\<lparr>sd_db := put_table k t (sd_db s)\<rparr>"

text \<open>The table to restore into, made from the definition if there is none.\<close>

definition table_for :: "(nat \<Rightarrow> table_memory) \<Rightarrow> nat \<Rightarrow> TableDef \<Rightarrow> 'si SnapDb \<Rightarrow> MemoryTable outcome \<times> 'si SnapDb" where
  "table_for mems k d s =
     (case tables (sd_db s) ! k of
        Some t \<Rightarrow> (Ok t, s)
      | None \<Rightarrow>
          (case mems k of (md, mh, mf) \<Rightarrow>
             (case new_with_options md mh mf d False of
                Ok t \<Rightarrow> (Ok t, put_snap_table k t s)
              | Err _ \<Rightarrow> (Err OutOfMemory, s)
              | Fault \<Rightarrow> (Fault, s))))"

text \<open>A full snapshot clears the table first: every slot is freed and zeroed, the free stack stays.\<close>

definition reset_table :: "MemoryTable \<Rightarrow> MemoryTable" where
  "reset_table t =
     t\<lparr>status_array := map (\<lambda>h. h\<lparr>status := Free, version := version h + 1\<rparr>) (status_array t),
       data := map (\<lambda>rd. replicate (def_record_size (tdef t)) 0 @ drop (def_record_size (tdef t)) rd) (data t),
       record_count := 0\<rparr>"

definition snap_max_pk :: "nat \<Rightarrow> MemoryTable \<Rightarrow> MemoryTable outcome" where
  "snap_max_pk i t =
     (if length (primary_key (tdef t)) = 1 then
        if primary_key (tdef t) ! 0 \<ge> length (t_fields (tdef t)) then Fault
        else let v = pk_value (t_fields (tdef t) ! (primary_key (tdef t) ! 0)) (data t ! i) in
          Ok (if v > max_pk t then t\<lparr>max_pk := v\<rparr> else t)
      else Ok t)"

text \<open>The bytes of a record are read into its slot, which a short read leaves half written.\<close>

definition restore_record :: "MemoryTable \<Rightarrow> FileState \<Rightarrow> (unit outcome \<times> MemoryTable) \<times> FileState" where
  "restore_record t f =
     (case read_u32_le f of
        (Ok i, f1) \<Rightarrow>
          if i \<ge> cap t then ((Err SnapshotFormatError, t), f1)
          else if fields_size (tdef t) > record_size t then ((Fault, t), f1)
          else
            (case file_read (fields_size (tdef t)) f1 of
               (Ok bs, f2) \<Rightarrow>
                 let t1 = t\<lparr>data := (data t)[i := bs @ drop (length bs) (data t ! i)]\<rparr> in
                 if length bs \<noteq> fields_size (tdef t) then ((Err FileIoError, t1), f2)
                 else
                   let t2 = (if slot_status t i \<noteq> Used then t1\<lparr>record_count := record_count t + 1\<rparr> else t1);
                       t3 = set_status Used i t2 in
                   (case snap_max_pk i t3 of
                      Ok t4 \<Rightarrow> ((Ok (), t4), f2) | Err e \<Rightarrow> ((Err e, t3), f2) | Fault \<Rightarrow> ((Fault, t3), f2))
             | (Err e, f2) \<Rightarrow> ((Err e, t), f2)
             | (Fault, f2) \<Rightarrow> ((Fault, t), f2))
      | (Err e, f1) \<Rightarrow> ((Err e, t), f1)
      | (Fault, f1) \<Rightarrow> ((Fault, t), f1))"

fun restore_records :: "nat \<Rightarrow> MemoryTable \<Rightarrow> FileState \<Rightarrow> (unit outcome \<times> MemoryTable) \<times> FileState" where
  "restore_records 0 t f = ((Ok (), t), f)"
| "restore_records (Suc n) t f =
     (case restore_record t f of
        ((Ok _, t1), f1) \<Rightarrow> restore_records n t1 f1
      | r \<Rightarrow> r)"

definition restore_table :: "(nat \<Rightarrow> table_memory) \<Rightarrow> u8 \<Rightarrow> ('si SnapDb \<times> FileState, unit) prog" where
  "restore_table mems ty sf =
     (case read_u32_le (snd sf) of
        (Ok k, f1) \<Rightarrow>
          let s1 = make_room k (fst sf) in
          (case read_table_def k f1 of
             (Ok d, f2) \<Rightarrow>
               (case table_for mems k d s1 of
                  (Ok t, s2) \<Rightarrow>
                    (case read_u32_le f2 of
                       (Ok n, f3) \<Rightarrow>
                         if ty = 0 \<and> def_record_size (tdef t) > record_size t then (Fault, s2, f3)
                         else
                           (case restore_records n (if ty = 0 then reset_table t else t) f3 of
                              ((r, t'), f4) \<Rightarrow> (r, put_snap_table k t' s2, f4))
                     | (Err e, f3) \<Rightarrow> (Err e, s2, f3)
                     | (Fault, f3) \<Rightarrow> (Fault, s2, f3))
                | (Err e, s2) \<Rightarrow> (Err e, s2, f2)
                | (Fault, s2) \<Rightarrow> (Fault, s2, f2))
           | (Err e, f2) \<Rightarrow> (Err e, s1, f2)
           | (Fault, f2) \<Rightarrow> (Fault, s1, f2))
      | (Err e, f1) \<Rightarrow> (Err e, fst sf, f1)
      | (Fault, f1) \<Rightarrow> (Fault, fst sf, f1))"

fun restore_tables :: "(nat \<Rightarrow> table_memory) \<Rightarrow> u8 \<Rightarrow> nat \<Rightarrow> ('si SnapDb \<times> FileState, unit) prog" where
  "restore_tables mems ty 0 = ret ()"
| "restore_tables mems ty (Suc n) = seqm (restore_table mems ty) (\<lambda>_. restore_tables mems ty n)"

definition read_snap_header :: "(FileState, u8 \<times> u32 \<times> nat) prog" where
  "read_snap_header =
     seqm read_u32_le (\<lambda>mg. if mg \<noteq> unat SNAPSHOT_MAGIC then raise SnapshotFormatError else
     seqm read_u32_le (\<lambda>vn. if vn \<noteq> unat SNAPSHOT_VERSION then raise SnapshotFormatError else
     seqm read_byte (\<lambda>ty. seqm read_u32_le (\<lambda>bv. seqm read_u32_le (\<lambda>n. ret (ty, of_nat bv, n))))))"

definition restore_snapshot :: "(nat \<Rightarrow> table_memory) \<Rightarrow> io_answer list \<Rightarrow> bytes \<Rightarrow> 'si SnapDb \<Rightarrow> unit outcome \<times> 'si SnapDb" where
  "restore_snapshot mems as bs s =
     (case file_open as bs of
        Ok f \<Rightarrow>
          (case read_snap_header f of
             (Ok (ty, bv, n), f1) \<Rightarrow>
               (case restore_tables mems ty n (s, f1) of
                  (Ok _, s', _) \<Rightarrow> (Ok (), s'\<lparr>sd_version := bv\<rparr>)
                | (Err e, s', _) \<Rightarrow> (Err e, s')
                | (Fault, s', _) \<Rightarrow> (Fault, s'))
           | (Err e, _) \<Rightarrow> (Err e, s)
           | (Fault, _) \<Rightarrow> (Fault, s))
      | _ \<Rightarrow> (Err FileIoError, s))"

end
