(* ===== verification/Snapshot_Inv.thy ===== *)
theory Snapshot_Inv
  imports Snapshot Wal_Inv HaSync_Inv
begin

text \<open>
  A full snapshot restores the records of every table it saved.  Reading is described by the
  bytes a program consumes (\<open>reads\<close>), which composes along the sequence of calls.
\<close>

section \<open>Writing pieces\<close>

lemma write_pieces_done:
  assumes "f_answers f = []" "f_pos f = length (f_bytes f)"
  shows "write_pieces cs f = (Ok (), f\<lparr>f_bytes := f_bytes f @ concat cs, f_pos := f_pos f + length (concat cs)\<rparr>)"
  using assms
proof (induction cs arbitrary: f)
  case (Cons c cs)
  have "write_at (length (f_bytes f)) c (f_bytes f) = f_bytes f @ c" by (simp add: write_at_def)
  then show ?case using Cons by (simp add: write_exact_def ret_def add.assoc)
qed (simp add: ret_def)

section \<open>Reading what was written\<close>

definition rest :: "FileState \<Rightarrow> bytes" where
  "rest f = drop (f_pos f) (f_bytes f)"

definition reads :: "(FileState, 'a) prog \<Rightarrow> bytes \<Rightarrow> 'a \<Rightarrow> bool" where
  "reads p bs a \<longleftrightarrow> (\<forall>f r. f_answers f = [] \<and> rest f = bs @ r \<longrightarrow>
     (\<exists>f'. p f = (Ok a, f') \<and> f_answers f' = [] \<and> rest f' = r))"

lemma readsE:
  assumes "reads p bs a" "f_answers f = []" "rest f = bs @ r"
  obtains f' where "p f = (Ok a, f')" "f_answers f' = []" "rest f' = r"
  using assms unfolding reads_def by blast

lemma file_read_rest:
  assumes "f_answers f = []" "rest f = bs @ r" "length bs = n"
  shows "\<exists>f'. file_read n f = (Ok bs, f') \<and> f_answers f' = [] \<and> rest f' = r"
proof -
  have "take n (drop (f_pos f) (f_bytes f)) = bs" "drop (f_pos f + n) (f_bytes f) = r"
    using assms(2,3) by (simp_all add: rest_def) (metis add.commute append_eq_conv_conj drop_drop)
  moreover have "length (f_bytes f) - f_pos f = length (bs @ r)"
    using arg_cong [OF assms(2), of length] by (simp add: rest_def)
  ultimately show ?thesis using assms(1,3) by (simp add: rest_def)
qed

lemma reads_exact: "length bs = n \<Longrightarrow> reads (read_exact n) bs bs"
  unfolding reads_def read_exact_def using file_read_rest by (fastforce simp: seqm_def ret_def)

lemma reads_seqm: "reads p bs a \<Longrightarrow> reads (k a) cs b \<Longrightarrow> reads (seqm p k) (bs @ cs) b"
  unfolding reads_def
proof (intro allI impI)
  fix f r
  assume p: "\<forall>f r. f_answers f = [] \<and> rest f = bs @ r \<longrightarrow> (\<exists>f'. p f = (Ok a, f') \<and> f_answers f' = [] \<and> rest f' = r)"
    and k: "\<forall>f r. f_answers f = [] \<and> rest f = cs @ r \<longrightarrow> (\<exists>f'. k a f = (Ok b, f') \<and> f_answers f' = [] \<and> rest f' = r)"
    and f: "f_answers f = [] \<and> rest f = (bs @ cs) @ r"
  from p f obtain f1 where "p f = (Ok a, f1)" "f_answers f1 = []" "rest f1 = cs @ r"
    by (auto dest: spec [of _ f] spec [of _ "cs @ r"])
  then show "\<exists>f'. seqm p k f = (Ok b, f') \<and> f_answers f' = [] \<and> rest f' = r" using k by simp
qed

lemma reads_ret: "reads (ret a) [] a"
  by (simp add: reads_def ret_def)

lemma reads_then_ret: "reads p bs a \<Longrightarrow> reads (seqm p (\<lambda>x. ret (g x))) bs (g a)"
  using reads_seqm [of p bs a "\<lambda>x. ret (g x)" "[]"] reads_ret by fastforce

lemma reads_byte: "reads read_byte [b] b"
  using reads_then_ret [OF reads_exact, of "[b]" 1 "\<lambda>bs. bs ! 0"] by (simp add: read_byte_def)

lemma reads_u32: "n < 2 ^ 32 \<Longrightarrow> reads read_u32_le (to_le 4 n) n"
  using reads_then_ret [OF reads_exact, of "to_le 4 n" 4 le_nat] by (simp add: read_u32_le_def)

lemma reads_u32_mod: "reads read_u32_le (to_le 4 n) (n mod 2 ^ 32)"
  using reads_then_ret [OF reads_exact, of "to_le 4 n" 4 le_nat] by (simp add: read_u32_le_def)

lemma unat_u8_of_nat: "n < 256 \<Longrightarrow> unat (of_nat n :: u8) = n"
  by (simp add: unat_of_nat)

text \<open>Where the value read does not matter.\<close>

definition eats :: "(FileState, 'a) prog \<Rightarrow> bytes \<Rightarrow> bool" where
  "eats p bs \<longleftrightarrow> (\<exists>a. reads p bs a)"

lemma eats_ret: "eats (ret a) []"
  unfolding eats_def by (rule exI, rule reads_ret)

lemma eats_seqm: "eats p bs \<Longrightarrow> (\<And>a. eats (k a) cs) \<Longrightarrow> eats (seqm p k) (bs @ cs)"
  unfolding eats_def by (meson reads_seqm)

lemma eats_then_ret: "eats p bs \<Longrightarrow> eats (seqm p (\<lambda>x. ret (g x))) bs"
proof -
  assume "eats p bs"
  then obtain a where "reads p bs a" by (auto simp: eats_def)
  from reads_then_ret [OF this, of g] show ?thesis by (auto simp: eats_def)
qed

lemma eats_byte_then: "eats (k b) cs \<Longrightarrow> eats (seqm read_byte k) (b # cs)"
  unfolding eats_def using reads_seqm [OF reads_byte] by fastforce

lemma eats_u32_then: "eats (k (n mod 2 ^ 32)) cs \<Longrightarrow> eats (seqm read_u32_le k) (to_le 4 n @ cs)"
  unfolding eats_def using reads_seqm [OF reads_u32_mod] by fastforce

lemma eats_name_then:
  assumes "length nm < 256" "\<And>x. eats (k x) cs"
  shows "eats (seqm read_name k) (of_nat (length nm) # str_bytes nm @ cs)"
proof -
  have "length (str_bytes nm) = unat (of_nat (length nm) :: u8)" using assms(1) by (simp add: str_bytes_def unat_u8_of_nat)
  from reads_exact [OF this] have "eats (read_exact (unat (of_nat (length nm) :: u8))) (str_bytes nm)" by (auto simp: eats_def)
  then have "eats read_name (of_nat (length nm) # str_bytes nm)" unfolding read_name_def by (intro eats_byte_then eats_then_ret)
  from eats_seqm [OF this, of k, OF assms(2)] show ?thesis by simp
qed

lemma eats_repeat: "\<forall>x\<in>set xs. eats p (g x) \<Longrightarrow> eats (repeat_read (length xs) p) (concat (map g xs))"
  by (induction xs) (auto intro!: eats_ret eats_seqm eats_then_ret)

lemma eats_bytes: "length xs = n \<Longrightarrow> eats (repeat_read n read_byte) xs"
  by (induction xs arbitrary: n) (auto intro!: eats_ret eats_byte_then eats_then_ret)

lemma eats_field:
  assumes "length (f_name fd) < 256"
  shows "eats read_field (concat (field_pieces fd))"
proof -
  have last: "eats (seqm read_byte (\<lambda>fl. seqm read_byte (\<lambda>_. ret (g fl)))) [a, b]" for g :: "u8 \<Rightarrow> FieldDef" and a b
    by (intro eats_byte_then eats_ret)
  have opt: "eats (seqm (if (1 :: u8) = 1 then seqm read_u32_le (\<lambda>n. ret (Some n)) else ret None) k) (to_le 4 n @ cs)"
    "eats (seqm (if (0 :: u8) = 1 then seqm read_u32_le (\<lambda>n. ret (Some n)) else ret None) k) ([] @ cs)"
    if "\<And>a. eats (k a) cs" for k :: "nat option \<Rightarrow> (FileState, FieldDef) prog" and cs n
    using that by (intro eats_seqm; simp add: eats_ret eats_u32_then [where cs = "[]", simplified])+
  have e: "concat (field_pieces fd) = of_nat (length (f_name fd)) # str_bytes (f_name fd) @ data_type_code (data_type fd) #
      to_le 4 (f_size fd) @ (case string_length fd of None \<Rightarrow> 0 # [] @ [field_flags fd, 0] | Some n \<Rightarrow> 1 # to_le 4 n @ [field_flags fd, 0])"
    by (simp add: field_pieces_def split: option.splits)
  show ?thesis
    unfolding read_field_def e
    by (cases "string_length fd"; simp only: option.case)
      (rule eats_name_then [OF assms] eats_byte_then eats_u32_then opt last)+
qed

lemma eats_table_def:
  assumes "length (t_name d) < 256" "\<forall>fd\<in>set (t_fields d). length (f_name fd) < 256" "length (t_fields d) < 256"
    "length (primary_key d) < 256" "length (index_columns d) < 256"
  shows "eats (read_table_def k)
    (of_nat (length (t_name d)) # str_bytes (t_name d) @ of_nat (length (t_fields d)) # of_nat (length (primary_key d))
     # of_nat (length (index_columns d)) # index_type_code (secondary_index_type d) # to_le 4 mx
     @ concat (map (\<lambda>fd. concat (field_pieces fd)) (t_fields d)) @ map of_nat (primary_key d) @ map of_nat (index_columns d))"
proof -
  have u: "unat (of_nat (length (t_fields d)) :: u8) = length (t_fields d)" "unat (of_nat (length (primary_key d)) :: u8) = length (primary_key d)"
    "unat (of_nat (length (index_columns d)) :: u8) = length (index_columns d)"
    using assms by (simp_all add: unat_u8_of_nat)
  have f: "eats (repeat_read (length (t_fields d)) read_field) (concat (map (\<lambda>fd. concat (field_pieces fd)) (t_fields d)))"
    using assms(2) by (intro eats_repeat) (simp add: eats_field)
  show ?thesis
    unfolding read_table_def_def
    by (rule eats_name_then [OF assms(1)] eats_byte_then eats_u32_then)+
      (simp only: u, intro eats_seqm [OF f] eats_seqm eats_then_ret eats_bytes; simp)
qed

section \<open>Records\<close>

text \<open>A table that a snapshot can be read into: packed records and a primary key column that exists.\<close>

definition snap_shape :: "MemoryTable \<Rightarrow> bool" where
  "snap_shape t \<longleftrightarrow> length (data t) = cap t \<and> length (status_array t) = cap t \<and> (\<forall>i<cap t. length (data t ! i) = record_size t)
     \<and> fields_size (tdef t) = record_size t \<and> def_record_size (tdef t) = record_size t
     \<and> (length (primary_key (tdef t)) = 1 \<longrightarrow> primary_key (tdef t) ! 0 < length (t_fields (tdef t)))"

lemma restore_record_done:
  assumes "snap_shape t" "i < cap t" "i < 2 ^ 32" "length rd = record_size t" "f_answers f = []" "rest f = to_le 4 i @ rd @ r"
  shows "\<exists>t' f'. restore_record t f = ((Ok (), t'), f') \<and> f_answers f' = [] \<and> rest f' = r \<and> snap_shape t' \<and> tdef t' = tdef t
    \<and> record_size t' = record_size t \<and> contents t' = (contents t)(i \<mapsto> rd)
    \<and> record_count t' = record_count t + (if i \<in> used_slots t then 0 else 1)"
proof -
  obtain f1 where 1: "read_u32_le f = (Ok i, f1)" "f_answers f1 = []" "rest f1 = rd @ r"
    using readsE [OF reads_u32 [OF assms(3)] assms(5,6)] .
  obtain f2 where 2: "file_read (record_size t) f1 = (Ok rd, f2)" "f_answers f2 = []" "rest f2 = r"
    using file_read_rest [OF 1(2,3) assms(4)] by blast
  define t2 where "t2 = set_status Used i ((if slot_status t i \<noteq> Used then t\<lparr>data := (data t)[i := rd], record_count := record_count t + 1\<rparr>
    else t\<lparr>data := (data t)[i := rd]\<rparr>))"
  have sh: "snap_shape t2" "tdef t2 = tdef t" "record_size t2 = record_size t"
    "contents t2 = (contents t)(i \<mapsto> rd)" "record_count t2 = record_count t + (if i \<in> used_slots t then 0 else 1)"
    using assms(1,2,4)
    by (auto simp: t2_def snap_shape_def set_status_def contents_def used_slots_def nth_list_update fun_eq_iff)
  obtain p where p: "snap_max_pk i t2 = Ok (t2\<lparr>max_pk := p\<rparr>)"
  proof (cases "length (primary_key (tdef t2)) = 1")
    case True
    let ?v = "pk_value (t_fields (tdef t2) ! (primary_key (tdef t2) ! 0)) (data t2 ! i)"
    show thesis
      using True sh(1) that [of "if ?v > max_pk t2 then ?v else max_pk t2"] by (auto simp: snap_max_pk_def snap_shape_def Let_def)
  next
    case False
    then show thesis using that [of "max_pk t2"] by (simp add: snap_max_pk_def)
  qed
  have "restore_record t f = ((Ok (), t2\<lparr>max_pk := p\<rparr>), f2)"
    using 1(1) 2(1) assms(1,2,4) p
    by (simp add: restore_record_def snap_shape_def t2_def Let_def)
  moreover have "snap_shape (t2\<lparr>max_pk := p\<rparr>)" "contents (t2\<lparr>max_pk := p\<rparr>) = contents t2"
    using sh(1) by (simp_all add: snap_shape_def contents_def used_slots_def fun_eq_iff)
  ultimately show ?thesis using 2 sh by auto
qed

lemma restore_records_done:
  assumes "snap_shape t" "set is \<subseteq> {..<cap t}" "cap t \<le> 2 ^ 32" "distinct is" "\<forall>i\<in>set is. i \<notin> used_slots t"
    "\<forall>i\<in>set is. length (rd i) = record_size t" "f_answers f = []" "rest f = concat (map (\<lambda>i. to_le 4 i @ rd i) is) @ r"
  shows "\<exists>t' f'. restore_records (length is) t f = ((Ok (), t'), f') \<and> f_answers f' = [] \<and> rest f' = r \<and> snap_shape t' \<and> tdef t' = tdef t
    \<and> contents t' = (\<lambda>i. if i \<in> set is then Some (rd i) else contents t i) \<and> record_count t' = record_count t + length is"
  using assms
proof (induction "is" arbitrary: t f)
  case Nil
  then show ?case by simp
next
  case (Cons i "is")
  obtain t1 f1 where 1: "restore_record t f = ((Ok (), t1), f1)" "f_answers f1 = []" "rest f1 = concat (map (\<lambda>i. to_le 4 i @ rd i) is) @ r"
    "snap_shape t1" "tdef t1 = tdef t" "record_size t1 = record_size t" "contents t1 = (contents t)(i \<mapsto> rd i)" "record_count t1 = record_count t + 1"
    using restore_record_done [of t i "rd i" f "concat (map (\<lambda>i. to_le 4 i @ rd i) is) @ r"] Cons.prems by auto
  have "used_slots t1 = insert i (used_slots t)"
    using arg_cong [OF 1(7), of dom] by simp
  moreover have "\<forall>j\<in>set is. j \<noteq> i" using Cons.prems(4) by auto
  ultimately show ?case
    using Cons.IH [of t1 f1] Cons.prems 1 by (auto simp: fun_eq_iff)
qed

lemma reset_table_props:
  assumes "snap_shape t"
  shows "snap_shape (reset_table t)" "tdef (reset_table t) = tdef t" "record_size (reset_table t) = record_size t"
    "contents (reset_table t) = Map.empty" "record_count (reset_table t) = 0"
  using assms by (auto simp: reset_table_def snap_shape_def contents_def used_slots_def)

section \<open>Tables\<close>

text \<open>A table that a snapshot can hold.\<close>

definition snap_ok :: "MemoryTable \<Rightarrow> bool" where
  "snap_ok t \<longleftrightarrow> wf_table t \<and> snap_shape t \<and> cap t \<le> 2 ^ 32 \<and> record_count t < 2 ^ 32 \<and> length (t_name (tdef t)) < 256
     \<and> (\<forall>fd\<in>set (t_fields (tdef t)). length (f_name fd) < 256) \<and> length (t_fields (tdef t)) < 256
     \<and> length (primary_key (tdef t)) < 256 \<and> length (index_columns (tdef t)) < 256"

lemma used_list_props: "set (used_list t) = used_slots t" "distinct (used_list t)" "wf_table t \<Longrightarrow> length (used_list t) = record_count t"
proof -
  show s: "set (used_list t) = used_slots t" "distinct (used_list t)" by (auto simp: used_list_def used_slots_def)
  then show "wf_table t \<Longrightarrow> length (used_list t) = record_count t"
    by (simp add: wf_table_def distinct_card flip: distinct_card)
qed

lemma snap_version_frame [simp]:
  "contents (t\<lparr>t_snapshot_version := v\<rparr>) = contents t" "used_list (t\<lparr>t_snapshot_version := v\<rparr>) = used_list t"
  "used_slots (t\<lparr>t_snapshot_version := v\<rparr>) = used_slots t" "snap_ok (t\<lparr>t_snapshot_version := v\<rparr>) = snap_ok t"
  "table_pieces k (t\<lparr>t_snapshot_version := v\<rparr>) = table_pieces k t" "reads_past (t\<lparr>t_snapshot_version := v\<rparr>) = reads_past t"
proof -
  show a: "used_list (t\<lparr>t_snapshot_version := v\<rparr>) = used_list t" "used_slots (t\<lparr>t_snapshot_version := v\<rparr>) = used_slots t"
    by (simp_all add: used_list_def used_slots_def)
  then show "contents (t\<lparr>t_snapshot_version := v\<rparr>) = contents t" "table_pieces k (t\<lparr>t_snapshot_version := v\<rparr>) = table_pieces k t"
    "reads_past (t\<lparr>t_snapshot_version := v\<rparr>) = reads_past t" "snap_ok (t\<lparr>t_snapshot_version := v\<rparr>) = snap_ok t"
    by (simp_all add: contents_def table_pieces_def record_pieces_def [abs_def] reads_past_def fun_eq_iff snap_ok_def wf_table_def
        free_stack_def snap_shape_def)
qed

definition def_bytes :: "MemoryTable \<Rightarrow> bytes" where
  "def_bytes t = (let d = tdef t in
     of_nat (length (t_name d)) # str_bytes (t_name d) @ of_nat (length (t_fields d)) # of_nat (length (primary_key d))
     # of_nat (length (index_columns d)) # index_type_code (secondary_index_type d) # to_le 4 (cap t)
     @ concat (map (\<lambda>fd. concat (field_pieces fd)) (t_fields d)) @ map of_nat (primary_key d) @ map of_nat (index_columns d))"

lemma concat_singletons: "concat (map (\<lambda>c. [g c]) cs) = map g cs"
  by (induction cs) auto

lemma concat_pieces: "concat (concat (map g xs)) = concat (map (\<lambda>x. concat (g x)) xs)"
  by (induction xs) auto

lemma table_pieces_bytes:
  assumes "snap_ok t"
  shows "concat (table_pieces k t) = to_le 4 k @ def_bytes t @ to_le 4 (record_count t)
    @ concat (map (\<lambda>i. to_le 4 i @ data t ! i) (used_list t))"
proof -
  have "take (fields_size (tdef t)) (data t ! i) = data t ! i" if "i \<in> set (used_list t)" for i
  proof -
    have "i < cap t" using that used_list_props(1) [of t] used_slots_subset [of t] by auto
    then show ?thesis using assms by (simp add: snap_ok_def snap_shape_def)
  qed
  then have "map (\<lambda>i. concat (record_pieces t i)) (used_list t) = map (\<lambda>i. to_le 4 i @ data t ! i) (used_list t)"
    by (simp add: record_pieces_def)
  from arg_cong [OF this, of concat] show ?thesis
    by (simp add: table_pieces_def def_bytes_def Let_def concat_singletons concat_pieces)
qed

text \<open>A table of the target database fits a saved one: it can hold its slots.\<close>

definition snap_fits :: "MemoryTable \<Rightarrow> MemoryTable \<Rightarrow> bool" where
  "snap_fits t t2 \<longleftrightarrow> snap_shape t2 \<and> cap t2 = cap t \<and> record_size t2 = record_size t"

lemma restore_table_done:
  assumes "snap_ok t" "k < 2 ^ 32" "k < length (tables (sd_db s))" "tables (sd_db s) ! k = Some t2" "snap_fits t t2"
    "f_answers f = []" "rest f = concat (table_pieces k t) @ r"
  shows "\<exists>t3 f'. restore_table mems 0 (s, f) = (Ok (), put_snap_table k t3 s, f') \<and> f_answers f' = [] \<and> rest f' = r
    \<and> contents t3 = contents t \<and> record_count t3 = record_count t"
proof -
  obtain f1 where 1: "read_u32_le f = (Ok k, f1)" "f_answers f1 = []"
    "rest f1 = def_bytes t @ to_le 4 (record_count t) @ concat (map (\<lambda>i. to_le 4 i @ data t ! i) (used_list t)) @ r"
    using readsE [OF reads_u32 [OF assms(2)] assms(6)] assms(7) table_pieces_bytes [OF assms(1)] by auto
  have "eats (read_table_def k) (def_bytes t)"
    using assms(1) unfolding def_bytes_def Let_def by (intro eats_table_def) (auto simp: snap_ok_def)
  then obtain d where d: "reads (read_table_def k) (def_bytes t) d" by (auto simp: eats_def)
  obtain f2 where 2: "read_table_def k f1 = (Ok d, f2)" "f_answers f2 = []"
    "rest f2 = to_le 4 (record_count t) @ concat (map (\<lambda>i. to_le 4 i @ data t ! i) (used_list t)) @ r"
    using readsE [OF d 1(2,3)] .
  have n: "record_count t < 2 ^ 32" "length (used_list t) = record_count t"
    using assms(1) used_list_props(3) by (simp_all add: snap_ok_def)
  obtain f3 where 3: "read_u32_le f2 = (Ok (record_count t), f3)" "f_answers f3 = []"
    "rest f3 = concat (map (\<lambda>i. to_le 4 i @ data t ! i) (used_list t)) @ r"
    using readsE [OF reads_u32 [OF n(1)] 2(2,3)] .
  note sh = assms(5) [unfolded snap_fits_def]
  note rs = reset_table_props [OF sh [THEN conjunct1]]
  have "used_slots (reset_table t2) = {}" using arg_cong [OF rs(4), of dom] by simp
  moreover have "\<forall>i\<in>set (used_list t). length (data t ! i) = record_size (reset_table t2)"
    using assms(1) sh used_list_props(1) [of t] used_slots_subset [of t] rs(3) by (auto simp: snap_ok_def snap_shape_def)
  ultimately obtain t3 f4 where 4: "restore_records (length (used_list t)) (reset_table t2) f3 = ((Ok (), t3), f4)" "f_answers f4 = []" "rest f4 = r"
    "contents t3 = (\<lambda>i. if i \<in> set (used_list t) then Some (data t ! i) else contents (reset_table t2) i)"
    "record_count t3 = record_count (reset_table t2) + length (used_list t)"
    using restore_records_done [of "reset_table t2" "used_list t" "\<lambda>i. data t ! i" f3 r] rs sh 3(2,3) assms(1)
      used_list_props(1,2) [of t] used_slots_subset [of t]
    by (auto simp: snap_ok_def)
  have "restore_table mems 0 (s, f) = (Ok (), put_snap_table k t3 s, f4)"
    using 1(1) 2(1) 3(1) 4(1) n(2) assms(3,4) sh
    by (simp add: restore_table_def make_room_def table_for_def snap_shape_def Let_def)
  moreover have "contents t3 = contents t" "record_count t3 = record_count t"
    using 4(4,5) rs(4,5) n(2) used_list_props(1) by (auto simp: contents_def fun_eq_iff)
  ultimately show ?thesis using 4(2,3) by blast
qed

lemma put_snap_table_simps [simp]:
  "tables (sd_db (put_snap_table k t s)) = (tables (sd_db s))[k := Some t]" "sd_version (put_snap_table k t s) = sd_version s"
  by (simp_all add: put_snap_table_def put_table_def)

lemma save_tables_done:
  assumes "f_answers f = []" "f_pos f = length (f_bytes f)" "\<forall>t. Some t \<in> set ts \<longrightarrow> snap_ok t"
  shows "save_tables v k ts f = (Ok (), map (map_option (\<lambda>t. t\<lparr>t_snapshot_version := v\<rparr>)) ts,
     f\<lparr>f_bytes := f_bytes f @ concat (map (\<lambda>(i, x). case x of None \<Rightarrow> [] | Some t \<Rightarrow> concat (table_pieces i t)) (enumerate k ts)),
       f_pos := f_pos f + length (concat (map (\<lambda>(i, x). case x of None \<Rightarrow> [] | Some t \<Rightarrow> concat (table_pieces i t)) (enumerate k ts)))\<rparr>)"
  using assms
proof (induction ts arbitrary: k f)
  case (Cons x ts)
  show ?case
  proof (cases x)
    case None
    then show ?thesis using Cons by (simp)
  next
    case (Some t)
    have "\<not> reads_past t" using Cons.prems(3) Some by (auto simp: reads_past_def snap_ok_def snap_shape_def)
    then show ?thesis
      using Cons Some write_pieces_done [OF Cons.prems(1,2), of "table_pieces k t"] by (simp add: Let_def add.assoc)
  qed
qed simp

definition tables_bytes :: "nat \<Rightarrow> MemoryTable option list \<Rightarrow> bytes" where
  "tables_bytes k ts = concat (map (\<lambda>(i, x). case x of None \<Rightarrow> [] | Some t \<Rightarrow> concat (table_pieces i t)) (enumerate k ts))"

lemma restore_tables_done:
  assumes "\<forall>t. Some t \<in> set ts \<longrightarrow> snap_ok t" "k + length ts \<le> 2 ^ 32"
    "\<forall>j<length ts. \<forall>t. ts ! j = Some t \<longrightarrow>
       k + j < length (tables (sd_db s)) \<and> (\<exists>t2. tables (sd_db s) ! (k + j) = Some t2 \<and> snap_fits t t2)"
    "f_answers f = []" "rest f = tables_bytes k ts @ r"
  shows "\<exists>s' f'. restore_tables mems 0 (table_total ts) (s, f) = (Ok (), s', f') \<and> sd_version s' = sd_version s
    \<and> (\<forall>i. i < k \<or> k + length ts \<le> i \<longrightarrow> i < length (tables (sd_db s)) \<longrightarrow> tables (sd_db s') ! i = tables (sd_db s) ! i)
    \<and> length (tables (sd_db s')) = length (tables (sd_db s))
    \<and> (\<forall>j<length ts. \<forall>t. ts ! j = Some t \<longrightarrow>
         (\<exists>t3. tables (sd_db s') ! (k + j) = Some t3 \<and> contents t3 = contents t \<and> record_count t3 = record_count t))"
  using assms
proof (induction ts arbitrary: k s f)
  case Nil
  then show ?case by (simp add: table_total_def ret_def)
next
  case (Cons x ts)
  have fit: "\<forall>j<length ts. \<forall>t. ts ! j = Some t \<longrightarrow>
       Suc k + j < length (tables (sd_db s)) \<and> (\<exists>t2. tables (sd_db s) ! (Suc k + j) = Some t2 \<and> snap_fits t t2)"
    using Cons.prems(3) by (metis Suc_less_eq add_Suc_shift length_Cons nth_Cons_Suc)
  have ok: "\<forall>t. Some t \<in> set ts \<longrightarrow> snap_ok t" "Suc k + length ts \<le> 2 ^ 32" using Cons.prems(1,2) by auto
  show ?case
  proof (cases x)
    case None
    then have "rest f = tables_bytes (Suc k) ts @ r" using Cons.prems(5) by (simp add: tables_bytes_def)
    from Cons.IH [OF ok fit Cons.prems(4) this] obtain s' f' where
      2: "restore_tables mems 0 (table_total ts) (s, f) = (Ok (), s', f')" "sd_version s' = sd_version s"
      "length (tables (sd_db s')) = length (tables (sd_db s))"
      "\<forall>i. i < Suc k \<or> Suc k + length ts \<le> i \<longrightarrow> i < length (tables (sd_db s)) \<longrightarrow> tables (sd_db s') ! i = tables (sd_db s) ! i"
      "\<forall>j<length ts. \<forall>t. ts ! j = Some t \<longrightarrow>
         (\<exists>t3. tables (sd_db s') ! (Suc k + j) = Some t3 \<and> contents t3 = contents t \<and> record_count t3 = record_count t)"
      by auto
    have "\<exists>t3. tables (sd_db s') ! (k + j) = Some t3 \<and> contents t3 = contents u \<and> record_count t3 = record_count u"
      if "j < length (x # ts)" "(x # ts) ! j = Some u" for j u
      using that 2(5) None by (cases j) auto
    moreover have "table_total (x # ts) = table_total ts" using None by (simp add: table_total_def)
    ultimately show ?thesis using 2(1-4) by auto
  next
    case (Some t)
    obtain t2 where t2: "k < length (tables (sd_db s))" "tables (sd_db s) ! k = Some t2" "snap_fits t t2"
      using Cons.prems(3) Some by fastforce
    have "rest f = concat (table_pieces k t) @ tables_bytes (Suc k) ts @ r"
      using Cons.prems(5) Some by (simp add: tables_bytes_def)
    then obtain t3 f1 where 1: "restore_table mems 0 (s, f) = (Ok (), put_snap_table k t3 s, f1)" "f_answers f1 = []"
      "rest f1 = tables_bytes (Suc k) ts @ r" "contents t3 = contents t" "record_count t3 = record_count t"
      using restore_table_done [of t k s t2 f "tables_bytes (Suc k) ts @ r" mems] Cons.prems(1,2,4) Some t2 by auto
    have "\<forall>j<length ts. \<forall>t. ts ! j = Some t \<longrightarrow> Suc k + j < length (tables (sd_db (put_snap_table k t3 s)))
        \<and> (\<exists>t2. tables (sd_db (put_snap_table k t3 s)) ! (Suc k + j) = Some t2 \<and> snap_fits t t2)"
      using fit by simp
    from Cons.IH [OF ok this 1(2,3)] obtain s' f' where 2: "restore_tables mems 0 (table_total ts) (put_snap_table k t3 s, f1) = (Ok (), s', f')"
      "sd_version s' = sd_version s" "length (tables (sd_db s')) = length (tables (sd_db s))"
      "\<forall>i. i < Suc k \<or> Suc k + length ts \<le> i \<longrightarrow> i < length (tables (sd_db s)) \<longrightarrow> tables (sd_db s') ! i = (tables (sd_db s))[k := Some t3] ! i"
      "\<forall>j<length ts. \<forall>t. ts ! j = Some t \<longrightarrow>
         (\<exists>t3. tables (sd_db s') ! (Suc k + j) = Some t3 \<and> contents t3 = contents t \<and> record_count t3 = record_count t)"
      by auto
    have "tables (sd_db s') ! k = Some t3" using 2(4) t2(1) by simp
    then have "\<exists>t3. tables (sd_db s') ! (k + j) = Some t3 \<and> contents t3 = contents u \<and> record_count t3 = record_count u"
      if "j < length (x # ts)" "(x # ts) ! j = Some u" for j u
      using that 2(5) 1(4,5) Some by (cases j) auto
    moreover have "restore_tables mems 0 (table_total (x # ts)) (s, f) = (Ok (), s', f')"
      using 1(1) 2(1) Some by (simp add: table_total_def)
    ultimately show ?thesis using 2(2-4) by auto
  qed
qed

lemma reads_u32_then: "n < 2 ^ 32 \<Longrightarrow> reads (k n) cs b \<Longrightarrow> reads (seqm read_u32_le k) (to_le 4 n @ cs) b"
  by (rule reads_seqm [OF reads_u32])

lemma reads_byte_then: "reads (k x) cs b \<Longrightarrow> reads (seqm read_byte k) (x # cs) b"
  using reads_seqm [OF reads_byte, of k x cs b] by simp

lemma reads_header:
  assumes "n < 2 ^ 32"
  shows "reads read_snap_header (concat (header_pieces ty v n)) (ty, v, n)"
proof -
  have w: "unat w < 2 ^ 32" for w :: u32 using unsigned_less [of w] by simp
  have e: "concat (header_pieces ty v n) = to_le 4 (unat SNAPSHOT_MAGIC) @ to_le 4 (unat SNAPSHOT_VERSION) @ ty # to_le 4 (unat v) @ to_le 4 n @ []"
    by (simp add: header_pieces_def)
  have "reads (ret (ty, of_nat (unat v), n)) [] (ty, v, n)" using reads_ret [of "(ty, v, n)"] by simp
  then have "reads (seqm read_byte (\<lambda>ty. seqm read_u32_le (\<lambda>bv. seqm read_u32_le (\<lambda>n. ret (ty, of_nat bv :: u32, n)))))
      (ty # to_le 4 (unat v) @ to_le 4 n @ []) (ty, v, n)"
    by (intro reads_byte_then reads_u32_then w assms)
  then show ?thesis
    unfolding read_snap_header_def e
    by (intro reads_u32_then w, simp only: simp_thms if_False, intro reads_u32_then w) simp
qed


lemma read_byte_end:
  assumes "f_answers f = []" "rest f = []"
  shows "\<exists>f'. read_byte f = (Err FileIoError, f')"
  using assms by (simp add: read_byte_def read_exact_def rest_def raise_def)

text \<open>
  An incremental snapshot cannot be restored.  It holds no table definitions, but restoring looks for them behind every
  table number: the snapshot of a table without changes is saved with success and refused as too short.
\<close>

theorem incremental_snapshot_refused:
  assumes "tables (sd_db s) = [Some t]" "changed_list t = []"
  shows "\<exists>bs s1 s3. save_incremental_snapshot [] s = (Ok (), bs, s1) \<and> restore_snapshot mems [] bs s2 = (Err FileIoError, s3)"
proof -
  define bs where "bs = concat (header_pieces 1 (sd_version s) 1) @ to_le 4 0 @ to_le 4 0"
  have save: "\<exists>s1. save_incremental_snapshot [] s = (Ok (), bs, s1)"
    using assms by (simp add: save_incremental_snapshot_def write_pieces_done change_pieces_def bs_def del: write_pieces.simps)
  have z: "to_le 4 0 = [0, 0, 0, 0]" by code_simp
  obtain f1 where h: "read_snap_header \<lparr>f_bytes = bs, f_pos = 0, f_answers = []\<rparr> = (Ok (1, sd_version s, 1), f1)"
    "f_answers f1 = []" "rest f1 = to_le 4 0 @ to_le 4 0"
    by (rule readsE [OF reads_header [of 1], of "\<lparr>f_bytes = bs, f_pos = 0, f_answers = []\<rparr>" 1 "sd_version s" "to_le 4 0 @ to_le 4 0"])
      (simp_all add: rest_def bs_def)
  obtain f2 where k: "read_u32_le f1 = (Ok 0, f2)" "f_answers f2 = []" "rest f2 = [0, 0, 0, 0]"
    using readsE [OF reads_u32 [of 0] h(2,3)] z by auto
  have "eats (read_exact (unat (0 :: u8))) []" using reads_exact [of "[]" 0] by (auto simp: eats_def)
  then have "eats read_name [0]" unfolding read_name_def by (intro eats_byte_then eats_then_ret)
  then obtain x where nm: "reads read_name [0] x" by (auto simp: eats_def)
  obtain f3 where n: "read_name f2 = (Ok x, f3)" "f_answers f3 = []" "rest f3 = [0, 0, 0]"
    using readsE [OF nm k(2), of "[0, 0, 0]"] k(3) by auto
  obtain f4 where b1: "read_byte f3 = (Ok 0, f4)" "f_answers f4 = []" "rest f4 = [0, 0]"
    using readsE [OF reads_byte n(2), of 0 "[0, 0]"] n(3) by auto
  obtain f5 where b2: "read_byte f4 = (Ok 0, f5)" "f_answers f5 = []" "rest f5 = [0]"
    using readsE [OF reads_byte b1(2), of 0 "[0]"] b1(3) by auto
  obtain f6 where b3: "read_byte f5 = (Ok 0, f6)" "f_answers f6 = []" "rest f6 = []"
    using readsE [OF reads_byte b2(2), of 0 "[]"] b2(3) by auto
  obtain f7 where "read_byte f6 = (Err FileIoError, f7)" using read_byte_end [OF b3(2,3)] by blast
  then have "read_table_def 0 f2 = (Err FileIoError, f7)"
    using n(1) b1(1) b2(1) b3(1) by (simp add: read_table_def_def)
  then have "restore_snapshot mems [] bs s2 = (Err FileIoError, make_room 0 s2)"
    using h(1) k(1) by (simp add: restore_snapshot_def restore_table_def Let_def)
  then show ?thesis using save by blast
qed

section \<open>Instances\<close>

lemma demo_snap_ok: "snap_ok demo_master" "snap_fits demo_master demo_table"
proof -
  have "snap_shape demo_table" "snap_shape demo_master"
    by (auto simp: snap_shape_def demo_master_def demo_table_def demo_def_def demo_fields_def fields_size_def FieldDef_default_def
        demo_record_def less_3)
  then show "snap_ok demo_master" "snap_fits demo_master demo_table"
    using demo_master_wf
    by (simp_all add: snap_ok_def snap_fits_def demo_master_def demo_table_def demo_def_def demo_fields_def FieldDef_default_def
        index_columns_def)
qed


theorem incremental_snapshot_refused_witness:
  "\<exists>bs s1 s3. save_incremental_snapshot [] \<lparr>sd_db = demo_db, sd_secondary = ([] :: unit option list), sd_version = 3\<rparr> = (Ok (), bs, s1)
    \<and> restore_snapshot (\<lambda>_. (None, None, None)) [] bs \<lparr>sd_db = demo_db, sd_secondary = ([] :: unit option list), sd_version = 0\<rparr>
      = (Err FileIoError, s3)"
proof -
  have "changed_list demo_table = []" by code_simp
  then show ?thesis
    using incremental_snapshot_refused [of "\<lparr>sd_db = demo_db, sd_secondary = ([] :: unit option list), sd_version = 3\<rparr>" demo_table]
    by (simp add: demo_db_def)
qed

end
